(* ===== verification/Prelude.thy ===== *)
theory Prelude
  imports Main "HOL-Library.Word" "HOL-Library.Monad_Syntax"
begin

unbundle bit_operations_syntax

text \<open>
  What the components share: the byte and string types, the big-endian accessors, counted loops
  over a result that may be undefined, and the generic lemmas on them.

  Conventions of the development. A \<open>QByteArray\<close> is a list of bytes, a \<open>QString\<close> a
  \<open>string\<close>, a \<open>QList\<close>/\<open>QVector\<close> a list; signals, socket writes and other effects
  are appended to a log kept in the state. Where the C++ may have undefined behaviour (a read or a
  write out of range, signed overflow, an uninitialised variable) or may not return, the model's
  function has an \<open>option\<close> result and \<open>None\<close> is that outcome: a theorem that the
  result is \<open>Some\<close> is the safety statement.
\<close>

type_synonym byte = "8 word"
type_synonym bytes = "8 word list"

named_theorems run_simps \<open>one-step equations of the event handlers\<close>
named_theorems inv_intros \<open>preservation facts of the component invariants\<close>

subsection \<open>Words and bytes\<close>

definition be16 :: "byte \<Rightarrow> byte \<Rightarrow> 16 word" where
  "be16 hi lo = push_bit 8 (ucast hi) OR ucast lo"

definition be32 :: "16 word \<Rightarrow> 16 word \<Rightarrow> 32 word" where
  "be32 hi lo = push_bit 16 (ucast hi) OR ucast lo"

lemma bit_255 [simp]: "bit (255 :: 'a :: len word) n \<longleftrightarrow> n < LENGTH('a) \<and> n < 8"
proof -
  have "(255 :: 'a word) = mask 8" by (simp add: mask_eq_exp_minus_1)
  then show ?thesis by (metis bit_mask_iff possible_bit_word)
qed

lemma bit_alpha: "bit (0xff000000 :: 32 word) n \<longleftrightarrow> 24 \<le> n \<and> n < 32"
proof -
  have "(0xff000000 :: 32 word) = push_bit 24 255" by simp
  then show ?thesis by (simp only: bit_push_bit_iff bit_255) auto
qed

lemma unat_byte_less [simp]: "unat (b :: byte) < 256"
  using unsigned_less [of b] by simp

lemma unat_byte_le [simp]: "unat (b :: byte) \<le> 255"
  using unat_byte_less [of b] by linarith

lemma unat_byte_255 [simp]: "unat (255 :: byte) = 255"
  by simp

lemma unat_half_less [simp]: "unat (w :: 16 word) < 65536"
  using unsigned_less [of w] by simp

lemma unat_ucast_8_16 [simp]: "unat (ucast (b :: byte) :: 16 word) = unat b"
proof -
  have "unat b < 65536" using unat_byte_less [of b] by linarith
  then show ?thesis by (simp add: unsigned_ucast_eq take_bit_eq_mod)
qed

lemma unat_ucast_16_32 [simp]: "unat (ucast (w :: 16 word) :: 32 word) = unat w"
proof -
  have "unat w < 4294967296" using unat_half_less [of w] by linarith
  then show ?thesis by (simp add: unsigned_ucast_eq take_bit_eq_mod)
qed

lemma unat_be16: "unat (be16 hi lo) = 256 * unat hi + unat lo"
proof -
  have disj: "push_bit 8 (ucast hi :: 16 word) AND ucast lo = 0"
    by (rule bit_word_eqI) (auto simp: bit_simps dest: bit_imp_le_length)
  have hi: "unat (push_bit 8 (ucast hi :: 16 word)) = 256 * unat hi"
  proof -
    have "unat hi * 256 < 65536" using unat_byte_less [of hi] by linarith
    then show ?thesis by (simp add: push_bit_eq_mult unat_word_ariths)
  qed
  have lo: "unat (ucast lo :: 16 word) = unat lo" by simp
  have sum: "be16 hi lo = push_bit 8 (ucast hi) + ucast lo"
    unfolding be16_def using disj by (simp add: disjunctive_add_eq_or)
  have "256 * unat hi + unat lo < 65536"
    using unat_byte_less [of hi] unat_byte_less [of lo] by linarith
  then show ?thesis
    unfolding sum by (simp add: unat_word_ariths hi lo)
qed

lemma unat_be32: "unat (be32 hi lo) = 65536 * unat hi + unat lo"
proof -
  have disj: "push_bit 16 (ucast hi :: 32 word) AND ucast lo = 0"
    by (rule bit_word_eqI) (auto simp: bit_simps dest: bit_imp_le_length)
  have hi: "unat (push_bit 16 (ucast hi :: 32 word)) = 65536 * unat hi"
  proof -
    have "unat hi * 65536 < 4294967296" using unat_half_less [of hi] by linarith
    then show ?thesis by (simp add: push_bit_eq_mult unat_word_ariths)
  qed
  have lo: "unat (ucast lo :: 32 word) = unat lo" by simp
  have sum: "be32 hi lo = push_bit 16 (ucast hi) + ucast lo"
    unfolding be32_def using disj by (simp add: disjunctive_add_eq_or)
  have "65536 * unat hi + unat lo < 4294967296"
    using unat_half_less [of hi] unat_half_less [of lo] by linarith
  then show ?thesis
    unfolding sum by (simp add: unat_word_ariths hi lo)
qed

lemma be16_bytes:
  "be16 (ucast (drop_bit 8 (v :: 16 word))) (ucast (v AND 255)) = v"
proof -
  have m: "(255 :: 16 word) = mask 8" by (simp add: mask_eq_exp_minus_1)
  show ?thesis by (rule bit_word_eqI) (auto simp: be16_def bit_simps m)
qed

lemma be32_halves:
  "be32 (ucast (drop_bit 16 (v :: 32 word))) (ucast (v AND 65535)) = v"
proof -
  have m: "(65535 :: 32 word) = mask 16" by (simp add: mask_eq_exp_minus_1)
  show ?thesis by (rule bit_word_eqI) (auto simp: be32_def bit_simps m)
qed

lemma be_values [simp]: "be16 255 255 = 65535" "be16 0 0 = 0" "be32 0 0 = 0"
  by (simp_all add: be16_def be32_def)

lemma unat_65535: "unat (65535 :: 16 word) = 65535"
  by simp

subsection \<open>Bounds and reads\<close>

text \<open>\<open>qBound(lo, x, hi)\<close> of QtCore.\<close>

definition qBound :: "'a :: linorder \<Rightarrow> 'a \<Rightarrow> 'a \<Rightarrow> 'a" where
  "qBound lo x hi = max lo (min x hi)"

lemma qBound_range: "lo \<le> hi \<Longrightarrow> lo \<le> qBound lo x hi \<and> qBound lo x hi \<le> hi"
  by (auto simp: qBound_def)

lemma qBound_id: "lo \<le> x \<Longrightarrow> x \<le> hi \<Longrightarrow> qBound lo x hi = x"
  by (auto simp: qBound_def)

lemma qBound_idem: "lo \<le> hi \<Longrightarrow> qBound lo (qBound lo x hi) hi = qBound lo x hi"
  by (simp add: qBound_id qBound_range)

text \<open>A checked read: \<open>None\<close> is a read outside the array.\<close>

definition rd :: "'a list \<Rightarrow> nat \<Rightarrow> 'a option" where
  "rd xs i = (if i < length xs then Some (xs ! i) else None)"

lemma rd_Some [simp]: "i < length xs \<Longrightarrow> rd xs i = Some (xs ! i)"
  by (simp add: rd_def)

lemma rd_None_iff [simp]: "rd xs i = None \<longleftrightarrow> length xs \<le> i"
  by (auto simp: rd_def)

lemma rd_append: "rd xs i = Some v \<Longrightarrow> rd (xs @ ys) i = Some v"
  by (auto simp: rd_def nth_append split: if_splits)

text \<open>A checked write: \<open>None\<close> is a write outside the array.\<close>

definition wr :: "'a list \<Rightarrow> nat \<Rightarrow> 'a \<Rightarrow> 'a list option" where
  "wr xs i v = (if i < length xs then Some (xs[i := v]) else None)"

lemma wr_Some [simp]: "i < length xs \<Longrightarrow> wr xs i v = Some (xs[i := v])"
  by (simp add: wr_def)

subsection \<open>Counted loops\<close>

text \<open>\<open>for (i = 0; i < n; ++i) body\<close>, stopping with \<open>None\<close> when the body is undefined.\<close>

fun for_from :: "nat \<Rightarrow> nat \<Rightarrow> (nat \<Rightarrow> 'a \<Rightarrow> 'a option) \<Rightarrow> 'a \<Rightarrow> 'a option" where
  "for_from i 0 f a = Some a"
| "for_from i (Suc k) f a = Option.bind (f i a) (for_from (Suc i) k f)"

definition for_n :: "nat \<Rightarrow> (nat \<Rightarrow> 'a \<Rightarrow> 'a option) \<Rightarrow> 'a \<Rightarrow> 'a option" where
  "for_n n f a = for_from 0 n f a"

lemma for_from_total:
  assumes "P i a"
    and "\<And>j b. i \<le> j \<Longrightarrow> j < i + k \<Longrightarrow> P j b \<Longrightarrow> \<exists>c. f j b = Some c \<and> P (Suc j) c"
  shows "\<exists>c. for_from i k f a = Some c \<and> P (i + k) c"
  using assms
proof (induction k arbitrary: i a)
  case 0
  then show ?case by simp
next
  case (Suc k)
  from Suc.prems(2) [of i a] Suc.prems(1) obtain b where b: "f i a = Some b" "P (Suc i) b"
    by auto
  have "\<exists>c. for_from (Suc i) k f b = Some c \<and> P (Suc i + k) c"
    by (rule Suc.IH [OF b(2)]) (use Suc.prems(2) in auto)
  with b show ?case by auto
qed

lemma for_n_total:
  assumes "P 0 a" and "\<And>j b. j < n \<Longrightarrow> P j b \<Longrightarrow> \<exists>c. f j b = Some c \<and> P (Suc j) c"
  shows "\<exists>c. for_n n f a = Some c \<and> P n c"
  using for_from_total [of P 0 a n f] assms by (auto simp: for_n_def)

lemma for_n_const_total:
  assumes "P a" and "\<And>j b. j < n \<Longrightarrow> P b \<Longrightarrow> \<exists>c. f j b = Some c \<and> P c"
  shows "\<exists>c. for_n n f a = Some c \<and> P c"
  using for_n_total [of "\<lambda>_. P"] assms by blast

lemma for_from_inv:
  assumes "for_from i k f a = Some c" and "P a"
    and "\<And>j b d. i \<le> j \<Longrightarrow> j < i + k \<Longrightarrow> P b \<Longrightarrow> f j b = Some d \<Longrightarrow> P d"
  shows "P c"
  using assms
proof (induction k arbitrary: i a)
  case 0
  then show ?case by simp
next
  case (Suc k)
  from Suc.prems(1) obtain b where b: "f i a = Some b" "for_from (Suc i) k f b = Some c"
    by (auto simp: bind_eq_Some_conv)
  have "P b" using Suc.prems(3) [of i a b] Suc.prems(2) b(1) by simp
  then show ?case
    by (rule Suc.IH [OF b(2)]) (rule Suc.prems(3), auto)
qed

lemma for_n_inv:
  assumes "for_n n f a = Some c" and "P a"
    and "\<And>j b d. j < n \<Longrightarrow> P b \<Longrightarrow> f j b = Some d \<Longrightarrow> P d"
  shows "P c"
  using for_from_inv [of 0 n f a c P] assms by (auto simp: for_n_def)

lemma for_n_0 [simp]: "for_n 0 f a = Some a"
  by (simp add: for_n_def)

subsection \<open>Lists\<close>

lemma concat_snoc [simp]: "concat (xs @ [x]) = concat xs @ x"
  by simp

lemma fold_append_one: "fold f (xs @ [x]) s = f x (fold f xs s)"
  by simp

text \<open>Byte \<open>k\<close> of row \<open>y\<close> of a block of \<open>h\<close> rows of \<open>n\<close> bytes.\<close>

lemma row_index: "y < h \<Longrightarrow> k < n \<Longrightarrow> y * n + k < n * (h :: nat)"
proof -
  assume "y < h" "k < n"
  then have "y * n + k < (y + 1) * n" by simp
  also have "\<dots> \<le> h * n" using \<open>y < h\<close> by (intro mult_le_mono1) simp
  finally show ?thesis by (simp add: mult.commute)
qed

lemma tile_start: "(j :: nat) < (n + 63) div 64 \<Longrightarrow> 64 * j < n"
proof -
  assume "j < (n + 63) div 64"
  then have "j + 1 \<le> (n + 63) div 64" by linarith
  then have "(j + 1) * 64 \<le> (n + 63) div 64 * 64" by (rule mult_le_mono1)
  also have "\<dots> \<le> n + 63" by (rule div_times_less_eq_dividend)
  finally show ?thesis by (simp add: algebra_simps)
qed

end
