(* ===== verification/Transport.thy ===== *)
theory Transport
  imports Prelude
begin

text \<open>
  The common interface of the byte-stream transports (\<open>src/src/core/Transport.h\<close>) and the
  transports that put no protocol on top of the stream: loopback, raw TCP and the serial port.

  The C++ class hierarchy is a hierarchy of records: \<open>transport\<close> holds what the base class
  holds (the state and, as a log, the signals it has emitted) and each transport extends it. The
  locale \<open>transport_contract\<close> is what every client of a transport relies on: the
  \<open>stateChanged\<close> signals alone tell an observer the state. It is interpreted on every
  transport of the model; \<open>passthrough_contract\<close> extends it for those that hand bytes over
  unmodified.
\<close>

datatype transport_state = Disconnected | Connecting | Connected | Error

datatype transport_signal =
    ReadyRead bytes
  | StateChanged transport_state
  | ErrorOccurred string

record transport =
  m_state :: transport_state
  emitted :: "transport_signal list"

definition emit :: "transport_signal \<Rightarrow> 'a transport_scheme \<Rightarrow> 'a transport_scheme" where
  "emit sig s = s\<lparr>emitted := emitted s @ [sig]\<rparr>"

definition setState :: "transport_state \<Rightarrow> 'a transport_scheme \<Rightarrow> 'a transport_scheme" where
  "setState st s =
     (if m_state s \<noteq> st then emit (StateChanged st) (s\<lparr>m_state := st\<rparr>) else s)"

lemma m_state_setState [simp]: "m_state (setState st s) = st"
  by (simp add: setState_def emit_def)

lemma m_state_emit [simp]: "m_state (emit sig s) = m_state s"
  by (simp add: emit_def)

lemma emitted_emit [simp]: "emitted (emit sig s) = emitted s @ [sig]"
  by (simp add: emit_def)

lemma more_setState [simp]: "transport.more (setState st s) = transport.more s"
  by (simp add: setState_def emit_def)

lemma more_emit [simp]: "transport.more (emit sig s) = transport.more s"
  by (simp add: emit_def)

text \<open>
  What an observer of the signals can tell: the state reached by following the
  \<open>StateChanged\<close> signals, or \<open>None\<close> if one of them reported no change.
\<close>

fun reported :: "transport_state \<Rightarrow> transport_signal list \<Rightarrow> transport_state option" where
  "reported st [] = Some st"
| "reported st (StateChanged st' # sigs) = (if st' = st then None else reported st' sigs)"
| "reported st (_ # sigs) = reported st sigs"

fun received :: "transport_signal list \<Rightarrow> bytes" where
  "received [] = []"
| "received (ReadyRead d # sigs) = d @ received sigs"
| "received (_ # sigs) = received sigs"

definition faithful :: "'a transport_scheme \<Rightarrow> bool" where
  "faithful s \<longleftrightarrow> reported Disconnected (emitted s) = Some (m_state s)"

lemma reported_append:
  "reported st (xs @ ys) = Option.bind (reported st xs) (\<lambda>st'. reported st' ys)"
  by (induction st xs rule: reported.induct) auto

lemma received_append [simp]: "received (xs @ ys) = received xs @ received ys"
  by (induction xs rule: received.induct) auto

lemma faithful_setState [inv_intros, simp]: "faithful s \<Longrightarrow> faithful (setState st s)"
  by (auto simp: faithful_def setState_def emit_def reported_append)

lemma faithful_emit_error [inv_intros, simp]: "faithful s \<Longrightarrow> faithful (emit (ErrorOccurred e) s)"
  by (simp add: faithful_def reported_append)

lemma faithful_emit_data [inv_intros, simp]: "faithful s \<Longrightarrow> faithful (emit (ReadyRead d) s)"
  by (simp add: faithful_def reported_append)

lemma received_setState [simp]: "received (emitted (setState st s)) = received (emitted s)"
  by (simp add: setState_def emit_def)

subsection \<open>The contract of a transport\<close>

locale transport_contract =
  fixes handle :: "'e \<Rightarrow> 'x transport_scheme \<Rightarrow> 'x transport_scheme"
    and start :: "'x transport_scheme \<Rightarrow> bool"
  assumes start_faithful: "start s \<Longrightarrow> faithful s"
    and handle_faithful: "faithful s \<Longrightarrow> faithful (handle e s)"
begin

lemma run_faithful: "start s \<Longrightarrow> faithful (fold handle es s)"
proof (induction es rule: rev_induct)
  case Nil
  then show ?case by (simp add: start_faithful)
next
  case (snoc e es)
  then show ?case by (simp add: handle_faithful)
qed

lemma signals_tell_state:
  "start s \<Longrightarrow> reported Disconnected (emitted (fold handle es s)) = Some (m_state (fold handle es s))"
  using run_faithful by (simp add: faithful_def)

end

locale passthrough_contract = transport_contract +
  fixes deliver :: "bytes \<Rightarrow> 'a"
  assumes deliver_exact: "received (emitted (handle (deliver d) s)) = received (emitted s) @ d"
begin

lemma stream_exact:
  "received (emitted (fold handle (map deliver ds) s)) = received (emitted s) @ concat ds"
  by (induction ds arbitrary: s) (simp_all add: deliver_exact)

lemma chunking_irrelevant:
  "concat ds = concat ds' \<Longrightarrow>
     received (emitted (fold handle (map deliver ds) s)) = received (emitted (fold handle (map deliver ds') s))"
  by (simp add: stream_exact)

end

text \<open>What a transport asks of its TCP socket.\<close>

datatype socket_cmd = SockConnect string "16 word" | SockDisconnect | SockWrite bytes

subsection \<open>Loopback\<close>

datatype loopback_event = LbConnect | LbDisconnect | LbResize int int | LbWrite bytes

fun loopback_handle :: "loopback_event \<Rightarrow> transport \<Rightarrow> transport" where
  "loopback_handle LbConnect s = setState Connected s"
| "loopback_handle LbDisconnect s = setState Disconnected s"
| "loopback_handle (LbResize cols rows) s = s"
| "loopback_handle (LbWrite data) s = emit (ReadyRead data) s"

definition loopback_initial :: transport where
  "loopback_initial = \<lparr>m_state = Disconnected, emitted = []\<rparr>"

interpretation loopback: passthrough_contract loopback_handle "\<lambda>s. s = loopback_initial" LbWrite
proof unfold_locales
  fix e and s :: transport
  assume "faithful s"
  then show "faithful (loopback_handle e s)" by (cases e) simp_all
qed (simp_all add: loopback_initial_def faithful_def)

subsection \<open>Raw TCP\<close>

record raw_transport = transport +
  raw_host :: string
  raw_port :: "16 word"
  raw_socket :: "socket_cmd list"

definition raw_initial :: "string \<Rightarrow> 16 word \<Rightarrow> raw_transport" where
  "raw_initial host port =
     \<lparr>m_state = Disconnected, emitted = [], raw_host = host, raw_port = port, raw_socket = []\<rparr>"

definition raw_command :: "socket_cmd \<Rightarrow> raw_transport \<Rightarrow> raw_transport" where
  "raw_command c s = s\<lparr>raw_socket := raw_socket s @ [c]\<rparr>"

definition raw_connectToHost :: "raw_transport \<Rightarrow> raw_transport" where
  "raw_connectToHost s =
     (let s1 = setState Connecting s in raw_command (SockConnect (raw_host s1) (raw_port s1)) s1)"

definition raw_disconnectFromHost :: "raw_transport \<Rightarrow> raw_transport" where
  "raw_disconnectFromHost s = raw_command SockDisconnect s"

text \<open>\<open>connected\<close> is the answer of \<open>m_socket->state() == ConnectedState\<close>.\<close>

definition raw_write :: "bool \<Rightarrow> bytes \<Rightarrow> raw_transport \<Rightarrow> raw_transport" where
  "raw_write connected data s = (if \<not> connected then s else raw_command (SockWrite data) s)"

definition raw_onConnected :: "raw_transport \<Rightarrow> raw_transport" where
  "raw_onConnected s = setState Connected s"

definition raw_onDisconnected :: "raw_transport \<Rightarrow> raw_transport" where
  "raw_onDisconnected s = setState Disconnected s"

definition raw_onReadyRead :: "bytes \<Rightarrow> raw_transport \<Rightarrow> raw_transport" where
  "raw_onReadyRead all s = emit (ReadyRead all) s"

definition raw_onSocketError :: "string \<Rightarrow> raw_transport \<Rightarrow> raw_transport" where
  "raw_onSocketError msg s = setState Error (emit (ErrorOccurred msg) s)"

datatype raw_event =
    RawConnect | RawDisconnect | RawResize int int | RawWrite bool bytes
  | RawSockConnected | RawSockDisconnected | RawSockData bytes | RawSockError string

fun raw_handle :: "raw_event \<Rightarrow> raw_transport \<Rightarrow> raw_transport" where
  "raw_handle RawConnect s = raw_connectToHost s"
| "raw_handle RawDisconnect s = raw_disconnectFromHost s"
| "raw_handle (RawResize cols rows) s = s"
| "raw_handle (RawWrite c data) s = raw_write c data s"
| "raw_handle RawSockConnected s = raw_onConnected s"
| "raw_handle RawSockDisconnected s = raw_onDisconnected s"
| "raw_handle (RawSockData d) s = raw_onReadyRead d s"
| "raw_handle (RawSockError e) s = raw_onSocketError e s"

lemmas raw_defs =
  raw_command_def raw_connectToHost_def raw_disconnectFromHost_def raw_write_def
  raw_onConnected_def raw_onDisconnected_def raw_onReadyRead_def raw_onSocketError_def

lemma faithful_raw_command [simp]: "faithful (raw_command c s) = faithful s"
  by (simp add: faithful_def raw_command_def)

lemma raw_handle_faithful [inv_intros]: "faithful s \<Longrightarrow> faithful (raw_handle e s)"
  by (cases e) (simp_all add: raw_defs(2-) Let_def)

lemma faithful_raw_initial [simp]: "faithful (raw_initial h p)"
  by (simp add: faithful_def raw_initial_def)

interpretation raw: passthrough_contract raw_handle "\<lambda>s. \<exists>h p. s = raw_initial h p" RawSockData
  by unfold_locales (auto simp: raw_onReadyRead_def intro: raw_handle_faithful)

subsection \<open>Serial port\<close>

text \<open>
  The enumerations of \<open>QSerialPort\<close> (data bits, parity, ...) are their integer values, as in the
  saved profiles. Of \<open>SerialPortError\<close> the code distinguishes three classes.
\<close>

record serial_settings =
  portName :: string
  baudRate :: int
  dataBits :: int
  parity :: int
  stopBits :: int
  flowControl :: int

definition default_serial_settings :: serial_settings where
  "default_serial_settings =
     \<lparr>portName = [], baudRate = 115200, dataBits = 8, parity = 0, stopBits = 1, flowControl = 0\<rparr>"

datatype serial_error = NoError | ResourceError | OtherError

datatype port_cmd = PortOpen serial_settings | PortClose | PortWrite bytes

record serial_transport = transport +
  ser_settings :: serial_settings
  ser_open :: bool
  ser_port :: "port_cmd list"

definition serial_initial :: "serial_settings \<Rightarrow> serial_transport" where
  "serial_initial cfg =
     \<lparr>m_state = Disconnected, emitted = [], ser_settings = cfg, ser_open = False, ser_port = []\<rparr>"

text \<open>\<open>opens\<close> is the answer of \<open>m_port->open(ReadWrite)\<close>, \<open>msg\<close> its error string.\<close>

definition serial_connectToHost :: "bool \<Rightarrow> string \<Rightarrow> serial_transport \<Rightarrow> serial_transport" where
  "serial_connectToHost opens msg s =
     (if ser_open s then s
      else
        let s1 = setState Connecting s;
            s2 = s1\<lparr>ser_port := ser_port s1 @ [PortOpen (ser_settings s1)], ser_open := opens\<rparr>
        in if \<not> opens then setState Error (emit (ErrorOccurred msg) s2)
           else setState Connected s2)"

definition serial_close :: "serial_transport \<Rightarrow> serial_transport" where
  "serial_close s = s\<lparr>ser_port := ser_port s @ [PortClose], ser_open := False\<rparr>"

definition serial_disconnectFromHost :: "serial_transport \<Rightarrow> serial_transport" where
  "serial_disconnectFromHost s =
     (let s1 = (if ser_open s then serial_close s else s) in setState Disconnected s1)"

definition serial_write :: "bytes \<Rightarrow> serial_transport \<Rightarrow> serial_transport" where
  "serial_write data s =
     (if ser_open s then s\<lparr>ser_port := ser_port s @ [PortWrite data]\<rparr> else s)"

definition serial_onReadyRead :: "bytes \<Rightarrow> serial_transport \<Rightarrow> serial_transport" where
  "serial_onReadyRead all s = emit (ReadyRead all) s"

definition serial_onError :: "serial_error \<Rightarrow> string \<Rightarrow> serial_transport \<Rightarrow> serial_transport" where
  "serial_onError err msg s =
     (if err = NoError then s
      else
        let s1 = emit (ErrorOccurred msg) s
        in if err = ResourceError then setState Disconnected (serial_close s1)
           else setState Error s1)"

datatype serial_event =
    SerConnect bool string | SerDisconnect | SerResize int int | SerWrite bytes
  | SerData bytes | SerError serial_error string

fun serial_handle :: "serial_event \<Rightarrow> serial_transport \<Rightarrow> serial_transport" where
  "serial_handle (SerConnect ok msg) s = serial_connectToHost ok msg s"
| "serial_handle SerDisconnect s = serial_disconnectFromHost s"
| "serial_handle (SerResize cols rows) s = s"
| "serial_handle (SerWrite d) s = serial_write d s"
| "serial_handle (SerData d) s = serial_onReadyRead d s"
| "serial_handle (SerError e msg) s = serial_onError e msg s"

lemmas serial_defs =
  serial_connectToHost_def serial_close_def serial_disconnectFromHost_def serial_write_def
  serial_onReadyRead_def serial_onError_def

lemma faithful_serial_update [simp]:
  "faithful (s\<lparr>ser_port := l\<rparr>) = faithful s"
  "faithful (s\<lparr>ser_open := b\<rparr>) = faithful s"
  by (simp_all add: faithful_def)

lemma faithful_serial_initial [simp]: "faithful (serial_initial cfg)"
  by (simp add: faithful_def serial_initial_def)

lemma serial_handle_faithful [inv_intros]: "faithful s \<Longrightarrow> faithful (serial_handle e s)"
  by (cases e) (simp_all add: serial_defs Let_def)

interpretation serial: passthrough_contract serial_handle "\<lambda>s. \<exists>cfg. s = serial_initial cfg" SerData
  by unfold_locales (auto simp: serial_onReadyRead_def intro: serial_handle_faithful)

text \<open>An open port is reported as connected or in error, and a closed one never as connected.\<close>

definition serial_ok :: "serial_transport \<Rightarrow> bool" where
  "serial_ok s \<longleftrightarrow>
     (ser_open s \<longrightarrow> m_state s \<in> {Connected, Error}) \<and> (m_state s = Connected \<longrightarrow> ser_open s)"

lemma ser_open_setState [simp]: "ser_open (setState st s) = ser_open s"
  by (simp add: setState_def emit_def)

lemma ser_open_emit [simp]: "ser_open (emit sig s) = ser_open s"
  by (simp add: emit_def)

lemma serial_handle_ok [inv_intros]: "serial_ok s \<Longrightarrow> serial_ok (serial_handle e s)"
  by (cases e) (auto simp: serial_defs serial_ok_def Let_def)

lemma serial_run_ok: "serial_ok s \<Longrightarrow> serial_ok (fold serial_handle es s)"
  by (induction es arbitrary: s) (simp_all add: serial_handle_ok)

subsection \<open>The colour a state is shown in\<close>

definition StateIcon_color :: "transport_state \<Rightarrow> byte \<times> byte \<times> byte" where
  "StateIcon_color st =
     (case st of
        Connected \<Rightarrow> (0x2e, 0xa0, 0x43)
      | Connecting \<Rightarrow> (0xd9, 0xa4, 0x0f)
      | Error \<Rightarrow> (0xd9, 0x3f, 0x3f)
      | Disconnected \<Rightarrow> (0x90, 0x90, 0x90))"

end
