(* ===== verification/Telnet.thy ===== *)
theory Telnet
  imports Transport
begin

text \<open>
  The telnet client transport (\<open>src/src/transports/telnet/TelnetTransport.cpp\<close>): the byte-wise
  parser state machine with option negotiation, the escaping of user data, NAWS and TERMINAL-TYPE.
  \<open>telnet_byte\<close> is the body of the loop of \<open>processIncoming\<close>. The socket is a log of
  commands; what it reports (connected, data, errors) arrives as events.
\<close>

abbreviation (input) SE :: byte where "SE \<equiv> 240"
abbreviation (input) SB :: byte where "SB \<equiv> 250"
abbreviation (input) WILL :: byte where "WILL \<equiv> 251"
abbreviation (input) WONT :: byte where "WONT \<equiv> 252"
abbreviation (input) DO :: byte where "DO \<equiv> 253"
abbreviation (input) DONT :: byte where "DONT \<equiv> 254"
abbreviation (input) IAC :: byte where "IAC \<equiv> 255"
abbreviation (input) OPT_ECHO :: byte where "OPT_ECHO \<equiv> 1"
abbreviation (input) OPT_SGA :: byte where "OPT_SGA \<equiv> 3"
abbreviation (input) OPT_TTYPE :: byte where "OPT_TTYPE \<equiv> 24"
abbreviation (input) OPT_NAWS :: byte where "OPT_NAWS \<equiv> 31"

datatype parse_state = PData | IacSeen | Negotiate | SubNegData | SubNegIacSeen

record telnet = transport +
  m_host :: string
  m_port :: "16 word"
  m_socket :: "socket_cmd list"
  m_parseState :: parse_state
  m_pendingCommand :: byte
  m_subNegBuffer :: bytes
  m_plainBuffer :: bytes
  m_nawsEnabled :: bool
  m_cols :: int
  m_rows :: int

definition telnet_initial :: "string \<Rightarrow> 16 word \<Rightarrow> telnet" where
  "telnet_initial host port =
     \<lparr>m_state = Disconnected, emitted = [], m_host = host, m_port = port, m_socket = [],
      m_parseState = PData, m_pendingCommand = 0, m_subNegBuffer = [], m_plainBuffer = [],
      m_nawsEnabled = False, m_cols = 80, m_rows = 24\<rparr>"

definition sock :: "socket_cmd \<Rightarrow> telnet \<Rightarrow> telnet" where
  "sock c s = s\<lparr>m_socket := m_socket s @ [c]\<rparr>"

definition telnet_connectToHost :: "telnet \<Rightarrow> telnet" where
  "telnet_connectToHost s =
     (let s1 = setState Connecting s;
          s2 = s1\<lparr>m_parseState := PData, m_subNegBuffer := [], m_plainBuffer := [],
                  m_nawsEnabled := False\<rparr>
      in sock (SockConnect (m_host s2) (m_port s2)) s2)"

definition telnet_disconnectFromHost :: "telnet \<Rightarrow> telnet" where
  "telnet_disconnectFromHost s = sock SockDisconnect s"

text \<open>A literal 0xFF of the data is doubled.\<close>

fun escape_iac :: "bytes \<Rightarrow> bytes" where
  "escape_iac [] = []"
| "escape_iac (c # cs) = (if c = IAC then c # IAC # escape_iac cs else c # escape_iac cs)"

definition telnet_write :: "bool \<Rightarrow> bytes \<Rightarrow> telnet \<Rightarrow> telnet" where
  "telnet_write connected data s =
     (if \<not> connected then s else sock (SockWrite (escape_iac data)) s)"

definition sendCommand :: "byte \<Rightarrow> byte \<Rightarrow> telnet \<Rightarrow> telnet" where
  "sendCommand command opt s = sock (SockWrite [IAC, command, opt]) s"

definition subnegotiation :: "byte \<Rightarrow> bytes \<Rightarrow> bytes" where
  "subnegotiation opt payload = [IAC, SB, opt] @ escape_iac payload @ [IAC, SE]"

definition sendSubnegotiation :: "byte \<Rightarrow> bytes \<Rightarrow> telnet \<Rightarrow> telnet" where
  "sendSubnegotiation opt payload s = sock (SockWrite (subnegotiation opt payload)) s"

definition window_body :: "int \<Rightarrow> int \<Rightarrow> bytes" where
  "window_body cols rows =
     [word_of_int (drop_bit 8 cols AND 0xFF), word_of_int (cols AND 0xFF),
      word_of_int (drop_bit 8 rows AND 0xFF), word_of_int (rows AND 0xFF)]"

definition sendWindowSize :: "telnet \<Rightarrow> telnet" where
  "sendWindowSize s =
     (if \<not> m_nawsEnabled s then s
      else sendSubnegotiation OPT_NAWS (window_body (m_cols s) (m_rows s)) s)"

definition telnet_resize :: "int \<Rightarrow> int \<Rightarrow> telnet \<Rightarrow> telnet" where
  "telnet_resize cols rows s = sendWindowSize (s\<lparr>m_cols := cols, m_rows := rows\<rparr>)"

definition handleCommand :: "byte \<Rightarrow> byte \<Rightarrow> telnet \<Rightarrow> telnet" where
  "handleCommand command opt s =
     (if command = WILL then
        (if opt = OPT_ECHO \<or> opt = OPT_SGA then sendCommand DO opt s else sendCommand DONT opt s)
      else if command = DO then
        (if opt = OPT_NAWS then sendWindowSize ((sendCommand WILL opt s)\<lparr>m_nawsEnabled := True\<rparr>)
         else if opt = OPT_TTYPE then sendCommand WILL opt s
         else sendCommand WONT opt s)
      else if command = WONT then
        (if opt = OPT_NAWS then s\<lparr>m_nawsEnabled := False\<rparr> else s)
      else s)"

definition bytes_of :: "string \<Rightarrow> bytes" where
  "bytes_of cs = map (\<lambda>c. of_char c) cs"

definition handleSubnegotiation :: "bytes \<Rightarrow> telnet \<Rightarrow> telnet" where
  "handleSubnegotiation payload s =
     (if payload = [] then s
      else if payload ! 0 = OPT_TTYPE \<and> length payload \<ge> 2 \<and> payload ! 1 = 1
      then sendSubnegotiation OPT_TTYPE (0 # bytes_of ''xterm-256color'') s
      else s)"

definition telnet_byte :: "byte \<Rightarrow> telnet \<Rightarrow> telnet" where
  "telnet_byte b s =
     (case m_parseState s of
        PData \<Rightarrow>
          (if b = IAC then s\<lparr>m_parseState := IacSeen\<rparr>
           else s\<lparr>m_plainBuffer := m_plainBuffer s @ [b]\<rparr>)
      | IacSeen \<Rightarrow>
          (if b = IAC then s\<lparr>m_plainBuffer := m_plainBuffer s @ [IAC], m_parseState := PData\<rparr>
           else if b = WILL \<or> b = WONT \<or> b = DO \<or> b = DONT
           then s\<lparr>m_pendingCommand := b, m_parseState := Negotiate\<rparr>
           else if b = SB then s\<lparr>m_subNegBuffer := [], m_parseState := SubNegData\<rparr>
           else s\<lparr>m_parseState := PData\<rparr>)
      | Negotiate \<Rightarrow> (handleCommand (m_pendingCommand s) b s)\<lparr>m_parseState := PData\<rparr>
      | SubNegData \<Rightarrow>
          (if b = IAC then s\<lparr>m_parseState := SubNegIacSeen\<rparr>
           else s\<lparr>m_subNegBuffer := m_subNegBuffer s @ [b]\<rparr>)
      | SubNegIacSeen \<Rightarrow>
          (if b = SE then (handleSubnegotiation (m_subNegBuffer s) s)\<lparr>m_parseState := PData\<rparr>
           else if b = IAC
           then s\<lparr>m_subNegBuffer := m_subNegBuffer s @ [IAC], m_parseState := SubNegData\<rparr>
           else s\<lparr>m_parseState := PData\<rparr>))"

definition flush_plain :: "telnet \<Rightarrow> telnet" where
  "flush_plain s =
     (if m_plainBuffer s \<noteq> [] then (emit (ReadyRead (m_plainBuffer s)) s)\<lparr>m_plainBuffer := []\<rparr> else s)"

definition processIncoming :: "bytes \<Rightarrow> telnet \<Rightarrow> telnet" where
  "processIncoming chunk s = flush_plain (fold telnet_byte chunk s)"

definition telnet_onConnected :: "telnet \<Rightarrow> telnet" where
  "telnet_onConnected s = setState Connected s"

definition telnet_onDisconnected :: "telnet \<Rightarrow> telnet" where
  "telnet_onDisconnected s = setState Disconnected s"

definition telnet_onReadyRead :: "bytes \<Rightarrow> telnet \<Rightarrow> telnet" where
  "telnet_onReadyRead all s = processIncoming all s"

definition telnet_onSocketError :: "string \<Rightarrow> telnet \<Rightarrow> telnet" where
  "telnet_onSocketError msg s = setState Error (emit (ErrorOccurred msg) s)"

datatype telnet_event =
    TelConnect | TelDisconnect | TelResize int int | TelWrite bool bytes
  | TelSockConnected | TelSockDisconnected | TelSockData bytes | TelSockError string

fun telnet_handle :: "telnet_event \<Rightarrow> telnet \<Rightarrow> telnet" where
  "telnet_handle TelConnect s = telnet_connectToHost s"
| "telnet_handle TelDisconnect s = telnet_disconnectFromHost s"
| "telnet_handle (TelResize cols rows) s = telnet_resize cols rows s"
| "telnet_handle (TelWrite c d) s = telnet_write c d s"
| "telnet_handle TelSockConnected s = telnet_onConnected s"
| "telnet_handle TelSockDisconnected s = telnet_onDisconnected s"
| "telnet_handle (TelSockData d) s = telnet_onReadyRead d s"
| "telnet_handle (TelSockError e) s = telnet_onSocketError e s"

lemmas reply_defs =
  sock_def sendCommand_def sendSubnegotiation_def sendWindowSize_def handleCommand_def
  handleSubnegotiation_def

subsection \<open>The parser and the grouping of the stream into reads\<close>

text \<open>
  What can be observed of a telnet transport: everything but how the received data is grouped
  into \<open>readyRead\<close> signals.
\<close>

definition telnet_obs :: "telnet \<Rightarrow> telnet \<times> bytes" where
  "telnet_obs s =
     (s\<lparr>emitted := [], m_plainBuffer := []\<rparr>, received (emitted s) @ m_plainBuffer s)"

lemma telnet_obs_eqE:
  assumes "telnet_obs s = telnet_obs s'"
  obtains e p where "s' = s\<lparr>emitted := e, m_plainBuffer := p\<rparr>"
    and "received (emitted s) @ m_plainBuffer s = received e @ p"
proof -
  have "s' = s\<lparr>emitted := emitted s', m_plainBuffer := m_plainBuffer s'\<rparr>"
    using assms by (cases s; cases s') (simp add: telnet_obs_def)
  moreover have "received (emitted s) @ m_plainBuffer s = received (emitted s') @ m_plainBuffer s'"
    using assms by (simp add: telnet_obs_def)
  ultimately show thesis by (rule that)
qed

lemma telnet_obs_byte:
  assumes "telnet_obs s = telnet_obs s'"
  shows "telnet_obs (telnet_byte b s) = telnet_obs (telnet_byte b s')"
proof -
  obtain e p where s': "s' = s\<lparr>emitted := e, m_plainBuffer := p\<rparr>"
    and r: "received (emitted s) @ m_plainBuffer s = received e @ p"
    using assms by (rule telnet_obs_eqE)
  show ?thesis
    using r unfolding s'
    by (cases "m_parseState s") (auto simp: telnet_obs_def telnet_byte_def reply_defs)
qed

lemma telnet_obs_fold:
  "telnet_obs s = telnet_obs s' \<Longrightarrow> telnet_obs (fold telnet_byte bs s) = telnet_obs (fold telnet_byte bs s')"
proof (induction bs arbitrary: s s')
  case Nil
  then show ?case by simp
next
  case (Cons b bs)
  from Cons.IH [OF telnet_obs_byte [OF Cons.prems]] show ?case by simp
qed

lemma telnet_obs_flush: "telnet_obs (flush_plain s) = telnet_obs s"
  by (simp add: telnet_obs_def flush_plain_def emit_def)

lemma plain_flush [simp]: "m_plainBuffer (flush_plain s) = []"
  by (simp add: flush_plain_def)

lemma telnet_obs_chunks:
  "telnet_obs (fold processIncoming cs s) = telnet_obs (fold telnet_byte (concat cs) s)"
proof (induction cs arbitrary: s)
  case Nil
  then show ?case by simp
next
  case (Cons c cs)
  have "telnet_obs (processIncoming c s) = telnet_obs (fold telnet_byte c s)"
    by (simp add: processIncoming_def telnet_obs_flush)
  then have "telnet_obs (fold telnet_byte (concat cs) (processIncoming c s)) =
      telnet_obs (fold telnet_byte (concat cs) (fold telnet_byte c s))"
    by (rule telnet_obs_fold)
  with Cons.IH show ?case by simp
qed

lemma telnet_obs_one: "telnet_obs (processIncoming c s) = telnet_obs (fold telnet_byte c s)"
  by (simp add: processIncoming_def telnet_obs_flush)

subsection \<open>Escaping\<close>

lemma fold_escape_data:
  "m_parseState s = PData \<Longrightarrow>
     fold telnet_byte (escape_iac d) s = s\<lparr>m_plainBuffer := m_plainBuffer s @ d\<rparr>"
  by (induction d arbitrary: s rule: escape_iac.induct) (simp_all add: telnet_byte_def)

lemma fold_escape_subneg:
  "m_parseState s = SubNegData \<Longrightarrow>
     fold telnet_byte (escape_iac d) s = s\<lparr>m_subNegBuffer := m_subNegBuffer s @ d\<rparr>"
  by (induction d arbitrary: s rule: escape_iac.induct) (simp_all add: telnet_byte_def)

lemma fold_subnegotiation:
  assumes "m_parseState s = PData" and "opt \<noteq> IAC"
  shows "fold telnet_byte (subnegotiation opt payload) s =
     (handleSubnegotiation (opt # payload)
        (s\<lparr>m_subNegBuffer := opt # payload, m_parseState := SubNegIacSeen\<rparr>))\<lparr>m_parseState := PData\<rparr>"
proof -
  have "fold telnet_byte [IAC, SB, opt] s = s\<lparr>m_subNegBuffer := [opt], m_parseState := SubNegData\<rparr>"
    using assms by (simp add: telnet_byte_def)
  then have "fold telnet_byte ([IAC, SB, opt] @ escape_iac payload) s =
      s\<lparr>m_subNegBuffer := opt # payload, m_parseState := SubNegData\<rparr>"
    by (simp only: fold_append o_apply) (simp add: fold_escape_subneg)
  then have "fold telnet_byte (([IAC, SB, opt] @ escape_iac payload) @ [IAC, SE]) s =
      fold telnet_byte [IAC, SE] (s\<lparr>m_subNegBuffer := opt # payload, m_parseState := SubNegData\<rparr>)"
    by (simp only: fold_append o_apply)
  moreover have "fold telnet_byte [IAC, SE] (r\<lparr>m_parseState := SubNegData\<rparr>) =
      (handleSubnegotiation (m_subNegBuffer r) (r\<lparr>m_parseState := SubNegIacSeen\<rparr>))\<lparr>m_parseState := PData\<rparr>" for r
    by (simp add: telnet_byte_def)
  from this [of "s\<lparr>m_subNegBuffer := opt # payload\<rparr>"] have
    "fold telnet_byte [IAC, SE] (s\<lparr>m_subNegBuffer := opt # payload, m_parseState := SubNegData\<rparr>) =
      (handleSubnegotiation (opt # payload)
        (s\<lparr>m_subNegBuffer := opt # payload, m_parseState := SubNegIacSeen\<rparr>))\<lparr>m_parseState := PData\<rparr>"
    by simp
  ultimately show ?thesis
    by (simp only: subnegotiation_def append_assoc)
qed

subsection \<open>Negotiation\<close>

text \<open>The specification: which options this client supports in which role, and its answers.\<close>

definition telnet_answer :: "byte \<Rightarrow> byte \<Rightarrow> byte" where
  "telnet_answer command opt =
     (if command = WILL then (if opt \<in> {OPT_ECHO, OPT_SGA} then DO else DONT)
      else (if opt \<in> {OPT_NAWS, OPT_TTYPE} then WILL else WONT))"

lemma fold_negotiation:
  assumes "m_parseState s = PData" and "command \<in> {WILL, DO}"
  shows "m_socket (fold telnet_byte [IAC, command, opt] s) =
     m_socket s @ [SockWrite [IAC, telnet_answer command opt, opt]] @
       (if command = DO \<and> opt = OPT_NAWS
        then [SockWrite (subnegotiation OPT_NAWS (window_body (m_cols s) (m_rows s)))] else [])"
  using assms by (auto simp: telnet_byte_def reply_defs telnet_answer_def)

lemma word_of_window_byte:
  "be16 (word_of_int (drop_bit 8 n AND 0xFF)) (word_of_int (n AND 0xFF)) = word_of_int n"
proof -
  have m: "(255 :: int) = mask 8" by (simp add: mask_eq_exp_minus_1)
  show ?thesis
    by (rule bit_word_eqI) (auto simp: be16_def bit_simps m)
qed

subsection \<open>The transport contract\<close>

lemma faithful_telnet_update [simp]:
  "faithful (s\<lparr>m_socket := l\<rparr>) = faithful s"
  "faithful (s\<lparr>m_parseState := ps\<rparr>) = faithful s"
  "faithful (s\<lparr>m_pendingCommand := c\<rparr>) = faithful s"
  "faithful (s\<lparr>m_subNegBuffer := b\<rparr>) = faithful s"
  "faithful (s\<lparr>m_plainBuffer := b\<rparr>) = faithful s"
  "faithful (s\<lparr>m_nawsEnabled := n\<rparr>) = faithful s"
  "faithful (s\<lparr>m_cols := i\<rparr>) = faithful s"
  "faithful (s\<lparr>m_rows := i\<rparr>) = faithful s"
  by (simp_all add: faithful_def)

lemma faithful_telnet_byte [simp]: "faithful (telnet_byte b s) = faithful s"
  by (auto simp: telnet_byte_def reply_defs split: parse_state.split)

lemma faithful_telnet_fold [simp]: "faithful (fold telnet_byte bs s) = faithful s"
  by (induction bs arbitrary: s) simp_all

lemma telnet_handle_faithful [inv_intros]: "faithful s \<Longrightarrow> faithful (telnet_handle e s)"
  by (cases e)
    (simp_all add: telnet_connectToHost_def telnet_disconnectFromHost_def telnet_resize_def
      telnet_write_def telnet_onConnected_def telnet_onDisconnected_def telnet_onReadyRead_def
      telnet_onSocketError_def processIncoming_def flush_plain_def sock_def sendWindowSize_def
      sendSubnegotiation_def Let_def)

lemma faithful_telnet_initial [simp]: "faithful (telnet_initial h p)"
  by (simp add: faithful_def telnet_initial_def)

interpretation telnet: transport_contract telnet_handle "\<lambda>s. \<exists>h p. s = telnet_initial h p"
  by unfold_locales (auto intro: telnet_handle_faithful)

subsection \<open>Properties\<close>

text \<open>
  C6. However the stream is split into reads, the parser ends in the same state, answers the same
  negotiations with the same bytes and hands over the same data as for one read of everything.
\<close>

theorem telnet_chunking:
  "telnet_obs (fold processIncoming cs s) = telnet_obs (processIncoming (concat cs) s)"
  by (simp add: telnet_obs_chunks telnet_obs_one)

text \<open>
  C7. What \<open>write\<close> puts on the wire for any user data, 0xFF bytes included, is parsed by a telnet
  peer as exactly that data: no byte is lost, doubled or taken for a command.
\<close>

theorem telnet_write_roundtrip:
  assumes "m_parseState peer = PData" and "m_plainBuffer peer = []" and "data \<noteq> []"
    and "m_socket (telnet_write True data me) = m_socket me @ [SockWrite wire]"
  shows "processIncoming wire peer = emit (ReadyRead data) peer"
proof -
  have "wire = escape_iac data"
    using assms(4) by (simp add: telnet_write_def sock_def)
  then show ?thesis
    using assms(1-3) by (simp add: processIncoming_def fold_escape_data flush_plain_def emit_def)
qed

theorem telnet_write_roundtrip_witness:
  "processIncoming [1, 255, 255, 2] (telnet_initial ''h'' 23) =
     emit (ReadyRead [1, 255, 2]) (telnet_initial ''h'' 23)"
  by (rule telnet_write_roundtrip [where me = "telnet_initial ''h'' 23"])
    (simp_all add: telnet_initial_def telnet_write_def sock_def)

text \<open>
  A subnegotiation built by \<open>sendSubnegotiation\<close> is parsed by a peer back into its option
  and payload, whatever bytes the payload holds.
\<close>

theorem telnet_subnegotiation_roundtrip:
  assumes "m_parseState peer = PData" and "opt \<noteq> IAC"
    and "m_socket (sendSubnegotiation opt payload me) = m_socket me @ [SockWrite wire]"
  shows "fold telnet_byte wire peer =
    (handleSubnegotiation (opt # payload)
       (peer\<lparr>m_subNegBuffer := opt # payload, m_parseState := SubNegIacSeen\<rparr>))\<lparr>m_parseState := PData\<rparr>"
proof -
  have "wire = subnegotiation opt payload"
    using assms(3) by (simp add: sendSubnegotiation_def sock_def)
  then show ?thesis using assms(1,2) by (simp add: fold_subnegotiation)
qed

theorem telnet_subnegotiation_roundtrip_witness:
  "fold telnet_byte [IAC, SB, 31, 255, 255, 7, IAC, SE] (telnet_initial ''h'' 23) =
    (handleSubnegotiation [31, 255, 7]
       ((telnet_initial ''h'' 23)\<lparr>m_subNegBuffer := [31, 255, 7], m_parseState := SubNegIacSeen\<rparr>))
      \<lparr>m_parseState := PData\<rparr>"
  by (rule telnet_subnegotiation_roundtrip [where me = "telnet_initial ''h'' 23"])
    (simp_all add: telnet_initial_def sendSubnegotiation_def subnegotiation_def sock_def)

text \<open>
  Every WILL or DO request gets exactly one answer about the same option, positive exactly for
  the supported ones (ECHO and SGA from the server, NAWS and TERMINAL-TYPE here), and accepting
  NAWS is followed at once by the window size.
\<close>

theorem telnet_negotiation_answered:
  assumes "m_parseState s = PData" and "command \<in> {WILL, DO}"
  shows "m_socket (processIncoming [IAC, command, opt] s) =
     m_socket s @ [SockWrite [IAC, telnet_answer command opt, opt]] @
       (if command = DO \<and> opt = OPT_NAWS
        then [SockWrite (subnegotiation OPT_NAWS (window_body (m_cols s) (m_rows s)))] else [])"
  using fold_negotiation [OF assms] by (simp add: processIncoming_def flush_plain_def emit_def)

theorem telnet_negotiation_answered_witness:
  "m_socket (processIncoming [IAC, DO, 31] (telnet_initial ''h'' 23)) =
     [SockWrite [IAC, WILL, 31], SockWrite [IAC, SB, 31, 0, 80, 0, 24, IAC, SE]]"
proof -
  have "m_socket (processIncoming [IAC, DO, 31] (telnet_initial ''h'' 23)) =
     m_socket (telnet_initial ''h'' 23) @ [SockWrite [IAC, telnet_answer DO 31, 31]] @
       (if DO = DO \<and> (31 :: byte) = OPT_NAWS
        then [SockWrite (subnegotiation OPT_NAWS (window_body (m_cols (telnet_initial ''h'' 23)) (m_rows (telnet_initial ''h'' 23))))] else [])"
    by (rule telnet_negotiation_answered) (simp_all add: telnet_initial_def)
  then show ?thesis
    by (simp add: telnet_initial_def telnet_answer_def subnegotiation_def window_body_def)
qed

text \<open>
  Once NAWS is enabled, a resize reports the new size: the peer decodes the two big-endian
  fields of the report to the columns and rows, modulo 2^16.
\<close>

theorem telnet_window_report:
  assumes "m_nawsEnabled s"
  shows "\<exists>body. m_socket (telnet_resize cols rows s) =
        m_socket s @ [SockWrite ([IAC, SB, OPT_NAWS] @ escape_iac body @ [IAC, SE])] \<and>
      length body = 4 \<and>
      be16 (body ! 0) (body ! 1) = word_of_int cols \<and> be16 (body ! 2) (body ! 3) = word_of_int rows"
proof (intro exI conjI)
  show "m_socket (telnet_resize cols rows s) =
      m_socket s @ [SockWrite ([IAC, SB, OPT_NAWS] @ escape_iac (window_body cols rows) @ [IAC, SE])]"
    using assms
    by (simp add: telnet_resize_def sendWindowSize_def sendSubnegotiation_def subnegotiation_def sock_def)
  show "length (window_body cols rows) = 4"
    by (simp add: window_body_def)
  show "be16 (window_body cols rows ! 0) (window_body cols rows ! 1) = word_of_int cols"
    by (simp only: window_body_def One_nat_def nth_Cons_0 nth_Cons_Suc word_of_window_byte)
  show "be16 (window_body cols rows ! 2) (window_body cols rows ! 3) = word_of_int rows"
    by (simp only: window_body_def numeral_2_eq_2 numeral_3_eq_3 nth_Cons_0 nth_Cons_Suc
      word_of_window_byte)
qed

theorem telnet_window_report_witness:
  "\<exists>body. m_socket (telnet_resize 300 255 ((telnet_initial ''h'' 23)\<lparr>m_nawsEnabled := True\<rparr>)) =
        [SockWrite ([IAC, SB, OPT_NAWS] @ escape_iac body @ [IAC, SE])] \<and>
      length body = 4 \<and> be16 (body ! 0) (body ! 1) = 300 \<and> be16 (body ! 2) (body ! 3) = 255"
  using telnet_window_report [of "(telnet_initial ''h'' 23)\<lparr>m_nawsEnabled := True\<rparr>" 300 255]
  by (simp add: telnet_initial_def)

text \<open>
  A peer that withdraws NAWS with DONT is neither answered nor obeyed: the next resize still
  reports the window size. (The code clears the flag on WONT, which is about the peer's own side.)
\<close>

theorem telnet_dont_naws_ignored:
  assumes "m_parseState s = PData" and "m_nawsEnabled s"
  shows "m_socket (telnet_resize cols rows (processIncoming [IAC, DONT, OPT_NAWS] s)) =
     m_socket s @ [SockWrite (subnegotiation OPT_NAWS (window_body cols rows))]"
  using assms
  by (simp add: processIncoming_def flush_plain_def emit_def telnet_byte_def reply_defs telnet_resize_def)

theorem telnet_dont_naws_ignored_witness:
  "m_socket (telnet_resize 80 24 (processIncoming [IAC, DONT, OPT_NAWS]
      ((telnet_initial ''h'' 23)\<lparr>m_nawsEnabled := True\<rparr>))) =
     [SockWrite [IAC, SB, 31, 0, 80, 0, 24, IAC, SE]]"
proof -
  have "m_socket (telnet_resize 80 24 (processIncoming [IAC, DONT, OPT_NAWS]
      ((telnet_initial ''h'' 23)\<lparr>m_nawsEnabled := True\<rparr>))) =
     m_socket ((telnet_initial ''h'' 23)\<lparr>m_nawsEnabled := True\<rparr>) @
       [SockWrite (subnegotiation OPT_NAWS (window_body 80 24))]"
    by (rule telnet_dont_naws_ignored) (simp_all add: telnet_initial_def)
  then show ?thesis
    by (simp add: telnet_initial_def subnegotiation_def window_body_def)
qed

text \<open>
  C12. For every sequence of calls and socket events, a client that only follows the
  \<open>stateChanged\<close> signals knows the state, and no signal reports a state twice in a row.
\<close>

theorem telnet_signals_tell_state:
  "reported Disconnected (emitted (fold telnet_handle es (telnet_initial host port))) =
     Some (m_state (fold telnet_handle es (telnet_initial host port)))"
  by (rule telnet.signals_tell_state) blast

end
