(* ===== verification/Reconnect.thy ===== *)
theory Reconnect
  imports Complex_Main Transport
begin

text \<open>
  What a pane does around its transport (\<open>src/src/terminal/TerminalView.cpp\<close> and
  \<open>src/src/core/ReconnectPolicy.h\<close>): automatic reconnection with its two timers and the
  overlay, respawn and reconfigure, the session log, and the drop zones of pane drag and drop.

  Handlers that touch the overlay's widgets have an \<open>option\<close> result: \<open>None\<close> is the null
  pointer access that would follow if the overlay had not been created. The steps of a pane are
  the relation \<open>pane_step\<close>: a timer fires only while active, the overlay's button is clicked
  only while the overlay is shown, and the transport reports changes only
  (\<open>transport_contract\<close>).
\<close>

subsection \<open>Reconnect policy\<close>

definition kMaxAttempts :: int where
  "kMaxAttempts = 6"

text \<open>
  \<open>1 << (attempt - 1)\<close> on a 32-bit \<open>int\<close>: the shift wraps (C++20) and is undefined from 32 on.
\<close>

definition delaySecondsForAttempt :: "int \<Rightarrow> int option" where
  "delaySecondsForAttempt attempt =
     (if attempt \<le> 0 then Some 1
      else if attempt - 1 \<ge> 32 then None
      else
        let uncapped = sint (push_bit (nat (attempt - 1)) (1 :: 32 word))
        in Some (if uncapped > 30 \<or> uncapped \<le> 0 then 30 else uncapped))"

subsection \<open>State\<close>

datatype overlay_text = NoText | TextGaveUp int | TextReconnecting int int int | TextDisconnected
datatype overlay_button = NoButton | Cancel | RetryNow | ReconnectNow

record overlay =
  o_visible :: bool
  o_label :: overlay_text
  o_button :: overlay_button

datatype viewer_mode = TerminalMode | HexMode | VncMode | RdpMode

datatype pane_action = ReplaceTransport | ConnectTransport | ClearHexDump | ClearTerminal

record pane =
  p_mode :: viewer_mode
  p_transport :: transport_state
  p_autoReconnect :: bool
  p_attempt :: int
  p_secondsRemaining :: int
  p_gaveUp :: bool
  p_reconnectTimer :: "int option"
  p_countdownTimer :: bool
  p_overlay :: "overlay option"
  p_actions :: "pane_action list"

definition pane_initial :: "viewer_mode \<Rightarrow> bool \<Rightarrow> pane" where
  "pane_initial mode auto =
     \<lparr>p_mode = mode, p_transport = Disconnected, p_autoReconnect = auto, p_attempt = 0,
      p_secondsRemaining = 0, p_gaveUp = False, p_reconnectTimer = None,
      p_countdownTimer = False, p_overlay = None, p_actions = []\<rparr>"

definition act :: "pane_action \<Rightarrow> pane \<Rightarrow> pane" where
  "act a p = p\<lparr>p_actions := p_actions p @ [a]\<rparr>"

subsection \<open>The overlay\<close>

definition ensureOverlay :: "pane \<Rightarrow> pane" where
  "ensureOverlay p =
     (case p_overlay p of
        Some ov \<Rightarrow> p
      | None \<Rightarrow> p\<lparr>p_overlay := Some \<lparr>o_visible = False, o_label = NoText, o_button = NoButton\<rparr>\<rparr>)"

definition setLabel :: "overlay_text \<Rightarrow> pane \<Rightarrow> pane option" where
  "setLabel t p = map_option (\<lambda>ov. p\<lparr>p_overlay := Some (ov\<lparr>o_label := t\<rparr>)\<rparr>) (p_overlay p)"

definition setButton :: "overlay_button \<Rightarrow> pane \<Rightarrow> pane option" where
  "setButton b p = map_option (\<lambda>ov. p\<lparr>p_overlay := Some (ov\<lparr>o_button := b\<rparr>)\<rparr>) (p_overlay p)"

definition showOverlay :: "pane \<Rightarrow> pane option" where
  "showOverlay p = map_option (\<lambda>ov. p\<lparr>p_overlay := Some (ov\<lparr>o_visible := True\<rparr>)\<rparr>) (p_overlay p)"

definition hideOverlay :: "pane \<Rightarrow> pane" where
  "hideOverlay p =
     p\<lparr>p_overlay := map_option (\<lambda>ov. ov\<lparr>o_visible := False\<rparr>) (p_overlay p)\<rparr>"

definition updateOverlayText :: "pane \<Rightarrow> pane option" where
  "updateOverlayText p =
     setLabel (TextReconnecting (p_secondsRemaining p) (p_attempt p) kMaxAttempts) p"

subsection \<open>Handlers\<close>

definition scheduleReconnect :: "pane \<Rightarrow> pane option" where
  "scheduleReconnect p =
     (if p_attempt p \<ge> kMaxAttempts then do {
        p1 \<leftarrow> setLabel (TextGaveUp kMaxAttempts) (ensureOverlay (p\<lparr>p_gaveUp := True\<rparr>));
        p2 \<leftarrow> setButton RetryNow p1;
        showOverlay p2
      }
      else do {
        secs \<leftarrow> delaySecondsForAttempt (p_attempt p + 1);
        p1 \<leftarrow> setButton Cancel
                (ensureOverlay (p\<lparr>p_attempt := p_attempt p + 1, p_secondsRemaining := secs\<rparr>));
        p2 \<leftarrow> updateOverlayText p1;
        p3 \<leftarrow> showOverlay p2;
        Some (p3\<lparr>p_countdownTimer := True, p_reconnectTimer := Some (p_secondsRemaining p3 * 1000)\<rparr>)
      })"

definition showManualReconnectPrompt :: "pane \<Rightarrow> pane option" where
  "showManualReconnectPrompt p = do {
     p1 \<leftarrow> setLabel TextDisconnected (ensureOverlay p);
     p2 \<leftarrow> setButton ReconnectNow p1;
     showOverlay p2
   }"

definition onStateChanged :: "transport_state \<Rightarrow> pane \<Rightarrow> pane option" where
  "onStateChanged st p =
     (if st = Connected then Some (hideOverlay (p\<lparr>p_attempt := 0, p_gaveUp := False\<rparr>))
      else if st = Disconnected \<or> st = Error then
        (if p_autoReconnect p then (if \<not> p_gaveUp p then scheduleReconnect p else Some p)
         else showManualReconnectPrompt p)
      else Some p)"

definition tickCountdown :: "pane \<Rightarrow> pane option" where
  "tickCountdown p =
     (let p1 = p\<lparr>p_secondsRemaining := p_secondsRemaining p - 1\<rparr>
      in if p_secondsRemaining p1 \<le> 0 then Some (p1\<lparr>p_countdownTimer := False\<rparr>)
         else updateOverlayText p1)"

definition replaceTransport :: "pane \<Rightarrow> pane" where
  "replaceTransport p = act ReplaceTransport (p\<lparr>p_transport := Disconnected\<rparr>)"

definition pane_connectToHost :: "pane \<Rightarrow> pane" where
  "pane_connectToHost p = act ConnectTransport p"

definition doReconnectNow :: "pane \<Rightarrow> pane" where
  "doReconnectNow p =
     (if p_transport p = Connecting then p
      else
        let p1 = hideOverlay (p\<lparr>p_countdownTimer := False, p_reconnectTimer := None\<rparr>);
            p2 = p1\<lparr>p_gaveUp := False, p_attempt := 0\<rparr>
        in pane_connectToHost (replaceTransport p2))"

definition canRespawn :: "pane \<Rightarrow> bool" where
  "canRespawn p \<longleftrightarrow> p_transport p \<noteq> Connecting"

definition respawn :: "pane \<Rightarrow> pane" where
  "respawn p =
     (if \<not> canRespawn p then p
      else
        let p1 = (if p_mode p = HexMode then act ClearHexDump p
                  else if p_mode p \<noteq> VncMode \<and> p_mode p \<noteq> RdpMode then act ClearTerminal p
                  else p)
        in doReconnectNow p1)"

definition reconfigure :: "pane \<Rightarrow> bool \<times> pane" where
  "reconfigure p =
     (if \<not> canRespawn p then (False, p)
      else
        let p1 = hideOverlay (p\<lparr>p_countdownTimer := False, p_reconnectTimer := None\<rparr>);
            p2 = p1\<lparr>p_gaveUp := False, p_attempt := 0\<rparr>
        in (True, pane_connectToHost (replaceTransport p2)))"

definition cancelReconnect :: "pane \<Rightarrow> pane" where
  "cancelReconnect p =
     hideOverlay (p\<lparr>p_countdownTimer := False, p_reconnectTimer := None, p_attempt := 0, p_gaveUp := False\<rparr>)"

definition overlayButtonClicked :: "pane \<Rightarrow> pane" where
  "overlayButtonClicked p =
     (if p_countdownTimer p \<or> p_reconnectTimer p \<noteq> None then cancelReconnect p else doReconnectNow p)"

subsection \<open>Steps\<close>

datatype pane_event =
    TransportReports transport_state | ReconnectTimeout | CountdownTimeout | OverlayButton
  | StatusMenuReconnect | Respawn | Reconfigure | SetAutoReconnect bool

text \<open>A single-shot timer is inactive by the time its slot runs.\<close>

fun pane_handle :: "pane_event \<Rightarrow> pane \<Rightarrow> pane option" where
  "pane_handle (TransportReports st) p = onStateChanged st (p\<lparr>p_transport := st\<rparr>)"
| "pane_handle ReconnectTimeout p = Some (doReconnectNow (p\<lparr>p_reconnectTimer := None\<rparr>))"
| "pane_handle CountdownTimeout p = tickCountdown p"
| "pane_handle OverlayButton p = Some (overlayButtonClicked p)"
| "pane_handle StatusMenuReconnect p = Some (doReconnectNow p)"
| "pane_handle Respawn p = Some (respawn p)"
| "pane_handle Reconfigure p = Some (snd (reconfigure p))"
| "pane_handle (SetAutoReconnect b) p = Some (p\<lparr>p_autoReconnect := b\<rparr>)"

definition overlay_shown :: "pane \<Rightarrow> bool" where
  "overlay_shown p \<longleftrightarrow> (case p_overlay p of None \<Rightarrow> False | Some ov \<Rightarrow> o_visible ov)"

fun enabled :: "pane_event \<Rightarrow> pane \<Rightarrow> bool" where
  "enabled (TransportReports st) p \<longleftrightarrow> st \<noteq> p_transport p"
| "enabled ReconnectTimeout p \<longleftrightarrow> p_reconnectTimer p \<noteq> None"
| "enabled CountdownTimeout p \<longleftrightarrow> p_countdownTimer p"
| "enabled OverlayButton p \<longleftrightarrow> overlay_shown p"
| "enabled StatusMenuReconnect p \<longleftrightarrow> p_transport p \<noteq> Connecting"
| "enabled Respawn p \<longleftrightarrow> True"
| "enabled Reconfigure p \<longleftrightarrow> True"
| "enabled (SetAutoReconnect b) p \<longleftrightarrow> True"

inductive pane_step :: "pane \<Rightarrow> pane_event \<Rightarrow> pane \<Rightarrow> bool" where
  pane_stepI: "enabled e p \<Longrightarrow> pane_handle e p = Some p' \<Longrightarrow> pane_step p e p'"

inductive pane_reachable :: "pane \<Rightarrow> bool" where
  reach_start: "pane_reachable (pane_connectToHost (pane_initial mode auto))"
| reach_step: "pane_reachable p \<Longrightarrow> pane_step p e p' \<Longrightarrow> pane_reachable p'"

inductive_cases pane_stepE: "pane_step p e p'"
inductive_simps pane_step_simps: "pane_step p e p'"

subsection \<open>The invariant of a pane\<close>

definition pane_inv :: "pane \<Rightarrow> bool" where
  "pane_inv p \<longleftrightarrow>
     0 \<le> p_attempt p \<and> p_attempt p \<le> kMaxAttempts \<and>
     (p_countdownTimer p \<longrightarrow> p_overlay p \<noteq> None) \<and>
     (p_gaveUp p \<longrightarrow> overlay_shown p) \<and>
     (\<forall>ms. p_reconnectTimer p = Some ms \<longrightarrow> 1000 \<le> ms \<and> ms \<le> 30000)"

lemma delay_values:
  "delaySecondsForAttempt 1 = Some 1" "delaySecondsForAttempt 2 = Some 2"
  "delaySecondsForAttempt 3 = Some 4" "delaySecondsForAttempt 4 = Some 8"
  "delaySecondsForAttempt 5 = Some 16" "delaySecondsForAttempt 6 = Some 30"
  by (simp_all add: delaySecondsForAttempt_def)

lemma delay_defined:
  assumes "0 \<le> a" and "a < kMaxAttempts"
  shows "\<exists>d. delaySecondsForAttempt (a + 1) = Some d \<and> 1 \<le> d \<and> d \<le> 30"
proof -
  have "a \<in> {0, 1, 2, 3, 4, 5}"
    using assms by (auto simp: kMaxAttempts_def)
  then show ?thesis by (auto simp: delay_values)
qed

lemma overlay_ensure [simp]: "p_overlay (ensureOverlay p) \<noteq> None"
  by (simp add: ensureOverlay_def split: option.split)

lemmas overlay_defs =
  ensureOverlay_def setLabel_def setButton_def showOverlay_def hideOverlay_def
  updateOverlayText_def overlay_shown_def

lemma ensure_fields [simp]:
  "p_attempt (ensureOverlay p) = p_attempt p"
  "p_gaveUp (ensureOverlay p) = p_gaveUp p"
  "p_countdownTimer (ensureOverlay p) = p_countdownTimer p"
  "p_reconnectTimer (ensureOverlay p) = p_reconnectTimer p"
  "p_secondsRemaining (ensureOverlay p) = p_secondsRemaining p"
  by (simp_all add: ensureOverlay_def split: option.split)

lemma scheduleReconnect_spec:
  assumes "pane_inv p"
  shows "\<exists>p'. scheduleReconnect p = Some p' \<and> pane_inv p' \<and> overlay_shown p'"
proof (cases "p_attempt p \<ge> kMaxAttempts")
  case True
  obtain ov where "p_overlay (ensureOverlay (p\<lparr>p_gaveUp := True\<rparr>)) = Some ov"
    using overlay_ensure by blast
  with True assms show ?thesis
    by (simp add: scheduleReconnect_def setLabel_def setButton_def showOverlay_def overlay_shown_def pane_inv_def)
next
  case False
  then obtain d where d: "delaySecondsForAttempt (p_attempt p + 1) = Some d" "1 \<le> d" "d \<le> 30"
    using delay_defined assms by (force simp: pane_inv_def)
  let ?p = "p\<lparr>p_attempt := p_attempt p + 1, p_secondsRemaining := d\<rparr>"
  obtain ov where "p_overlay (ensureOverlay ?p) = Some ov"
    using overlay_ensure by blast
  with False assms d show ?thesis
    by (simp add: scheduleReconnect_def setLabel_def setButton_def showOverlay_def updateOverlayText_def
        overlay_shown_def pane_inv_def)
qed

lemma manualPrompt_spec:
  assumes "pane_inv p"
  shows "\<exists>p'. showManualReconnectPrompt p = Some p' \<and> pane_inv p' \<and> overlay_shown p'"
proof -
  obtain ov where "p_overlay (ensureOverlay p) = Some ov"
    using overlay_ensure by blast
  with assms show ?thesis
    by (simp add: showManualReconnectPrompt_def setLabel_def setButton_def showOverlay_def
        overlay_shown_def pane_inv_def)
qed

lemma onStateChanged_lost:
  assumes "pane_inv p" and "st \<in> {Disconnected, Error}"
  shows "\<exists>p'. onStateChanged st p = Some p' \<and> pane_inv p' \<and> overlay_shown p'"
proof -
  have "p_gaveUp p \<Longrightarrow> overlay_shown p" using assms by (simp add: pane_inv_def)
  with assms scheduleReconnect_spec [OF assms(1)] manualPrompt_spec [OF assms(1)] show ?thesis
    by (auto simp: onStateChanged_def)
qed

lemma onStateChanged_spec:
  assumes "pane_inv p"
  shows "\<exists>p'. onStateChanged st p = Some p' \<and> pane_inv p'"
proof (cases "st \<in> {Disconnected, Error}")
  case True
  with onStateChanged_lost [OF assms] show ?thesis by blast
next
  case False
  then show ?thesis
    using assms by (auto simp: onStateChanged_def pane_inv_def hideOverlay_def kMaxAttempts_def)
qed

lemma pane_inv_hide:
  "pane_inv p \<Longrightarrow> pane_inv (hideOverlay (p\<lparr>p_countdownTimer := False, p_reconnectTimer := None,
     p_attempt := 0, p_gaveUp := False\<rparr>))"
  by (auto simp: pane_inv_def hideOverlay_def kMaxAttempts_def)

lemma pane_inv_doReconnectNow: "pane_inv p \<Longrightarrow> pane_inv (doReconnectNow p)"
  by (auto simp: doReconnectNow_def pane_inv_def hideOverlay_def kMaxAttempts_def replaceTransport_def
      pane_connectToHost_def act_def overlay_shown_def Let_def)

lemma pane_inv_act [simp]: "pane_inv (act a p) = pane_inv p"
  by (simp add: pane_inv_def act_def overlay_shown_def)

lemma pane_inv_respawn: "pane_inv p \<Longrightarrow> pane_inv (respawn p)"
  by (simp add: respawn_def pane_inv_doReconnectNow Let_def)

lemma pane_inv_reconfigure: "pane_inv p \<Longrightarrow> pane_inv (snd (reconfigure p))"
  by (auto simp: reconfigure_def pane_inv_def hideOverlay_def kMaxAttempts_def replaceTransport_def
      pane_connectToHost_def act_def overlay_shown_def Let_def)

lemma pane_inv_cancel: "pane_inv p \<Longrightarrow> pane_inv (cancelReconnect p)"
  by (simp add: cancelReconnect_def pane_inv_hide)

lemma pane_inv_transport [simp]: "pane_inv (p\<lparr>p_transport := st\<rparr>) = pane_inv p"
  by (simp add: pane_inv_def overlay_shown_def)

lemma tickCountdown_spec:
  assumes "pane_inv p" and "p_countdownTimer p"
  shows "\<exists>p'. tickCountdown p = Some p' \<and> pane_inv p'"
proof -
  obtain ov where "p_overlay p = Some ov"
    using assms by (auto simp: pane_inv_def)
  then show ?thesis
    using assms
    by (simp add: tickCountdown_def pane_inv_def updateOverlayText_def setLabel_def overlay_shown_def Let_def)
qed

lemma pane_handle_spec:
  assumes "pane_inv p" and "enabled e p"
  shows "\<exists>p'. pane_handle e p = Some p' \<and> pane_inv p'"
proof (cases e)
  case (TransportReports st)
  then show ?thesis using onStateChanged_spec [of "p\<lparr>p_transport := st\<rparr>" st] assms by auto
next
  case ReconnectTimeout
  have "pane_inv (p\<lparr>p_reconnectTimer := None\<rparr>)"
    using assms by (simp add: pane_inv_def overlay_shown_def)
  with ReconnectTimeout show ?thesis by (simp add: pane_inv_doReconnectNow)
next
  case CountdownTimeout
  then show ?thesis using tickCountdown_spec assms by simp
next
  case OverlayButton
  then show ?thesis
    using assms by (simp add: overlayButtonClicked_def pane_inv_cancel pane_inv_doReconnectNow)
next
  case (SetAutoReconnect b)
  then show ?thesis using assms by (simp add: pane_inv_def overlay_shown_def)
qed (use assms in \<open>simp_all add: pane_inv_doReconnectNow pane_inv_respawn pane_inv_reconfigure\<close>)

lemma reachable_pane_inv: "pane_reachable p \<Longrightarrow> pane_inv p"
proof (induction rule: pane_reachable.induct)
  case (reach_start mode auto)
  show ?case
    by (simp add: pane_connectToHost_def pane_initial_def pane_inv_def kMaxAttempts_def overlay_shown_def
        act_def)
next
  case (reach_step p e p')
  then obtain "enabled e p" "pane_handle e p = Some p'"
    by (auto elim: pane_stepE)
  with reach_step.IH show ?case using pane_handle_spec by fastforce
qed

subsection \<open>The delays of a long outage\<close>

text \<open>
  One failed attempt of an outage: the transport, still connecting, reports an error, the timer
  the pane then starts runs out, and the fresh transport starts connecting.
\<close>

definition failed_attempt :: "pane \<Rightarrow> pane option" where
  "failed_attempt p = do {
     p1 \<leftarrow> pane_handle (TransportReports Error) p;
     p2 \<leftarrow> pane_handle ReconnectTimeout p1;
     pane_handle (TransportReports Connecting) p2
   }"

fun failed_attempts :: "nat \<Rightarrow> pane \<Rightarrow> pane option" where
  "failed_attempts 0 p = Some p"
| "failed_attempts (Suc n) p = Option.bind (failed_attempt p) (failed_attempts n)"

definition replacements :: "pane \<Rightarrow> nat" where
  "replacements p = length (filter (\<lambda>a. a = ReplaceTransport) (p_actions p))"

definition waiting_first :: "pane \<Rightarrow> bool" where
  "waiting_first p \<longleftrightarrow>
     p_transport p = Connecting \<and> p_autoReconnect p \<and> \<not> p_gaveUp p \<and> p_attempt p = 0"

lemma error_schedules_first:
  assumes "waiting_first p"
  shows "\<exists>q. pane_handle (TransportReports Error) p = Some q \<and> p_attempt q = 1 \<and>
     p_reconnectTimer q = Some 1000 \<and> \<not> p_gaveUp q \<and> p_transport q = Error \<and>
     p_autoReconnect q \<and> p_actions q = p_actions p"
proof -
  let ?p = "(p\<lparr>p_transport := Error\<rparr>)\<lparr>p_attempt := 1, p_secondsRemaining := 1\<rparr>"
  obtain ov where "p_overlay (ensureOverlay ?p) = Some ov"
    using overlay_ensure by blast
  moreover have "p_autoReconnect (ensureOverlay r) = p_autoReconnect r"
    "p_actions (ensureOverlay r) = p_actions r" "p_transport (ensureOverlay r) = p_transport r" for r
    by (simp_all add: ensureOverlay_def split: option.split)
  ultimately show ?thesis
    using assms
    by (simp add: waiting_first_def onStateChanged_def scheduleReconnect_def kMaxAttempts_def delay_values(1)
        setLabel_def setButton_def showOverlay_def updateOverlayText_def)
qed

lemma failed_attempt_again:
  assumes "waiting_first p"
  shows "\<exists>q. failed_attempt p = Some q \<and> waiting_first q \<and> replacements q = Suc (replacements p)"
proof -
  obtain q where "pane_handle (TransportReports Error) p = Some q" "p_transport q = Error"
    "p_autoReconnect q" "p_actions q = p_actions p"
    using error_schedules_first [OF assms] by blast
  then show ?thesis
    by (simp add: failed_attempt_def doReconnectNow_def hideOverlay_def replaceTransport_def
        pane_connectToHost_def act_def onStateChanged_def waiting_first_def replacements_def Let_def
        del: pane_handle.simps(1)) (simp add: onStateChanged_def)
qed

lemma failed_attempts_again:
  "waiting_first p \<Longrightarrow>
     \<exists>q. failed_attempts n p = Some q \<and> waiting_first q \<and> replacements q = n + replacements p"
proof (induction n arbitrary: p)
  case 0
  then show ?case by simp
next
  case (Suc n)
  then obtain r where r: "failed_attempt p = Some r" "waiting_first r" "replacements r = Suc (replacements p)"
    using failed_attempt_again by blast
  with Suc.IH [OF r(2)] show ?case by auto
qed

subsection \<open>The session log\<close>

text \<open>
  \<open>LogStamp\<close> is a write of the formatted current time, \<open>LogBytes\<close> a write of received bytes.
\<close>

datatype log_item = LogStamp | LogBytes bytes

record session_log =
  l_file :: "log_item list option"
  l_includeTimestamps :: bool
  l_atLineStart :: bool

definition stopLogging :: "session_log \<Rightarrow> session_log" where
  "stopLogging l = l\<lparr>l_file := None\<rparr>"

text \<open>\<open>opened\<close> is the answer of \<open>file->open\<close>.\<close>

definition startLogging :: "bool \<Rightarrow> bool \<Rightarrow> session_log \<Rightarrow> session_log" where
  "startLogging opened stamps l =
     (let l1 = stopLogging l
      in if \<not> opened then l1
         else l1\<lparr>l_file := Some [], l_includeTimestamps := stamps, l_atLineStart := True\<rparr>)"

abbreviation (input) newline :: byte where "newline \<equiv> 10"

text \<open>The loop of \<open>onDataForLogging\<close>; \<open>data\<close> is the rest of the chunk from \<open>start\<close>.\<close>

function log_lines :: "bool \<Rightarrow> bytes \<Rightarrow> log_item list \<times> bool" where
  "log_lines atStart data =
     (if data = [] then ([], atStart)
      else
        let stamp = (if atStart then [LogStamp] else []);
            newlineIndex = length (takeWhile (\<lambda>b. b \<noteq> newline) data)
        in if newlineIndex = length data then (stamp @ [LogBytes data], False)
           else
             let (rest, atEnd) = log_lines True (drop (Suc newlineIndex) data)
             in (stamp @ [LogBytes (take (Suc newlineIndex) data)] @ rest, atEnd))"
  by pat_completeness auto
termination
  by (relation "measure (\<lambda>(a, d). length d)") auto

declare log_lines.simps [simp del]

definition onDataForLogging :: "bytes \<Rightarrow> session_log \<Rightarrow> session_log" where
  "onDataForLogging data l =
     (case l_file l of
        None \<Rightarrow> l
      | Some f \<Rightarrow>
          (if \<not> l_includeTimestamps l then l\<lparr>l_file := Some (f @ [LogBytes data])\<rparr>
           else
             let (items, atEnd) = log_lines (l_atLineStart l) data
             in l\<lparr>l_file := Some (f @ items), l_atLineStart := atEnd\<rparr>))"

text \<open>
  The specification, byte by byte: a time stamp (\<open>None\<close>) right before the first byte of every
  line, and every byte as received.
\<close>

fun stamped :: "bool \<Rightarrow> bytes \<Rightarrow> byte option list" where
  "stamped atStart [] = []"
| "stamped atStart (b # bs) = (if atStart then [None] else []) @ Some b # stamped (b = newline) bs"

fun log_contents :: "log_item list \<Rightarrow> byte option list" where
  "log_contents [] = []"
| "log_contents (LogStamp # is) = None # log_contents is"
| "log_contents (LogBytes bs # is) = map Some bs @ log_contents is"

definition line_start_after :: "bool \<Rightarrow> bytes \<Rightarrow> bool" where
  "line_start_after atStart bs = (if bs = [] then atStart else last bs = newline)"

lemma log_contents_append [simp]: "log_contents (xs @ ys) = log_contents xs @ log_contents ys"
  by (induction xs rule: log_contents.induct) auto

lemma stamped_append:
  "stamped a (xs @ ys) = stamped a xs @ stamped (line_start_after a xs) ys"
  by (induction xs arbitrary: a) (auto simp: line_start_after_def)

lemma stamped_no_newline:
  "newline \<notin> set bs \<Longrightarrow> stamped False bs = map Some bs"
  by (induction bs) auto

lemma stamped_line:
  "newline \<notin> set bs \<Longrightarrow> bs \<noteq> [] \<Longrightarrow> stamped a bs = (if a then [None] else []) @ map Some bs"
  by (cases bs) (auto simp: stamped_no_newline)

lemma stamped_full_line:
  "newline \<notin> set bs \<Longrightarrow>
     stamped a (bs @ [newline]) = (if a then [None] else []) @ map Some (bs @ [newline])"
  by (cases bs) (auto simp: stamped_append stamped_no_newline line_start_after_def dest: last_in_set)

lemma log_lines_spec:
  "log_contents (fst (log_lines a d)) = stamped a d \<and> snd (log_lines a d) = line_start_after a d"
proof (induction a d rule: log_lines.induct)
  case (1 a d)
  let ?l = "takeWhile (\<lambda>b. b \<noteq> newline) d"
  have nl: "newline \<notin> set ?l"
    by (metis (mono_tags, lifting) set_takeWhileD)
  consider "d = []" | "d \<noteq> []" "length ?l = length d" | "d \<noteq> []" "length ?l < length d"
    using length_takeWhile_le [of "\<lambda>b. b \<noteq> newline" d] by fastforce
  then show ?case
  proof cases
    case 1
    then show ?thesis by (simp add: log_lines.simps line_start_after_def)
  next
    case 2
    then have l: "?l = d"
      using takeWhile_eq_take [of "\<lambda>b. b \<noteq> newline" d] by simp
    then have "newline \<notin> set d" using nl by metis
    moreover have "last d \<noteq> newline" using 2 calculation last_in_set by metis
    ultimately show ?thesis
      using 2 by (subst (1 2) log_lines.simps) (simp add: stamped_line line_start_after_def)
  next
    case 3
    define rest where "rest = drop (Suc (length ?l)) d"
    have "d ! length ?l = newline"
      using nth_length_takeWhile [OF 3(2)] by simp
    then have d: "d = ?l @ newline # rest"
      by (metis 3(2) id_take_nth_drop rest_def takeWhile_eq_take)
    have take: "take (Suc (length ?l)) d = ?l @ [newline]"
      by (subst d) simp
    have IH: "log_contents (fst (log_lines True rest)) = stamped True rest"
      "snd (log_lines True rest) = line_start_after True rest"
      using "1.IH" 3 unfolding rest_def by auto
    have eq: "log_lines a d =
        ((if a then [LogStamp] else []) @ [LogBytes (?l @ [newline])] @ fst (log_lines True rest),
         snd (log_lines True rest))"
      using 3 take
      by (subst log_lines.simps) (auto simp: rest_def Let_def split: prod.split)
    have "stamped a d = stamped a ((?l @ [newline]) @ rest)"
      using d by simp
    also have "\<dots> = stamped a (?l @ [newline]) @ stamped True rest"
      by (simp only: stamped_append [of a "?l @ [newline]"]) (simp add: line_start_after_def)
    finally have "stamped a d = stamped a (?l @ [newline]) @ stamped True rest" .
    moreover have "line_start_after a d = line_start_after True rest"
      by (subst d) (simp add: line_start_after_def)
    ultimately show ?thesis
      using nl by (simp add: eq IH stamped_full_line)
  qed
qed

lemma onDataForLogging_file:
  assumes "l_file l = Some f" and "l_includeTimestamps l"
  shows "\<exists>f'. l_file (onDataForLogging d l) = Some f' \<and>
      log_contents f' = log_contents f @ stamped (l_atLineStart l) d"
    and "l_includeTimestamps (onDataForLogging d l)"
    and "l_atLineStart (onDataForLogging d l) = line_start_after (l_atLineStart l) d"
  using assms log_lines_spec [of "l_atLineStart l" d]
  by (auto simp: onDataForLogging_def split: prod.split)

lemma log_run_stamped:
  assumes "l_file l = Some f" and "l_includeTimestamps l"
  shows "\<exists>f'. l_file (fold onDataForLogging ds l) = Some f' \<and>
      log_contents f' = log_contents f @ stamped (l_atLineStart l) (concat ds)"
  using assms
proof (induction ds arbitrary: l f)
  case Nil
  then show ?case by simp
next
  case (Cons d ds)
  obtain f1 where f1: "l_file (onDataForLogging d l) = Some f1"
    "log_contents f1 = log_contents f @ stamped (l_atLineStart l) d"
    using onDataForLogging_file(1) [OF Cons.prems] by blast
  from Cons.IH [OF f1(1) onDataForLogging_file(2) [OF Cons.prems]] f1(2)
  show ?case
    by (simp add: onDataForLogging_file(3) [OF Cons.prems] stamped_append)
qed

lemma log_run_plain:
  assumes "l_file l = Some f" and "\<not> l_includeTimestamps l"
  shows "l_file (fold onDataForLogging ds l) = Some (f @ map LogBytes ds)"
  using assms by (induction ds arbitrary: l f) (auto simp: onDataForLogging_def)

lemma log_contents_plain: "log_contents (map LogBytes ds) = map Some (concat ds)"
  by (induction ds) auto

subsection \<open>Drop zones\<close>

text \<open>
  Where on a pane a dragged pane is dropped. The code divides in \<open>double\<close>; the model in exact
  fractions.
\<close>

datatype PaneDropZone = Left | Right | Top | Bottom | Swap

definition zoneAt :: "int \<Rightarrow> int \<Rightarrow> int \<Rightarrow> int \<Rightarrow> PaneDropZone" where
  "zoneAt width height x y =
     (let fx = qBound 0 (of_int x / of_int (max 1 width)) 1 :: rat;
          fy = qBound 0 (of_int y / of_int (max 1 height)) 1
      in if fx > 28 / 100 \<and> fx < 72 / 100 \<and> fy > 28 / 100 \<and> fy < 72 / 100 then Swap
         else
           let left = fx; right = 1 - fx; top = fy; bottom = 1 - fy;
               nearest = min (min left right) (min top bottom)
           in if nearest = left then Left
              else if nearest = right then Right
              else if nearest = top then Top else Bottom)"

text \<open>The part of the pane (at the origin) the drop indicator covers: left, top, width, height.\<close>

definition dropRect :: "int \<Rightarrow> int \<Rightarrow> PaneDropZone \<Rightarrow> int \<times> int \<times> int \<times> int" where
  "dropRect width height zone =
     (let halfW = width div 2; halfH = height div 2
      in case zone of
           Left \<Rightarrow> (0, 0, halfW, height)
         | Right \<Rightarrow> (halfW, 0, width - halfW, height)
         | Top \<Rightarrow> (0, 0, width, halfH)
         | Bottom \<Rightarrow> (0, halfH, width, height - halfH)
         | Swap \<Rightarrow> (halfW div 4, halfH div 4, width - 2 * (halfW div 4), height - 2 * (halfH div 4)))"

subsection \<open>Properties\<close>



text \<open>
  No handler of a pane ever touches the overlay before it exists: in every reachable state every
  enabled event is handled (the result is never the null pointer access).
\<close>

theorem pane_handlers_defined:
  assumes "pane_reachable p" and "enabled e p"
  shows "\<exists>p'. pane_handle e p = Some p'"
  using pane_handle_spec [OF reachable_pane_inv [OF assms(1)] assms(2)] by blast

theorem pane_handlers_defined_witness:
  "\<exists>p'. pane_handle (TransportReports Error) (pane_connectToHost (pane_initial HexMode False)) = Some p'"
  by (rule pane_handlers_defined [OF reach_start])
    (simp add: pane_connectToHost_def pane_initial_def act_def)

text \<open>
  A transport in the middle of connecting is never replaced: whatever happens in that state, no
  step of the pane tears it down.
\<close>

theorem connecting_transport_kept:
  assumes "p_transport p = Connecting" and "pane_step p e p'"
  shows "replacements p' = replacements p"
proof -
  from assms(2) obtain h: "pane_handle e p = Some p'"
    by (rule pane_stepE)
  have sched: "replacements q = replacements r" if "scheduleReconnect r = Some q" for r q
    using that
    by (auto simp: scheduleReconnect_def setLabel_def setButton_def showOverlay_def updateOverlayText_def
        ensureOverlay_def replacements_def bind_eq_Some_conv split: if_splits option.splits)
  have prompt: "replacements q = replacements r" if "showManualReconnectPrompt r = Some q" for r q
    using that
    by (auto simp: showManualReconnectPrompt_def setLabel_def setButton_def showOverlay_def
        ensureOverlay_def replacements_def bind_eq_Some_conv split: if_splits option.splits)
  have upd: "replacements (r\<lparr>p_transport := st\<rparr>) = replacements r" for r st
    by (simp add: replacements_def)
  show ?thesis
  proof (cases e)
    case (TransportReports st)
    with h show ?thesis
      by (auto simp: onStateChanged_def hideOverlay_def upd replacements_def dest!: sched prompt split: if_splits)
  next
    case CountdownTimeout
    with h show ?thesis
      by (auto simp: tickCountdown_def updateOverlayText_def setLabel_def replacements_def Let_def split: if_splits)
  qed (use h assms(1) in \<open>auto simp: doReconnectNow_def overlayButtonClicked_def cancelReconnect_def hideOverlay_def
      respawn_def reconfigure_def canRespawn_def replacements_def Let_def\<close>)
qed

theorem connecting_transport_kept_witness:
  "replacements (respawn ((pane_initial TerminalMode True)\<lparr>p_transport := Connecting\<rparr>)) =
     replacements ((pane_initial TerminalMode True)\<lparr>p_transport := Connecting\<rparr>)"
  by (rule connecting_transport_kept [where e = Respawn]) (simp_all add: pane_step_simps)

text \<open>
  C20. During an outage the retry delay never grows and the retries never stop: after any number of
  failed attempts the next failure is again scheduled as attempt 1 with the delay of one second,
  because every automatic retry resets the attempt counter. The back-off up to 30 seconds and the
  limit of six attempts of the policy are not reached.
\<close>

theorem retry_delay_never_grows:
  assumes "p_transport p = Connecting" and "p_autoReconnect p" and "\<not> p_gaveUp p" and "p_attempt p = 0"
  shows "\<exists>r q. failed_attempts n p = Some r \<and> replacements r = n + replacements p \<and>
     pane_handle (TransportReports Error) r = Some q \<and>
     p_attempt q = 1 \<and> p_reconnectTimer q = Some 1000 \<and> \<not> p_gaveUp q"
proof -
  have "waiting_first p" using assms by (simp add: waiting_first_def)
  then obtain r where "failed_attempts n p = Some r" "waiting_first r" "replacements r = n + replacements p"
    using failed_attempts_again by blast
  with error_schedules_first show ?thesis by blast
qed

theorem retry_delay_never_grows_witness:
  "\<exists>r q. failed_attempts 1000 ((pane_initial TerminalMode True)\<lparr>p_transport := Connecting\<rparr>) = Some r \<and>
     replacements r = 1000 + 0 \<and> pane_handle (TransportReports Error) r = Some q \<and>
     p_attempt q = 1 \<and> p_reconnectTimer q = Some 1000 \<and> \<not> p_gaveUp q"
  using retry_delay_never_grows [of "(pane_initial TerminalMode True)\<lparr>p_transport := Connecting\<rparr>" 1000]
  by (simp add: pane_initial_def replacements_def)

text \<open>
  The delays of the policy: for attempts 1 to 32 the delay is \<open>2 ^ (attempt - 1)\<close> seconds but at
  most 30, so 1, 2, 4, 8, 16, 30 for the attempts the pane may make; the cap also covers the
  negative value the shift yields for attempt 32.
\<close>

theorem delay_is_capped_doubling:
  assumes "1 \<le> a" and "a \<le> 32"
  shows "delaySecondsForAttempt a = Some (min 30 (2 ^ nat (a - 1)))"
proof -
  have "\<forall>k \<in> set [1..<33]. delaySecondsForAttempt (int k) = Some (min 30 (2 ^ nat (int k - 1)))"
    by code_simp
  moreover have "nat a \<in> set [1..<33]" using assms by auto
  ultimately have "delaySecondsForAttempt (int (nat a)) = Some (min 30 (2 ^ nat (int (nat a) - 1)))"
    by blast
  then show ?thesis using assms by simp
qed

theorem delay_is_capped_doubling_witness:
  "delaySecondsForAttempt 4 = Some 8 \<and> delaySecondsForAttempt 32 = Some 30"
  using delay_is_capped_doubling [of 4] delay_is_capped_doubling [of 32] by simp

text \<open>
  A log with time stamps holds the received bytes unchanged with one stamp before the first byte
  of every line and nowhere else, however the stream was cut into chunks.
\<close>

theorem log_stamps_every_line:
  "\<exists>f. l_file (fold onDataForLogging ds (startLogging True True l)) = Some f \<and>
     log_contents f = stamped True (concat ds)"
  using log_run_stamped [of "startLogging True True l" "[]" ds]
  by (auto simp: startLogging_def Let_def)

end
