(* ===== verification/HexDump.thy ===== *)
theory HexDump
  imports Prelude
begin

text \<open>
  The hex viewer of a pane (\<open>src/src/terminal/HexDumpWidget.cpp\<close>): bytes arrive in chunks, complete
  16-byte rows are formatted as they fill, and the buffer is trimmed row-wise from the front once it
  exceeds 1 MiB. The text edit's document is its list of lines.

  The specification \<open>hex_spec\<close> says what the widget shows as a function of the stream received since
  the last \<open>clear\<close> alone; \<open>hex_run_spec\<close> is the refinement.
\<close>

datatype grouping = Byte | Word | Dword

definition groupSize :: "grouping \<Rightarrow> nat" where
  "groupSize g = (case g of Byte \<Rightarrow> 1 | Word \<Rightarrow> 2 | Dword \<Rightarrow> 4)"

definition kMaxBufferedBytes :: nat where
  "kMaxBufferedBytes = 1 * 1024 * 1024"

definition kBytesPerRow :: nat where
  "kBytesPerRow = 16"

text \<open>Upper-case hexadecimal with zero fill: \<open>arg(n, width, 16, '0').toUpper()\<close>.\<close>

definition hex_digit :: "nat \<Rightarrow> char" where
  "hex_digit d = ''0123456789ABCDEF'' ! d"

function hex_digits :: "nat \<Rightarrow> string" where
  "hex_digits n = (if n < 16 then [hex_digit n] else hex_digits (n div 16) @ [hex_digit (n mod 16)])"
  by pat_completeness auto
termination
  by (relation "measure id") auto

declare hex_digits.simps [simp del]

definition hex_fill :: "nat \<Rightarrow> nat \<Rightarrow> string" where
  "hex_fill width n = (let ds = hex_digits n in replicate (width - length ds) CHR ''0'' @ ds)"

definition leftJustified :: "nat \<Rightarrow> string \<Rightarrow> string" where
  "leftJustified width s = s @ replicate (width - length s) CHR '' ''"

text \<open>The loop of \<open>hexPartOnly\<close> from index \<open>i\<close> on.\<close>

fun hexPart_from :: "nat \<Rightarrow> nat \<Rightarrow> bytes \<Rightarrow> string" where
  "hexPart_from g i [] = []"
| "hexPart_from g i (b # bs) =
     hex_fill 2 (unat b) @
     (if bs \<noteq> [] \<and> (i + 1) mod g = 0 then '' '' else []) @ hexPart_from g (i + 1) bs"

definition hexPartOnly :: "bytes \<Rightarrow> grouping \<Rightarrow> string" where
  "hexPartOnly rowBytes g = hexPart_from (groupSize g) 0 rowBytes"

definition fullRowHexWidth :: "grouping \<Rightarrow> nat" where
  "fullRowHexWidth g = length (hexPartOnly (replicate 16 0) g)"

definition ascii_column :: "bytes \<Rightarrow> string" where
  "ascii_column rowBytes =
     map (\<lambda>b. if b \<ge> 0x20 \<and> b < 0x7f then char_of (unat b) else CHR ''.'') rowBytes"

definition formatRow :: "nat \<Rightarrow> bytes \<Rightarrow> grouping \<Rightarrow> string" where
  "formatRow off rowBytes g =
     hex_fill 8 off @ ''  '' @ leftJustified (fullRowHexWidth g) (hexPartOnly rowBytes g) @
     ''  |'' @ ascii_column rowBytes @ ''|''"

record hexdump =
  h_lines :: "string list"
  h_buffer :: bytes
  h_dropped :: nat
  h_formatted :: nat
  h_grouping :: grouping

definition hex_initial :: hexdump where
  "hex_initial = \<lparr>h_lines = [], h_buffer = [], h_dropped = 0, h_formatted = 0, h_grouping = Byte\<rparr>"

text \<open>The \<open>while\<close> loop of \<open>appendData\<close>: the new lines and the new \<open>m_formattedOffset\<close>.\<close>

function format_new :: "bytes \<Rightarrow> nat \<Rightarrow> grouping \<Rightarrow> nat \<Rightarrow> string list \<times> nat" where
  "format_new buffer dropped g formatted =
     (if length buffer - formatted \<ge> kBytesPerRow \<and> formatted \<le> length buffer then
        let row = take kBytesPerRow (drop formatted buffer);
            (rest, formatted') = format_new buffer dropped g (formatted + kBytesPerRow)
        in (formatRow (dropped + formatted) row g # rest, formatted')
      else ([], formatted))"
  by pat_completeness auto
termination
  by (relation "measure (\<lambda>(b, d, g, f). length b - f)") (auto simp: kBytesPerRow_def)

declare format_new.simps [simp del]

definition hex_trim :: "hexdump \<Rightarrow> hexdump" where
  "hex_trim h =
     (if length (h_buffer h) > kMaxBufferedBytes then
        let excess = length (h_buffer h) - kMaxBufferedBytes;
            rowsToTrim = (excess + kBytesPerRow - 1) div kBytesPerRow;
            bytesToTrim = min (rowsToTrim * kBytesPerRow) (h_formatted h)
        in if bytesToTrim > 0 then
             h\<lparr>h_buffer := drop bytesToTrim (h_buffer h),
               h_dropped := h_dropped h + bytesToTrim,
               h_formatted := h_formatted h - bytesToTrim,
               h_lines := drop (bytesToTrim div kBytesPerRow) (h_lines h)\<rparr>
           else h
      else h)"

definition appendData :: "bytes \<Rightarrow> hexdump \<Rightarrow> hexdump" where
  "appendData data h =
     (if data = [] then h
      else
        let buffer = h_buffer h @ data;
            (newLines, formatted') = format_new buffer (h_dropped h) (h_grouping h) (h_formatted h)
        in hex_trim (h\<lparr>h_buffer := buffer, h_lines := h_lines h @ newLines, h_formatted := formatted'\<rparr>))"

definition hex_clear :: "hexdump \<Rightarrow> hexdump" where
  "hex_clear h = h\<lparr>h_buffer := [], h_dropped := 0, h_formatted := 0, h_lines := []\<rparr>"

text \<open>The \<open>for\<close> loop of \<open>rebuildDisplay\<close>, over the offsets below \<open>m_formattedOffset\<close>.\<close>

definition rebuildDisplay :: "hexdump \<Rightarrow> hexdump" where
  "rebuildDisplay h =
     h\<lparr>h_lines := map (\<lambda>k. formatRow (h_dropped h + k * kBytesPerRow)
                             (take kBytesPerRow (drop (k * kBytesPerRow) (h_buffer h))) (h_grouping h))
          [0 ..< (h_formatted h + kBytesPerRow - 1) div kBytesPerRow]\<rparr>"

definition setGrouping :: "grouping \<Rightarrow> hexdump \<Rightarrow> hexdump" where
  "setGrouping g h = (if h_grouping h = g then h else rebuildDisplay (h\<lparr>h_grouping := g\<rparr>))"

datatype hex_event = HexData bytes | HexClear | HexGrouping grouping

fun hex_handle :: "hex_event \<Rightarrow> hexdump \<Rightarrow> hexdump" where
  "hex_handle (HexData d) h = appendData d h"
| "hex_handle HexClear h = hex_clear h"
| "hex_handle (HexGrouping g) h = setGrouping g h"

subsection \<open>What the widget shows, as a function of the stream\<close>

definition hex_trimmed :: "bytes \<Rightarrow> nat" where
  "hex_trimmed xs = 16 * ((length xs - kMaxBufferedBytes + 15) div 16)"

definition hex_row :: "grouping \<Rightarrow> bytes \<Rightarrow> nat \<Rightarrow> string" where
  "hex_row g xs off = formatRow off (take 16 (drop off xs)) g"

definition hex_spec :: "grouping \<Rightarrow> bytes \<Rightarrow> hexdump" where
  "hex_spec g xs =
     (let d = hex_trimmed xs; rows = (length xs - d) div 16
      in \<lparr>h_lines = map (\<lambda>k. hex_row g xs (d + 16 * k)) [0 ..< rows],
          h_buffer = drop d xs, h_dropped = d, h_formatted = 16 * rows, h_grouping = g\<rparr>)"

fun hex_abs :: "hex_event \<Rightarrow> grouping \<times> bytes \<Rightarrow> grouping \<times> bytes" where
  "hex_abs (HexData d) (g, xs) = (g, xs @ d)"
| "hex_abs HexClear (g, xs) = (g, [])"
| "hex_abs (HexGrouping g') (g, xs) = (g', xs)"

lemma format_new_spec:
  assumes "f \<le> length buffer"
  shows "format_new buffer d g f =
    (map (\<lambda>k. formatRow (d + (f + 16 * k)) (take 16 (drop (f + 16 * k) buffer)) g)
       [0 ..< (length buffer - f) div 16], f + 16 * ((length buffer - f) div 16))"
  using assms
proof (induction buffer d g f rule: format_new.induct)
  case (1 buffer d g f)
  show ?case
  proof (cases "length buffer - f \<ge> 16")
    case False
    then show ?thesis
      using "1.prems" by (subst format_new.simps) (simp add: kBytesPerRow_def)
  next
    case True
    let ?n = "(length buffer - (f + 16)) div 16"
    have n: "(length buffer - f) div 16 = Suc ?n"
      using True by (simp add: le_div_geq flip: diff_diff_left)
    have IH: "format_new buffer d g (f + 16) =
      (map (\<lambda>k. formatRow (d + (f + 16 + 16 * k)) (take 16 (drop (f + 16 + 16 * k) buffer)) g) [0 ..< ?n],
       f + 16 + 16 * ?n)"
      using "1.IH" [of "take 16 (drop f buffer)"] True "1.prems" by (simp add: kBytesPerRow_def)
    have upt: "[0 ..< Suc ?n] = 0 # map Suc [0 ..< ?n]"
      by (simp only: upt_conv_Cons [OF zero_less_Suc] map_Suc_upt)
    show ?thesis
      unfolding n upt
      using True "1.prems" by (subst format_new.simps) (simp add: kBytesPerRow_def IH algebra_simps)
  qed
qed

lemma hex_trimmed_mono: "hex_trimmed xs \<le> hex_trimmed (xs @ c)"
  by (simp add: hex_trimmed_def div_le_mono)

lemma hex_trimmed_dvd [simp]: "16 dvd hex_trimmed xs"
  by (simp add: hex_trimmed_def)

lemma hex_trimmed_le: "hex_trimmed xs \<le> length xs"
proof (cases "length xs \<le> kMaxBufferedBytes")
  case True
  then show ?thesis by (simp add: hex_trimmed_def)
next
  case False
  have "16 * ((length xs - kMaxBufferedBytes + 15) div 16) \<le> length xs - kMaxBufferedBytes + 15"
    by simp
  moreover have "(15 :: nat) \<le> kMaxBufferedBytes" by (simp add: kMaxBufferedBytes_def)
  ultimately show ?thesis using False by (simp add: hex_trimmed_def)
qed

lemma hex_spec_fields [simp]:
  "h_grouping (hex_spec g xs) = g"
  "h_buffer (hex_spec g xs) = drop (hex_trimmed xs) xs"
  "h_dropped (hex_spec g xs) = hex_trimmed xs"
  "h_formatted (hex_spec g xs) = 16 * ((length xs - hex_trimmed xs) div 16)"
  "h_lines (hex_spec g xs) =
     map (\<lambda>k. hex_row g xs (hex_trimmed xs + 16 * k)) [0 ..< (length xs - hex_trimmed xs) div 16]"
  by (simp_all add: hex_spec_def Let_def)

lemma hex_buffer_bounded: "length (drop (hex_trimmed xs) xs) \<le> kMaxBufferedBytes"
proof -
  have "length xs - kMaxBufferedBytes \<le> 16 * ((length xs - kMaxBufferedBytes + 15) div 16)"
    by linarith
  then show ?thesis by (simp add: hex_trimmed_def)
qed

text \<open>A row that was already complete does not change when more bytes arrive.\<close>

lemma hex_row_append:
  assumes "off + 16 \<le> length xs"
  shows "hex_row g (xs @ c) off = hex_row g xs off"
  using assms by (simp add: hex_row_def)

lemma upt_split_map:
  assumes "a \<le> b"
  shows "map f [0 ..< b] = map f [0 ..< a] @ map (\<lambda>k. f (a + k)) [0 ..< b - a]"
proof -
  have "[0 ..< b] = [0 ..< a] @ [a ..< b]" using assms upt_add_eq_append [of 0 a "b - a"] by simp
  moreover have "[a ..< b] = map (\<lambda>k. a + k) [0 ..< b - a]"
    using assms map_add_upt [of a "b - a"] by (simp add: add.commute)
  ultimately show ?thesis by (simp add: comp_def)
qed

text \<open>Before trimming, an append extends the spec without moving its start.\<close>

lemma div16_diff: "16 * q \<le> L \<Longrightarrow> (L - 16 * q) div 16 = L div 16 - (q :: nat)"
proof -
  assume "16 * q \<le> L"
  then obtain e where "L = e + 16 * q" by (metis le_add_diff_inverse2)
  then show ?thesis by simp
qed

lemma append_formats:
  assumes "d \<le> length xs"
  shows "format_new (drop d xs @ c) d g (16 * ((length xs - d) div 16)) =
           (map (\<lambda>k. hex_row g (xs @ c) (d + 16 * ((length xs - d) div 16 + k)))
              [0 ..< (length (xs @ c) - d) div 16 - (length xs - d) div 16],
            16 * ((length (xs @ c) - d) div 16))"
proof -
  let ?r = "(length xs - d) div 16"
  let ?L = "length xs + length c - d"
  have len: "length (drop d xs @ c) = ?L" using assms by simp
  have le: "16 * ?r \<le> ?L" by linarith
  have n: "(?L - 16 * ?r) div 16 = ?L div 16 - ?r" by (rule div16_diff [OF le])
  have le': "?r \<le> ?L div 16" by (simp add: div_le_mono)
  have row: "take 16 (drop (16 * ?r + 16 * k) (drop d xs @ c)) =
      take 16 (drop (d + 16 * (?r + k)) (xs @ c))" for k
  proof -
    have "drop d xs @ c = drop d (xs @ c)" using assms by simp
    then show ?thesis by (simp only: drop_drop) (simp only: distrib_left ac_simps)
  qed
  have sum: "16 * ?r + 16 * (?L div 16 - ?r) = 16 * (?L div 16)"
    using le' by (metis distrib_left le_add_diff_inverse)
  have off: "d + (16 * ?r + 16 * k) = d + 16 * (?r + k)" for k by simp
  have "format_new (drop d xs @ c) d g (16 * ?r) =
    (map (\<lambda>k. formatRow (d + (16 * ?r + 16 * k)) (take 16 (drop (16 * ?r + 16 * k) (drop d xs @ c))) g)
       [0 ..< (?L - 16 * ?r) div 16], 16 * ?r + 16 * ((?L - 16 * ?r) div 16))"
    using format_new_spec [of "16 * ?r" "drop d xs @ c" d g] le len by simp
  also have "\<dots> = (map (\<lambda>k. hex_row g (xs @ c) (d + 16 * (?r + k))) [0 ..< ?L div 16 - ?r],
                   16 * (?L div 16))"
    unfolding n row off sum hex_row_def ..
  finally show ?thesis by simp
qed

text \<open>The state between formatting and trimming: the rows of the longer stream, old start.\<close>

definition hex_untrimmed :: "grouping \<Rightarrow> nat \<Rightarrow> bytes \<Rightarrow> hexdump" where
  "hex_untrimmed g d xs =
     \<lparr>h_lines = map (\<lambda>k. hex_row g xs (d + 16 * k)) [0 ..< (length xs - d) div 16],
      h_buffer = drop d xs, h_dropped = d, h_formatted = 16 * ((length xs - d) div 16), h_grouping = g\<rparr>"

lemma appendData_untrimmed:
  assumes "c \<noteq> []"
  shows "appendData c (hex_spec g xs) = hex_trim (hex_untrimmed g (hex_trimmed xs) (xs @ c))"
proof -
  let ?d = "hex_trimmed xs"
  let ?r = "(length xs - ?d) div 16" and ?r' = "(length (xs @ c) - ?d) div 16"
  have d: "?d \<le> length xs" by (rule hex_trimmed_le)
  have old: "map (\<lambda>k. hex_row g xs (?d + 16 * k)) [0 ..< ?r] =
      map (\<lambda>k. hex_row g (xs @ c) (?d + 16 * k)) [0 ..< ?r]"
  proof (rule map_cong [OF refl])
    fix k assume "k \<in> set [0 ..< ?r]"
    then have "k + 1 \<le> ?r" by simp
    then have "16 * (k + 1) \<le> length xs - ?d" by (simp add: less_eq_div_iff_mult_less_eq)
    then show "hex_row g xs (?d + 16 * k) = hex_row g (xs @ c) (?d + 16 * k)"
      using d by (subst hex_row_append) simp_all
  qed
  have le: "?r \<le> ?r'" by (simp add: div_le_mono)
  show ?thesis
    using assms d append_formats [OF d, of c g] upt_split_map [OF le, of "\<lambda>k. hex_row g (xs @ c) (?d + 16 * k)"]
    by (simp add: appendData_def Let_def hex_untrimmed_def old hex_spec_def)
qed

lemma hex_trimmed_append:
  "hex_trimmed (xs @ c) =
     hex_trimmed xs + 16 * ((length (xs @ c) - hex_trimmed xs - kMaxBufferedBytes + 15) div 16)"
proof -
  obtain q where d: "hex_trimmed xs = 16 * q" using hex_trimmed_dvd [of xs] by blast
  show ?thesis
  proof (cases "kMaxBufferedBytes + 16 * q \<le> length (xs @ c)")
    case True
    then have "length (xs @ c) - kMaxBufferedBytes + 15 =
        length (xs @ c) - 16 * q - kMaxBufferedBytes + 15 + 16 * q" by simp
    then have "(length (xs @ c) - kMaxBufferedBytes + 15) div 16 =
        (length (xs @ c) - 16 * q - kMaxBufferedBytes + 15) div 16 + q" by simp
    then show ?thesis by (simp add: d hex_trimmed_def [of "xs @ c"])
  next
    case False
    have "hex_trimmed (xs @ c) \<le> 16 * q"
    proof -
      have "length (xs @ c) - kMaxBufferedBytes + 15 \<le> 16 * q + 15" using False by simp
      then have "(length (xs @ c) - kMaxBufferedBytes + 15) div 16 \<le> (16 * q + 15) div 16"
        by (rule div_le_mono)
      then show ?thesis by (simp add: hex_trimmed_def [of "xs @ c"])
    qed
    moreover have "16 * q \<le> hex_trimmed (xs @ c)" using hex_trimmed_mono [of xs c] d by simp
    ultimately show ?thesis using False by (simp add: d)
  qed
qed

lemma hex_untrimmed_eq_spec: "hex_untrimmed g (hex_trimmed xs) xs = hex_spec g xs"
  by (simp add: hex_untrimmed_def hex_spec_def Let_def)

lemma hex_trim_untrimmed:
  assumes "16 dvd d" "d \<le> length xs" "hex_trimmed xs = d + 16 * ((length xs - d - kMaxBufferedBytes + 15) div 16)"
  shows "hex_trim (hex_untrimmed g d xs) = hex_spec g xs"
proof (cases "length xs - d > kMaxBufferedBytes")
  case False
  then have "hex_trimmed xs = d" using assms(3) by simp
  then show ?thesis
    using False hex_untrimmed_eq_spec [of g xs] by (simp add: hex_trim_def hex_untrimmed_def)
next
  case True
  let ?q = "(length xs - d - kMaxBufferedBytes + 15) div 16"
  let ?r = "(length xs - d) div 16"
  have t: "hex_trimmed xs = d + 16 * ?q" by (rule assms(3))
  have q: "0 < ?q" using True by (simp add: div_greater_zero_iff)
  have qr: "?q \<le> ?r" by (rule div_le_mono) (use True in \<open>simp add: kMaxBufferedBytes_def\<close>)
  have rows: "(length xs - (d + 16 * ?q)) div 16 = ?r - ?q"
  proof -
    have "16 * ?q \<le> length xs - d" using qr by (metis div_times_less_eq_dividend less_eq_div_iff_mult_less_eq mult.commute zero_less_numeral)
    then show ?thesis by (simp only: div16_diff flip: diff_diff_left)
  qed
  have lines: "drop ?q (map (\<lambda>k. hex_row g xs (d + 16 * k)) [0 ..< ?r]) =
      map (\<lambda>k. hex_row g xs (d + 16 * ?q + 16 * k)) [0 ..< ?r - ?q]"
    using qr upt_split_map [of ?q ?r "\<lambda>k. hex_row g xs (d + 16 * k)"] by (simp add: distrib_left add.assoc)
  have e: "(length (drop d xs) - kMaxBufferedBytes + kBytesPerRow - 1) div kBytesPerRow = ?q"
    by (simp add: kBytesPerRow_def)
  have m: "min (?q * kBytesPerRow) (16 * ?r) = 16 * ?q" using qr by (simp add: kBytesPerRow_def)
  have k: "16 * ?q div kBytesPerRow = ?q" by (simp add: kBytesPerRow_def)
  have b: "drop (16 * ?q) (drop d xs) = drop (d + 16 * ?q) xs"
    by (simp only: drop_drop add.commute [of d])
  have c: "kMaxBufferedBytes < length (drop d xs)" using True by simp
  show ?thesis
    unfolding hex_trim_def hex_untrimmed_def hex_spec_def Let_def hexdump.select_convs e m k lines b t rows
    using q c by (simp only: if_True hexdump.update_convs mult_pos_pos zero_less_numeral diff_mult_distrib2)
qed

lemma appendData_spec: "appendData c (hex_spec g xs) = hex_spec g (xs @ c)"
proof (cases "c = []")
  case True
  then show ?thesis by (simp add: appendData_def)
next
  case False
  have "hex_trimmed xs \<le> length (xs @ c)" using hex_trimmed_le [of xs] by simp
  then show ?thesis
    using False hex_trim_untrimmed [of "hex_trimmed xs" "xs @ c" g] hex_trimmed_append [of xs c]
    by (simp add: appendData_untrimmed)
qed

lemma hex_clear_spec: "hex_clear (hex_spec g xs) = hex_spec g []"
  by (simp add: hex_clear_def hex_spec_def hex_trimmed_def Let_def)

lemma rebuild_spec: "rebuildDisplay (hex_spec g xs\<lparr>h_grouping := g'\<rparr>) = hex_spec g' xs"
proof -
  let ?d = "hex_trimmed xs" and ?r = "(length xs - hex_trimmed xs) div 16"
  have rows: "(16 * ?r + kBytesPerRow - 1) div kBytesPerRow = ?r" by (simp add: kBytesPerRow_def)
  have line: "formatRow (?d + k * kBytesPerRow) (take kBytesPerRow (drop (k * kBytesPerRow) (drop ?d xs))) g' =
      hex_row g' xs (?d + 16 * k)" for k
    by (simp add: hex_row_def kBytesPerRow_def ac_simps)
  show ?thesis
    unfolding rebuildDisplay_def hex_spec_def Let_def hexdump.select_convs hexdump.update_convs rows line
    ..
qed

lemma setGrouping_spec: "setGrouping g' (hex_spec g xs) = hex_spec g' xs"
  by (simp add: setGrouping_def rebuild_spec)

lemma hex_initial_spec: "hex_initial = hex_spec Byte []"
  by (simp add: hex_initial_def hex_spec_def hex_trimmed_def Let_def)

text \<open>One event: the widget's state and the abstract stream move together.\<close>

lemma hex_handle_spec:
  "hex_handle e (hex_spec g xs) = (case hex_abs e (g, xs) of (g', ys) \<Rightarrow> hex_spec g' ys)"
  by (cases e) (simp_all add: appendData_spec hex_clear_spec setGrouping_spec)

lemma hex_fold_spec:
  "fold hex_handle es (hex_spec g xs) = (case fold hex_abs es (g, xs) of (g', ys) \<Rightarrow> hex_spec g' ys)"
proof (induction es arbitrary: g xs)
  case Nil
  then show ?case by simp
next
  case (Cons e es)
  then show ?case by (cases "hex_abs e (g, xs)") (simp add: hex_handle_spec)
qed

subsection \<open>Properties\<close>

text \<open>
  C21. Whatever the sequence of chunks, clears and regroupings, the hex viewer's whole state is
  the one-shot rendering of the bytes received since the last clear under the current grouping:
  incremental formatting, front trimming and reflowing never lose, repeat or misplace a row, and
  every row carries its absolute offset in the stream.
\<close>

theorem hex_run_spec:
  "fold hex_handle es hex_initial = (case fold hex_abs es (Byte, []) of (g, xs) \<Rightarrow> hex_spec g xs)"
  by (simp only: hex_initial_spec hex_fold_spec)

text \<open>
  The hex viewer never holds more than 1 MiB once an event has been handled, and fewer than 16
  of the buffered bytes are not yet shown.
\<close>

theorem hex_buffer_bound:
  "length (h_buffer (fold hex_handle es hex_initial)) \<le> kMaxBufferedBytes \<and>
   length (h_buffer (fold hex_handle es hex_initial)) - h_formatted (fold hex_handle es hex_initial) < 16"
proof -
  obtain g xs where "fold hex_abs es (Byte, []) = (g, xs)" by fastforce
  then have "fold hex_handle es hex_initial = hex_spec g xs"
    by (simp only: hex_initial_spec hex_fold_spec prod.case)
  moreover have "L - 16 * (L div 16) < 16" for L :: nat
    by (simp add: minus_mult_div_eq_mod)
  ultimately show ?thesis using hex_buffer_bounded [of xs] by simp
qed

end
