(* ===== verification/ConnSettings.thy ===== *)
theory ConnSettings
  imports Transport
begin

text \<open>
  The settings of the SSH, VNC and RDP connections: \<open>src/src/transports/ssh/SshConnectionSettings.h\<close>,
  \<open>vnc/VncConnectionSettings.h\<close> and \<open>rdp/RdpConnectionSettings.h\<close>. A C++ \<open>int\<close> is an \<open>int\<close>
  whose range is stated by \<open>is_int32\<close> where it matters.
\<close>

definition is_int32 :: "int \<Rightarrow> bool" where
  "is_int32 n \<longleftrightarrow> -(2 ^ 31) \<le> n \<and> n < 2 ^ 31"

datatype auth_method = AuthPassword | AuthPublicKey

record ssh_settings =
  sh_host :: string
  sh_port :: "16 word"
  sh_username :: string
  promptForUsername :: bool
  authMethod :: auth_method
  sh_password :: string
  promptForPassword :: bool
  privateKeyPath :: string
  passphrase :: string
  forwardX11 :: bool

definition default_ssh_settings :: ssh_settings where
  "default_ssh_settings =
     \<lparr>sh_host = [], sh_port = 22, sh_username = [], promptForUsername = False,
      authMethod = AuthPassword, sh_password = [], promptForPassword = False,
      privateKeyPath = [], passphrase = [], forwardX11 = True\<rparr>"

record vnc_settings =
  vs_host :: string
  vs_port :: "16 word"
  vs_password :: string

definition default_vnc_settings :: vnc_settings where
  "default_vnc_settings = \<lparr>vs_host = [], vs_port = 5900, vs_password = []\<rparr>"

record rdp_settings =
  rd_host :: string
  rd_port :: "16 word"
  rd_username :: string
  rd_domain :: string
  rd_password :: string
  desktopWidth :: int
  desktopHeight :: int

definition default_rdp_settings :: rdp_settings where
  "default_rdp_settings =
     \<lparr>rd_host = [], rd_port = 3389, rd_username = [], rd_domain = [], rd_password = [],
      desktopWidth = 1280, desktopHeight = 800\<rparr>"

lemma is_int32_uint16 [simp]: "is_int32 (uint (p :: 16 word))"
proof -
  have lo: "0 \<le> uint p" by (rule uint_nonnegative)
  have "uint p < 2 ^ 16" using uint_bounded [of p] by simp
  then have "uint p < 2147483648" by simp
  with lo have "- 2147483648 \<le> uint p \<and> uint p < 2147483648" by linarith
  then show ?thesis unfolding is_int32_def by simp
qed

end
