(* ===== verification/VncTypes.thy ===== *)
theory VncTypes
  imports Prelude
begin

text \<open>
  The state of the RFB client (\<open>src/src/transports/vnc/VncClient.{h,cpp}\<close>) and the helpers its
  protocol steps share: rectangles and images, the byte accessors, the message writers, and the
  operations that end, open or repaint a connection.

  A step has type \<open>state \<Rightarrow> (bool \<times> state) option\<close>; \<open>None\<close> is undefined behaviour (a read outside
  the receive buffer, a write outside the image, a null socket, signed overflow) or not returning.
  zlib, stb_image, OpenSSL's DES, the UTF-8 decoder and the password dialog are parameters, the
  fields of \<open>vnc_env\<close>.
\<close>

type_synonym rgb = "32 word"

definition qRgb :: "byte \<Rightarrow> byte \<Rightarrow> byte \<Rightarrow> rgb" where
  "qRgb r g b = 0xff000000 OR push_bit 16 (ucast r) OR push_bit 8 (ucast g) OR ucast b"

subsection \<open>Rectangles and images\<close>

text \<open>A \<open>QRect\<close> with a position and a non-negative size, as \<open>QRect(u16, u16, u16, u16)\<close> makes them.\<close>

record qrect =
  r_x :: nat
  r_y :: nat
  r_w :: nat
  r_h :: nat

definition rect_null :: qrect where
  "rect_null = \<lparr>r_x = 0, r_y = 0, r_w = 0, r_h = 0\<rparr>"

definition isNull :: "qrect \<Rightarrow> bool" where
  "isNull r \<longleftrightarrow> r_w r = 0 \<and> r_h r = 0"

definition isValid :: "qrect \<Rightarrow> bool" where
  "isValid r \<longleftrightarrow> 0 < r_w r \<and> 0 < r_h r"

text \<open>\<open>a.contains(b)\<close>: false if either is null, else the comparison of the edges.\<close>

definition rect_contains :: "qrect \<Rightarrow> qrect \<Rightarrow> bool" where
  "rect_contains a b \<longleftrightarrow>
     \<not> isNull a \<and> \<not> isNull b \<and>
     r_x a \<le> r_x b \<and> r_x b + r_w b \<le> r_x a + r_w a \<and>
     r_y a \<le> r_y b \<and> r_y b + r_h b \<le> r_y a + r_h a"

definition united :: "qrect \<Rightarrow> qrect \<Rightarrow> qrect" where
  "united a b =
     (if isNull a then b else if isNull b then a
      else let x = min (r_x a) (r_x b); y = min (r_y a) (r_y b)
           in \<lparr>r_x = x, r_y = y,
               r_w = max (r_x a + r_w a) (r_x b + r_w b) - x,
               r_h = max (r_y a + r_h a) (r_y b + r_h b) - y\<rparr>)"

text \<open>\<open>a.intersected(b)\<close>: the null rectangle when an edge of one lies beyond the other.\<close>

definition intersected :: "qrect \<Rightarrow> qrect \<Rightarrow> qrect" where
  "intersected a b =
     (if isNull a \<or> isNull b \<or>
         r_x a \<ge> r_x b + r_w b \<or> r_x b \<ge> r_x a + r_w a \<or> r_y a \<ge> r_y b + r_h b \<or> r_y b \<ge> r_y a + r_h a
      then rect_null
      else let x = max (r_x a) (r_x b); y = max (r_y a) (r_y b)
           in \<lparr>r_x = x, r_y = y,
               r_w = min (r_x a + r_w a) (r_x b + r_w b) - x,
               r_h = min (r_y a + r_h a) (r_y b + r_h b) - y\<rparr>)"

definition in_rect :: "qrect \<Rightarrow> nat \<Rightarrow> nat \<Rightarrow> bool" where
  "in_rect r x y \<longleftrightarrow> r_x r \<le> x \<and> x < r_x r + r_w r \<and> r_y r \<le> y \<and> y < r_y r + r_h r"

text \<open>A \<open>Format_RGB32\<close> image; \<open>i_px x y\<close> is the pixel in column \<open>x\<close> of \<open>scanLine(y)\<close>.\<close>

record image =
  i_w :: nat
  i_h :: nat
  i_px :: "nat \<Rightarrow> nat \<Rightarrow> rgb"

definition image_null :: image where
  "image_null = \<lparr>i_w = 0, i_h = 0, i_px = (\<lambda>_ _. 0)\<rparr>"

definition black_image :: "nat \<Rightarrow> nat \<Rightarrow> image" where
  "black_image w h = \<lparr>i_w = w, i_h = h, i_px = (\<lambda>_ _. qRgb 0 0 0)\<rparr>"

definition image_rect :: "image \<Rightarrow> qrect" where
  "image_rect m = \<lparr>r_x = 0, r_y = 0, r_w = i_w m, r_h = i_h m\<rparr>"

definition set_px :: "nat \<Rightarrow> nat \<Rightarrow> rgb \<Rightarrow> image \<Rightarrow> image option" where
  "set_px x y c m =
     (if x < i_w m \<and> y < i_h m
      then Some (m\<lparr>i_px := (\<lambda>x' y'. if x' = x \<and> y' = y then c else i_px m x' y')\<rparr>)
      else None)"

text \<open>The double loop every decoder has: column \<open>c\<close> of row \<open>r\<close> of a \<open>w\<close> by \<open>h\<close> block at \<open>(x, y)\<close>
  gets the colour \<open>f r c\<close>, where reading the colour may itself be out of range.\<close>

definition blit_row :: "nat \<Rightarrow> nat \<Rightarrow> nat \<Rightarrow> (nat \<Rightarrow> rgb option) \<Rightarrow> image \<Rightarrow> image option" where
  "blit_row w x y f m = for_n w (\<lambda>c m'. do { v \<leftarrow> f c; set_px (x + c) y v m' }) m"

definition blit :: "nat \<Rightarrow> nat \<Rightarrow> nat \<Rightarrow> nat \<Rightarrow> (nat \<Rightarrow> nat \<Rightarrow> rgb option) \<Rightarrow> image \<Rightarrow> image option" where
  "blit w h x y f m = for_n h (\<lambda>r m'. blit_row w x (y + r) (f r) m') m"

definition fillRect :: "nat \<Rightarrow> nat \<Rightarrow> nat \<Rightarrow> nat \<Rightarrow> rgb \<Rightarrow> image \<Rightarrow> image option" where
  "fillRect x y w h color m = blit w h x y (\<lambda>_ _. Some color) m"

subsection \<open>The environment\<close>

datatype zrc = Z_OK | Z_STREAM_END | Z_BUF_ERROR | Z_FAILED

text \<open>
  \<open>e_inflate z inp room\<close> is \<open>inflate(&zs, Z_SYNC_FLUSH)\<close> with \<open>inp\<close> at \<open>next_in\<close> and \<open>room\<close> bytes of
  output space: the code, the next stream state, the number of input bytes used and the output.
  \<open>e_jpeg\<close> is \<open>stbi_load_from_memory(..., 3)\<close>; \<open>e_ask\<close> the password dialog: not set, or its
  answer (\<open>None\<close> = cancelled) and whether the server hung up while the dialog's event loop ran;
  \<open>e_uninit\<close> the contents of an uninitialised local palette.
\<close>

record 'z vnc_env =
  e_inflate :: "'z \<Rightarrow> bytes \<Rightarrow> nat \<Rightarrow> zrc \<times> 'z \<times> nat \<times> bytes"
  e_inflateInit :: "'z option"
  e_inflateReset :: "'z \<Rightarrow> 'z option"
  e_jpeg :: "bytes \<Rightarrow> (nat \<times> nat \<times> bytes) option"
  e_des :: "bytes \<Rightarrow> bytes \<Rightarrow> bytes"
  e_utf8 :: "bytes \<Rightarrow> string"
  e_toInt :: "bytes \<Rightarrow> int"
  e_ask :: "(string option \<times> bool) option"
  e_uninit :: "nat \<Rightarrow> rgb"

text \<open>The \<open>InflateState\<close> of a stream: \<open>None\<close> while not \<open>ready\<close>. A stream pointer may also be null.\<close>

type_synonym 'z inflate_state = "'z option"

definition inflate_reset :: "'z vnc_env \<Rightarrow> 'z inflate_state \<Rightarrow> bool \<times> 'z inflate_state" where
  "inflate_reset env st =
     (case st of
        None \<Rightarrow> (case e_inflateInit env of None \<Rightarrow> (False, None) | Some z \<Rightarrow> (True, Some z))
      | Some z \<Rightarrow> (case e_inflateReset env z of None \<Rightarrow> (False, Some z) | Some z' \<Rightarrow> (True, Some z')))"

subsection \<open>The client\<close>

datatype stage =
  Idle | Version | SecurityTypes | AuthChallenge | SecurityResult | SecurityReason | ServerInit | Running

datatype vnc_effect =
  SocketOpen string "16 word" | SocketAbort | SocketWrite bytes
| Ready | FramebufferChanged qrect | FramebufferResized nat nat | ClipboardText string | Bell
| Failed string | Closed

record vnc_stats =
  st_bytesIn :: "64 word"
  st_updates :: "64 word"
  st_rectsByEncoding :: "int \<Rightarrow> 64 word"
  st_pixelsByEncoding :: "int \<Rightarrow> 64 word"

record 'z vnc =
  v_socket :: bool
  v_buf :: bytes
  v_pos :: nat
  v_stage :: stage
  v_password :: string
  v_minor :: nat
  v_maxMinor :: nat
  v_host :: string
  v_encodings :: "int list"
  v_port :: "16 word"
  v_securityType :: byte
  v_failedAlready :: bool
  v_stats :: vnc_stats
  v_fb :: image
  v_work :: image
  v_desktopName :: string
  v_dirty :: qrect
  v_tightStreams :: "'z inflate_state option list"
  v_zrleStream :: "'z inflate_state option"
  v_lastRectMode :: bool
  v_resized :: bool
  v_rectsLeft :: int
  v_inRect :: bool
  v_rect :: qrect
  v_encoding :: int
  v_tileX :: nat
  v_tileY :: nat
  v_hexBg :: rgb
  v_hexFg :: rgb
  v_log :: "vnc_effect list"

type_synonym 'z vnc_result = "(bool \<times> 'z vnc) option"

definition vnc_initial :: "int list \<Rightarrow> 'z vnc" where
  "vnc_initial encodings =
     \<lparr>v_socket = False, v_buf = [], v_pos = 0, v_stage = Idle, v_password = [], v_minor = 3,
      v_maxMinor = 8, v_host = [], v_encodings = encodings, v_port = 5900, v_securityType = 0,
      v_failedAlready = False,
      v_stats = \<lparr>st_bytesIn = 0, st_updates = 0, st_rectsByEncoding = (\<lambda>_. 0), st_pixelsByEncoding = (\<lambda>_. 0)\<rparr>,
      v_fb = image_null, v_work = image_null, v_desktopName = [], v_dirty = rect_null,
      v_tightStreams = replicate 4 None, v_zrleStream = None, v_lastRectMode = False,
      v_resized = False, v_rectsLeft = 0, v_inRect = False, v_rect = rect_null, v_encoding = 0,
      v_tileX = 0, v_tileY = 0, v_hexBg = qRgb 0 0 0, v_hexFg = qRgb 255 255 255, v_log = []\<rparr>"

definition vemit :: "vnc_effect \<Rightarrow> 'z vnc \<Rightarrow> 'z vnc" where
  "vemit e s = s\<lparr>v_log := v_log s @ [e]\<rparr>"

text \<open>\<open>m_socket->write(...)\<close>: undefined on a null socket.\<close>

definition vwrite :: "bytes \<Rightarrow> 'z vnc \<Rightarrow> 'z vnc option" where
  "vwrite bs s = (if v_socket s then Some (vemit (SocketWrite bs) s) else None)"

definition avail :: "'z vnc \<Rightarrow> nat" where
  "avail s = length (v_buf s) - v_pos s"

definition consume :: "nat \<Rightarrow> 'z vnc \<Rightarrow> 'z vnc" where
  "consume n s = s\<lparr>v_pos := v_pos s + n\<rparr>"

definition u8 :: "'z vnc \<Rightarrow> nat \<Rightarrow> byte option" where
  "u8 s off = rd (v_buf s) (v_pos s + off)"

definition u16 :: "'z vnc \<Rightarrow> nat \<Rightarrow> 16 word option" where
  "u16 s off = do { hi \<leftarrow> u8 s off; lo \<leftarrow> u8 s (off + 1); Some (be16 hi lo) }"

definition u32 :: "'z vnc \<Rightarrow> nat \<Rightarrow> 32 word option" where
  "u32 s off = do { hi \<leftarrow> u16 s off; lo \<leftarrow> u16 s (off + 2); Some (be32 hi lo) }"

text \<open>Wire pixel: B, G, R, pad - little-endian \<open>0x00RRGGBB\<close>, with the alpha byte forced to 0xff.\<close>

definition le32 :: "byte \<Rightarrow> byte \<Rightarrow> byte \<Rightarrow> byte \<Rightarrow> 32 word" where
  "le32 b0 b1 b2 b3 =
     ucast b0 OR push_bit 8 (ucast b1) OR push_bit 16 (ucast b2) OR push_bit 24 (ucast b3)"

definition pixelAt :: "'z vnc \<Rightarrow> nat \<Rightarrow> rgb option" where
  "pixelAt s off =
     do { b0 \<leftarrow> u8 s off; b1 \<leftarrow> u8 s (off + 1); b2 \<leftarrow> u8 s (off + 2); b3 \<leftarrow> u8 s (off + 3);
          Some (0xff000000 OR le32 b0 b1 b2 b3) }"

text \<open>\<open>m_buf.mid(m_pos + off, n)\<close>, which clips at the end of the buffer.\<close>

definition buf_mid :: "'z vnc \<Rightarrow> nat \<Rightarrow> nat \<Rightarrow> bytes" where
  "buf_mid s off n = take n (drop (v_pos s + off) (v_buf s))"

text \<open>\<open>n\<close> bytes behind a raw pointer to offset \<open>off\<close>: undefined unless they are all in the buffer.\<close>

definition buf_ptr :: "'z vnc \<Rightarrow> nat \<Rightarrow> nat \<Rightarrow> bytes option" where
  "buf_ptr s off n = (if v_pos s + off + n \<le> length (v_buf s) then Some (buf_mid s off n) else None)"

definition addDirty :: "qrect \<Rightarrow> 'z vnc \<Rightarrow> 'z vnc" where
  "addDirty r s = s\<lparr>v_dirty := united (v_dirty s) r\<rparr>"

subsection \<open>Messages\<close>

definition putU16 :: "bytes \<Rightarrow> 16 word \<Rightarrow> bytes" where
  "putU16 b v = b @ [ucast (drop_bit 8 v), ucast (v AND 0xff)]"

definition putU32 :: "bytes \<Rightarrow> 32 word \<Rightarrow> bytes" where
  "putU32 b v = putU16 (putU16 b (ucast (drop_bit 16 v))) (ucast (v AND 0xffff))"

text \<open>\<open>QByteArray::number\<close> and \<open>QString::arg\<close> of an integer.\<close>

fun decimal :: "nat \<Rightarrow> string" where
  "decimal n = (if n < 10 then [char_of (48 + n)] else decimal (n div 10) @ [char_of (48 + n mod 10)])"

declare decimal.simps [simp del]

definition decimal_int :: "int \<Rightarrow> string" where
  "decimal_int i = (if i < 0 then ''-'' @ decimal (nat (- i)) else decimal (nat i))"

definition latin1 :: "string \<Rightarrow> bytes" where
  "latin1 t = map (\<lambda>c. of_nat (of_char c)) t"

definition fromLatin1 :: "bytes \<Rightarrow> string" where
  "fromLatin1 bs = map (\<lambda>b. char_of (unat b)) bs"

definition kMaxDesktopDimension :: nat where
  "kMaxDesktopDimension = 16384"

definition kMaxStringLength :: nat where
  "kMaxStringLength = 2 ^ 20"

definition EncRaw :: int where "EncRaw = 0"
definition EncCopyRect :: int where "EncCopyRect = 1"
definition EncHextile :: int where "EncHextile = 5"
definition EncTight :: int where "EncTight = 7"
definition EncZrle :: int where "EncZrle = 16"
definition EncLastRect :: int where "EncLastRect = -224"
definition EncDesktopSize :: int where "EncDesktopSize = -223"
definition EncQualityLevel8 :: int where "EncQualityLevel8 = -24"
definition EncCompressLevel6 :: int where "EncCompressLevel6 = -250"

lemmas enc_defs = EncRaw_def EncCopyRect_def EncHextile_def EncTight_def EncZrle_def
  EncLastRect_def EncDesktopSize_def EncQualityLevel8_def EncCompressLevel6_def

definition defaultEncodings :: "int list" where
  "defaultEncodings =
     [EncTight, EncZrle, EncHextile, EncCopyRect, EncRaw, EncDesktopSize, EncLastRect,
      EncQualityLevel8, EncCompressLevel6]"

definition setPixelFormat :: bytes where
  "setPixelFormat =
     putU16 (putU16 (putU16 ([0] @ replicate 3 0 @ [32, 24, 0, 1]) 255) 255) 255 @ [16, 8, 0] @ replicate 3 0"

definition pixelFormatAndEncodings :: "int list \<Rightarrow> bytes" where
  "pixelFormatAndEncodings encodings =
     fold (\<lambda>e b. putU32 b (word_of_int e)) encodings
       (putU16 (setPixelFormat @ [2, 0]) (of_nat (length encodings)))"

definition sendPixelFormatAndEncodings :: "'z vnc \<Rightarrow> 'z vnc option" where
  "sendPixelFormatAndEncodings s =
     vwrite (pixelFormatAndEncodings (if v_encodings s = [] then defaultEncodings else v_encodings s)) s"

definition requestUpdate :: "bool \<Rightarrow> 'z vnc \<Rightarrow> 'z vnc option" where
  "requestUpdate incremental s =
     (if \<not> v_socket s \<or> i_w (v_work s) = 0 \<or> i_h (v_work s) = 0 then Some s
      else vwrite (putU16 (putU16 (putU16 (putU16 [3, if incremental then 1 else 0] 0) 0)
                     (of_nat (i_w (v_work s)))) (of_nat (i_h (v_work s)))) s)"

subsection \<open>Opening and ending a connection\<close>

text \<open>\<open>close()\<close>: the socket's signals are disconnected before it is aborted, so nothing comes back.\<close>

definition vclose :: "'z vnc \<Rightarrow> 'z vnc" where
  "vclose s =
     (let s1 = s\<lparr>v_stage := Idle\<rparr>
      in if v_socket s1 then (vemit SocketAbort s1)\<lparr>v_socket := False\<rparr> else s1)"

definition fail :: "string \<Rightarrow> 'z vnc \<Rightarrow> 'z vnc" where
  "fail message s =
     (if v_failedAlready s then s
      else vemit Closed (vemit (Failed message) (vclose (s\<lparr>v_failedAlready := True\<rparr>))))"

definition startConnection :: "'z vnc \<Rightarrow> 'z vnc" where
  "startConnection s =
     (let s1 = vclose s;
          s2 = s1\<lparr>v_failedAlready := False, v_buf := [], v_pos := 0, v_stage := Version, v_socket := True\<rparr>
      in vemit (SocketOpen (v_host s2) (v_port s2)) s2)"

definition vnc_connectToHost :: "string \<Rightarrow> 16 word \<Rightarrow> string \<Rightarrow> 'z vnc \<Rightarrow> 'z vnc" where
  "vnc_connectToHost host port password s =
     startConnection (s\<lparr>v_host := host, v_port := port, v_password := password, v_maxMinor := 8\<rparr>)"

definition retryOlderProtocol :: "'z vnc \<Rightarrow> bool \<times> 'z vnc" where
  "retryOlderProtocol s =
     (if v_stage s \<noteq> SecurityTypes \<or> avail s \<noteq> 0 \<or> v_minor s \<le> 3 then (False, s)
      else (True, startConnection (s\<lparr>v_maxMinor := (if v_minor s \<ge> 8 then 7 else 3)\<rparr>)))"

definition onSocketClosed :: "'z vnc \<Rightarrow> 'z vnc" where
  "onSocketClosed s =
     (if v_stage s = Idle then s
      else if v_stage s = Running then vemit Closed (vclose s)
      else case retryOlderProtocol s of
        (True, s') \<Rightarrow> s'
      | (False, s') \<Rightarrow> fail ''Connection closed by the server'' s')"

text \<open>The \<open>errorOccurred\<close> slot; \<open>remote\<close> is \<open>error == RemoteHostClosedError\<close>.\<close>

definition onErrorOccurred :: "bool \<Rightarrow> string \<Rightarrow> 'z vnc \<Rightarrow> 'z vnc" where
  "onErrorOccurred remote errorString s =
     (if v_stage s = Idle then s
      else if remote \<and> v_stage s = Running then s
      else case (if remote then retryOlderProtocol s else (False, s)) of
        (True, s') \<Rightarrow> s'
      | (False, s') \<Rightarrow> fail errorString s')"

subsection \<open>The framebuffers\<close>

definition allocFramebuffer :: "nat \<Rightarrow> nat \<Rightarrow> 'z vnc \<Rightarrow> 'z vnc" where
  "allocFramebuffer w h s = s\<lparr>v_work := black_image w h, v_fb := black_image w h\<rparr>"

definition show_dirty :: "qrect \<Rightarrow> 'z vnc \<Rightarrow> 'z vnc option" where
  "show_dirty dirty s =
     (if isValid dirty then do {
        fb \<leftarrow> blit (r_w dirty) (r_h dirty) (r_x dirty) (r_y dirty)
                (\<lambda>row col. Some (i_px (v_work s) (r_x dirty + col) (r_y dirty + row))) (v_fb s);
        Some (vemit (FramebufferChanged dirty) (s\<lparr>v_fb := fb\<rparr>))
      } else Some s)"

definition finishUpdate :: "'z vnc \<Rightarrow> 'z vnc option" where
  "finishUpdate s = do {
     let s1 = s\<lparr>v_stats := (v_stats s)\<lparr>st_updates := st_updates (v_stats s) + 1\<rparr>\<rparr>;
     let dirty = intersected (v_dirty s1) (image_rect (v_work s1));
     s2 \<leftarrow> show_dirty dirty (s1\<lparr>v_dirty := rect_null\<rparr>);
     s3 \<leftarrow> requestUpdate (\<not> v_resized s2) s2;
     Some (s3\<lparr>v_resized := False\<rparr>)
   }"

end
