(* ===== verification/VncDecode.thy ===== *)
theory VncDecode
  imports VncTypes
begin

text \<open>
  The rectangle decoders of \<open>VncClient.cpp\<close>: zlib chunks, Tight, ZRLE and Hextile. A decoder returns
  \<open>(False, s)\<close> when it needs more data or has failed and \<open>(True, s)\<close> when the rectangle is complete.
\<close>

definition draw :: "(image \<Rightarrow> image option) \<Rightarrow> 'z vnc \<Rightarrow> 'z vnc option" where
  "draw f s = map_option (\<lambda>m. s\<lparr>v_work := m\<rparr>) (f (v_work s))"

subsection \<open>zlib\<close>

text \<open>\<open>inflateChunk\<close> with \<open>expected \<ge> 0\<close>: one call, which must fill the output exactly.\<close>

definition inflateExactly :: "'z vnc_env \<Rightarrow> 'z \<Rightarrow> bytes \<Rightarrow> nat \<Rightarrow> bool \<times> 'z \<times> bytes" where
  "inflateExactly env z inp expected =
     (case e_inflate env z inp expected of (rc, z', used, out) \<Rightarrow>
        (rc \<noteq> Z_FAILED \<and> length out = expected, z', out))"

text \<open>With \<open>expected < 0\<close>: the \<open>for (;;)\<close> loop, which collects everything; \<open>acc\<close> is \<open>*out\<close>.\<close>

partial_function (option) inflateAll ::
  "'z vnc_env \<Rightarrow> 'z \<Rightarrow> bytes \<Rightarrow> bytes \<Rightarrow> (bool \<times> 'z \<times> bytes) option" where
  "inflateAll env z inp acc =
     (case e_inflate env z inp 65536 of (rc, z', used, out) \<Rightarrow>
        if rc = Z_FAILED then Some (False, z', acc @ out)
        else if drop used inp = [] \<and> length out \<noteq> 65536 then Some (True, z', acc @ out)
        else if rc = Z_STREAM_END then Some (True, z', acc @ out)
        else inflateAll env z' (drop used inp) (acc @ out))"

subsection \<open>Tight\<close>

text \<open>The lambda \<open>compactLength\<close>: the bytes used (0 = not all there) and the length.\<close>

definition compactLength :: "'z vnc \<Rightarrow> nat \<Rightarrow> (nat \<times> nat) option" where
  "compactLength s at =
     (if avail s < at + 1 then Some (0, 0)
      else do {
        b0 \<leftarrow> u8 s at;
        let len0 = unat (b0 AND 0x7f);
        if b0 AND 0x80 = 0 then Some (1, len0)
        else if avail s < at + 2 then Some (0, len0)
        else do {
          b1 \<leftarrow> u8 s (at + 1);
          let len1 = len0 OR push_bit 7 (unat (b1 AND 0x7f));
          if b1 AND 0x80 = 0 then Some (2, len1)
          else if avail s < at + 3 then Some (0, len1)
          else do {
            b2 \<leftarrow> u8 s (at + 2);
            Some (3, len1 OR push_bit 14 (unat b2))
          }
        }
      })"

fun reset_streams :: "'z vnc_env \<Rightarrow> byte \<Rightarrow> nat list \<Rightarrow> 'z vnc \<Rightarrow> bool \<times> 'z vnc" where
  "reset_streams env control [] s = (True, s)"
| "reset_streams env control (i # is) s =
     (if bit control i then
        let st = (case v_tightStreams s ! i of None \<Rightarrow> None | Some st \<Rightarrow> st);
            (ok, st') = inflate_reset env st;
            s' = s\<lparr>v_tightStreams := (v_tightStreams s)[i := Some st']\<rparr>
        in if ok then reset_streams env control is s' else (False, fail ''zlib failed'' s')
      else reset_streams env control is s)"

definition tight_fill :: "'z vnc \<Rightarrow> 'z vnc_result" where
  "tight_fill s =
     (if avail s < 1 + 3 then Some (False, s)
      else do {
        r \<leftarrow> u8 s 1; g \<leftarrow> u8 s 2; b \<leftarrow> u8 s 3;
        s1 \<leftarrow> draw (fillRect (r_x (v_rect s)) (r_y (v_rect s)) (r_w (v_rect s)) (r_h (v_rect s)) (qRgb r g b)) s;
        Some (True, consume (1 + 3) s1)
      })"

definition rgb_at :: "bytes \<Rightarrow> nat \<Rightarrow> rgb option" where
  "rgb_at p i = do { r \<leftarrow> rd p i; g \<leftarrow> rd p (i + 1); b \<leftarrow> rd p (i + 2); Some (qRgb r g b) }"

definition tight_jpeg :: "'z vnc_env \<Rightarrow> 'z vnc \<Rightarrow> 'z vnc_result" where
  "tight_jpeg env s = do {
     let w = r_w (v_rect s);
     let h = r_h (v_rect s);
     (n, len) \<leftarrow> compactLength s 1;
     if n = 0 \<or> avail s < 1 + n + len then Some (False, s)
     else do {
       data \<leftarrow> buf_ptr s (1 + n) len;
       case e_jpeg env data of
         None \<Rightarrow> Some (False, fail ''The server sent a bad JPEG rectangle'' s)
       | Some (jw, jh, rgb) \<Rightarrow>
           if jw \<noteq> w \<or> jh \<noteq> h then Some (False, fail ''The server sent a bad JPEG rectangle'' s)
           else do {
             s1 \<leftarrow> draw (blit w h (r_x (v_rect s)) (r_y (v_rect s)) (\<lambda>y x. rgb_at rgb (3 * (y * w + x)))) s;
             Some (True, consume (1 + n + len) s1)
           }
     }
   }"

text \<open>The filter byte and the palette: not all there, an unknown filter, or the filter (0 copy,
  1 palette, 2 gradient), the palette and the offset behind them.\<close>

datatype tight_filter = FilterWait | FilterBad | Filter nat "rgb list" nat

definition tight_palette :: "'z vnc \<Rightarrow> nat \<Rightarrow> nat \<Rightarrow> rgb list option" where
  "tight_palette s pos n =
     for_n n (\<lambda>i p. do {
       r \<leftarrow> u8 s (pos + 3 * i); g \<leftarrow> u8 s (pos + 3 * i + 1); b \<leftarrow> u8 s (pos + 3 * i + 2);
       Some (p @ [qRgb r g b]) }) []"

definition tight_filter :: "byte \<Rightarrow> 'z vnc \<Rightarrow> tight_filter option" where
  "tight_filter control s =
     (if bit control 6 \<and> avail s < 1 + 1 then Some FilterWait
      else do {
        flt \<leftarrow> (if bit control 6 then u8 s 1 else Some 0);
        let pos = (if bit control 6 then 2 else 1);
        if flt = 1 then
          (if avail s < pos + 1 then Some FilterWait
           else do {
             c \<leftarrow> u8 s pos;
             let paletteSize = unat c + 1;
             if avail s < pos + 1 + paletteSize * 3 then Some FilterWait
             else do {
               palette \<leftarrow> tight_palette s (pos + 1) paletteSize;
               Some (Filter 1 palette (pos + 1 + 3 * paletteSize))
             }
           })
        else if flt > 2 then Some FilterBad
        else Some (Filter (unat flt) [] pos)
      })"

text \<open>The pixel bytes: as they are below 12 bytes, else inflated with the rectangle's stream. The
  result is the bytes and the offset behind the rectangle, \<open>None\<close> inside when the step returns false.\<close>

definition tight_data ::
  "'z vnc_env \<Rightarrow> nat \<Rightarrow> nat \<Rightarrow> nat \<Rightarrow> 'z vnc \<Rightarrow> ((bytes \<times> nat) option \<times> 'z vnc) option" where
  "tight_data env stream dataSize pos s =
     (if dataSize < 12 then
        if avail s < pos + dataSize then Some (None, s)
        else do { pixels \<leftarrow> buf_ptr s pos dataSize; Some (Some (pixels, pos + dataSize), s) }
      else do {
        (n, len) \<leftarrow> compactLength s pos;
        if n = 0 \<or> avail s < pos + n + len then Some (None, s)
        else do {
          let (ready, st) = (case v_tightStreams s ! stream of
             None \<Rightarrow> inflate_reset env None | Some st \<Rightarrow> (True, st));
          let s1 = s\<lparr>v_tightStreams := (v_tightStreams s)[stream := Some st]\<rparr>;
          if \<not> ready then Some (None, fail ''zlib failed'' s1)
          else do {
            inp \<leftarrow> buf_ptr s1 (pos + n) len;
            let (ok, st', inflated) = (case st of
               None \<Rightarrow> (False, None, [])
             | Some z \<Rightarrow> (case inflateExactly env z inp dataSize of (ok, z', out) \<Rightarrow> (ok, Some z', out)));
            let s2 = s1\<lparr>v_tightStreams := (v_tightStreams s1)[stream := Some st']\<rparr>;
            if \<not> ok then Some (None, fail ''The server sent corrupt compressed data'' s2)
            else Some (Some (inflated, pos + n + len), s2)
          }
        }
      })"

definition paint_palette ::
  "bytes \<Rightarrow> nat \<Rightarrow> bool \<Rightarrow> rgb list \<Rightarrow> nat \<Rightarrow> nat \<Rightarrow> nat \<Rightarrow> nat \<Rightarrow> image \<Rightarrow> image option" where
  "paint_palette pixels rowBytes onebit palette w h x0 y0 m =
     blit w h x0 y0 (\<lambda>y x.
       if onebit then do {
         b \<leftarrow> rd pixels (y * rowBytes + x div 8);
         rd palette (if bit b (7 - x mod 8) then 1 else 0)
       } else do {
         b \<leftarrow> rd pixels (y * rowBytes + x);
         rd palette (unat b mod length palette)
       }) m"

definition paint_copy :: "bytes \<Rightarrow> nat \<Rightarrow> nat \<Rightarrow> nat \<Rightarrow> nat \<Rightarrow> nat \<Rightarrow> image \<Rightarrow> image option" where
  "paint_copy pixels rowBytes w h x0 y0 m =
     blit w h x0 y0 (\<lambda>y x. rgb_at pixels (y * rowBytes + x * 3)) m"

text \<open>Gradient: component \<open>c\<close> of pixel \<open>x\<close>, from its left, upper and upper-left neighbours.\<close>

definition gradient_component ::
  "bytes \<Rightarrow> nat \<Rightarrow> bytes \<Rightarrow> nat \<Rightarrow> nat \<Rightarrow> bytes \<Rightarrow> bytes option" where
  "gradient_component pixels rowStart prev x c cur = do {
     left \<leftarrow> (if x \<noteq> 0 then rd cur ((x - 1) * 3 + c) else Some 0);
     above \<leftarrow> rd prev (x * 3 + c);
     aboveLeft \<leftarrow> (if x \<noteq> 0 then rd prev ((x - 1) * 3 + c) else Some 0);
     let predicted = qBound 0 (uint left + uint above - uint aboveLeft) 255;
     v \<leftarrow> rd pixels (rowStart + x * 3 + c);
     wr cur (x * 3 + c) (word_of_int (uint v + predicted))
   }"

definition gradient_pixel ::
  "bytes \<Rightarrow> nat \<Rightarrow> bytes \<Rightarrow> nat \<Rightarrow> nat \<Rightarrow> nat \<Rightarrow> bytes \<times> image \<Rightarrow> (bytes \<times> image) option" where
  "gradient_pixel pixels rowStart prev x0 y x st = do {
     cur \<leftarrow> for_n 3 (\<lambda>c. gradient_component pixels rowStart prev x c) (fst st);
     v \<leftarrow> rgb_at cur (x * 3);
     m \<leftarrow> set_px (x0 + x) y v (snd st);
     Some (cur, m)
   }"

definition gradient_row ::
  "bytes \<Rightarrow> nat \<Rightarrow> nat \<Rightarrow> nat \<Rightarrow> nat \<Rightarrow> nat \<Rightarrow> bytes \<times> bytes \<times> image \<Rightarrow> (bytes \<times> bytes \<times> image) option" where
  "gradient_row pixels rowBytes w x0 y0 y st =
     (case st of (previous, current, m) \<Rightarrow> do {
        (cur, m') \<leftarrow> for_n w (gradient_pixel pixels (y * rowBytes) previous x0 (y0 + y)) (current, m);
        Some (cur, previous, m')
      })"

definition paint_gradient :: "bytes \<Rightarrow> nat \<Rightarrow> nat \<Rightarrow> nat \<Rightarrow> nat \<Rightarrow> nat \<Rightarrow> image \<Rightarrow> image option" where
  "paint_gradient pixels rowBytes w h x0 y0 m = do {
     (p, c, m') \<leftarrow> for_n h (gradient_row pixels rowBytes w x0 y0)
                    (replicate (w * 3) 0, replicate (w * 3) 0, m);
     Some m'
   }"

definition tight_paint ::
  "nat \<Rightarrow> rgb list \<Rightarrow> bool \<Rightarrow> bytes \<Rightarrow> nat \<Rightarrow> nat \<Rightarrow> nat \<Rightarrow> nat \<Rightarrow> nat \<Rightarrow> image \<Rightarrow> image option" where
  "tight_paint flt palette onebit pixels rowBytes w h x0 y0 =
     (if flt = 1 then paint_palette pixels rowBytes onebit palette w h x0 y0
      else if flt = 2 then paint_gradient pixels rowBytes w h x0 y0
      else paint_copy pixels rowBytes w h x0 y0)"

text \<open>\<open>dataSize\<close> is an \<open>int\<close>: a product of \<open>2 ^ 31\<close> or more is signed overflow.\<close>

definition tight_basic :: "'z vnc_env \<Rightarrow> byte \<Rightarrow> 'z vnc \<Rightarrow> 'z vnc_result" where
  "tight_basic env control s = do {
     let w = r_w (v_rect s);
     let h = r_h (v_rect s);
     f \<leftarrow> tight_filter control s;
     case f of
       FilterWait \<Rightarrow> Some (False, s)
     | FilterBad \<Rightarrow> Some (False, fail ''The server used an unsupported Tight filter'' s)
     | Filter flt palette pos \<Rightarrow> do {
         let onebit = (flt = 1 \<and> length palette = 2);
         let rowBytes = (if flt = 1 then (if onebit then (w + 7) div 8 else w) else w * 3);
         let dataSize = rowBytes * h;
         if dataSize \<ge> 2 ^ 31 then None
         else do {
           (d, s1) \<leftarrow> tight_data env (unat (drop_bit 4 control AND 3)) dataSize pos s;
           case d of
             None \<Rightarrow> Some (False, s1)
           | Some (pixels, consumed) \<Rightarrow> do {
               s2 \<leftarrow> draw (tight_paint flt palette onebit pixels rowBytes w h
                            (r_x (v_rect s)) (r_y (v_rect s))) s1;
               Some (True, consume consumed s2)
             }
         }
       }
   }"

definition stepTight :: "'z vnc_env \<Rightarrow> 'z vnc \<Rightarrow> 'z vnc_result" where
  "stepTight env s =
     (if avail s < 1 then Some (False, s)
      else do {
        control \<leftarrow> u8 s 0;
        case reset_streams env control [0, 1, 2, 3] s of
          (False, s1) \<Rightarrow> Some (False, s1)
        | (True, s1) \<Rightarrow>
            let kind = unat (drop_bit 4 control)
            in if kind = 8 then tight_fill s1
               else if kind = 9 then tight_jpeg env s1
               else if kind > 9 then
                 Some (False, fail ''The server used an unsupported Tight sub-encoding'' s1)
               else tight_basic env control s1
      })"

subsection \<open>ZRLE\<close>

text \<open>The tile decoders work on the inflated bytes \<open>d\<close> from \<open>pos\<close> on; their state is \<open>ok\<close>, \<open>pos\<close> and
  the image, and a tile that finds too little data clears \<open>ok\<close> and leaves the rest undrawn.\<close>

type_synonym zrle_state = "bool \<times> nat \<times> image"

definition cpixel :: "bytes \<Rightarrow> nat \<Rightarrow> rgb option" where
  "cpixel d pos = do { b \<leftarrow> rd d pos; g \<leftarrow> rd d (pos + 1); r \<leftarrow> rd d (pos + 2); Some (qRgb r g b) }"

text \<open>\<open>QRgb palette[128]\<close>, uninitialised but for the first \<open>n\<close> entries.\<close>

definition zrle_palette :: "'z vnc_env \<Rightarrow> bytes \<Rightarrow> nat \<Rightarrow> nat \<Rightarrow> rgb list option" where
  "zrle_palette env d pos n =
     for_n n (\<lambda>i p. do { c \<leftarrow> cpixel d (pos + 3 * i); wr p i c }) (map (e_uninit env) [0 ..< 128])"

definition zrle_packed ::
  "bytes \<Rightarrow> nat \<Rightarrow> rgb list \<Rightarrow> nat \<Rightarrow> nat \<Rightarrow> nat \<Rightarrow> nat \<Rightarrow> nat \<Rightarrow> image \<Rightarrow> zrle_state option" where
  "zrle_packed d pos palette paletteSize tw th x0 y0 m = (
     let bits = (if paletteSize = 2 then 1 else if paletteSize \<le> 4 then 2 else 4);
         rowBytes = (tw * bits + 7) div 8
     in if pos + rowBytes * th > length d then Some (False, pos, m)
        else do {
          m' \<leftarrow> blit tw th x0 y0 (\<lambda>y x. do {
                  b \<leftarrow> rd d (pos + y * rowBytes + x * bits div 8);
                  let shift = 8 - bits * (x mod (8 div bits) + 1);
                  let index = unat (drop_bit shift b AND mask bits);
                  rd palette (index mod paletteSize) }) m;
          Some (True, pos + rowBytes * th, m')
        })"

definition zrle_put ::
  "nat \<Rightarrow> nat \<Rightarrow> nat \<Rightarrow> rgb \<Rightarrow> nat \<times> nat \<times> image \<Rightarrow> (nat \<times> nat \<times> image) option" where
  "zrle_put tw x0 y0 colour st =
     (case st of (x, y, m) \<Rightarrow> do {
        m' \<leftarrow> set_px (x0 + x) (y0 + y) colour m;
        Some (if x + 1 = tw then (0, y + 1, m') else (x + 1, y, m'))
      })"

text \<open>The run length loop over the bytes at \<open>pos\<close>; \<open>run\<close> is an \<open>int\<close>.\<close>

fun zrle_run :: "bytes \<Rightarrow> nat \<Rightarrow> nat \<Rightarrow> (bool \<times> nat \<times> nat) option" where
  "zrle_run [] run pos = Some (False, run, pos)"
| "zrle_run (b # bs) run pos =
     (if run + unat b \<ge> 2 ^ 31 then None
      else if b \<noteq> 255 then Some (True, run + unat b, pos + 1)
      else zrle_run bs (run + unat b) (pos + 1))"

text \<open>The colour of a run or of a single pixel (\<open>Some False\<close>), \<open>None\<close> inside when data is missing.\<close>

definition zrle_colour ::
  "bytes \<Rightarrow> rgb list \<Rightarrow> nat \<Rightarrow> nat \<Rightarrow> (rgb \<times> bool \<times> nat) option option" where
  "zrle_colour d palette paletteSize pos =
     (if paletteSize = 0 then
        if pos + 3 > length d then Some None
        else do { c \<leftarrow> cpixel d pos; Some (Some (c, True, pos + 3)) }
      else
        if pos + 1 > length d then Some None
        else do {
          index \<leftarrow> rd d pos;
          c \<leftarrow> rd palette (unat (index AND 127) mod paletteSize);
          Some (Some (c, bit index 7, pos + 1))
        })"

fun zrle_rle ::
  "nat \<Rightarrow> bytes \<Rightarrow> rgb list \<Rightarrow> nat \<Rightarrow> nat \<Rightarrow> nat \<Rightarrow> nat \<Rightarrow> nat \<Rightarrow> nat \<Rightarrow> nat \<Rightarrow> nat \<times> nat \<times> image \<Rightarrow> zrle_state option"
where
  "zrle_rle fuel d palette paletteSize tw tileSize x0 y0 done pos st =
     (if \<not> done < tileSize then Some (True, pos, snd (snd st))
      else case fuel of
        0 \<Rightarrow> None
      | Suc fuel' \<Rightarrow> do {
          col \<leftarrow> zrle_colour d palette paletteSize pos;
          case col of
            None \<Rightarrow> Some (False, pos, snd (snd st))
          | Some (colour, isRun, pos1) \<Rightarrow>
              if \<not> isRun then do {
                st' \<leftarrow> zrle_put tw x0 y0 colour st;
                zrle_rle fuel' d palette paletteSize tw tileSize x0 y0 (done + 1) pos1 st'
              } else do {
                (ok, run, pos2) \<leftarrow> zrle_run (drop pos1 d) 1 pos1;
                if \<not> ok then Some (False, pos2, snd (snd st))
                else if done + run \<ge> 2 ^ 31 then None
                else if done + run > tileSize then Some (False, pos2, snd (snd st))
                else do {
                  st' \<leftarrow> for_n run (\<lambda>_. zrle_put tw x0 y0 colour) st;
                  zrle_rle fuel' d palette paletteSize tw tileSize x0 y0 (done + run) pos2 st'
                }
              }
        })"

declare zrle_rle.simps [simp del]

text \<open>The four kinds of tile, once the palette is read.\<close>

definition zrle_draw ::
  "bytes \<Rightarrow> bool \<Rightarrow> rgb list \<Rightarrow> nat \<Rightarrow> nat \<Rightarrow> nat \<Rightarrow> nat \<Rightarrow> nat \<Rightarrow> nat \<Rightarrow> image \<Rightarrow> zrle_state option" where
  "zrle_draw d rle palette paletteSize tw th x0 y0 pos m =
     (if rle then zrle_rle (tw * th) d palette paletteSize tw (tw * th) x0 y0 0 pos (0, 0, m)
      else if paletteSize = 0 then
        (if pos + tw * th * 3 > length d then Some (False, pos, m)
         else do {
           m' \<leftarrow> blit tw th x0 y0 (\<lambda>y x. cpixel d (pos + 3 * (y * tw + x))) m;
           Some (True, pos + tw * th * 3, m')
         })
      else if paletteSize = 1 then do {
        c \<leftarrow> rd palette 0;
        m' \<leftarrow> fillRect x0 y0 tw th c m;
        Some (True, pos, m')
      }
      else zrle_packed d pos palette paletteSize tw th x0 y0 m)"

definition zrle_tile ::
  "'z vnc_env \<Rightarrow> bytes \<Rightarrow> qrect \<Rightarrow> nat \<Rightarrow> nat \<Rightarrow> nat \<Rightarrow> image \<Rightarrow> zrle_state option" where
  "zrle_tile env d rect tx ty pos m = (
     let tw = min 64 (r_w rect - tx); th = min 64 (r_h rect - ty);
         x0 = r_x rect + tx; y0 = r_y rect + ty
     in if pos + 1 > length d then Some (False, pos, m)
        else do {
          sub \<leftarrow> rd d pos;
          let paletteSize = unat (sub AND 127);
          let stored = (if paletteSize > 0 \<and> paletteSize \<noteq> 127 then paletteSize else 0);
          if pos + 1 + stored * 3 > length d then Some (False, pos + 1, m)
          else do {
            palette \<leftarrow> zrle_palette env d (pos + 1) stored;
            zrle_draw d (bit sub 7) palette paletteSize tw th x0 y0 (pos + 1 + 3 * stored) m
          }
        })"

text \<open>The two tile loops, whose conditions include \<open>ok\<close>.\<close>

definition zrle_tiles :: "'z vnc_env \<Rightarrow> bytes \<Rightarrow> qrect \<Rightarrow> image \<Rightarrow> zrle_state option" where
  "zrle_tiles env d rect m =
     for_n ((r_h rect + 63) div 64) (\<lambda>i.
       for_n ((r_w rect + 63) div 64) (\<lambda>j st.
         case st of (ok, pos, m') \<Rightarrow>
           if ok then zrle_tile env d rect (64 * j) (64 * i) pos m' else Some st))
       (True, 0, m)"

definition stepZrle :: "'z vnc_env \<Rightarrow> 'z vnc \<Rightarrow> 'z vnc_result" where
  "stepZrle env s =
     (if avail s < 4 then Some (False, s)
      else do {
        length32 \<leftarrow> u32 s 0;
        let len = unat length32;
        if len > 64 * 2 ^ 20 then Some (False, fail ''The server sent an oversized ZRLE rectangle'' s)
        else if avail s < 4 + len then Some (False, s)
        else do {
          let (ready, st) = (case v_zrleStream s of
             None \<Rightarrow> inflate_reset env None | Some st \<Rightarrow> (True, st));
          let s1 = s\<lparr>v_zrleStream := Some st\<rparr>;
          if \<not> ready then Some (False, fail ''zlib failed'' s1)
          else do {
            inp \<leftarrow> buf_ptr s1 4 len;
            (ok, st', inflated) \<leftarrow> (case st of
               None \<Rightarrow> Some (False, None, [])
             | Some z \<Rightarrow> do { (ok, z', out) \<leftarrow> inflateAll env z inp []; Some (ok, Some z', out) });
            let s2 = s1\<lparr>v_zrleStream := Some st'\<rparr>;
            if \<not> ok then Some (False, fail ''The server sent corrupt compressed data'' s2)
            else do {
              let s3 = consume (4 + len) s2;
              (good, pos, m) \<leftarrow> zrle_tiles env inflated (v_rect s3) (v_work s3);
              let s4 = s3\<lparr>v_work := m\<rparr>;
              if \<not> good then Some (False, fail ''The server sent a corrupt ZRLE rectangle'' s4)
              else Some (True, addDirty (v_rect s4) s4)
            }
          }
        }
      })"

subsection \<open>Hextile\<close>

text \<open>The subrectangle loop from \<open>i\<close> on, with \<open>n\<close> left: whether all were valid, and the offset behind.\<close>

fun hextile_subrects ::
  "nat \<Rightarrow> bool \<Rightarrow> rgb \<Rightarrow> nat \<Rightarrow> nat \<Rightarrow> nat \<Rightarrow> nat \<Rightarrow> nat \<Rightarrow> 'z vnc \<Rightarrow> (bool \<times> nat \<times> 'z vnc) option" where
  "hextile_subrects 0 coloured fg tx ty tw th pos s = Some (True, pos, s)"
| "hextile_subrects (Suc n) coloured fg tx ty tw th pos s = do {
     colour \<leftarrow> (if coloured then pixelAt s pos else Some fg);
     let pos1 = (if coloured then pos + 4 else pos);
     xy \<leftarrow> u8 s pos1;
     wh \<leftarrow> u8 s (pos1 + 1);
     let sx = unat (drop_bit 4 xy);
     let sy = unat (xy AND 15);
     let sw = unat (drop_bit 4 wh) + 1;
     let sh = unat (wh AND 15) + 1;
     if sx + sw > tw \<or> sy + sh > th then
       Some (False, pos1 + 2, fail ''The server sent an invalid Hextile subrectangle'' s)
     else do {
       s' \<leftarrow> draw (fillRect (tx + sx) (ty + sy) sw sh colour) s;
       hextile_subrects n coloured fg tx ty tw th (pos1 + 2) s'
     }
   }"

definition stepHextileTile :: "'z vnc \<Rightarrow> 'z vnc_result" where
  "stepHextileTile s =
     (if avail s = 0 then Some (False, s)
      else do {
        let tw = min 16 (r_w (v_rect s) - v_tileX s);
        let th = min 16 (r_h (v_rect s) - v_tileY s);
        let tx = r_x (v_rect s) + v_tileX s;
        let ty = r_y (v_rect s) + v_tileY s;
        sub \<leftarrow> u8 s 0;
        if bit sub 0 then
          (if avail s < 1 + tw * th * 4 then Some (False, s)
           else do {
             s1 \<leftarrow> draw (blit tw th tx ty (\<lambda>row col. pixelAt s (1 + (row * tw + col) * 4))) s;
             Some (True, consume (1 + tw * th * 4) s1)
           })
        else if bit sub 1 \<and> avail s < 1 + 4 then Some (False, s)
        else do {
          bg \<leftarrow> (if bit sub 1 then pixelAt s 1 else Some (v_hexBg s));
          let pos1 = (if bit sub 1 then 5 else 1);
          if bit sub 2 \<and> avail s < pos1 + 4 then Some (False, s)
          else do {
            fg \<leftarrow> (if bit sub 2 then pixelAt s pos1 else Some (v_hexFg s));
            let pos2 = (if bit sub 2 then pos1 + 4 else pos1);
            if bit sub 3 \<and> avail s < pos2 + 1 then Some (False, s)
            else do {
              subrects \<leftarrow> (if bit sub 3 then map_option unat (u8 s pos2) else Some 0);
              let pos3 = (if bit sub 3 then pos2 + 1 else pos2);
              let coloured = bit sub 4;
              if avail s < pos3 + subrects * (if coloured then 6 else 2) then Some (False, s)
              else do {
                s1 \<leftarrow> draw (fillRect tx ty tw th bg) (s\<lparr>v_hexBg := bg, v_hexFg := fg\<rparr>);
                (ok, pos4, s2) \<leftarrow> hextile_subrects subrects coloured fg tx ty tw th pos3 s1;
                if ok then Some (True, consume pos4 s2) else Some (False, s2)
              }
            }
          }
        }
      })"

lemma zrle_run_defined:
  "run + 255 * length bs < 2 ^ 31 \<Longrightarrow>
   \<exists>ok run' pos'. zrle_run bs run pos = Some (ok, run', pos') \<and> run \<le> run' \<and> run' \<le> run + 255 * length bs"
proof (induction bs run pos rule: zrle_run.induct)
  case (1 run pos)
  then show ?case by auto
next
  case (2 b bs run pos)
  have b: "unat b \<le> 255" by simp
  have "255 * length (b # bs) = 255 * length bs + 255" by simp
  then have "run + unat b \<le> run + 255 * length (b # bs)" using b by linarith
  then have lt: "\<not> run + unat b \<ge> 2 ^ 31" using 2(2) by (meson le_less_trans not_le)
  show ?case
  proof (cases "b = 255")
    case False
    then show ?thesis using lt b by (auto simp: trans_le_add1)
  next
    case True
    then have u: "unat b = 255" by (simp only: unat_byte_255)
    have "run + unat b + 255 * length bs < 2 ^ 31" using 2(2) unfolding u by simp
    from 2(1) [OF lt _ this] True
    obtain ok run' pos' where "zrle_run bs (run + unat b) (pos + 1) = Some (ok, run', pos')"
      "run + unat b \<le> run'" "run' \<le> run + unat b + 255 * length bs" by auto
    then show ?thesis using lt True by auto
  qed
qed

lemma zrle_run_over:
  "2 ^ 31 \<le> run + 255 * n \<Longrightarrow> run < 2 ^ 31 \<Longrightarrow> zrle_run (replicate n 255 @ bs) run pos = None"
  by (induction n arbitrary: run pos) auto

lemma zrle_127:
  assumes "0 < i_w m" "0 < i_h m"
  shows "\<exists>m'. zrle_tile env [127, b] \<lparr>r_x = 0, r_y = 0, r_w = 1, r_h = 1\<rparr> 0 0 0 m = Some (True, 2, m') \<and>
    i_px m' 0 0 = e_uninit env (unat (drop_bit 4 b))"
proof -
  have a: "drop_bit 4 b AND mask 4 = drop_bit 4 b"
    by (rule bit_word_eqI) (auto simp: bit_simps dest: bit_imp_le_length)
  have n: "unat (drop_bit 4 b) < 16"
  proof -
    have "unat (drop_bit 4 b) = unat b div 16" unfolding unat_drop_bit_eq by (simp add: drop_bit_eq_div)
    moreover have "unat b < 16 * 16" by simp
    ultimately show ?thesis using less_mult_imp_div_less [of "unat b" 16 16] by (simp only:)
  qed
  show ?thesis
    using assms n
    by (simp add: zrle_tile_def zrle_palette_def zrle_draw_def zrle_packed_def Let_def blit_def blit_row_def for_n_def
        set_px_def rd_def a)
qed

end
