(* ===== verification/VncClient.thy ===== *)
theory VncClient
  imports VncDecode
begin

text \<open>
  The protocol of \<open>VncClient.cpp\<close>: one function per \<open>step...()\<close>, the receive loop, the client's calls,
  and the events the event loop delivers. A step answers \<open>True\<close> when the loop is to go on.
\<close>

subsection \<open>Rectangles\<close>

text \<open>The \<open>while\<close> loop over the tiles; \<open>hextile_loop_total\<close> shows that the fuel is enough.\<close>

fun hextile_loop :: "nat \<Rightarrow> 'z vnc \<Rightarrow> 'z vnc_result" where
  "hextile_loop fuel s =
     (if \<not> v_tileY s < r_h (v_rect s) then Some (True, s)
      else case fuel of
        0 \<Rightarrow> None
      | Suc fuel' \<Rightarrow> do {
          (more, s1) \<leftarrow> stepHextileTile s;
          if \<not> more then Some (False, s1)
          else let s2 = s1\<lparr>v_tileX := v_tileX s1 + 16\<rparr>;
                   s3 = (if v_tileX s2 \<ge> r_w (v_rect s2)
                         then s2\<lparr>v_tileX := 0, v_tileY := v_tileY s2 + 16\<rparr> else s2)
               in hextile_loop fuel' s3
        })"

declare hextile_loop.simps [simp del]

definition hextile_fuel :: "'z vnc \<Rightarrow> nat" where
  "hextile_fuel s =
     (r_h (v_rect s) - v_tileY s) * (r_w (v_rect s) + 1) + (r_w (v_rect s) - v_tileX s) + 1"

definition rect_raw :: "'z vnc \<Rightarrow> 'z vnc_result" where
  "rect_raw s = do {
     let w = r_w (v_rect s);
     let h = r_h (v_rect s);
     if avail s < w * h * 4 then Some (False, s)
     else do {
       s1 \<leftarrow> draw (blit w h (r_x (v_rect s)) (r_y (v_rect s)) (\<lambda>row col. pixelAt s (row * w * 4 + col * 4))) s;
       Some (True, consume (w * h * 4) (addDirty (v_rect s) s1))
     }
   }"

text \<open>\<open>m_work.copy(source)\<close> is a null image when a side of \<open>source\<close> is 0, so nothing is copied then.\<close>

definition rect_copy :: "'z vnc \<Rightarrow> 'z vnc_result" where
  "rect_copy s =
     (if avail s < 4 then Some (False, s)
      else do {
        sx \<leftarrow> u16 s 0;
        sy \<leftarrow> u16 s 2;
        let source = \<lparr>r_x = unat sx, r_y = unat sy, r_w = r_w (v_rect s), r_h = r_h (v_rect s)\<rparr>;
        let s1 = consume 4 s;
        if \<not> rect_contains (image_rect (v_work s1)) source then
          Some (False, fail ''The server sent an invalid copy region'' s1)
        else do {
          let h = (if r_w source = 0 then 0 else r_h source);
          s2 \<leftarrow> draw (blit (r_w source) h (r_x (v_rect s1)) (r_y (v_rect s1))
                       (\<lambda>row col. Some (i_px (v_work s1) (r_x source + col) (r_y source + row)))) s1;
          Some (True, addDirty (v_rect s2) s2)
        }
      })"

definition rect_hextile :: "'z vnc \<Rightarrow> 'z vnc_result" where
  "rect_hextile s = do {
     (more, s1) \<leftarrow> hextile_loop (hextile_fuel s) s;
     if more then Some (True, addDirty (v_rect s1) s1) else Some (False, s1)
   }"

definition rect_tight :: "'z vnc_env \<Rightarrow> 'z vnc \<Rightarrow> 'z vnc_result" where
  "rect_tight env s = do {
     (more, s1) \<leftarrow> stepTight env s;
     if more then Some (True, addDirty (v_rect s1) s1) else Some (False, s1)
   }"

definition rect_desktopSize :: "'z vnc \<Rightarrow> 'z vnc" where
  "rect_desktopSize s =
     (let s1 = allocFramebuffer (r_w (v_rect s)) (r_h (v_rect s)) s;
          s2 = addDirty (image_rect (v_work s1)) s1;
          s3 = vemit (FramebufferResized (i_w (v_work s2)) (i_h (v_work s2))) s2
      in s3\<lparr>v_resized := True\<rparr>)"

definition decode_rect :: "'z vnc_env \<Rightarrow> 'z vnc \<Rightarrow> 'z vnc_result" where
  "decode_rect env s =
     (if v_encoding s = EncRaw then rect_raw s
      else if v_encoding s = EncCopyRect then rect_copy s
      else if v_encoding s = EncHextile then rect_hextile s
      else if v_encoding s = EncTight then rect_tight env s
      else if v_encoding s = EncZrle then stepZrle env s
      else if v_encoding s = EncLastRect then Some (True, s)
      else if v_encoding s = EncDesktopSize then
        (if r_w (v_rect s) = 0 \<or> r_h (v_rect s) = 0 \<or>
            r_w (v_rect s) > kMaxDesktopDimension \<or> r_h (v_rect s) > kMaxDesktopDimension
         then Some (False, fail ''The server sent an invalid desktop size'' s)
         else Some (True, rect_desktopSize s))
      else Some (False,
        fail (''The server used an unsupported encoding ('' @ decimal_int (v_encoding s) @ '')'') s))"

text \<open>What follows \<open>if (rectDone)\<close>.\<close>

definition rect_done :: "'z vnc \<Rightarrow> 'z vnc option" where
  "rect_done s =
     (let e = v_encoding s; st = v_stats s;
          s1 = s\<lparr>v_stats := st\<lparr>st_rectsByEncoding := (st_rectsByEncoding st)(e := st_rectsByEncoding st e + 1),
                    st_pixelsByEncoding := (st_pixelsByEncoding st)
                      (e := st_pixelsByEncoding st e + of_nat (r_w (v_rect s)) * of_nat (r_h (v_rect s)))\<rparr>,
                v_inRect := False\<rparr>
      in if v_lastRectMode s1 then
           (if e = EncLastRect then finishUpdate (s1\<lparr>v_lastRectMode := False, v_rectsLeft := 0\<rparr>)
            else Some s1)
         else let s2 = s1\<lparr>v_rectsLeft := v_rectsLeft s1 - 1\<rparr>
              in if v_rectsLeft s2 = 0 then finishUpdate s2 else Some s2)"

text \<open>The header of a rectangle: \<open>True\<close> when it is there and lies on the screen.\<close>

definition rect_header :: "'z vnc \<Rightarrow> 'z vnc_result" where
  "rect_header s =
     (if avail s < 12 then Some (False, s)
      else do {
        x \<leftarrow> u16 s 0; y \<leftarrow> u16 s 2; w \<leftarrow> u16 s 4; h \<leftarrow> u16 s 6;
        e \<leftarrow> u32 s 8;
        let s1 = (consume 12 s)
          \<lparr>v_rect := \<lparr>r_x = unat x, r_y = unat y, r_w = unat w, r_h = unat h\<rparr>,
           v_encoding := sint e, v_inRect := True, v_tileX := 0, v_tileY := 0,
           v_hexBg := qRgb 0 0 0, v_hexFg := qRgb 255 255 255\<rparr>;
        if v_encoding s1 \<noteq> EncDesktopSize \<and> v_encoding s1 \<noteq> EncLastRect \<and>
           \<not> rect_contains (image_rect (v_work s1)) (v_rect s1)
        then Some (False, fail ''The server sent an update outside the screen'' s1)
        else Some (True, s1)
      })"

definition stepRect :: "'z vnc_env \<Rightarrow> 'z vnc \<Rightarrow> 'z vnc_result" where
  "stepRect env s = do {
     (ready, s1) \<leftarrow> (if v_inRect s then Some (True, s) else rect_header s);
     if \<not> ready then Some (False, s1)
     else do {
       (rectDone, s2) \<leftarrow> decode_rect env s1;
       if \<not> rectDone then Some (False, s2)
       else do { s3 \<leftarrow> rect_done s2; Some (True, s3) }
     }
   }"

subsection \<open>Messages of a running session\<close>

definition msg_update :: "'z vnc \<Rightarrow> 'z vnc_result" where
  "msg_update s =
     (if avail s < 4 then Some (False, s)
      else do {
        n \<leftarrow> u16 s 2;
        let lastRect = (n = 0xFFFF);
        let s1 = consume 4 (s\<lparr>v_lastRectMode := lastRect, v_rectsLeft := (if lastRect then 1 else uint n)\<rparr>);
        s2 \<leftarrow> (if v_rectsLeft s1 = 0 then finishUpdate s1 else Some s1);
        Some (True, s2)
      })"

definition msg_colourMap :: "'z vnc \<Rightarrow> 'z vnc_result" where
  "msg_colourMap s =
     (if avail s < 6 then Some (False, s)
      else do {
        n \<leftarrow> u16 s 4;
        let len = 6 + 6 * unat n;
        if avail s < len then Some (False, s) else Some (True, consume len s)
      })"

definition msg_cutText :: "'z vnc \<Rightarrow> 'z vnc_result" where
  "msg_cutText s =
     (if avail s < 8 then Some (False, s)
      else do {
        len \<leftarrow> u32 s 4;
        if unat len > kMaxStringLength then Some (False, fail ''Invalid clipboard message'' s)
        else if avail s < 8 + unat len then Some (False, s)
        else let text = fromLatin1 (buf_mid s 8 (unat len))
             in Some (True, vemit (ClipboardText text) (consume (8 + unat len) s))
      })"

definition stepRunning :: "'z vnc_env \<Rightarrow> 'z vnc \<Rightarrow> 'z vnc_result" where
  "stepRunning env s =
     (if v_inRect s \<or> v_rectsLeft s > 0 then stepRect env s
      else if avail s = 0 then Some (False, s)
      else do {
        m \<leftarrow> u8 s 0;
        if m = 0 then msg_update s
        else if m = 1 then msg_colourMap s
        else if m = 2 then Some (True, vemit Bell (consume 1 s))
        else if m = 3 then msg_cutText s
        else Some (False, fail (''Unknown VNC message type '' @ decimal (unat m)) s)
      })"

subsection \<open>The handshake\<close>

definition negotiate :: "int \<Rightarrow> int \<Rightarrow> nat \<Rightarrow> nat" where
  "negotiate major minor maxMinor =
     min (if major > 3 \<or> major = 3 \<and> minor \<ge> 8 then 8 else if major = 3 \<and> minor = 7 then 7 else 3) maxMinor"

definition stepVersion :: "'z vnc_env \<Rightarrow> 'z vnc \<Rightarrow> 'z vnc_result" where
  "stepVersion env s =
     (if avail s < 12 then Some (False, s)
      else do {
        magic \<leftarrow> buf_ptr s 0 4;
        if magic \<noteq> latin1 ''RFB '' then Some (False, fail ''Not a VNC server'' s)
        else do {
          let major = e_toInt env (buf_mid s 4 3);
          let minor = e_toInt env (buf_mid s 8 3);
          let s1 = (consume 12 s)\<lparr>v_minor := negotiate major minor (v_maxMinor s)\<rparr>;
          s2 \<leftarrow> vwrite (latin1 ''RFB 003.00'' @ latin1 (decimal (v_minor s1)) @ [10]) s1;
          Some (True, s2\<lparr>v_stage := SecurityTypes\<rparr>)
        }
      })"

definition sendClientInit :: "'z vnc \<Rightarrow> 'z vnc option" where
  "sendClientInit s = do { s1 \<leftarrow> vwrite [1] s; Some (s1\<lparr>v_stage := ServerInit\<rparr>) }"

definition beginSecurity :: "byte \<Rightarrow> 'z vnc \<Rightarrow> 'z vnc option" where
  "beginSecurity type s =
     (let s1 = s\<lparr>v_securityType := type\<rparr>
      in if type = 1 then
           (if v_minor s1 \<ge> 8 then Some (s1\<lparr>v_stage := SecurityResult\<rparr>) else sendClientInit s1)
         else if type = 2 then Some (s1\<lparr>v_stage := AuthChallenge\<rparr>)
         else Some (fail (''Unsupported VNC security type '' @ decimal (unat type)) s1))"

definition stepSecurityTypes :: "'z vnc \<Rightarrow> 'z vnc_result" where
  "stepSecurityTypes s =
     (if v_minor s = 3 then
        (if avail s < 4 then Some (False, s)
         else do {
           type \<leftarrow> u32 s 0;
           let s1 = consume 4 s;
           if type = 0 then Some (True, s1\<lparr>v_stage := SecurityReason\<rparr>)
           else do { s2 \<leftarrow> beginSecurity (ucast type) s1; Some (True, s2) }
         })
      else if avail s = 0 then Some (False, s)
      else do {
        c \<leftarrow> u8 s 0;
        let count = unat c;
        if count = 0 then Some (True, (consume 1 s)\<lparr>v_stage := SecurityReason\<rparr>)
        else if avail s < 1 + count then Some (False, s)
        else do {
          (hasNone, hasVncAuth) \<leftarrow> for_n count (\<lambda>i (n, a). do {
             t \<leftarrow> u8 s (1 + i); Some (n \<or> t = 1, a \<or> t = 2) }) (False, False);
          let s1 = consume (1 + count) s;
          if \<not> hasNone \<and> \<not> hasVncAuth then
            Some (False, fail ''The server requires a security type lvdterm does not support (only None and VNC password)'' s1)
          else do {
            let chosen = (if hasNone then 1 else 2);
            s2 \<leftarrow> vwrite [chosen] s1;
            s3 \<leftarrow> beginSecurity chosen s2;
            Some (True, s3)
          }
        }
      })"

text \<open>The VNC DES key: the first 8 Latin-1 bytes of the password, each with its bits reversed.\<close>

definition reversed :: "byte \<Rightarrow> byte" where
  "reversed b =
     foldl (\<lambda>acc i. push_bit 1 acc OR (drop_bit i b AND 1)) 0 [0 ..< 8]"

definition des_key :: "string \<Rightarrow> bytes" where
  "des_key password =
     (let pw = latin1 password
      in map (\<lambda>i. if i < length pw then reversed (pw ! i) else 0) [0 ..< 8])"

definition encryptChallenge :: "'z vnc_env \<Rightarrow> bytes \<Rightarrow> string \<Rightarrow> bytes" where
  "encryptChallenge env challenge password =
     (let key = des_key password
      in concat (map (\<lambda>block. e_des env key (take 8 (drop (block * 8) challenge))) [0 ..< 2]))"

definition stepAuthChallenge :: "'z vnc_env \<Rightarrow> 'z vnc \<Rightarrow> 'z vnc_result" where
  "stepAuthChallenge env s =
     (if avail s < 16 then Some (False, s)
      else do {
        let challenge = buf_mid s 0 16;
        let s1 = consume 16 s;
        (case (if v_password s1 = [] then e_ask env else None) of
           Some (answer, hungUp) \<Rightarrow>
             let s2 = (if hungUp then onSocketClosed s1 else s1)
             in (case answer of
                   None \<Rightarrow> Some (False, fail ''Cancelled'' s2)
                 | Some entered \<Rightarrow> do {
                     s3 \<leftarrow> vwrite (encryptChallenge env challenge entered) (s2\<lparr>v_password := entered\<rparr>);
                     Some (True, s3\<lparr>v_stage := SecurityResult\<rparr>)
                   })
         | None \<Rightarrow> do {
             s3 \<leftarrow> vwrite (encryptChallenge env challenge (v_password s1)) s1;
             Some (True, s3\<lparr>v_stage := SecurityResult\<rparr>)
           })
      })"

definition wrongPassword :: string where
  "wrongPassword = ''Authentication failed (wrong password?)''"

definition stepSecurityResult :: "'z vnc \<Rightarrow> 'z vnc_result" where
  "stepSecurityResult s =
     (if avail s < 4 then Some (False, s)
      else do {
        result \<leftarrow> u32 s 0;
        let s1 = consume 4 s;
        if result = 0 then do { s2 \<leftarrow> sendClientInit s1; Some (True, s2) }
        else if v_minor s1 \<ge> 8 then Some (True, s1\<lparr>v_stage := SecurityReason\<rparr>)
        else Some (False, fail wrongPassword s1)
      })"

definition stepSecurityReason :: "'z vnc_env \<Rightarrow> 'z vnc \<Rightarrow> 'z vnc_result" where
  "stepSecurityReason env s =
     (if avail s < 4 then Some (False, s)
      else do {
        len \<leftarrow> u32 s 0;
        if unat len > kMaxStringLength then Some (False, fail ''Connection refused'' s)
        else if avail s < 4 + unat len then Some (False, s)
        else let reason = e_utf8 env (buf_mid s 4 (unat len))
             in Some (False, fail (if reason = [] then wrongPassword else reason) (consume (4 + unat len) s))
      })"

definition stepServerInit :: "'z vnc_env \<Rightarrow> 'z vnc \<Rightarrow> 'z vnc_result" where
  "stepServerInit env s =
     (if avail s < 24 then Some (False, s)
      else do {
        nameLength \<leftarrow> u32 s 20;
        if unat nameLength > kMaxStringLength then Some (False, fail ''Invalid VNC server name'' s)
        else if avail s < 24 + unat nameLength then Some (False, s)
        else do {
          w \<leftarrow> u16 s 0;
          h \<leftarrow> u16 s 2;
          let s1 = consume (24 + unat nameLength)
                     (s\<lparr>v_desktopName := e_utf8 env (buf_mid s 24 (unat nameLength))\<rparr>);
          if w = 0 \<or> h = 0 then Some (False, fail ''The server reported an empty desktop'' s1)
          else do {
            s2 \<leftarrow> sendPixelFormatAndEncodings (allocFramebuffer (unat w) (unat h) s1);
            s3 \<leftarrow> requestUpdate False (s2\<lparr>v_stage := Running\<rparr>);
            Some (True, vemit Ready s3)
          }
        }
      })"

subsection \<open>The receive loop\<close>

definition vnc_step :: "'z vnc_env \<Rightarrow> 'z vnc \<Rightarrow> 'z vnc_result" where
  "vnc_step env s =
     (case v_stage s of
        Version \<Rightarrow> stepVersion env s
      | SecurityTypes \<Rightarrow> stepSecurityTypes s
      | AuthChallenge \<Rightarrow> stepAuthChallenge env s
      | SecurityResult \<Rightarrow> stepSecurityResult s
      | SecurityReason \<Rightarrow> stepSecurityReason env s
      | ServerInit \<Rightarrow> stepServerInit env s
      | Running \<Rightarrow> stepRunning env s
      | Idle \<Rightarrow> Some (False, s))"

text \<open>\<open>while (m_stage != Stage::Idle && step())\<close>; \<open>drain_fuel\<close> is enough (\<open>drain_enough\<close>).\<close>

fun drain :: "nat \<Rightarrow> 'z vnc_env \<Rightarrow> 'z vnc \<Rightarrow> 'z vnc option" where
  "drain fuel env s =
     (if v_stage s = Idle then Some s
      else case fuel of
        0 \<Rightarrow> None
      | Suc fuel' \<Rightarrow> do { (more, s1) \<leftarrow> vnc_step env s; if more then drain fuel' env s1 else Some s1 })"

declare drain.simps [simp del]

definition drain_fuel :: "'z vnc \<Rightarrow> nat" where
  "drain_fuel s = 2 * avail s + 2"

definition drop_consumed :: "'z vnc \<Rightarrow> 'z vnc" where
  "drop_consumed s = (if v_pos s > 0 then s\<lparr>v_buf := drop (v_pos s) (v_buf s), v_pos := 0\<rparr> else s)"

definition receive :: "bytes \<Rightarrow> 'z vnc \<Rightarrow> 'z vnc" where
  "receive chunk s =
     s\<lparr>v_stats := (v_stats s)\<lparr>st_bytesIn := st_bytesIn (v_stats s) + of_nat (length chunk)\<rparr>,
       v_buf := v_buf s @ chunk\<rparr>"

definition onReadyRead :: "'z vnc_env \<Rightarrow> bytes \<Rightarrow> 'z vnc \<Rightarrow> 'z vnc option" where
  "onReadyRead env chunk s =
     (if \<not> v_socket s then None
      else do {
        let s1 = receive chunk s;
        s2 \<leftarrow> drain (drain_fuel s1) env s1;
        Some (drop_consumed s2)
      })"

subsection \<open>The client's calls\<close>

definition sendPointer :: "int \<Rightarrow> int \<Rightarrow> int \<Rightarrow> 'z vnc \<Rightarrow> 'z vnc option" where
  "sendPointer x y buttonMask s =
     (if v_stage s \<noteq> Running then Some s
      else vwrite (putU16 (putU16 [5, word_of_int buttonMask] (word_of_int (qBound 0 x 65535)))
                    (word_of_int (qBound 0 y 65535))) s)"

definition sendKey :: "32 word \<Rightarrow> bool \<Rightarrow> 'z vnc \<Rightarrow> 'z vnc option" where
  "sendKey keysym down s =
     (if v_stage s \<noteq> Running then Some s
      else vwrite (putU32 ([4, if down then 1 else 0] @ replicate 2 0) keysym) s)"

definition sendClipboardText :: "string \<Rightarrow> 'z vnc \<Rightarrow> 'z vnc option" where
  "sendClipboardText text s =
     (if v_stage s \<noteq> Running then Some s
      else let l = latin1 text
           in vwrite (putU32 ([6] @ replicate 3 0) (of_nat (length l)) @ l) s)"

datatype vnc_event =
  VConnect string "16 word" string | VClose | VData bytes | VSocketClosed | VSocketError bool string
| VPointer int int int | VKey "32 word" bool | VClipboard string

fun vnc_handle :: "'z vnc_env \<Rightarrow> vnc_event \<Rightarrow> 'z vnc \<Rightarrow> 'z vnc option" where
  "vnc_handle env (VConnect host port password) s = Some (vnc_connectToHost host port password s)"
| "vnc_handle env VClose s = Some (vclose s)"
| "vnc_handle env (VData chunk) s = onReadyRead env chunk s"
| "vnc_handle env VSocketClosed s = Some (onSocketClosed s)"
| "vnc_handle env (VSocketError remote msg) s = Some (onErrorOccurred remote msg s)"
| "vnc_handle env (VPointer x y b) s = sendPointer x y b s"
| "vnc_handle env (VKey k down) s = sendKey k down s"
| "vnc_handle env (VClipboard t) s = sendClipboardText t s"

text \<open>The bit reversal of the DES key, one bit at a time.\<close>

lemma bit_reversed_upto:
  "n \<le> 8 \<Longrightarrow> bit (foldl (\<lambda>acc i. push_bit 1 acc OR (drop_bit i b AND 1)) (0 :: byte) [0 ..< n]) i \<longleftrightarrow>
     i < n \<and> bit b (n - 1 - i)"
proof (induction n arbitrary: i)
  case 0
  then show ?case by simp
next
  case (Suc n)
  let ?R = "foldl (\<lambda>acc i. push_bit 1 acc OR (drop_bit i b AND 1)) (0 :: byte) [0 ..< n]"
  have step: "foldl (\<lambda>acc i. push_bit 1 acc OR (drop_bit i b AND 1)) 0 [0 ..< Suc n] =
      push_bit 1 ?R OR (drop_bit n b AND 1)"
    by (simp only: upt_Suc_append foldl_append foldl.simps le0)
  have low: "bit (drop_bit n b AND 1) i \<longleftrightarrow> i = 0 \<and> bit b n"
    by (auto simp: bit_and_iff bit_1_iff bit_drop_bit_eq)
  have high: "bit (push_bit 1 ?R) i \<longleftrightarrow> 1 \<le> i \<and> i < 8 \<and> bit ?R (i - 1)"
    by (simp only: bit_push_bit_iff possible_bit_word) auto
  show ?case
    unfolding step bit_or_iff low high using Suc.IH [of "i - 1"] Suc.prems by (cases i) auto
qed

lemma bit_reversed: "bit (reversed b) i \<longleftrightarrow> i < 8 \<and> bit b (7 - i)"
  using bit_reversed_upto [of 8 b i] by (simp add: reversed_def)

end
