(* ===== verification/VncSafety.thy ===== *)
theory VncSafety
  imports VncClient
begin

text \<open>
  What the decoders of \<open>VncDecode\<close> do to the client: they read only the receive buffer, write only
  the rectangle they decode, and leave the displayed framebuffer alone. \<open>decodes s r\<close> is that
  contract; every decoder is shown to meet it, and \<open>VncRun\<close> builds the properties on it.
\<close>

subsection \<open>Images\<close>

definition same_size :: "image \<Rightarrow> image \<Rightarrow> bool" where
  "same_size m m' \<longleftrightarrow> i_w m' = i_w m \<and> i_h m' = i_h m"

definition painted :: "nat \<Rightarrow> nat \<Rightarrow> nat \<Rightarrow> nat \<Rightarrow> (nat \<Rightarrow> nat \<Rightarrow> rgb) \<Rightarrow> image \<Rightarrow> image \<Rightarrow> bool" where
  "painted x y w h f m m' \<longleftrightarrow>
     same_size m m' \<and>
     (\<forall>a b. i_px m' a b = (if x \<le> a \<and> a < x + w \<and> y \<le> b \<and> b < y + h then f (b - y) (a - x) else i_px m a b))"

lemma set_px_defined [simp]:
  "x < i_w m \<Longrightarrow> y < i_h m \<Longrightarrow>
   set_px x y c m = Some (m\<lparr>i_px := (\<lambda>x' y'. if x' = x \<and> y' = y then c else i_px m x' y')\<rparr>)"
  by (simp add: set_px_def)

lemma blit_row_painted:
  assumes "x + w \<le> i_w m" "y < i_h m" "\<And>c. c < w \<Longrightarrow> f c = Some (g c)"
  shows "\<exists>m'. blit_row w x y f m = Some m' \<and> painted x y w 1 (\<lambda>_. g) m m'"
proof -
  have "\<exists>m'. for_n w (\<lambda>c m'. do { v \<leftarrow> f c; set_px (x + c) y v m' }) m = Some m' \<and>
      painted x y w 1 (\<lambda>_. g) m m'"
  proof (rule for_n_total [where P = "\<lambda>k m'. painted x y k 1 (\<lambda>_. g) m m'"])
    show "painted x y 0 1 (\<lambda>_. g) m m" by (auto simp: painted_def same_size_def)
  next
    fix j b assume j: "j < w" and p: "painted x y j 1 (\<lambda>_. g) m b"
    then have "x + j < i_w b" "y < i_h b" using assms by (auto simp: painted_def same_size_def)
    then show "\<exists>c. (do { v \<leftarrow> f j; set_px (x + j) y v b }) = Some c \<and> painted x y (Suc j) 1 (\<lambda>_. g) m c"
      using assms(3) [OF j] p by (auto simp: painted_def same_size_def)
  qed
  then show ?thesis by (simp add: blit_row_def)
qed

lemma blit_painted:
  assumes "x + w \<le> i_w m" "y + h \<le> i_h m" "\<And>r c. r < h \<Longrightarrow> c < w \<Longrightarrow> f r c = Some (g r c)"
  shows "\<exists>m'. blit w h x y f m = Some m' \<and> painted x y w h g m m'"
proof -
  have "\<exists>m'. for_n h (\<lambda>r m'. blit_row w x (y + r) (f r) m') m = Some m' \<and> painted x y w h g m m'"
  proof (rule for_n_total [where P = "\<lambda>k m'. painted x y w k g m m'"])
    show "painted x y w 0 g m m" by (auto simp: painted_def same_size_def)
  next
    fix j b assume j: "j < h" and p: "painted x y w j g m b"
    have dims: "x + w \<le> i_w b" "y + j < i_h b"
      using p assms j by (auto simp: painted_def same_size_def)
    obtain c where c: "blit_row w x (y + j) (f j) b = Some c" "painted x (y + j) w 1 (\<lambda>_. g j) b c"
      using blit_row_painted [OF dims, of "f j" "g j"] assms(3) [OF j] by auto
    have "painted x y w (Suc j) g m c"
      using c(2) p by (auto simp: painted_def same_size_def less_Suc_eq)
    with c(1) show "\<exists>c. blit_row w x (y + j) (f j) b = Some c \<and> painted x y w (Suc j) g m c" by blast
  qed
  then show ?thesis by (simp add: blit_def)
qed

text \<open>A painter works inside \<open>r\<close>: it succeeds on every image that holds \<open>r\<close> and keeps the rest.\<close>

definition rect_in :: "image \<Rightarrow> qrect \<Rightarrow> bool" where
  "rect_in m r \<longleftrightarrow> r_x r + r_w r \<le> i_w m \<and> r_y r + r_h r \<le> i_h m"

definition keeps_outside :: "qrect \<Rightarrow> image \<Rightarrow> image \<Rightarrow> bool" where
  "keeps_outside r m m' \<longleftrightarrow> same_size m m' \<and> (\<forall>a b. \<not> in_rect r a b \<longrightarrow> i_px m' a b = i_px m a b)"

lemma keeps_outside_refl [simp]: "keeps_outside r m m"
  by (simp add: keeps_outside_def same_size_def)

lemma keeps_outside_trans: "keeps_outside r a b \<Longrightarrow> keeps_outside r b c \<Longrightarrow> keeps_outside r a c"
  by (simp add: keeps_outside_def same_size_def)

lemma keeps_outside_rect_in: "keeps_outside r m m' \<Longrightarrow> rect_in m' q \<longleftrightarrow> rect_in m q"
  by (simp add: keeps_outside_def same_size_def rect_in_def)

lemma painted_keeps_outside:
  assumes "painted x y w h g m m'" "r_x r \<le> x" "x + w \<le> r_x r + r_w r" "r_y r \<le> y" "y + h \<le> r_y r + r_h r"
  shows "keeps_outside r m m'"
  using assms by (auto simp: painted_def keeps_outside_def in_rect_def)

lemma blit_inside:
  assumes "rect_in m r" "r_x r \<le> x" "x + w \<le> r_x r + r_w r" "r_y r \<le> y" "y + h \<le> r_y r + r_h r"
    and "\<And>i c. i < h \<Longrightarrow> c < w \<Longrightarrow> f i c \<noteq> None"
  shows "\<exists>m'. blit w h x y f m = Some m' \<and> keeps_outside r m m'"
proof -
  have "\<exists>m'. blit w h x y f m = Some m' \<and> painted x y w h (\<lambda>i c. the (f i c)) m m'"
    by (rule blit_painted) (use assms in \<open>auto simp: rect_in_def\<close>)
  then show ?thesis using painted_keeps_outside assms(2-5) by blast
qed

lemma fillRect_inside:
  assumes "rect_in m r" "r_x r \<le> x" "x + w \<le> r_x r + r_w r" "r_y r \<le> y" "y + h \<le> r_y r + r_h r"
  shows "\<exists>m'. fillRect x y w h c m = Some m' \<and> keeps_outside r m m'"
  unfolding fillRect_def by (rule blit_inside) (use assms in auto)

lemma set_px_inside:
  assumes "rect_in m r" "in_rect r x y"
  shows "\<exists>m'. set_px x y c m = Some m' \<and> keeps_outside r m m'"
  using assms by (auto simp: rect_in_def in_rect_def set_px_def keeps_outside_def same_size_def)

subsection \<open>The contract\<close>

declare One_nat_def [simp del]

text \<open>What every decoder leaves alone, apart from the connection itself.\<close>

definition core :: "'z vnc \<Rightarrow> 'z vnc \<Rightarrow> bool" where
  "core s s' \<longleftrightarrow>
     v_buf s' = v_buf s \<and> v_pos s \<le> v_pos s' \<and> v_pos s' \<le> length (v_buf s) \<and>
     v_fb s' = v_fb s \<and> keeps_outside (v_rect s) (v_work s) (v_work s') \<and>
     v_rect s' = v_rect s \<and> v_inRect s' = v_inRect s \<and> v_encoding s' = v_encoding s \<and>
     v_rectsLeft s' = v_rectsLeft s \<and> v_lastRectMode s' = v_lastRectMode s \<and>
     v_resized s' = v_resized s \<and> v_stats s' = v_stats s \<and>
     length (v_tightStreams s') = length (v_tightStreams s) \<and>
     v_tileX s' = v_tileX s \<and> v_tileY s' = v_tileY s"

definition alive :: "'z vnc \<Rightarrow> 'z vnc \<Rightarrow> bool" where
  "alive s s' \<longleftrightarrow> v_stage s' = v_stage s \<and> v_socket s' = v_socket s \<and> v_failedAlready s' = v_failedAlready s"

text \<open>The dirty region is left to the caller, or already holds the rectangle.\<close>

definition dirtied :: "'z vnc \<Rightarrow> 'z vnc \<Rightarrow> bool" where
  "dirtied s s' \<longleftrightarrow> v_dirty s' = v_dirty s \<or> v_dirty s' = united (v_dirty s) (v_rect s)"

definition decodes :: "'z vnc \<Rightarrow> 'z vnc_result \<Rightarrow> bool" where
  "decodes s r \<longleftrightarrow>
     (\<exists>b s'. r = Some (b, s') \<and> core s s' \<and> v_dirty s' = v_dirty s \<and> (alive s s' \<or> \<not> b \<and> v_stage s' = Idle))"

lemma core_refl: "v_pos s \<le> length (v_buf s) \<Longrightarrow> core s s"
  by (simp add: core_def)

lemma core_trans: "core s t \<Longrightarrow> core t u \<Longrightarrow> core s u"
  unfolding core_def by (auto intro: keeps_outside_trans)

lemma alive_refl [simp]: "alive s s"
  by (simp add: alive_def)

lemma alive_trans: "alive s t \<Longrightarrow> alive t u \<Longrightarrow> alive s u"
  by (simp add: alive_def)

text \<open>A client that may decode: data and rectangle lie where they should, and it has not failed.\<close>

definition decodable :: "'z vnc \<Rightarrow> bool" where
  "decodable s \<longleftrightarrow>
     v_pos s \<le> length (v_buf s) \<and> rect_in (v_work s) (v_rect s) \<and> length (v_tightStreams s) = 4 \<and>
     v_tileX s \<le> r_w (v_rect s) \<and> \<not> v_failedAlready s"

lemma decodable_core: "decodable s \<Longrightarrow> core s s' \<Longrightarrow> alive s s' \<Longrightarrow> decodable s'"
  by (auto simp: decodable_def core_def alive_def keeps_outside_rect_in)

lemma decodes_wait: "v_pos s \<le> length (v_buf s) \<Longrightarrow> decodes s (Some (False, s))"
  by (auto simp: decodes_def core_refl)

lemma fail_stage: "\<not> v_failedAlready s \<Longrightarrow> v_stage (fail m s) = Idle"
  by (simp add: fail_def vclose_def vemit_def Let_def)

lemma fail_core [simp]: "core s (fail m t) \<longleftrightarrow> core s t"
  by (simp add: core_def fail_def vclose_def vemit_def Let_def)

lemma fail_pos [simp]: "v_pos (fail m s) = v_pos s"
  by (simp add: fail_def vclose_def vemit_def Let_def)

lemma fail_dirty [simp]: "v_dirty (fail m s) = v_dirty s"
  by (simp add: fail_def vclose_def vemit_def Let_def)

lemma decodes_fail:
  "core s t \<Longrightarrow> v_dirty t = v_dirty s \<Longrightarrow> \<not> v_failedAlready t \<Longrightarrow> decodes s (Some (False, fail m t))"
  by (auto simp: decodes_def fail_stage)

text \<open>Rules that follow the shape of a step.\<close>

lemma decodes_if: "(P \<Longrightarrow> decodes s r) \<Longrightarrow> (\<not> P \<Longrightarrow> decodes s q) \<Longrightarrow> decodes s (if P then r else q)"
  by simp

lemma decodes_bind: "x = Some v \<Longrightarrow> decodes s (f v) \<Longrightarrow> decodes s (Option.bind x f)"
  by simp

text \<open>Continuing after a change that meets the contract.\<close>

lemma decodes_after:
  assumes "core s t" "alive s t" "v_dirty t = v_dirty s" "decodes t r"
  shows "decodes s r"
  using assms core_trans alive_trans unfolding decodes_def by metis

lemma decodes_consume:
  assumes "core s t" "alive s t" "v_dirty t = v_dirty s" "v_pos t + n \<le> length (v_buf t)"
  shows "decodes s (Some (b, consume n t))"
  using assms by (simp add: decodes_def consume_def core_def alive_def)

subsection \<open>Reading the buffer\<close>

lemma u8_Some: "v_pos s \<le> length (v_buf s) \<Longrightarrow> off < avail s \<Longrightarrow> u8 s off = Some (v_buf s ! (v_pos s + off))"
  by (simp add: u8_def avail_def)

lemma u16_Some:
  "v_pos s \<le> length (v_buf s) \<Longrightarrow> off + 1 < avail s \<Longrightarrow>
   u16 s off = Some (be16 (v_buf s ! (v_pos s + off)) (v_buf s ! (v_pos s + (off + 1))))"
  by (simp add: u16_def u8_def avail_def)

lemma u32_defined:
  "v_pos s \<le> length (v_buf s) \<Longrightarrow> off + 3 < avail s \<Longrightarrow> \<exists>v. u32 s off = Some v"
  by (simp add: u32_def u16_Some)

lemma pixelAt_defined:
  "v_pos s \<le> length (v_buf s) \<Longrightarrow> off + 3 < avail s \<Longrightarrow> \<exists>v. pixelAt s off = Some v"
  by (simp add: pixelAt_def u8_Some)

lemma buf_ptr_defined:
  "v_pos s \<le> length (v_buf s) \<Longrightarrow> off + n \<le> avail s \<Longrightarrow> buf_ptr s off n = Some (buf_mid s off n)"
  by (simp add: buf_ptr_def avail_def)

lemma length_buf_mid: "off + n \<le> avail s \<Longrightarrow> length (buf_mid s off n) = n"
  by (simp add: buf_mid_def avail_def)

lemma room:
  assumes "v_pos s \<le> length (v_buf s)" "core s t" "v_pos t = v_pos s" "n \<le> avail s"
  shows "v_pos t + n \<le> length (v_buf t)"
  using assms by (auto simp: avail_def core_def)

text \<open>Reads depend only on the buffer.\<close>

lemma avail_core_eq: "v_buf t = v_buf s \<Longrightarrow> v_pos t = v_pos s \<Longrightarrow> avail t = avail s"
  by (simp add: avail_def)

lemma draw_defined:
  assumes "f (v_work s) = Some m" "keeps_outside (v_rect s) (v_work s) m" "v_pos s \<le> length (v_buf s)"
  shows "\<exists>t. draw f s = Some t \<and> core s t \<and> alive s t \<and> v_dirty t = v_dirty s \<and> v_pos t = v_pos s"
  using assms by (simp add: draw_def core_def alive_def)

lemma draw_blit:
  assumes "decodable s" "r_x (v_rect s) \<le> x" "x + w \<le> r_x (v_rect s) + r_w (v_rect s)"
    "r_y (v_rect s) \<le> y" "y + h \<le> r_y (v_rect s) + r_h (v_rect s)"
    "\<And>i c. i < h \<Longrightarrow> c < w \<Longrightarrow> f i c \<noteq> None"
  shows "\<exists>t. draw (blit w h x y f) s = Some t \<and> core s t \<and> alive s t \<and> v_dirty t = v_dirty s \<and> v_pos t = v_pos s"
  using blit_inside [of "v_work s" "v_rect s" x w y h f] assms draw_defined [of "blit w h x y f" s]
  by (auto simp: decodable_def)

lemma draw_fillRect:
  assumes "decodable s" "r_x (v_rect s) \<le> x" "x + w \<le> r_x (v_rect s) + r_w (v_rect s)"
    "r_y (v_rect s) \<le> y" "y + h \<le> r_y (v_rect s) + r_h (v_rect s)"
  shows "\<exists>t. draw (fillRect x y w h c) s = Some t \<and> core s t \<and> alive s t \<and> v_dirty t = v_dirty s \<and> v_pos t = v_pos s"
  unfolding fillRect_def by (rule draw_blit) (use assms in auto)

end
