(* ===== verification/VncDecoding.thy ===== *)
theory VncDecoding
  imports VncSafety
begin

text \<open>
  Every rectangle decoder of the RFB client meets the contract \<open>decodes\<close> of \<open>VncSafety\<close>, given that
  zlib and the JPEG decoder return what they document (\<open>env_ok\<close>).
\<close>

subsection \<open>What is asked of the libraries\<close>

text \<open>stb_image returns three bytes per pixel.\<close>

definition jpeg_ok :: "'z vnc_env \<Rightarrow> bool" where
  "jpeg_ok env \<longleftrightarrow> (\<forall>data w h rgb. e_jpeg env data = Some (w, h, rgb) \<longrightarrow> length rgb = w * h * 3)"

text \<open>Collecting the output of one ZRLE chunk ends, and it stays below 8,400,000 bytes: a bound on
  what the server sends, without which a run length overflows (\<open>zrle_run_overflows\<close>).\<close>

definition zrle_bounded :: "'z vnc_env \<Rightarrow> bool" where
  "zrle_bounded env \<longleftrightarrow>
     (\<forall>z inp. \<exists>ok z' out. inflateAll env z inp [] = Some (ok, z', out) \<and> length out \<le> 8400000)"

definition env_ok :: "'z vnc_env \<Rightarrow> bool" where
  "env_ok env \<longleftrightarrow> jpeg_ok env \<and> zrle_bounded env"

subsection \<open>Tight\<close>

lemma compactLength_defined:
  assumes "v_pos s \<le> length (v_buf s)"
  shows "\<exists>n len. compactLength s at = Some (n, len) \<and> (n \<noteq> 0 \<longrightarrow> at + n \<le> avail s)"
  using assms by (simp add: compactLength_def u8_Some Let_def)

lemma reset_streams_ok:
  assumes "decodable s"
  shows "\<exists>b t. reset_streams env control is s = (b, t) \<and> core s t \<and> v_dirty t = v_dirty s \<and>
    (if b then alive s t \<and> v_pos t = v_pos s else v_stage t = Idle)"
  using assms
proof (induction "is" arbitrary: s)
  case Nil
  then show ?case by (auto simp: core_refl decodable_def)
next
  case (Cons i js)
  show ?case
  proof (cases "bit control i")
    case False
    then show ?thesis using Cons by simp
  next
    case True
    obtain ok st' where r: "inflate_reset env (case v_tightStreams s ! i of None \<Rightarrow> None | Some st \<Rightarrow> st) = (ok, st')"
      by fastforce
    let ?t = "s\<lparr>v_tightStreams := (v_tightStreams s)[i := Some st']\<rparr>"
    have c: "core s ?t" "alive s ?t" "v_dirty ?t = v_dirty s" "v_pos ?t = v_pos s"
      using Cons.prems by (simp_all add: core_def alive_def decodable_def)
    have d: "decodable ?t" by (rule decodable_core [OF Cons.prems c(1,2)])
    show ?thesis
    proof (cases ok)
      case True
      from Cons.IH [OF d] obtain b t where t: "reset_streams env control js ?t = (b, t)" "core ?t t"
        "v_dirty t = v_dirty ?t" "if b then alive ?t t \<and> v_pos t = v_pos ?t else v_stage t = Idle"
        by blast
      have "reset_streams env control (i # js) s = (b, t)"
        using True r t(1) \<open>bit control i\<close> by simp
      moreover have "core s t" by (rule core_trans [OF c(1) t(2)])
      moreover have "v_dirty t = v_dirty s" using t(3) c(3) by simp
      moreover have "if b then alive s t \<and> v_pos t = v_pos s else v_stage t = Idle"
        using t(4) c(2,4) alive_trans [of s ?t t] by (simp split: if_splits)
      ultimately show ?thesis by blast
    next
      case False
      have "v_stage (fail ''zlib failed'' ?t) = Idle"
        using Cons.prems by (simp add: fail_stage decodable_def)
      with False r c \<open>bit control i\<close> show ?thesis by auto
    qed
  qed
qed

lemma tight_fill_ok:
  assumes "decodable s"
  shows "decodes s (tight_fill s)"
proof (cases "avail s < 1 + 3")
  case True
  then show ?thesis using assms by (simp add: tight_fill_def decodes_wait decodable_def)
next
  case False
  have p: "v_pos s \<le> length (v_buf s)" using assms by (simp add: decodable_def)
  obtain r g b where u: "u8 s 1 = Some r" "u8 s 2 = Some g" "u8 s 3 = Some b"
    using False by (simp add: u8_Some [OF p])
  obtain t where t: "draw (fillRect (r_x (v_rect s)) (r_y (v_rect s)) (r_w (v_rect s)) (r_h (v_rect s)) (qRgb r g b)) s = Some t"
    "core s t" "alive s t" "v_dirty t = v_dirty s" "v_pos t = v_pos s"
    using draw_fillRect [OF assms, of "r_x (v_rect s)" "r_w (v_rect s)" "r_y (v_rect s)" "r_h (v_rect s)" "qRgb r g b"]
    by auto
  have "v_pos t + (1 + 3) \<le> length (v_buf t)" by (rule room [OF p t(2,5)]) (use False in simp)
  then show ?thesis
    using False t decodes_consume [OF t(2-4), of "1 + 3"] by (simp add: tight_fill_def u)
qed

lemma rgb_at_defined: "i + 2 < length p \<Longrightarrow> \<exists>v. rgb_at p i = Some v"
  by (simp add: rgb_at_def)

lemma tight_jpeg_ok:
  assumes "decodable s" "jpeg_ok env"
  shows "decodes s (tight_jpeg env s)"
proof -
  have p: "v_pos s \<le> length (v_buf s)" using assms(1) by (simp add: decodable_def)
  have nf: "\<not> v_failedAlready s" using assms(1) by (simp add: decodable_def)
  obtain n len where c: "compactLength s 1 = Some (n, len)" "n \<noteq> 0 \<longrightarrow> 1 + n \<le> avail s"
    using compactLength_defined [OF p] by blast
  show ?thesis
  proof (cases "n = 0 \<or> avail s < 1 + n + len")
    case True
    then show ?thesis using p by (simp add: tight_jpeg_def c decodes_wait Let_def)
  next
    case False
    then have ptr: "buf_ptr s (1 + n) len = Some (buf_mid s (1 + n) len)"
      by (intro buf_ptr_defined p) simp
    have bad: "decodes s (Some (False, fail m s))" for m
      by (rule decodes_fail) (use p nf in \<open>simp_all add: core_refl\<close>)
    show ?thesis
    proof (cases "e_jpeg env (buf_mid s (1 + n) len)")
      case None
      then show ?thesis using False ptr bad by (simp add: tight_jpeg_def c Let_def)
    next
      case (Some a)
      obtain jw jh rgb where a: "a = (jw, jh, rgb)" by (cases a)
      show ?thesis
      proof (cases "jw \<noteq> r_w (v_rect s) \<or> jh \<noteq> r_h (v_rect s)")
        case True
        then show ?thesis using False ptr bad Some a by (simp add: tight_jpeg_def c Let_def)
      next
        case eq: False
        let ?w = "r_w (v_rect s)" and ?h = "r_h (v_rect s)"
        have len: "length rgb = 3 * (?h * ?w)"
          using assms(2) Some a eq by (simp add: jpeg_ok_def)
        have rd: "rgb_at rgb (3 * (i * ?w + k)) \<noteq> None" if "i < ?h" "k < ?w" for i k
        proof -
          have "i * ?w + k < ?w * ?h" by (rule row_index [OF that])
          then have "3 * (i * ?w + k) + 2 < length rgb" unfolding len by (simp add: mult.commute)
          then show ?thesis using rgb_at_defined by fastforce
        qed
        obtain t where t: "draw (blit ?w ?h (r_x (v_rect s)) (r_y (v_rect s)) (\<lambda>y x. rgb_at rgb (3 * (y * ?w + x)))) s = Some t"
          "core s t" "alive s t" "v_dirty t = v_dirty s" "v_pos t = v_pos s"
          using draw_blit [OF assms(1), of "r_x (v_rect s)" ?w "r_y (v_rect s)" ?h
              "\<lambda>y x. rgb_at rgb (3 * (y * ?w + x))"] rd by blast
        have "v_pos t + (1 + n + len) \<le> length (v_buf t)"
          by (rule room [OF p t(2,5)]) (use False in simp)
        from decodes_consume [OF t(2-4) this]
        show ?thesis using False ptr Some a eq t(1) by (simp add: tight_jpeg_def c Let_def)
      qed
    qed
  qed
qed

lemma tight_palette_defined:
  assumes "v_pos s \<le> length (v_buf s)" "pos + n * 3 \<le> avail s"
  shows "\<exists>p. tight_palette s pos n = Some p \<and> length p = n"
  unfolding tight_palette_def
  by (rule for_n_total [where P = "\<lambda>k p. length p = k"]) (use assms in \<open>auto simp: u8_Some\<close>)

lemma tight_filter_defined:
  assumes "v_pos s \<le> length (v_buf s)" "1 \<le> avail s"
  shows "\<exists>f. tight_filter control s = Some f \<and>
    (\<forall>flt pal pos. f = Filter flt pal pos \<longrightarrow> pos \<le> avail s \<and> (flt = 1 \<longrightarrow> pal \<noteq> []))"
proof (cases "bit control 6 \<and> avail s < 1 + 1")
  case True
  then show ?thesis by (simp add: tight_filter_def)
next
  case wait: False
  let ?pos = "if bit control 6 then 2 else 1 :: nat"
  have "\<exists>flt. (if bit control 6 then u8 s 1 else Some 0) = Some flt"
    using wait by (auto simp: u8_Some [OF assms(1)])
  then obtain flt where flt: "(if bit control 6 then u8 s 1 else Some 0) = Some flt" ..
  have pos: "?pos \<le> avail s" using wait assms(2) by auto
  have eq: "tight_filter control s =
      (if flt = 1 then
          (if avail s < ?pos + 1 then Some FilterWait
           else do {
             c \<leftarrow> u8 s ?pos;
             let paletteSize = unat c + 1;
             if avail s < ?pos + 1 + paletteSize * 3 then Some FilterWait
             else do {
               palette \<leftarrow> tight_palette s (?pos + 1) paletteSize;
               Some (Filter 1 palette (?pos + 1 + 3 * paletteSize))
             }
           })
        else if flt > 2 then Some FilterBad
        else Some (Filter (unat flt) [] ?pos))"
    using wait flt by (simp only: tight_filter_def if_False bind.bind_lunit Let_def)
  show ?thesis
  proof (cases "flt = 1 \<and> \<not> avail s < ?pos + 1")
    case True
    then obtain c where c: "u8 s ?pos = Some c"
      using u8_Some [OF assms(1), of ?pos] by auto
    show ?thesis
    proof (cases "avail s < ?pos + 1 + (unat c + 1) * 3")
      case True
      then show ?thesis
        unfolding eq using \<open>flt = 1 \<and> _\<close> c by (auto simp: Let_def split: if_splits)
    next
      case False
      then obtain p where p: "tight_palette s (?pos + 1) (unat c + 1) = Some p" "length p = unat c + 1"
        using tight_palette_defined [OF assms(1), of "?pos + 1" "unat c + 1"] by auto
      have "tight_filter control s = Some (Filter 1 p (?pos + 1 + 3 * (unat c + 1)))"
        unfolding eq Let_def c bind.bind_lunit p(1) if_not_P [OF False] using \<open>flt = 1 \<and> _\<close> by simp
      moreover have "p \<noteq> []" using p(2) by auto
      moreover have "?pos + 1 + 3 * (unat c + 1) \<le> avail s" using False by simp
      ultimately show ?thesis by simp
    qed
  next
    case False
    show ?thesis
    proof (cases "flt = 1")
      case True
      then show ?thesis unfolding eq using False by simp
    next
      case False
      then have "unat flt \<noteq> 1" by (metis unat_1 word_unat_eq_iff)
      then show ?thesis unfolding eq using pos False by simp
    qed
  qed
qed

lemma tight_data_ok:
  assumes "decodable s" "stream < 4" "pos \<le> avail s"
  shows "\<exists>d t. tight_data env stream dataSize pos s = Some (d, t) \<and> core s t \<and> v_dirty t = v_dirty s \<and>
    (case d of None \<Rightarrow> alive s t \<or> v_stage t = Idle
     | Some (pixels, n) \<Rightarrow> alive s t \<and> v_pos t = v_pos s \<and> length pixels = dataSize \<and> n \<le> avail s)"
proof -
  have p: "v_pos s \<le> length (v_buf s)" and nf: "\<not> v_failedAlready s"
    using assms(1) by (simp_all add: decodable_def)
  note refl = core_refl [OF p]
  show ?thesis
  proof (cases "dataSize < 12")
    case True
    show ?thesis
    proof (cases "avail s < pos + dataSize")
      case True
      then show ?thesis using \<open>dataSize < 12\<close> refl by (simp add: tight_data_def)
    next
      case False
      then have ptr: "buf_ptr s pos dataSize = Some (buf_mid s pos dataSize)"
        by (intro buf_ptr_defined p) simp
      show ?thesis using False \<open>dataSize < 12\<close> refl by (simp add: tight_data_def ptr length_buf_mid)
    qed
  next
    case False
    obtain n len where c: "compactLength s pos = Some (n, len)" "n \<noteq> 0 \<longrightarrow> pos + n \<le> avail s"
      using compactLength_defined [OF p] by blast
    show ?thesis
    proof (cases "n = 0 \<or> avail s < pos + n + len")
      case True
      then show ?thesis using False c refl by (auto simp: tight_data_def)
    next
      case enough: False
      obtain ready st where r: "(case v_tightStreams s ! stream of
          None \<Rightarrow> inflate_reset env None | Some st \<Rightarrow> (True, st)) = (ready, st)" by fastforce
      let ?s1 = "s\<lparr>v_tightStreams := (v_tightStreams s)[stream := Some st]\<rparr>"
      have ptr: "buf_ptr ?s1 (pos + n) len = Some (buf_mid s (pos + n) len)"
      proof -
      have "v_pos s + (pos + n) + len \<le> length (v_buf s)"
        using enough p unfolding avail_def by linarith
      then show ?thesis by (simp add: buf_ptr_def buf_mid_def)
    qed
      obtain ok st' out where i: "(case st of None \<Rightarrow> (False, None, [])
          | Some z \<Rightarrow> (case inflateExactly env z (buf_mid s (pos + n) len) dataSize of
              (ok, z', out) \<Rightarrow> (ok, Some z', out))) = (ok, st', out)"
        by (metis prod_cases3)
      let ?s2 = "?s1\<lparr>v_tightStreams := (v_tightStreams ?s1)[stream := Some st']\<rparr>"
      have out: "ok \<Longrightarrow> length out = dataSize"
        using i by (auto simp: inflateExactly_def split: option.splits prod.splits)
      have c1: "core s ?s1" "core s ?s2" using refl by (simp_all add: core_def)
      have a1: "alive s ?s2" by (simp add: alive_def)
      have f: "v_stage (fail m ?s1) = Idle" "v_stage (fail m ?s2) = Idle" for m
        using nf by (simp_all add: fail_stage)
      have eq: "tight_data env stream dataSize pos s =
          (if \<not> ready then Some (None, fail ''zlib failed'' ?s1)
           else if \<not> ok then Some (None, fail ''The server sent corrupt compressed data'' ?s2)
           else Some (Some (out, pos + n + len), ?s2))"
        using False enough by (simp add: tight_data_def c(1) r ptr i)
      show ?thesis
        unfolding eq using c1 a1 f out enough by auto
    qed
  qed
qed

lemma paint_copy_ok:
  assumes "length pixels = w * 3 * h" "i < h" "k < w"
  shows "rgb_at pixels (i * (w * 3) + k * 3) \<noteq> None"
proof -
  have "i * (w * 3) + (k * 3 + 2) < w * 3 * h" by (rule row_index [OF assms(2)]) (use assms(3) in simp)
  then show ?thesis using rgb_at_defined [of "i * (w * 3) + k * 3" pixels] assms(1) by fastforce
qed

definition paints :: "(image \<Rightarrow> image option) \<Rightarrow> qrect \<Rightarrow> bool" where
  "paints f r \<longleftrightarrow> (\<forall>m. rect_in m r \<longrightarrow> (\<exists>m'. f m = Some m' \<and> keeps_outside r m m'))"

lemma paint_palette_paints:
  assumes "length pixels = rowBytes * r_h r" "palette \<noteq> []"
    and "if onebit then rowBytes = (r_w r + 7) div 8 \<and> length palette = 2 else rowBytes = r_w r"
  shows "paints (paint_palette pixels rowBytes onebit palette (r_w r) (r_h r) (r_x r) (r_y r)) r"
  unfolding paints_def paint_palette_def
proof (intro allI impI)
  fix m assume m: "rect_in m r"
  have rd: "rd pixels (i * rowBytes + k) \<noteq> None" if "i < r_h r" "k < rowBytes" for i k
    using row_index [OF that] assms(1) by simp
  show "\<exists>m'. blit (r_w r) (r_h r) (r_x r) (r_y r) (\<lambda>y x.
       if onebit then do {
         b \<leftarrow> rd pixels (y * rowBytes + x div 8);
         rd palette (if bit b (7 - x mod 8) then 1 else 0)
       } else do {
         b \<leftarrow> rd pixels (y * rowBytes + x);
         rd palette (unat b mod length palette)
       }) m = Some m' \<and> keeps_outside r m m'"
  proof (rule blit_inside [OF m])
    fix i k assume ik: "i < r_h r" "k < r_w r"
    show "(if onebit then do {
         b \<leftarrow> rd pixels (i * rowBytes + k div 8);
         rd palette (if bit b (7 - k mod 8) then 1 else 0)
       } else do {
         b \<leftarrow> rd pixels (i * rowBytes + k);
         rd palette (unat b mod length palette)
       }) \<noteq> None"
    proof (cases onebit)
      case True
      then have "k div 8 < rowBytes" using assms(3) ik(2) by simp
      with True assms(3) rd [OF ik(1), of "k div 8"] show ?thesis by auto
    next
      case False
      then have "k < rowBytes" using assms(3) ik(2) by simp
      with False assms(2,3) rd [OF ik(1), of k] show ?thesis by auto
    qed
  qed simp_all
qed

lemma gradient_component_ok:
  assumes "length prev = w * 3" "length cur = w * 3" "x < w" "c < 3" "rowStart + w * 3 \<le> length pixels"
  shows "\<exists>cur'. gradient_component pixels rowStart prev x c cur = Some cur' \<and> length cur' = w * 3"
  using assms by (auto simp: gradient_component_def Let_def)

lemma gradient_pixel_ok:
  assumes "length prev = w * 3" "length (fst st) = w * 3" "x < w" "rowStart + w * 3 \<le> length pixels"
    and "rect_in (snd st) r" "in_rect r (x0 + x) y"
  shows "\<exists>st'. gradient_pixel pixels rowStart prev x0 y x st = Some st' \<and>
    length (fst st') = w * 3 \<and> keeps_outside r (snd st) (snd st')"
proof -
  obtain cur where cur: "for_n 3 (\<lambda>c. gradient_component pixels rowStart prev x c) (fst st) = Some cur"
    "length cur = w * 3"
    using for_n_const_total [of "\<lambda>cur. length cur = w * 3" "fst st" 3] gradient_component_ok assms(1-4) by blast
  obtain v where v: "rgb_at cur (x * 3) = Some v"
    using rgb_at_defined [of "x * 3" cur] assms(3) cur(2) by auto
  obtain m where "set_px (x0 + x) y v (snd st) = Some m" "keeps_outside r (snd st) m"
    using set_px_inside [OF assms(5,6)] by blast
  then show ?thesis using cur by (simp add: gradient_pixel_def v)
qed

lemma gradient_row_ok:
  assumes "length (fst st) = w * 3" "length (fst (snd st)) = w * 3" "(y + 1) * (w * 3) \<le> length pixels"
    and "rect_in (snd (snd st)) r" "y < r_h r" "w = r_w r"
  shows "\<exists>st'. gradient_row pixels (w * 3) w (r_x r) (r_y r) y st = Some st' \<and> length (fst st') = w * 3 \<and>
    length (fst (snd st')) = w * 3 \<and> keeps_outside r (snd (snd st)) (snd (snd st'))"
proof -
  obtain p c m where st: "st = (p, c, m)" by (cases st)
  have "\<exists>st'. for_n w (gradient_pixel pixels (y * (w * 3)) p (r_x r) (r_y r + y)) (c, m) = Some st' \<and>
      length (fst st') = w * 3 \<and> keeps_outside r m (snd st')"
  proof (rule for_n_const_total [where P = "\<lambda>st'. length (fst st') = w * 3 \<and> keeps_outside r m (snd st')"])
    show "length (fst (c, m)) = w * 3 \<and> keeps_outside r m (snd (c, m))" using assms(2) st by simp
  next
    fix j and b :: "bytes \<times> image" assume j: "j < w" and b: "length (fst b) = w * 3 \<and> keeps_outside r m (snd b)"
    have "\<exists>b'. gradient_pixel pixels (y * (w * 3)) p (r_x r) (r_y r + y) j b = Some b' \<and>
        length (fst b') = w * 3 \<and> keeps_outside r (snd b) (snd b')"
      by (rule gradient_pixel_ok)
        (use assms st j b in \<open>auto simp: keeps_outside_rect_in in_rect_def distrib_right\<close>)
    then show "\<exists>b'. gradient_pixel pixels (y * (w * 3)) p (r_x r) (r_y r + y) j b = Some b' \<and>
        length (fst b') = w * 3 \<and> keeps_outside r m (snd b')"
      using b keeps_outside_trans by blast
  qed
  then show ?thesis using assms(1) by (auto simp: gradient_row_def st)
qed

lemma paint_gradient_paints:
  assumes "length pixels = r_w r * 3 * r_h r"
  shows "paints (paint_gradient pixels (r_w r * 3) (r_w r) (r_h r) (r_x r) (r_y r)) r"
  unfolding paints_def
proof (intro allI impI)
  fix m assume m: "rect_in m r"
  let ?w = "r_w r"
  let ?P = "\<lambda>st :: bytes \<times> bytes \<times> image. length (fst st) = ?w * 3 \<and> length (fst (snd st)) = ?w * 3 \<and> keeps_outside r m (snd (snd st))"
  have "\<exists>st'. for_n (r_h r) (gradient_row pixels (?w * 3) ?w (r_x r) (r_y r))
      (replicate (?w * 3) 0, replicate (?w * 3) 0, m) = Some st' \<and> ?P st'"
  proof (rule for_n_const_total [where P = ?P])
    show "?P (replicate (?w * 3) 0, replicate (?w * 3) 0, m)" by simp
  next
    fix j b assume j: "j < r_h r" and b: "?P b"
    have "(j + 1) * (?w * 3) \<le> length pixels"
      unfolding assms mult.commute [of "?w * 3"] using j by (intro mult_le_mono1) simp
    then have "\<exists>st'. gradient_row pixels (?w * 3) ?w (r_x r) (r_y r) j b = Some st' \<and> length (fst st') = ?w * 3 \<and>
        length (fst (snd st')) = ?w * 3 \<and> keeps_outside r (snd (snd b)) (snd (snd st'))"
      by (intro gradient_row_ok) (use b j m in \<open>auto simp: keeps_outside_rect_in\<close>)
    then show "\<exists>c. gradient_row pixels (?w * 3) ?w (r_x r) (r_y r) j b = Some c \<and> ?P c"
      using b keeps_outside_trans by blast
  qed
  then show "\<exists>m'. paint_gradient pixels (?w * 3) ?w (r_h r) (r_x r) (r_y r) m = Some m' \<and> keeps_outside r m m'"
    by (auto simp: paint_gradient_def)
qed

lemma paint_copy_paints:
  assumes "length pixels = r_w r * 3 * r_h r"
  shows "paints (paint_copy pixels (r_w r * 3) (r_w r) (r_h r) (r_x r) (r_y r)) r"
  unfolding paints_def paint_copy_def
  by (intro allI impI blit_inside) (use paint_copy_ok [OF assms] in auto)

lemma draw_paints:
  assumes "decodable s" "paints f (v_rect s)"
  shows "\<exists>t. draw f s = Some t \<and> core s t \<and> alive s t \<and> v_dirty t = v_dirty s \<and> v_pos t = v_pos s"
  using assms draw_defined [of f s] by (auto simp: paints_def decodable_def)

text \<open>The image is small enough for the byte count of any of its rectangles to be an \<open>int\<close>.\<close>

definition small_rect :: "'z vnc \<Rightarrow> bool" where
  "small_rect s \<longleftrightarrow> r_w (v_rect s) * 3 * r_h (v_rect s) < 2 ^ 31"

definition tight_rowBytes :: "nat \<Rightarrow> rgb list \<Rightarrow> nat \<Rightarrow> nat" where
  "tight_rowBytes flt palette w =
     (if flt = 1 then (if flt = 1 \<and> length palette = 2 then (w + 7) div 8 else w) else w * 3)"

lemma tight_rowBytes_le: "tight_rowBytes flt palette w \<le> w * 3"
  by (auto simp: tight_rowBytes_def)

lemma tight_paint_paints:
  assumes "length pixels = tight_rowBytes flt palette (r_w r) * r_h r" "flt = 1 \<longrightarrow> palette \<noteq> []"
  shows "paints (tight_paint flt palette (flt = 1 \<and> length palette = 2) pixels
    (tight_rowBytes flt palette (r_w r)) (r_w r) (r_h r) (r_x r) (r_y r)) r"
proof (cases "flt = 1")
  case True
  then have "paints (paint_palette pixels (tight_rowBytes flt palette (r_w r)) (flt = 1 \<and> length palette = 2)
      palette (r_w r) (r_h r) (r_x r) (r_y r)) r"
    by (intro paint_palette_paints) (use assms in \<open>auto simp: tight_rowBytes_def\<close>)
  then show ?thesis using True by (simp add: tight_paint_def)
next
  case False
  then show ?thesis
    using assms paint_gradient_paints [of pixels r] paint_copy_paints [of pixels r]
    by (simp add: tight_paint_def tight_rowBytes_def)
qed

lemma tight_basic_ok:
  assumes "decodable s" "1 \<le> avail s" "small_rect s"
  shows "decodes s (tight_basic env control s)"
proof -
  have p: "v_pos s \<le> length (v_buf s)" and nf: "\<not> v_failedAlready s"
    using assms(1) by (simp_all add: decodable_def)
  obtain f where f: "tight_filter control s = Some f"
    "\<And>flt pal pos. f = Filter flt pal pos \<Longrightarrow> pos \<le> avail s \<and> (flt = 1 \<longrightarrow> pal \<noteq> [])"
    using tight_filter_defined [OF p assms(2)] by blast
  show ?thesis
  proof (cases f)
    case FilterWait
    then show ?thesis using f p by (simp add: tight_basic_def Let_def decodes_wait)
  next
    case FilterBad
    then show ?thesis
      using f decodes_fail [OF core_refl [OF p] refl nf] by (simp add: tight_basic_def Let_def)
  next
    case (Filter flt palette pos)
    let ?w = "r_w (v_rect s)" and ?h = "r_h (v_rect s)"
    let ?rb = "tight_rowBytes flt palette ?w"
    let ?stream = "unat (drop_bit 4 control AND 3)"
    have "?rb * ?h \<le> ?w * 3 * ?h" by (rule mult_le_mono1 [OF tight_rowBytes_le])
    then have size: "\<not> ?rb * ?h \<ge> 2 ^ 31" using assms(3) unfolding small_rect_def by linarith
    have stream: "?stream < 4"
    proof -
      have "drop_bit 4 control AND 3 \<le> (3 :: byte)" by (rule word_and_le1)
      then have "?stream \<le> unat (3 :: byte)" by (simp add: word_le_nat_alt)
      then show ?thesis by simp
    qed
    obtain d t where t: "tight_data env ?stream (?rb * ?h) pos s = Some (d, t)" "core s t" "v_dirty t = v_dirty s"
      "case d of None \<Rightarrow> alive s t \<or> v_stage t = Idle
       | Some (pixels, n) \<Rightarrow> alive s t \<and> v_pos t = v_pos s \<and> length pixels = ?rb * ?h \<and> n \<le> avail s"
      using tight_data_ok [OF assms(1) stream] f(2) [OF Filter] by metis
    have eq: "tight_basic env control s =
        (case d of None \<Rightarrow> Some (False, t)
         | Some (pixels, consumed) \<Rightarrow> do {
             s2 \<leftarrow> draw (tight_paint flt palette (flt = 1 \<and> length palette = 2) pixels ?rb ?w ?h
                          (r_x (v_rect s)) (r_y (v_rect s))) t;
             Some (True, consume consumed s2) })"
      using f(1) Filter size t(1) unfolding tight_rowBytes_def by (simp add: tight_basic_def Let_def)
    show ?thesis
    proof (cases d)
      case None
      then show ?thesis unfolding eq decodes_def using t by auto
    next
      case (Some pn)
      obtain pixels n where pn: "pn = (pixels, n)" by (cases pn)
      have a: "alive s t" "v_pos t = v_pos s" "length pixels = ?rb * ?h" "n \<le> avail s"
        using t(4) Some pn by simp_all
      have r: "v_rect t = v_rect s" using t(2) by (simp add: core_def)
      have dt: "decodable t" by (rule decodable_core [OF assms(1) t(2) a(1)])
      obtain u where u: "draw (tight_paint flt palette (flt = 1 \<and> length palette = 2) pixels ?rb ?w ?h
          (r_x (v_rect s)) (r_y (v_rect s))) t = Some u" "core t u" "alive t u" "v_dirty u = v_dirty t" "v_pos u = v_pos t"
        using draw_paints [OF dt] tight_paint_paints [OF a(3)] f(2) [OF Filter] r by metis
      have "v_pos u + n \<le> length (v_buf u)"
        by (rule room [OF p core_trans [OF t(2) u(2)]]) (use u(5) a in simp_all)
      then have "decodes s (Some (True, consume n u))"
        by (intro decodes_consume core_trans [OF t(2) u(2)] alive_trans [OF a(1) u(3)]) (use u(4) t(3) in simp_all)
      then show ?thesis unfolding eq using Some pn u(1) by simp
    qed
  qed
qed

lemma stepTight_ok:
  assumes "decodable s" "small_rect s" "jpeg_ok env"
  shows "decodes s (stepTight env s)"
proof (cases "avail s < 1")
  case True
  then show ?thesis using assms(1) by (simp add: stepTight_def decodes_wait decodable_def)
next
  case False
  have p: "v_pos s \<le> length (v_buf s)" using assms(1) by (simp add: decodable_def)
  obtain c where u: "u8 s 0 = Some c" using u8_Some [OF p, of 0] False by auto
  obtain b t where t: "reset_streams env c [0, 1, 2, 3] s = (b, t)" "core s t" "v_dirty t = v_dirty s"
    "if b then alive s t \<and> v_pos t = v_pos s else v_stage t = Idle"
    using reset_streams_ok [OF assms(1)] by metis
  show ?thesis
  proof (cases b)
    case bad: False
    then have "stepTight env s = Some (False, t)"
      using t(1) False unfolding stepTight_def u by (simp del: reset_streams.simps)
    then show ?thesis using t bad unfolding decodes_def by auto
  next
    case True
    then have a: "alive s t" "v_pos t = v_pos s" using t(4) by simp_all
    have dt: "decodable t" by (rule decodable_core [OF assms(1) t(2) a(1)])
    have small: "small_rect t" using assms(2) t(2) by (simp add: small_rect_def core_def)
    have av: "1 \<le> avail t" using False a(2) t(2) by (simp add: avail_def core_def)
    have bad: "decodes t (Some (False, fail m t))" for m
      by (rule decodes_fail) (use dt in \<open>auto simp: decodable_def core_refl\<close>)
    let ?kind = "unat (drop_bit 4 c)"
    have "decodes t (if ?kind = 8 then tight_fill t else if ?kind = 9 then tight_jpeg env t
        else if ?kind > 9 then Some (False, fail ''The server used an unsupported Tight sub-encoding'' t)
        else tight_basic env c t)"
      using tight_fill_ok [OF dt] tight_jpeg_ok [OF dt assms(3)] tight_basic_ok [OF dt av small] bad by simp
    from decodes_after [OF t(2) a(1) t(3) this]
    show ?thesis using False True t(1) unfolding stepTight_def u by (simp add: Let_def del: reset_streams.simps)
  qed
qed

end
