(* ===== verification/VncTiles.thy ===== *)
theory VncTiles
  imports VncDecoding
begin

text \<open>
  The tiled encodings of the RFB client, ZRLE and Hextile, meet the contract \<open>decodes\<close>: a tile's
  reads stay in the inflated bytes or the receive buffer, its writes in its rectangle, and the
  loops end within their fuel.
\<close>

subsection \<open>ZRLE\<close>

text \<open>A tile decoder's outcome: defined, and drawn inside \<open>r\<close>.\<close>

definition tile_ok :: "qrect \<Rightarrow> image \<Rightarrow> zrle_state option \<Rightarrow> bool" where
  "tile_ok r m res \<longleftrightarrow> (\<exists>ok pos m'. res = Some (ok, pos, m') \<and> keeps_outside r m m')"

lemma tile_ok_stop [simp]: "tile_ok r m (Some (ok, pos, m))"
  by (simp add: tile_ok_def)

lemma cpixel_defined: "pos + 2 < length d \<Longrightarrow> \<exists>c. cpixel d pos = Some c"
  by (simp add: cpixel_def)

lemma zrle_palette_defined:
  assumes "pos + n * 3 \<le> length d" "n \<le> 128"
  shows "\<exists>p. zrle_palette env d pos n = Some p \<and> length p = 128"
  unfolding zrle_palette_def
proof (rule for_n_const_total [where P = "\<lambda>p. length p = 128"])
  fix j and p :: "rgb list" assume j: "j < n" and p: "length p = 128"
  obtain c where "cpixel d (pos + 3 * j) = Some c"
    using cpixel_defined [of "pos + 3 * j" d] assms(1) j by auto
  then show "\<exists>q. (do { c \<leftarrow> cpixel d (pos + 3 * j); wr p j c }) = Some q \<and> length q = 128"
    using j p assms(2) by simp
qed simp

lemma zrle_packed_ok:
  assumes "rect_in m r" "r_x r \<le> x0" "x0 + tw \<le> r_x r + r_w r" "r_y r \<le> y0" "y0 + th \<le> r_y r + r_h r"
    and "length palette = 128" "0 < paletteSize" "paletteSize \<le> 127"
  shows "tile_ok r m (zrle_packed d pos palette paletteSize tw th x0 y0 m)"
proof -
  define bits :: nat where "bits = (if paletteSize = 2 then 1 else if paletteSize \<le> 4 then 2 else 4)"
  define rowBytes where "rowBytes = (tw * bits + 7) div 8"
  have bits: "bits \<in> {1, 2, 4}" by (simp add: bits_def)
  define f where "f = (\<lambda>y x. do {
                  b \<leftarrow> rd d (pos + y * rowBytes + x * bits div 8);
                  let shift = 8 - bits * (x mod (8 div bits) + 1);
                  let index = unat (drop_bit shift b AND mask bits);
                  rd palette (index mod paletteSize) })"
  have eq: "zrle_packed d pos palette paletteSize tw th x0 y0 m =
      (if pos + rowBytes * th > length d then Some (False, pos, m)
       else do { m' \<leftarrow> blit tw th x0 y0 f m; Some (True, pos + rowBytes * th, m') })"
    unfolding zrle_packed_def Let_def bits_def rowBytes_def f_def by (rule refl)
  show ?thesis
  proof (cases "pos + rowBytes * th > length d")
    case True
    then show ?thesis unfolding eq by simp
  next
    case False
    have "f i k \<noteq> None" if "i < th" "k < tw" for i k
    proof -
      have "k * bits div 8 < rowBytes" using bits that(2) unfolding rowBytes_def by auto
      then have "i * rowBytes + k * bits div 8 < rowBytes * th" by (rule row_index [OF that(1)])
      then have "pos + i * rowBytes + k * bits div 8 < length d" using False by simp
      moreover have "q mod paletteSize < 128" for q
        using mod_less_divisor [OF assms(7), of q] assms(8) by linarith
      ultimately show ?thesis using assms(6) by (simp add: f_def Let_def)
    qed
    then obtain m' where "blit tw th x0 y0 f m = Some m'" "keeps_outside r m m'"
      using blit_inside [OF assms(1-5), of f] by blast
    then show ?thesis using False unfolding eq by (auto simp: tile_ok_def)
  qed
qed

text \<open>The cursor of a run: \<open>n\<close> pixels of a \<open>tw\<close> wide tile are done, all inside \<open>r\<close>.\<close>

definition cursor :: "nat \<Rightarrow> nat \<Rightarrow> nat \<times> nat \<times> image \<Rightarrow> bool" where
  "cursor tw n st \<longleftrightarrow> fst st < tw \<and> fst (snd st) * tw + fst st = n"

lemma zrle_put_ok:
  assumes "cursor tw n st" "n < tw * th" "rect_in (snd (snd st)) r"
    and "r_x r \<le> x0" "x0 + tw \<le> r_x r + r_w r" "r_y r \<le> y0" "y0 + th \<le> r_y r + r_h r"
  shows "\<exists>st'. zrle_put tw x0 y0 c st = Some st' \<and> cursor tw (n + 1) st' \<and>
    keeps_outside r (snd (snd st)) (snd (snd st'))"
proof -
  obtain x y m where st: "st = (x, y, m)" by (cases st)
  have x: "x < tw" and n: "y * tw + x = n" using assms(1) by (simp_all add: cursor_def st)
  have "y * tw < th * tw" using n assms(2) by (simp only: mult.commute [of tw th])
  then have y: "y < th" by (simp only: mult_less_cancel2)
  obtain m' where "set_px (x0 + x) (y0 + y) c m = Some m'" "keeps_outside r m m'"
    using set_px_inside [of m r "x0 + x" "y0 + y" c] assms(3-7) x y by (auto simp: in_rect_def st)
  then show ?thesis using x n by (auto simp: zrle_put_def st cursor_def algebra_simps)
qed

lemma zrle_puts_ok:
  assumes "cursor tw n st" "n + run \<le> tw * th" "rect_in (snd (snd st)) r"
    and "r_x r \<le> x0" "x0 + tw \<le> r_x r + r_w r" "r_y r \<le> y0" "y0 + th \<le> r_y r + r_h r"
  shows "\<exists>st'. for_n run (\<lambda>_. zrle_put tw x0 y0 c) st = Some st' \<and> cursor tw (n + run) st' \<and>
    keeps_outside r (snd (snd st)) (snd (snd st'))"
proof (rule for_n_total [where P = "\<lambda>j st'. cursor tw (n + j) st' \<and> keeps_outside r (snd (snd st)) (snd (snd st'))"])
  show "cursor tw (n + 0) st \<and> keeps_outside r (snd (snd st)) (snd (snd st))" using assms(1) by simp
next
  fix j and b :: "nat \<times> nat \<times> image" assume j: "j < run"
    and b: "cursor tw (n + j) b \<and> keeps_outside r (snd (snd st)) (snd (snd b))"
  have "\<exists>st'. zrle_put tw x0 y0 c b = Some st' \<and> cursor tw (n + j + 1) st' \<and>
      keeps_outside r (snd (snd b)) (snd (snd st'))"
    by (rule zrle_put_ok) (use assms b j in \<open>auto simp: keeps_outside_rect_in\<close>)
  then show "\<exists>st'. zrle_put tw x0 y0 c b = Some st' \<and> cursor tw (n + Suc j) st' \<and>
      keeps_outside r (snd (snd st)) (snd (snd st'))"
    using b keeps_outside_trans by (metis Suc_eq_plus1 add.assoc)
qed

lemma zrle_colour_defined:
  assumes "length palette = 128" "paletteSize \<le> 127"
  shows "\<exists>col. zrle_colour d palette paletteSize pos = Some col"
proof -
  have "0 < paletteSize \<Longrightarrow> q mod paletteSize < 128" for q
    using mod_less_divisor [of paletteSize q] assms(2) by linarith
  then show ?thesis using assms(1) cpixel_defined [of pos d] by (auto simp: zrle_colour_def)
qed

lemma zrle_rle_ok:
  assumes "cursor tw n st" "n \<le> tw * th" "tw * th \<le> n + fuel" "rect_in (snd (snd st)) r"
    and "r_x r \<le> x0" "x0 + tw \<le> r_x r + r_w r" "r_y r \<le> y0" "y0 + th \<le> r_y r + r_h r"
    and "length palette = 128" "paletteSize \<le> 127" "length d \<le> 8400000" "tw * th \<le> 4096"
  shows "tile_ok r (snd (snd st)) (zrle_rle fuel d palette paletteSize tw (tw * th) x0 y0 n pos st)"
  using assms(1-4)
proof (induction fuel arbitrary: n pos st)
  case 0
  then show ?case by (subst zrle_rle.simps) simp
next
  case (Suc fuel)
  show ?case
  proof (cases "n < tw * th")
    case False
    then show ?thesis by (subst zrle_rle.simps) simp
  next
    case True
    obtain col where col: "zrle_colour d palette paletteSize pos = Some col"
      using zrle_colour_defined [OF assms(9,10)] by blast
    have go: "tile_ok r (snd (snd st)) (zrle_rle fuel d palette paletteSize tw (tw * th) x0 y0 k pos' st')"
      if "cursor tw k st'" "k \<le> tw * th" "n < k" "keeps_outside r (snd (snd st)) (snd (snd st'))" for k pos' st'
    proof -
      have "tile_ok r (snd (snd st')) (zrle_rle fuel d palette paletteSize tw (tw * th) x0 y0 k pos' st')"
        by (rule Suc.IH) (use that Suc.prems in \<open>auto simp: keeps_outside_rect_in\<close>)
      then show ?thesis using that(4) keeps_outside_trans unfolding tile_ok_def by blast
    qed
    show ?thesis
    proof (cases col)
      case None
      then show ?thesis using True col by (subst zrle_rle.simps) simp
    next
      case (Some a)
      obtain colour isRun pos1 where a: "a = (colour, isRun, pos1)" by (cases a)
      show ?thesis
      proof (cases isRun)
        case False
        obtain st' where st': "zrle_put tw x0 y0 colour st = Some st'" "cursor tw (n + 1) st'"
          "keeps_outside r (snd (snd st)) (snd (snd st'))"
          using zrle_put_ok [OF Suc.prems(1) True Suc.prems(4) assms(5-8)] by blast
        have "tile_ok r (snd (snd st)) (zrle_rle fuel d palette paletteSize tw (tw * th) x0 y0 (n + 1) pos1 st')"
          by (rule go) (use st' True in auto)
        then show ?thesis using True col Some a False st'(1) by (subst zrle_rle.simps) simp
      next
        case run: True
        have "1 + 255 * length (drop pos1 d) < 2 ^ 31" using assms(11) by simp
        from zrle_run_defined [OF this, of pos1]
        obtain ok k pos2 where k: "zrle_run (drop pos1 d) 1 pos1 = Some (ok, k, pos2)" "1 \<le> k"
          "k \<le> 1 + 255 * length (drop pos1 d)" by blast
        have small: "\<not> n + k \<ge> 2 ^ 31" using k(3) assms(11,12) True by simp
        show ?thesis
        proof (cases "ok \<and> n + k \<le> tw * th")
          case False
          then show ?thesis using True col Some a run k(1) small by (subst zrle_rle.simps) auto
        next
          case ok: True
          obtain st' where st': "for_n k (\<lambda>_. zrle_put tw x0 y0 colour) st = Some st'" "cursor tw (n + k) st'"
            "keeps_outside r (snd (snd st)) (snd (snd st'))"
            using zrle_puts_ok [OF Suc.prems(1) conjunct2 [OF ok] Suc.prems(4) assms(5-8)] by blast
          have "tile_ok r (snd (snd st)) (zrle_rle fuel d palette paletteSize tw (tw * th) x0 y0 (n + k) pos2 st')"
            by (rule go) (use st' ok k(2) in auto)
          then show ?thesis using True col Some a run k(1) small ok st'(1) by (subst zrle_rle.simps) simp
        qed
      qed
    qed
  qed
qed

lemma zrle_draw_ok:
  assumes "rect_in m r" "r_x r \<le> x0" "x0 + tw \<le> r_x r + r_w r" "r_y r \<le> y0" "y0 + th \<le> r_y r + r_h r"
    and "0 < tw" "tw \<le> 64" "th \<le> 64" "length palette = 128" "ps \<le> 127" "length d \<le> 8400000"
  shows "tile_ok r m (zrle_draw d rle palette ps tw th x0 y0 pos m)"
proof -
  have "tw * th \<le> 64 * 64" by (rule mult_le_mono) (use assms in auto)
  then have size: "tw * th \<le> 4096" by simp
  have rle: "tile_ok r m (zrle_rle (tw * th) d palette ps tw (tw * th) x0 y0 0 pos (0, 0, m))"
    using zrle_rle_ok [of tw 0 "(0, 0, m)" th "tw * th" r x0 y0 palette ps d pos] assms size
    by (simp add: cursor_def)
  have raw: "tile_ok r m (do { m' \<leftarrow> blit tw th x0 y0 (\<lambda>y x. cpixel d (pos + 3 * (y * tw + x))) m;
      Some (True, pos + tw * th * 3, m') })" if fits: "\<not> pos + tw * th * 3 > length d"
  proof -
    have "cpixel d (pos + 3 * (y * tw + x)) \<noteq> None" if "y < th" "x < tw" for y x
      using row_index [OF that] cpixel_defined [of "pos + 3 * (y * tw + x)" d] fits by auto
    then obtain m' where "blit tw th x0 y0 (\<lambda>y x. cpixel d (pos + 3 * (y * tw + x))) m = Some m'"
      "keeps_outside r m m'"
      using blit_inside [OF assms(1-5), of "\<lambda>y x. cpixel d (pos + 3 * (y * tw + x))"] by blast
    then show ?thesis by (auto simp: tile_ok_def)
  qed
  have solid: "tile_ok r m (do { c \<leftarrow> rd palette 0; m' \<leftarrow> fillRect x0 y0 tw th c m; Some (True, pos, m') })"
    using fillRect_inside [OF assms(1-5), of "palette ! 0"] assms(9) by (auto simp: tile_ok_def)
  have packed: "tile_ok r m (zrle_packed d pos palette ps tw th x0 y0 m)" if "ps \<noteq> 0"
    by (rule zrle_packed_ok [OF assms(1-5,9)]) (use that assms(10) in auto)
  show ?thesis unfolding zrle_draw_def using rle raw solid packed by simp
qed

lemma zrle_tile_ok:
  assumes "rect_in m r" "tx < r_w r" "ty < r_h r" "length d \<le> 8400000"
  shows "tile_ok r m (zrle_tile env d r tx ty pos m)"
proof (cases "pos + 1 > length d")
  case True
  then show ?thesis by (simp add: zrle_tile_def Let_def)
next
  case False
  obtain sub where sub: "rd d pos = Some sub" using False by auto
  define ps where "ps = unat (sub AND 127)"
  define stored where "stored = (if ps > 0 \<and> ps \<noteq> 127 then ps else 0)"
  have "sub AND 127 \<le> (127 :: byte)" by (rule word_and_le1)
  then have ps: "ps \<le> 127" by (simp add: ps_def word_le_nat_alt)
  have eq: "zrle_tile env d r tx ty pos m =
      (if pos + 1 + stored * 3 > length d then Some (False, pos + 1, m)
       else do { palette \<leftarrow> zrle_palette env d (pos + 1) stored;
                 zrle_draw d (bit sub 7) palette ps (min 64 (r_w r - tx)) (min 64 (r_h r - ty))
                   (r_x r + tx) (r_y r + ty) (pos + 1 + 3 * stored) m })"
    unfolding zrle_tile_def Let_def if_not_P [OF False] sub bind.bind_lunit stored_def ps_def by (rule refl)
  show ?thesis
  proof (cases "pos + 1 + stored * 3 > length d")
    case True
    then show ?thesis unfolding eq by simp
  next
    case enough: False
    obtain palette where pal: "zrle_palette env d (pos + 1) stored = Some palette" "length palette = 128"
      using zrle_palette_defined [of "pos + 1" stored d env] enough ps by (auto simp: stored_def split: if_splits)
    have "tile_ok r m (zrle_draw d (bit sub 7) palette ps (min 64 (r_w r - tx)) (min 64 (r_h r - ty))
        (r_x r + tx) (r_y r + ty) (pos + 1 + 3 * stored) m)"
      by (rule zrle_draw_ok) (use assms pal(2) ps in auto)
    then show ?thesis unfolding eq if_not_P [OF enough] pal(1) by simp
  qed
qed

lemma zrle_tiles_ok:
  assumes "rect_in m r" "length d \<le> 8400000"
  shows "tile_ok r m (zrle_tiles env d r m)"
proof -
  let ?P = "\<lambda>st :: zrle_state. keeps_outside r m (snd (snd st))"
  let ?body = "\<lambda>i j st. case st of (ok, pos, m') \<Rightarrow>
      if ok then zrle_tile env d r (64 * j) (64 * i) pos m' else Some st"
  have body: "\<exists>c. ?body i j st = Some c \<and> ?P c"
    if "i < (r_h r + 63) div 64" "j < (r_w r + 63) div 64" "?P st" for i j st
  proof -
    obtain ok pos m' where st: "st = (ok, pos, m')" by (cases st)
    have "tile_ok r m' (zrle_tile env d r (64 * j) (64 * i) pos m')"
    proof (rule zrle_tile_ok)
      show "rect_in m' r" using that(3) assms(1) st by (simp add: keeps_outside_rect_in)
    qed (rule tile_start [OF that(2)], rule tile_start [OF that(1)], rule assms(2))
    then obtain ok' pos' m'' where t: "zrle_tile env d r (64 * j) (64 * i) pos m' = Some (ok', pos', m'')"
      "keeps_outside r m' m''" unfolding tile_ok_def by blast
    have "keeps_outside r m m''" by (rule keeps_outside_trans [OF _ t(2)]) (use that(3) st in simp)
    then show ?thesis using that(3) st t(1) by (cases ok) simp_all
  qed
  have "\<exists>c. zrle_tiles env d r m = Some c \<and> ?P c"
    unfolding zrle_tiles_def
  proof (rule for_n_const_total [where P = ?P])
    fix i st assume "i < (r_h r + 63) div 64" "?P st"
    then show "\<exists>c. for_n ((r_w r + 63) div 64) (?body i) st = Some c \<and> ?P c"
      by (intro for_n_const_total [where P = ?P]) (use body in blast)+
  qed simp
  then show ?thesis by (auto simp: tile_ok_def)
qed

lemma stepZrle_ok:
  assumes "decodable s" "zrle_bounded env"
  shows "\<exists>b s'. stepZrle env s = Some (b, s') \<and> core s s' \<and>
    (if b then alive s s' \<and> v_dirty s' = united (v_dirty s) (v_rect s)
     else v_dirty s' = v_dirty s \<and> (alive s s' \<or> v_stage s' = Idle))"
proof -
  have p: "v_pos s \<le> length (v_buf s)" and nf: "\<not> v_failedAlready s"
    using assms(1) by (simp_all add: decodable_def)
  note refl = core_refl [OF p]
  have stop: ?thesis if "stepZrle env s = Some (False, t)" "core s t" "v_dirty t = v_dirty s"
    "alive s t \<or> v_stage t = Idle" for t
    using that by auto
  show ?thesis
  proof (cases "avail s < 4")
    case True
    then show ?thesis using refl by (intro stop [of s]) (simp_all add: stepZrle_def)
  next
    case False
    obtain l where l: "u32 s 0 = Some l" using u32_defined [OF p, of 0] False by auto
    let ?len = "unat l"
    show ?thesis
    proof (cases "?len > 64 * 2 ^ 20 \<or> avail s < 4 + ?len")
      case True
      then show ?thesis
      proof (cases "?len > 64 * 2 ^ 20")
        case True
        then show ?thesis using False l refl nf
          by (intro stop [of "fail ''The server sent an oversized ZRLE rectangle'' s"])
            (simp_all add: stepZrle_def fail_stage)
      next
        case notbig: False
        then show ?thesis using \<open>_ \<or> _\<close> False l refl by (intro stop [of s]) (simp_all add: stepZrle_def)
      qed
    next
      case here: False
      obtain ready st where r: "(case v_zrleStream s of
          None \<Rightarrow> inflate_reset env None | Some st \<Rightarrow> (True, st)) = (ready, st)" by fastforce
      let ?s1 = "s\<lparr>v_zrleStream := Some st\<rparr>"
      have ptr: "buf_ptr ?s1 4 ?len = Some (buf_mid s 4 ?len)"
      proof -
        have "v_pos s + 4 + ?len \<le> length (v_buf s)" using here p unfolding avail_def by linarith
        then show ?thesis by (simp add: buf_ptr_def buf_mid_def)
      qed
      obtain ok st' out where i: "(case st of None \<Rightarrow> Some (False, None, [])
          | Some z \<Rightarrow> do { (ok, z', out) \<leftarrow> inflateAll env z (buf_mid s 4 ?len) []; Some (ok, Some z', out) })
            = Some (ok, st', out)" "length out \<le> 8400000"
      proof (cases st)
        case None
        then show ?thesis using that [of False None "[]"] by simp
      next
        case (Some z)
        obtain ok z' out where "inflateAll env z (buf_mid s 4 ?len) [] = Some (ok, z', out)" "length out \<le> 8400000"
          using assms(2) unfolding zrle_bounded_def by metis
        then show ?thesis using that [of ok "Some z'" out] Some by simp
      qed
      let ?s2 = "?s1\<lparr>v_zrleStream := Some st'\<rparr>"
      let ?s3 = "consume (4 + ?len) ?s2"
      have av: "v_pos s + (4 + ?len) \<le> length (v_buf s)" using here p unfolding avail_def by linarith
      have c: "core s ?s1" "core s ?s2" "core s ?s3"
        using refl av by (simp_all add: core_def consume_def)
      obtain good pos m where m: "zrle_tiles env out (v_rect s) (v_work s) = Some (good, pos, m)"
        "keeps_outside (v_rect s) (v_work s) m"
        using zrle_tiles_ok [of "v_work s" "v_rect s" out env] assms(1) i(2) by (auto simp: tile_ok_def decodable_def)
      let ?s4 = "?s3\<lparr>v_work := m\<rparr>"
      have c4: "core s ?s4" using c(3) m(2) by (simp add: core_def consume_def)
      have eq: "stepZrle env s =
          (if \<not> ready then Some (False, fail ''zlib failed'' ?s1)
           else if \<not> ok then Some (False, fail ''The server sent corrupt compressed data'' ?s2)
           else if \<not> good then Some (False, fail ''The server sent a corrupt ZRLE rectangle'' ?s4)
           else Some (True, addDirty (v_rect ?s4) ?s4))"
        using False here by (simp add: stepZrle_def l r ptr i(1) m(1) consume_def)
      have f: "v_stage (fail t ?s1) = Idle" "v_stage (fail t ?s2) = Idle" "v_stage (fail t ?s4) = Idle" for t
        using nf by (simp_all add: fail_stage consume_def)
      show ?thesis
      proof (cases "ready \<and> ok \<and> good")
        case True
        have "core s (addDirty (v_rect ?s4) ?s4)" using c4 by (simp add: core_def addDirty_def)
        then show ?thesis using True eq by (auto simp: alive_def addDirty_def consume_def)
      next
        case False
        then show ?thesis unfolding eq using c c4 f by (auto simp: consume_def)
      qed
    qed
  qed
qed

subsection \<open>Hextile\<close>

lemma hextile_subrects_ok:
  assumes "decodable s" "pos + n * (if coloured then 6 else 2) \<le> avail s"
    and "r_x (v_rect s) \<le> tx" "tx + tw \<le> r_x (v_rect s) + r_w (v_rect s)"
    and "r_y (v_rect s) \<le> ty" "ty + th \<le> r_y (v_rect s) + r_h (v_rect s)"
  shows "\<exists>ok pos' t. hextile_subrects n coloured fg tx ty tw th pos s = Some (ok, pos', t) \<and> core s t \<and>
    v_dirty t = v_dirty s \<and> v_pos t = v_pos s \<and> pos \<le> pos' \<and>
    (if ok then alive s t \<and> pos' = pos + n * (if coloured then 6 else 2) else v_stage t = Idle)"
  using assms
proof (induction n arbitrary: pos s)
  case 0
  then show ?case by (auto simp: core_refl decodable_def)
next
  case (Suc n)
  let ?pos1 = "if coloured then pos + 4 else pos"
  have p: "v_pos s \<le> length (v_buf s)" and nf: "\<not> v_failedAlready s"
    using Suc.prems(1) by (simp_all add: decodable_def)
  obtain colour where colour: "(if coloured then pixelAt s pos else Some fg) = Some colour"
    using pixelAt_defined [OF p, of pos] Suc.prems(2) by (cases coloured) auto
  obtain xy wh where b: "u8 s ?pos1 = Some xy" "u8 s (?pos1 + 1) = Some wh"
    using u8_Some [OF p, of ?pos1] u8_Some [OF p, of "?pos1 + 1"] Suc.prems(2) by (cases coloured) auto
  let ?sx = "unat (drop_bit 4 xy)" and ?sy = "unat (xy AND 15)"
  let ?sw = "unat (drop_bit 4 wh) + 1" and ?sh = "unat (wh AND 15) + 1"
  show ?case
  proof (cases "?sx + ?sw > tw \<or> ?sy + ?sh > th")
    case True
    let ?t = "fail ''The server sent an invalid Hextile subrectangle'' s"
    have "hextile_subrects (Suc n) coloured fg tx ty tw th pos s = Some (False, ?pos1 + 2, ?t)"
      using colour b True by (simp add: Let_def)
    moreover have "core s ?t \<and> v_dirty ?t = v_dirty s \<and> v_pos ?t = v_pos s \<and> v_stage ?t = Idle"
      using core_refl [OF p] fail_stage [OF nf] by simp
    moreover have "pos \<le> ?pos1 + 2" by simp
    ultimately show ?thesis
      by (intro exI [of _ False] exI [of _ "?pos1 + 2"] exI [of _ ?t] conjI)
        (simp_all del: hextile_subrects.simps fail_core)
  next
    case False
    obtain t where t: "draw (fillRect (tx + ?sx) (ty + ?sy) ?sw ?sh colour) s = Some t" "core s t" "alive s t"
      "v_dirty t = v_dirty s" "v_pos t = v_pos s"
      using draw_fillRect [OF Suc.prems(1), of "tx + ?sx" ?sw "ty + ?sy" ?sh colour] Suc.prems(3-6) False
      by auto
    have r: "v_rect t = v_rect s" "avail t = avail s" using t(2,5) by (simp_all add: core_def avail_def)
    have "\<exists>ok pos' u. hextile_subrects n coloured fg tx ty tw th (?pos1 + 2) t = Some (ok, pos', u) \<and> core t u \<and>
      v_dirty u = v_dirty t \<and> v_pos u = v_pos t \<and> ?pos1 + 2 \<le> pos' \<and>
      (if ok then alive t u \<and> pos' = ?pos1 + 2 + n * (if coloured then 6 else 2) else v_stage u = Idle)"
      by (rule Suc.IH) (use decodable_core [OF Suc.prems(1) t(2,3)] Suc.prems r in auto)
    then obtain ok pos' u where u: "hextile_subrects n coloured fg tx ty tw th (?pos1 + 2) t = Some (ok, pos', u)"
      "core t u" "v_dirty u = v_dirty t" "v_pos u = v_pos t" "?pos1 + 2 \<le> pos'"
      "if ok then alive t u \<and> pos' = ?pos1 + 2 + n * (if coloured then 6 else 2) else v_stage u = Idle"
      by blast
    have eq: "hextile_subrects (Suc n) coloured fg tx ty tw th pos s = Some (ok, pos', u)"
      using colour b False t(1) u(1) by (simp add: Let_def)
    have "core s u" by (rule core_trans [OF t(2) u(2)])
    moreover have "ok \<Longrightarrow> alive s u" using alive_trans [OF t(3)] u(6) by simp
    ultimately show ?thesis unfolding eq using t u by (auto split: if_splits)
  qed
qed

lemma stepHextileTile_ok:
  assumes "decodable s" "v_tileY s < r_h (v_rect s)"
  shows "decodes s (stepHextileTile s)"
proof (cases "avail s = 0")
  case True
  then show ?thesis using assms(1) by (simp add: stepHextileTile_def decodes_wait decodable_def)
next
  case False
  have p: "v_pos s \<le> length (v_buf s)" using assms(1) by (simp add: decodable_def)
  note wait = decodes_wait [OF p]
  let ?tw = "min 16 (r_w (v_rect s) - v_tileX s)" and ?th = "min 16 (r_h (v_rect s) - v_tileY s)"
  let ?tx = "r_x (v_rect s) + v_tileX s" and ?ty = "r_y (v_rect s) + v_tileY s"
  have in_r: "r_x (v_rect s) \<le> ?tx" "?tx + ?tw \<le> r_x (v_rect s) + r_w (v_rect s)"
    "r_y (v_rect s) \<le> ?ty" "?ty + ?th \<le> r_y (v_rect s) + r_h (v_rect s)"
    using assms by (auto simp: decodable_def min_def)
  obtain sub where sub: "u8 s 0 = Some sub" using u8_Some [OF p, of 0] False by auto
  have raw: "decodes s (do {
      s1 \<leftarrow> draw (blit ?tw ?th ?tx ?ty (\<lambda>row col. pixelAt s (1 + (row * ?tw + col) * 4))) s;
      Some (True, consume (1 + ?tw * ?th * 4) s1) })" if av: "\<not> avail s < 1 + ?tw * ?th * 4"
  proof -
    have "pixelAt s (1 + (i * ?tw + k) * 4) \<noteq> None" if "i < ?th" "k < ?tw" for i k
      using row_index [OF that] pixelAt_defined [OF p, of "1 + (i * ?tw + k) * 4"] av by auto
    then obtain t where t: "draw (blit ?tw ?th ?tx ?ty (\<lambda>row col. pixelAt s (1 + (row * ?tw + col) * 4))) s = Some t"
      "core s t" "alive s t" "v_dirty t = v_dirty s" "v_pos t = v_pos s"
      using draw_blit [OF assms(1) in_r, of "\<lambda>row col. pixelAt s (1 + (row * ?tw + col) * 4)"] by blast
    have "v_pos t + (1 + ?tw * ?th * 4) \<le> length (v_buf t)" by (rule room [OF p t(2,5)]) (use av in simp)
    then show ?thesis using decodes_consume [OF t(2-4)] t(1) by simp
  qed
  have drawn: "decodes s (do {
      s1 \<leftarrow> draw (fillRect ?tx ?ty ?tw ?th bg) (s\<lparr>v_hexBg := bg, v_hexFg := fg\<rparr>);
      (ok, pos4, s2) \<leftarrow> hextile_subrects n coloured fg ?tx ?ty ?tw ?th pos s1;
      if ok then Some (True, consume pos4 s2) else Some (False, s2) })"
    if av: "\<not> avail s < pos + n * (if coloured then 6 else 2)" for bg fg n coloured pos
  proof -
    let ?s0 = "s\<lparr>v_hexBg := bg, v_hexFg := fg\<rparr>"
    have s0: "decodable ?s0" "core s ?s0" "alive s ?s0" "v_dirty ?s0 = v_dirty s" "v_pos ?s0 = v_pos s"
      using assms(1) by (simp_all add: decodable_def core_def alive_def)
    obtain t where t: "draw (fillRect ?tx ?ty ?tw ?th bg) ?s0 = Some t" "core ?s0 t" "alive ?s0 t"
      "v_dirty t = v_dirty ?s0" "v_pos t = v_pos ?s0"
      using draw_fillRect [OF s0(1), of ?tx ?tw ?ty ?th bg] in_r by auto
    have ct: "core s t" "alive s t" "v_dirty t = v_dirty s" "v_pos t = v_pos s"
      using core_trans [OF s0(2) t(2)] alive_trans [OF s0(3) t(3)] t(4,5) s0(4,5) by simp_all
    have dt: "decodable t" by (rule decodable_core [OF assms(1) ct(1,2)])
    have "pos + n * (if coloured then 6 else 2) \<le> avail t" "v_rect t = v_rect s"
      using av ct(1,4) by (simp_all add: core_def avail_def)
    then obtain ok pos' u where u: "hextile_subrects n coloured fg ?tx ?ty ?tw ?th pos t = Some (ok, pos', u)"
      "core t u" "v_dirty u = v_dirty t" "v_pos u = v_pos t"
      "if ok then alive t u \<and> pos' = pos + n * (if coloured then 6 else 2) else v_stage u = Idle"
      using hextile_subrects_ok [OF dt, of pos n coloured ?tx ?tw ?ty ?th fg] in_r by auto
    have cu: "core s u" "v_dirty u = v_dirty s" "v_pos u = v_pos s"
      using core_trans [OF ct(1) u(2)] u(3,4) ct(3,4) by simp_all
    show ?thesis
    proof (cases ok)
      case True
      then have a: "alive s u" "pos' = pos + n * (if coloured then 6 else 2)"
        using u(5) alive_trans [OF ct(2)] by simp_all
      have "v_pos u + pos' \<le> length (v_buf u)" by (rule room [OF p cu(1,3)]) (use av a(2) in simp)
      then have "decodes s (Some (True, consume pos' u))" by (rule decodes_consume [OF cu(1) a(1) cu(2)])
      then show ?thesis using t(1) u(1) True by simp
    next
      case False
      then have "decodes s (Some (False, u))" using cu u(5) unfolding decodes_def by auto
      then show ?thesis using t(1) u(1) False by simp
    qed
  qed
  have bg: "\<exists>bg. (if bit sub 1 then pixelAt s 1 else Some (v_hexBg s)) = Some bg" if "\<not> (bit sub 1 \<and> avail s < 1 + 4)"
    using that pixelAt_defined [OF p, of 1] by auto
  have fg: "\<exists>fg. (if bit sub 2 then pixelAt s k else Some (v_hexFg s)) = Some fg" if "\<not> (bit sub 2 \<and> avail s < k + 4)" for k
    using that pixelAt_defined [OF p, of k] by auto
  have n: "\<exists>n. (if bit sub 3 then map_option unat (u8 s k) else Some 0) = Some n" if "\<not> (bit sub 3 \<and> avail s < k + 1)" for k
    using that u8_Some [OF p, of k] by auto
  show ?thesis
    unfolding stepHextileTile_def Let_def if_not_P [OF False] sub bind.bind_lunit
    apply (rule decodes_if)
     apply (rule decodes_if [OF wait raw], assumption)
    apply (rule decodes_if [OF wait])
    apply (drule bg, elim exE, rule decodes_bind, assumption)
    apply (rule decodes_if [OF wait])
    apply (drule fg, elim exE, rule decodes_bind, assumption)
    apply (rule decodes_if [OF wait])
    apply (drule n, elim exE, rule decodes_bind, assumption)
    apply (rule decodes_if [OF wait drawn], assumption)
    done
qed

end
