(* ===== verification/VncRun.thy ===== *)
theory VncRun
  imports VncTiles
begin

text \<open>
  The RFB client as a whole: its invariant, the safety and termination of a step and of the receive
  loop, what the displayed framebuffer can show, and the properties.
\<close>

subsection \<open>Rectangles\<close>

text \<open>\<open>core\<close> up to the tile position, which the Hextile loop moves.\<close>

definition rect_core :: "'z vnc \<Rightarrow> 'z vnc \<Rightarrow> bool" where
  "rect_core s t \<longleftrightarrow> core s (t\<lparr>v_tileX := v_tileX s, v_tileY := v_tileY s\<rparr>)"

lemma core_rect_core: "core s t \<Longrightarrow> rect_core s t"
  by (simp add: core_def rect_core_def)

lemma rect_core_trans: "rect_core s t \<Longrightarrow> rect_core t u \<Longrightarrow> rect_core s u"
  unfolding core_def rect_core_def by (auto intro: keeps_outside_trans)

text \<open>The outcome of a rectangle: complete, waiting in a state to be retried, or failed. A complete
  rectangle that changed the image is in the dirty region.\<close>

definition rect_result :: "'z vnc \<Rightarrow> 'z vnc_result \<Rightarrow> bool" where
  "rect_result s r \<longleftrightarrow>
     (\<exists>b t. r = Some (b, t) \<and> rect_core s t \<and>
       (if b then alive s t \<and> v_dirty t = united (v_dirty s) (v_rect s)
        else v_dirty t = v_dirty s \<and> (v_stage t = Idle \<or> alive s t \<and> v_tileX t \<le> r_w (v_rect t))))"

lemma rect_result_Some:
  "rect_result s (Some (b, t)) \<longleftrightarrow> rect_core s t \<and>
     (if b then alive s t \<and> v_dirty t = united (v_dirty s) (v_rect s)
      else v_dirty t = v_dirty s \<and> (v_stage t = Idle \<or> alive s t \<and> v_tileX t \<le> r_w (v_rect t)))"
  by (simp add: rect_result_def)

lemma rect_result_failed:
  "rect_core s t \<Longrightarrow> v_dirty t = v_dirty s \<Longrightarrow> v_stage t = Idle \<Longrightarrow> rect_result s (Some (False, t))"
  by (simp add: rect_result_Some)

lemma rect_result_wait: "decodable s \<Longrightarrow> rect_result s (Some (False, s))"
  by (simp add: rect_result_Some decodable_def core_refl core_rect_core)

lemma rect_core_addDirty [simp]: "rect_core s (addDirty r t) \<longleftrightarrow> rect_core s t"
  by (simp add: rect_core_def core_def addDirty_def)

lemma alive_addDirty [simp]: "alive s (addDirty r t) \<longleftrightarrow> alive s t"
  by (simp add: alive_def addDirty_def)

lemma rect_result_done:
  "rect_core s t \<Longrightarrow> alive s t \<Longrightarrow> v_dirty t = v_dirty s \<Longrightarrow>
   rect_result s (Some (True, addDirty (v_rect s) t))"
  by (simp add: rect_result_Some) (simp add: addDirty_def)

lemma consume_core:
  "core s t \<Longrightarrow> v_pos t + n \<le> length (v_buf t) \<Longrightarrow> core s (consume n t)"
  by (simp add: core_def consume_def)

lemma consume_simps [simp]:
  "alive s (consume n t) \<longleftrightarrow> alive s t" "v_dirty (consume n t) = v_dirty t" "v_rect (consume n t) = v_rect t"
  "v_work (consume n t) = v_work t" "v_failedAlready (consume n t) = v_failedAlready t"
  by (simp_all add: alive_def consume_def)

lemma consume_addDirty: "consume n (addDirty r t) = addDirty r (consume n t)"
  by (simp add: consume_def addDirty_def)

lemma rect_raw_ok:
  assumes "decodable s"
  shows "rect_result s (rect_raw s)"
proof -
  have p: "v_pos s \<le> length (v_buf s)" using assms by (simp add: decodable_def)
  let ?w = "r_w (v_rect s)" and ?h = "r_h (v_rect s)"
  let ?f = "\<lambda>row col. pixelAt s (row * ?w * 4 + col * 4)"
  show ?thesis
  proof (cases "avail s < ?w * ?h * 4")
    case True
    then show ?thesis using rect_result_wait [OF assms] by (simp add: rect_raw_def Let_def)
  next
    case False
    have "?f i k \<noteq> None" if "i < ?h" "k < ?w" for i k
      using row_index [OF that] pixelAt_defined [OF p, of "i * ?w * 4 + k * 4"] False by auto
    then obtain t where t: "draw (blit ?w ?h (r_x (v_rect s)) (r_y (v_rect s)) ?f) s = Some t"
      "core s t" "alive s t" "v_dirty t = v_dirty s" "v_pos t = v_pos s"
      using draw_blit [OF assms, of "r_x (v_rect s)" ?w "r_y (v_rect s)" ?h ?f] by blast
    have "v_pos t + ?w * ?h * 4 \<le> length (v_buf t)" by (rule room [OF p t(2,5)]) (use False in simp)
    then have "core s (consume (?w * ?h * 4) t)" by (rule consume_core [OF t(2)])
    then have "rect_result s (Some (True, addDirty (v_rect s) (consume (?w * ?h * 4) t)))"
      by (intro rect_result_done core_rect_core) (use t in simp_all)
    then show ?thesis using False t(1) by (simp add: rect_raw_def Let_def consume_addDirty)
  qed
qed

lemma rect_contains_in: "rect_contains (image_rect m) r \<Longrightarrow> rect_in m r"
  by (simp add: rect_contains_def image_rect_def rect_in_def)

lemma rect_copy_ok:
  assumes "decodable s"
  shows "rect_result s (rect_copy s)"
proof (cases "avail s < 4")
  case True
  then show ?thesis using rect_result_wait [OF assms] by (simp add: rect_copy_def)
next
  case False
  have p: "v_pos s \<le> length (v_buf s)" and nf: "\<not> v_failedAlready s"
    using assms by (simp_all add: decodable_def)
  obtain sx sy where xy: "u16 s 0 = Some sx" "u16 s 2 = Some sy"
    using False u16_Some [OF p, of 0] u16_Some [OF p, of 2] by auto
  let ?src = "\<lparr>r_x = unat sx, r_y = unat sy, r_w = r_w (v_rect s), r_h = r_h (v_rect s)\<rparr>"
  let ?s1 = "consume 4 s"
  have "v_pos s + 4 \<le> length (v_buf s)" by (rule room [OF p core_refl [OF p] refl]) (use False in simp)
  then have s1: "core s ?s1" "alive s ?s1" "v_dirty ?s1 = v_dirty s"
    using consume_core [OF core_refl [OF p]] by simp_all
  have d1: "decodable ?s1" by (rule decodable_core [OF assms s1(1,2)])
  show ?thesis
  proof (cases "rect_contains (image_rect (v_work ?s1)) ?src")
    case bad: False
    have "rect_result s (Some (False, fail ''The server sent an invalid copy region'' ?s1))"
      by (intro rect_result_failed core_rect_core fail_stage) (use s1 nf in simp_all)
    then show ?thesis using False xy bad by (simp add: rect_copy_def Let_def)
  next
    case True
    let ?f = "\<lambda>row col. Some (i_px (v_work ?s1) (r_x ?src + col) (r_y ?src + row))"
    let ?h = "if r_w ?src = 0 then 0 else r_h ?src"
    have "\<exists>t. draw (blit (r_w ?src) ?h (r_x (v_rect ?s1)) (r_y (v_rect ?s1)) ?f) ?s1 = Some t \<and>
        core ?s1 t \<and> alive ?s1 t \<and> v_dirty t = v_dirty ?s1 \<and> v_pos t = v_pos ?s1"
      by (rule draw_blit [OF d1]) simp_all
    then obtain t where t: "draw (blit (r_w ?src) ?h (r_x (v_rect ?s1)) (r_y (v_rect ?s1)) ?f) ?s1 = Some t"
      "core ?s1 t" "alive ?s1 t" "v_dirty t = v_dirty ?s1" by blast
    have ct: "core s t" "alive s t" using core_trans [OF s1(1) t(2)] alive_trans [OF s1(2) t(3)] by simp_all
    have r: "v_rect t = v_rect s" using ct(1) by (simp add: core_def)
    have "rect_result s (Some (True, addDirty (v_rect s) t))"
      by (intro rect_result_done core_rect_core) (use ct t(4) s1(3) in simp_all)
    moreover have "rect_copy s = Some (True, addDirty (v_rect s) t)"
      using False xy True t(1) r by (simp add: rect_copy_def Let_def)
    ultimately show ?thesis by simp
  qed
qed

text \<open>The Hextile loop: each tile moves on by the measure that \<open>hextile_fuel\<close> starts from.\<close>

definition next_tile :: "'z vnc \<Rightarrow> 'z vnc" where
  "next_tile s =
     (let s2 = s\<lparr>v_tileX := v_tileX s + 16\<rparr>
      in if v_tileX s2 \<ge> r_w (v_rect s2) then s2\<lparr>v_tileX := 0, v_tileY := v_tileY s2 + 16\<rparr> else s2)"

lemma next_tile_core: "rect_core s t \<Longrightarrow> rect_core s (next_tile t)"
  by (simp add: rect_core_def core_def next_tile_def Let_def)

lemma next_tile_simps [simp]:
  "alive s (next_tile t) \<longleftrightarrow> alive s t" "v_dirty (next_tile t) = v_dirty t" "v_rect (next_tile t) = v_rect t"
  by (simp_all add: alive_def next_tile_def Let_def)

lemma decodable_next_tile: "decodable s \<Longrightarrow> decodable (next_tile s)"
  by (simp add: decodable_def next_tile_def Let_def)

lemma next_tile_measure:
  assumes "v_tileY s < r_h (v_rect s)"
  shows "hextile_fuel (next_tile s) < hextile_fuel s"
proof (cases "v_tileX s + 16 \<ge> r_w (v_rect s)")
  case False
  then show ?thesis by (simp add: hextile_fuel_def next_tile_def)
next
  case True
  have "(r_h (v_rect s) - (v_tileY s + 16)) * (r_w (v_rect s) + 1) + (r_w (v_rect s) + 1) \<le>
      (r_h (v_rect s) - v_tileY s) * (r_w (v_rect s) + 1)"
  proof -
    have "(r_h (v_rect s) - (v_tileY s + 16) + 1) * (r_w (v_rect s) + 1) \<le>
        (r_h (v_rect s) - v_tileY s) * (r_w (v_rect s) + 1)"
      by (rule mult_le_mono1) (use assms in linarith)
    then show ?thesis by (simp add: algebra_simps)
  qed
  then show ?thesis using True by (simp add: hextile_fuel_def next_tile_def Let_def)
qed

lemma hextile_loop_ok:
  assumes "decodable s" "hextile_fuel s \<le> fuel"
  shows "\<exists>b t. hextile_loop fuel s = Some (b, t) \<and> rect_core s t \<and> v_dirty t = v_dirty s \<and>
    (if b then alive s t else v_stage t = Idle \<or> alive s t \<and> v_tileX t \<le> r_w (v_rect t))"
  using assms
proof (induction fuel arbitrary: s)
  case 0
  then show ?case by (simp add: hextile_fuel_def)
next
  case (Suc fuel)
  have p: "v_pos s \<le> length (v_buf s)" using Suc.prems(1) by (simp add: decodable_def)
  show ?case
  proof (cases "v_tileY s < r_h (v_rect s)")
    case False
    then have "hextile_loop (Suc fuel) s = Some (True, s)" by (subst hextile_loop.simps) simp
    then show ?thesis using core_rect_core [OF core_refl [OF p]] by auto
  next
    case True
    obtain b t where t: "stepHextileTile s = Some (b, t)" "core s t" "v_dirty t = v_dirty s"
      "alive s t \<or> \<not> b \<and> v_stage t = Idle"
      using stepHextileTile_ok [OF Suc.prems(1) True] unfolding decodes_def by blast
    have tile: "v_tileX t = v_tileX s" "v_tileY t = v_tileY s" "v_rect t = v_rect s" using t(2) by (simp_all add: core_def)
    have eq: "hextile_loop (Suc fuel) s = (if \<not> b then Some (False, t) else hextile_loop fuel (next_tile t))"
      using True t(1) by (subst hextile_loop.simps) (simp add: next_tile_def Let_def)
    show ?thesis
    proof (cases b)
      case False
      then show ?thesis
        using t tile Suc.prems(1) core_rect_core [OF t(2)] unfolding eq by (auto simp: decodable_def)
    next
      case b: True
      then have a: "alive s t" using t(4) by simp
      have dt: "decodable (next_tile t)" by (intro decodable_next_tile decodable_core [OF Suc.prems(1) t(2) a])
      have "hextile_fuel t = hextile_fuel s" using tile by (simp add: hextile_fuel_def)
      then have "hextile_fuel (next_tile t) \<le> fuel"
        using next_tile_measure [of t] True tile Suc.prems(2) by simp
      from Suc.IH [OF dt this] obtain b' u where u: "hextile_loop fuel (next_tile t) = Some (b', u)"
        "rect_core (next_tile t) u" "v_dirty u = v_dirty (next_tile t)"
        "if b' then alive (next_tile t) u else v_stage u = Idle \<or> alive (next_tile t) u \<and> v_tileX u \<le> r_w (v_rect u)"
        by blast
      have "rect_core s u"
        by (rule rect_core_trans [OF next_tile_core [OF core_rect_core [OF t(2)]] u(2)])
      moreover have "alive (next_tile t) u \<Longrightarrow> alive s u"
        by (rule alive_trans [of s "next_tile t"]) (use a in simp_all)
      ultimately show ?thesis using b u t(3) unfolding eq by (simp split: if_splits) blast
    qed
  qed
qed

lemma rect_hextile_ok:
  assumes "decodable s"
  shows "rect_result s (rect_hextile s)"
proof -
  obtain b t where t: "hextile_loop (hextile_fuel s) s = Some (b, t)" "rect_core s t" "v_dirty t = v_dirty s"
    "if b then alive s t else v_stage t = Idle \<or> alive s t \<and> v_tileX t \<le> r_w (v_rect t)"
    using hextile_loop_ok [OF assms order_refl] by blast
  have "v_rect t = v_rect s" using t(2) by (simp add: rect_core_def core_def)
  then show ?thesis
    using t rect_result_done [of s t] by (cases b) (auto simp: rect_hextile_def rect_result_Some)
qed

lemma rect_tight_ok:
  assumes "decodable s" "small_rect s" "jpeg_ok env"
  shows "rect_result s (rect_tight env s)"
proof -
  obtain b t where t: "stepTight env s = Some (b, t)" "core s t" "v_dirty t = v_dirty s"
    "alive s t \<or> \<not> b \<and> v_stage t = Idle"
    using stepTight_ok [OF assms] unfolding decodes_def by blast
  have r: "v_rect t = v_rect s" "v_tileX t = v_tileX s" using t(2) by (simp_all add: core_def)
  then show ?thesis
    using t rect_result_done [of s t] core_rect_core [OF t(2)] assms(1)
    by (cases b) (auto simp: rect_tight_def rect_result_Some decodable_def)
qed

lemma rect_zrle_ok:
  assumes "decodable s" "zrle_bounded env"
  shows "rect_result s (stepZrle env s)"
proof -
  obtain b t where t: "stepZrle env s = Some (b, t)" "core s t"
    "if b then alive s t \<and> v_dirty t = united (v_dirty s) (v_rect s)
     else v_dirty t = v_dirty s \<and> (alive s t \<or> v_stage t = Idle)"
    using stepZrle_ok [OF assms] by blast
  have r: "v_rect t = v_rect s" "v_tileX t = v_tileX s" using t(2) by (simp_all add: core_def)
  then show ?thesis
    using t core_rect_core [OF t(2)] assms(1) by (auto simp: rect_result_Some decodable_def)
qed

subsection \<open>The invariant\<close>

definition pseudo :: "int \<Rightarrow> bool" where
  "pseudo e \<longleftrightarrow> e = EncDesktopSize \<or> e = EncLastRect"

definition shows_work :: "'z vnc \<Rightarrow> bool" where
  "shows_work s \<longleftrightarrow> same_size (v_work s) (v_fb s) \<and>
     (\<forall>x < i_w (v_work s). \<forall>y < i_h (v_work s). i_px (v_fb s) x y = i_px (v_work s) x y)"

text \<open>What is not yet displayed lies in the dirty region or in the rectangle being decoded.\<close>

definition pending_dirty :: "'z vnc \<Rightarrow> bool" where
  "pending_dirty s \<longleftrightarrow>
     (\<forall>x < i_w (v_work s). \<forall>y < i_h (v_work s).
        \<not> in_rect (v_dirty s) x y \<and> \<not> (v_inRect s \<and> in_rect (v_rect s) x y) \<longrightarrow>
        i_px (v_fb s) x y = i_px (v_work s) x y)"

definition small_desktop :: "'z vnc \<Rightarrow> bool" where
  "small_desktop s \<longleftrightarrow> i_w (v_work s) * 3 * i_h (v_work s) < 2 ^ 31"

definition running_ok :: "'z vnc \<Rightarrow> bool" where
  "running_ok s \<longleftrightarrow>
     0 < i_w (v_work s) \<and> 0 < i_h (v_work s) \<and> small_desktop s \<and> pending_dirty s \<and>
     (v_inRect s \<longrightarrow> v_tileX s \<le> r_w (v_rect s) \<and> \<not> pseudo (v_encoding s) \<and>
        rect_contains (image_rect (v_work s)) (v_rect s))"

definition conn_ok :: "'z vnc \<Rightarrow> bool" where
  "conn_ok s \<longleftrightarrow>
     v_pos s \<le> length (v_buf s) \<and> length (v_tightStreams s) = 4 \<and> same_size (v_work s) (v_fb s) \<and>
     (v_stage s \<noteq> Idle \<longrightarrow> v_socket s \<and> \<not> v_failedAlready s) \<and>
     (v_stage s \<notin> {Idle, Running} \<longrightarrow> \<not> v_inRect s)"

definition vnc_ok :: "'z vnc \<Rightarrow> bool" where
  "vnc_ok s \<longleftrightarrow> conn_ok s \<and> (v_stage s = Running \<longrightarrow> running_ok s)"

lemma running_decodable:
  assumes "conn_ok s" "v_stage s = Running" "running_ok s" "v_inRect s"
  shows "decodable s \<and> small_rect s"
proof
  have c: "rect_contains (image_rect (v_work s)) (v_rect s)" using assms by (simp add: running_ok_def)
  then show "decodable s"
    using assms rect_contains_in [OF c] by (auto simp: decodable_def conn_ok_def running_ok_def)
  have "r_w (v_rect s) \<le> i_w (v_work s)" "r_h (v_rect s) \<le> i_h (v_work s)"
    using rect_contains_in [OF c] by (simp_all add: rect_in_def)
  then have "r_w (v_rect s) * 3 * r_h (v_rect s) \<le> i_w (v_work s) * 3 * i_h (v_work s)"
    by (intro mult_le_mono) simp_all
  then show "small_rect s"
    using assms(3) unfolding small_rect_def running_ok_def small_desktop_def by linarith
qed

lemma decode_rect_ok:
  assumes "decodable s" "small_rect s" "env_ok env" "\<not> pseudo (v_encoding s)"
  shows "rect_result s (decode_rect env s)"
proof -
  have bad: "rect_result s (Some (False, fail m s))" for m
    by (intro rect_result_failed core_rect_core fail_stage)
      (use assms(1) in \<open>auto simp: decodable_def core_refl\<close>)
  show ?thesis
    using assms rect_raw_ok [OF assms(1)] rect_copy_ok [OF assms(1)] rect_hextile_ok [OF assms(1)]
      rect_tight_ok [OF assms(1,2)] rect_zrle_ok [OF assms(1)] bad
    by (simp add: decode_rect_def env_ok_def pseudo_def)
qed

subsection \<open>The end of an update\<close>

lemma requestUpdate_defined:
  assumes "v_socket s"
  shows "\<exists>l. requestUpdate inc s = Some (s\<lparr>v_log := l\<rparr>)"
proof (cases "i_w (v_work s) = 0 \<or> i_h (v_work s) = 0")
  case True
  then have "requestUpdate inc s = Some (s\<lparr>v_log := v_log s\<rparr>)" by (auto simp: requestUpdate_def)
  then show ?thesis by blast
next
  case False
  then show ?thesis using assms by (simp add: requestUpdate_def vwrite_def vemit_def) blast
qed

lemma in_rect_united1: "in_rect a x y \<Longrightarrow> in_rect (united a b) x y"
  by (auto simp: in_rect_def united_def Let_def isNull_def min_def max_def)

lemma in_rect_united2: "in_rect b x y \<Longrightarrow> in_rect (united a b) x y"
  by (auto simp: in_rect_def united_def Let_def isNull_def min_def max_def)

lemma in_rect_intersected:
  "in_rect a x y \<Longrightarrow> in_rect b x y \<Longrightarrow> in_rect (intersected a b) x y"
  by (auto simp: in_rect_def intersected_def Let_def isNull_def)

lemma intersected_inside:
  assumes "isValid (intersected a b)"
  shows "r_x (intersected a b) + r_w (intersected a b) \<le> r_x b + r_w b"
    and "r_y (intersected a b) + r_h (intersected a b) \<le> r_y b + r_h b"
  using assms
  by (auto simp: intersected_def Let_def isValid_def rect_null_def split: if_splits)

lemma in_rect_valid: "in_rect r x y \<Longrightarrow> isValid r"
  by (auto simp: in_rect_def isValid_def)

lemma show_dirty_ok:
  assumes "same_size (v_work s) (v_fb s)"
    and clean: "\<And>x y. x < i_w (v_work s) \<Longrightarrow> y < i_h (v_work s) \<Longrightarrow> \<not> in_rect d x y \<Longrightarrow>
      i_px (v_fb s) x y = i_px (v_work s) x y"
    and inside: "isValid d \<Longrightarrow> r_x d + r_w d \<le> i_w (v_work s) \<and> r_y d + r_h d \<le> i_h (v_work s)"
  shows "\<exists>fb l. show_dirty d s = Some (s\<lparr>v_fb := fb, v_log := l\<rparr>) \<and> same_size (v_work s) fb \<and>
    (\<forall>x < i_w (v_work s). \<forall>y < i_h (v_work s). i_px fb x y = i_px (v_work s) x y)"
proof (cases "isValid d")
  case False
  then have "\<not> in_rect d x y" for x y using in_rect_valid by blast
  then show ?thesis
    using False clean assms(1) by (intro exI [of _ "v_fb s"] exI [of _ "v_log s"]) (simp add: show_dirty_def)
next
  case True
  let ?g = "\<lambda>row col. i_px (v_work s) (r_x d + col) (r_y d + row)"
  have "r_x d + r_w d \<le> i_w (v_fb s)" "r_y d + r_h d \<le> i_h (v_fb s)"
    using inside [OF True] assms(1) by (simp_all add: same_size_def)
  then obtain fb where fb: "blit (r_w d) (r_h d) (r_x d) (r_y d) (\<lambda>row col. Some (?g row col)) (v_fb s) = Some fb"
    "painted (r_x d) (r_y d) (r_w d) (r_h d) ?g (v_fb s) fb"
    using blit_painted [of "r_x d" "r_w d" "v_fb s" "r_y d" "r_h d" "\<lambda>row col. Some (?g row col)" ?g] by blast
  have px: "i_px fb x y = i_px (v_work s) x y" if "x < i_w (v_work s)" "y < i_h (v_work s)" for x y
    using fb(2) clean [OF that] by (auto simp: painted_def in_rect_def)
  have "same_size (v_work s) fb" using fb(2) assms(1) by (simp add: painted_def same_size_def)
  then show ?thesis
    using True fb(1) px
    by (intro exI [of _ fb] exI [of _ "v_log s @ [FramebufferChanged d]"]) (simp add: vemit_def show_dirty_def)
qed

text \<open>\<open>finishUpdate\<close> succeeds on an open connection, and afterwards the screen shows the image.\<close>

lemma finishUpdate_ok:
  assumes "v_socket s" "same_size (v_work s) (v_fb s)" "pending_dirty s" "\<not> v_inRect s"
  shows "\<exists>st fb l. finishUpdate s = Some (s\<lparr>v_stats := st, v_dirty := rect_null, v_fb := fb, v_log := l, v_resized := False\<rparr>) \<and>
    same_size (v_work s) fb \<and>
    (\<forall>x < i_w (v_work s). \<forall>y < i_h (v_work s). i_px fb x y = i_px (v_work s) x y)"
proof -
  let ?d = "intersected (v_dirty s) (image_rect (v_work s))"
  let ?s1 = "s\<lparr>v_stats := (v_stats s)\<lparr>st_updates := st_updates (v_stats s) + 1\<rparr>, v_dirty := rect_null\<rparr>"
  have "i_px (v_fb s) x y = i_px (v_work s) x y"
    if "x < i_w (v_work s)" "y < i_h (v_work s)" "\<not> in_rect ?d x y" for x y
  proof -
    have "in_rect (image_rect (v_work s)) x y" using that(1,2) by (simp add: in_rect_def image_rect_def)
    then have "\<not> in_rect (v_dirty s) x y" using that(3) in_rect_intersected by blast
    then show ?thesis using assms(3,4) that by (simp add: pending_dirty_def)
  qed
  then have "\<exists>fb l. show_dirty ?d ?s1 = Some (?s1\<lparr>v_fb := fb, v_log := l\<rparr>) \<and> same_size (v_work ?s1) fb \<and>
    (\<forall>x < i_w (v_work ?s1). \<forall>y < i_h (v_work ?s1). i_px fb x y = i_px (v_work ?s1) x y)"
    by (intro show_dirty_ok)
      (use assms(2) intersected_inside [of "v_dirty s" "image_rect (v_work s)"] in \<open>simp_all add: image_rect_def\<close>)
  then obtain fb l where f: "show_dirty ?d ?s1 = Some (?s1\<lparr>v_fb := fb, v_log := l\<rparr>)" "same_size (v_work s) fb"
      "\<forall>x < i_w (v_work s). \<forall>y < i_h (v_work s). i_px fb x y = i_px (v_work s) x y"
    by auto
  let ?s2 = "?s1\<lparr>v_fb := fb, v_log := l\<rparr>"
  obtain l' where l': "requestUpdate (\<not> v_resized ?s2) ?s2 = Some (?s2\<lparr>v_log := l'\<rparr>)"
    using requestUpdate_defined [of ?s2] assms(1) by auto
  have "finishUpdate s = Some (?s2\<lparr>v_log := l', v_resized := False\<rparr>)"
    using f(1) l' by (simp add: finishUpdate_def)
  then have "finishUpdate s = Some (s\<lparr>v_stats := v_stats ?s1, v_dirty := rect_null, v_fb := fb, v_log := l', v_resized := False\<rparr>)"
    by simp
  then show ?thesis using f(2,3) by blast
qed

lemma finish_vnc_ok:
  assumes "vnc_ok s" "v_stage s = Running" "\<not> v_inRect s"
  shows "\<exists>t. finishUpdate s = Some t \<and> vnc_ok t \<and> v_stage t = Running \<and> v_buf t = v_buf s \<and>
    v_pos t = v_pos s \<and> \<not> v_inRect t \<and> v_work t = v_work s \<and> shows_work t"
proof -
  have a: "v_socket s" "same_size (v_work s) (v_fb s)" "pending_dirty s"
    using assms by (simp_all add: vnc_ok_def conn_ok_def running_ok_def)
  obtain st fb l where f: "finishUpdate s = Some (s\<lparr>v_stats := st, v_dirty := rect_null, v_fb := fb, v_log := l, v_resized := False\<rparr>)"
    "same_size (v_work s) fb" "\<forall>x < i_w (v_work s). \<forall>y < i_h (v_work s). i_px fb x y = i_px (v_work s) x y"
    using finishUpdate_ok [OF a assms(3)] by blast
  then show ?thesis
    using assms
    by (simp add: vnc_ok_def conn_ok_def running_ok_def pending_dirty_def shows_work_def small_desktop_def)
qed

text \<open>A running step's outcome: defined, invariant kept, forward, and the screen not half updated.\<close>

definition progress :: "'z vnc \<Rightarrow> nat" where
  "progress s = 2 * avail s + (if v_inRect s then 1 else 0)"

definition step_ok :: "'z vnc \<Rightarrow> 'z vnc_result \<Rightarrow> bool" where
  "step_ok s r \<longleftrightarrow>
     (\<exists>b t. r = Some (b, t) \<and> vnc_ok t \<and> v_buf t = v_buf s \<and> v_pos s \<le> v_pos t \<and>
       (b \<longrightarrow> progress t < progress s) \<and> (v_fb t = v_fb s \<or> shows_work t) \<and>
       (v_stage t = Running \<or> v_stage t = Idle \<and> \<not> b))"

lemma step_ok_Some:
  "step_ok s (Some (b, t)) \<longleftrightarrow> vnc_ok t \<and> v_buf t = v_buf s \<and> v_pos s \<le> v_pos t \<and>
     (b \<longrightarrow> progress t < progress s) \<and> (v_fb t = v_fb s \<or> shows_work t) \<and>
     (v_stage t = Running \<or> v_stage t = Idle \<and> \<not> b)"
  by (simp add: step_ok_def)

lemma fail_vnc_ok:
  assumes "vnc_ok s" "v_stage s \<noteq> Idle"
  shows "vnc_ok (fail m s) \<and> v_stage (fail m s) = Idle"
proof -
  have "\<not> v_failedAlready s" using assms by (simp add: vnc_ok_def conn_ok_def)
  then show ?thesis
    using assms by (simp add: fail_def vclose_def vemit_def Let_def vnc_ok_def conn_ok_def)
qed

lemma fail_frame [simp]: "v_buf (fail m s) = v_buf s" "v_fb (fail m s) = v_fb s" "v_work (fail m s) = v_work s"
  by (simp_all add: fail_def vclose_def vemit_def Let_def)

lemma step_ok_fail: "vnc_ok s \<Longrightarrow> v_stage s \<noteq> Idle \<Longrightarrow> step_ok s (Some (False, fail m s))"
  using fail_vnc_ok [of s m] by (simp add: step_ok_Some)

lemma step_ok_wait: "vnc_ok s \<Longrightarrow> v_stage s = Running \<Longrightarrow> step_ok s (Some (False, s))"
  by (simp add: step_ok_Some)

lemma step_ok_if: "(P \<Longrightarrow> step_ok s r) \<Longrightarrow> (\<not> P \<Longrightarrow> step_ok s q) \<Longrightarrow> step_ok s (if P then r else q)"
  by simp

text \<open>The rectangle counters do not matter to the invariant.\<close>

lemma vnc_ok_counters:
  "vnc_ok (s\<lparr>v_rectsLeft := n\<rparr>) \<longleftrightarrow> vnc_ok s" "vnc_ok (s\<lparr>v_lastRectMode := b\<rparr>) \<longleftrightarrow> vnc_ok s"
  "vnc_ok (s\<lparr>v_stats := st\<rparr>) \<longleftrightarrow> vnc_ok s"
  by (simp_all add: vnc_ok_def conn_ok_def running_ok_def pending_dirty_def small_desktop_def)

lemma rect_done_ok:
  assumes "vnc_ok (s\<lparr>v_inRect := False\<rparr>)" "v_stage s = Running"
  shows "\<exists>t. rect_done s = Some t \<and> vnc_ok t \<and> v_stage t = Running \<and> v_buf t = v_buf s \<and>
    v_pos t = v_pos s \<and> \<not> v_inRect t \<and> v_work t = v_work s \<and> (v_fb t = v_fb s \<or> shows_work t)"
proof -
  have fin: "\<exists>t. finishUpdate (s\<lparr>v_stats := st, v_inRect := False, v_lastRectMode := l, v_rectsLeft := n\<rparr>) = Some t \<and>
    vnc_ok t \<and> v_stage t = Running \<and> v_buf t = v_buf s \<and> v_pos t = v_pos s \<and> \<not> v_inRect t \<and>
    v_work t = v_work s \<and> (v_fb t = v_fb s \<or> shows_work t)" for st l n
  proof -
    let ?u = "s\<lparr>v_stats := st, v_inRect := False, v_lastRectMode := l, v_rectsLeft := n\<rparr>"
    have "vnc_ok ?u"
      using assms(1) by (simp add: vnc_ok_def conn_ok_def running_ok_def pending_dirty_def small_desktop_def)
    then show ?thesis using finish_vnc_ok [of ?u] assms(2) by auto
  qed
  have plain: "vnc_ok (s\<lparr>v_stats := st, v_inRect := False, v_rectsLeft := n\<rparr>)"
    "vnc_ok (s\<lparr>v_stats := st, v_inRect := False\<rparr>)" for st n
    using assms(1) by (simp_all add: vnc_ok_def conn_ok_def running_ok_def pending_dirty_def small_desktop_def)
  obtain st where st: "v_stats s\<lparr>st_rectsByEncoding := (st_rectsByEncoding (v_stats s))
        (v_encoding s := st_rectsByEncoding (v_stats s) (v_encoding s) + 1),
      st_pixelsByEncoding := (st_pixelsByEncoding (v_stats s))
        (v_encoding s := st_pixelsByEncoding (v_stats s) (v_encoding s) +
          of_nat (r_w (v_rect s)) * of_nat (r_h (v_rect s)))\<rparr> = st" by simp
  have eq: "rect_done s =
      (if v_lastRectMode s then
         (if v_encoding s = EncLastRect
          then finishUpdate (s\<lparr>v_stats := st, v_inRect := False, v_lastRectMode := False, v_rectsLeft := 0\<rparr>)
          else Some (s\<lparr>v_stats := st, v_inRect := False\<rparr>))
       else if v_rectsLeft s - 1 = 0 then finishUpdate (s\<lparr>v_stats := st, v_inRect := False, v_rectsLeft := v_rectsLeft s - 1\<rparr>)
       else Some (s\<lparr>v_stats := st, v_inRect := False, v_rectsLeft := v_rectsLeft s - 1\<rparr>))"
    unfolding rect_done_def Let_def st by simp
  have fin': "\<exists>t. finishUpdate (s\<lparr>v_stats := st, v_inRect := False, v_rectsLeft := n\<rparr>) = Some t \<and>
    vnc_ok t \<and> v_stage t = Running \<and> v_buf t = v_buf s \<and> v_pos t = v_pos s \<and> \<not> v_inRect t \<and>
    v_work t = v_work s \<and> (v_fb t = v_fb s \<or> shows_work t)" for n
    using finish_vnc_ok [OF plain(1) [of n st]] assms(2) by auto
  show ?thesis
    unfolding eq using fin [of 0 False st] fin' [of "v_rectsLeft s - 1"] plain assms(2)
    by (cases "v_lastRectMode s"; cases "v_encoding s = EncLastRect"; cases "v_rectsLeft s - 1 = 0") auto
qed

lemma rect_contains_small:
  "rect_contains (image_rect m) r \<Longrightarrow> i_w m * 3 * i_h m < 2 ^ 31 \<Longrightarrow> r_w r * 3 * r_h r < 2 ^ 31"
proof -
  assume c: "rect_contains (image_rect m) r" and s: "i_w m * 3 * i_h m < 2 ^ 31"
  have "r_w r * 3 * r_h r \<le> i_w m * 3 * i_h m"
    using rect_contains_in [OF c] by (intro mult_le_mono) (simp_all add: rect_in_def)
  then show ?thesis using s by linarith
qed

text \<open>Decoding a rectangle of an ordinary encoding, from a state that is inside it.\<close>

lemma rect_body_ok:
  assumes "vnc_ok s" "v_stage s = Running" "v_inRect s" "env_ok env"
  shows "\<exists>b t. (do {
       (rectDone, s2) \<leftarrow> decode_rect env s;
       if \<not> rectDone then Some (False, s2) else do { s3 \<leftarrow> rect_done s2; Some (True, s3) }
     }) = Some (b, t) \<and> vnc_ok t \<and> v_buf t = v_buf s \<and> v_pos s \<le> v_pos t \<and> (b \<longrightarrow> \<not> v_inRect t) \<and>
     (v_fb t = v_fb s \<or> shows_work t) \<and> (v_stage t = Running \<or> v_stage t = Idle \<and> \<not> b)"
proof -
  have c: "conn_ok s" and r: "running_ok s" using assms by (simp_all add: vnc_ok_def)
  have d: "decodable s" "small_rect s" using running_decodable [OF c assms(2) r assms(3)] by simp_all
  have np: "\<not> pseudo (v_encoding s)" using r assms(3) by (simp add: running_ok_def)
  obtain b t where t: "decode_rect env s = Some (b, t)" "rect_core s t"
    "if b then alive s t \<and> v_dirty t = united (v_dirty s) (v_rect s)
     else v_dirty t = v_dirty s \<and> (v_stage t = Idle \<or> alive s t \<and> v_tileX t \<le> r_w (v_rect t))"
    using decode_rect_ok [OF d assms(4) np] unfolding rect_result_def by blast
  have k: "v_buf t = v_buf s" "v_pos s \<le> v_pos t" "v_pos t \<le> length (v_buf s)" "v_fb t = v_fb s"
    "keeps_outside (v_rect s) (v_work s) (v_work t)" "v_rect t = v_rect s" "v_inRect t = v_inRect s"
    "v_encoding t = v_encoding s" "length (v_tightStreams t) = 4"
    using t(2) c by (simp_all add: rect_core_def core_def conn_ok_def)
  have dims: "i_w (v_work t) = i_w (v_work s)" "i_h (v_work t) = i_h (v_work s)"
    "same_size (v_work t) (v_fb t)" "image_rect (v_work t) = image_rect (v_work s)"
    using k(4,5) c by (simp_all add: keeps_outside_def same_size_def conn_ok_def image_rect_def)
  have px: "i_px (v_fb t) x y = i_px (v_work t) x y"
    if "x < i_w (v_work t)" "y < i_h (v_work t)" "\<not> in_rect (v_dirty s) x y" "\<not> in_rect (v_rect s) x y" for x y
    using that r k(4,5) dims by (simp add: running_ok_def pending_dirty_def keeps_outside_def)
  show ?thesis
  proof (cases b)
    case True
    then have a: "alive s t" "v_dirty t = united (v_dirty s) (v_rect s)" using t(3) by simp_all
    have "pending_dirty (t\<lparr>v_inRect := False\<rparr>)"
      unfolding pending_dirty_def using px a(2) in_rect_united1 in_rect_united2 by (simp, blast)
    then have "vnc_ok (t\<lparr>v_inRect := False\<rparr>)"
      using a(1) c r k dims assms(2)
      by (simp add: vnc_ok_def conn_ok_def running_ok_def alive_def small_desktop_def)
    then obtain u where u: "rect_done t = Some u" "vnc_ok u" "v_stage u = Running" "v_buf u = v_buf t"
      "v_pos u = v_pos t" "\<not> v_inRect u" "v_fb u = v_fb t \<or> shows_work u"
      using rect_done_ok [of t] a(1) assms(2) by (auto simp: alive_def)
    then show ?thesis using t(1) True k by (intro exI [of _ True] exI [of _ u]) auto
  next
    case False
    have "vnc_ok t"
    proof (cases "v_stage t = Idle")
      case True
      then show ?thesis using k dims by (simp add: vnc_ok_def conn_ok_def)
    next
      case live: False
      then have a: "alive s t" "v_dirty t = v_dirty s" "v_tileX t \<le> r_w (v_rect t)"
        using t(3) False by simp_all
      have "pending_dirty t" unfolding pending_dirty_def using px a(2) k(6,7) assms(3) by simp
      then show ?thesis
        using a c r k dims assms(2,3)
        by (simp add: vnc_ok_def conn_ok_def running_ok_def alive_def small_desktop_def)
    qed
    moreover have "v_stage t = Running \<or> v_stage t = Idle" using t(3) False assms(2) by (auto simp: alive_def)
    ultimately show ?thesis using t(1) False k by (intro exI [of _ False] exI [of _ t]) auto
  qed
qed

text \<open>The state right behind a rectangle's header.\<close>

definition entered :: "qrect \<Rightarrow> int \<Rightarrow> 'z vnc \<Rightarrow> 'z vnc" where
  "entered r e s = (consume 12 s)
     \<lparr>v_rect := r, v_encoding := e, v_inRect := True, v_tileX := 0, v_tileY := 0,
      v_hexBg := qRgb 0 0 0, v_hexFg := qRgb 255 255 255\<rparr>"

lemma entered_simps [simp]:
  "v_rect (entered r e s) = r" "v_encoding (entered r e s) = e" "v_inRect (entered r e s)"
  "v_work (entered r e s) = v_work s" "v_fb (entered r e s) = v_fb s" "v_buf (entered r e s) = v_buf s"
  "v_pos (entered r e s) = v_pos s + 12" "v_stage (entered r e s) = v_stage s"
  "v_dirty (entered r e s) = v_dirty s"
  by (simp_all add: entered_def consume_def)

lemma rect_header_cases:
  assumes "v_pos s \<le> length (v_buf s)"
  shows "avail s < 12 \<and> rect_header s = Some (False, s) \<or>
    (\<exists>r e. 12 \<le> avail s \<and> rect_header s =
      (if \<not> pseudo e \<and> \<not> rect_contains (image_rect (v_work s)) r
       then Some (False, fail ''The server sent an update outside the screen'' (entered r e s))
       else Some (True, entered r e s)))"
proof (cases "avail s < 12")
  case True
  then show ?thesis by (simp add: rect_header_def)
next
  case False
  obtain x y w h where u: "u16 s 0 = Some x" "u16 s 2 = Some y" "u16 s 4 = Some w" "u16 s 6 = Some h"
    using False u16_Some [OF assms, of 0] u16_Some [OF assms, of 2] u16_Some [OF assms, of 4]
      u16_Some [OF assms, of 6] by auto
  obtain e where e: "u32 s 8 = Some e" using False u32_defined [OF assms, of 8] by auto
  let ?r = "\<lparr>r_x = unat x, r_y = unat y, r_w = unat w, r_h = unat h\<rparr>"
  have "rect_header s =
      (if \<not> pseudo (sint e) \<and> \<not> rect_contains (image_rect (v_work s)) ?r
       then Some (False, fail ''The server sent an update outside the screen'' (entered ?r (sint e) s))
       else Some (True, entered ?r (sint e) s))"
    using False u e by (simp add: rect_header_def Let_def entered_def pseudo_def consume_def)
  then show ?thesis using False by (intro disjI2 exI [of _ ?r] exI [of _ "sint e"]) simp
qed

lemma vnc_ok_entered:
  assumes "vnc_ok s" "v_stage s = Running" "\<not> v_inRect s" "12 \<le> avail s"
  shows "vnc_ok (entered r e s\<lparr>v_inRect := False\<rparr>)"
    and "\<not> pseudo e \<Longrightarrow> rect_contains (image_rect (v_work s)) r \<Longrightarrow> vnc_ok (entered r e s)"
proof -
  have "v_pos s + 12 \<le> length (v_buf s)"
    using assms(1,4) by (auto simp: vnc_ok_def conn_ok_def avail_def)
  then show "vnc_ok (entered r e s\<lparr>v_inRect := False\<rparr>)"
    and "\<not> pseudo e \<Longrightarrow> rect_contains (image_rect (v_work s)) r \<Longrightarrow> vnc_ok (entered r e s)"
    using assms
    by (simp_all add: entered_def consume_def vnc_ok_def conn_ok_def running_ok_def pending_dirty_def small_desktop_def)
qed

lemma desktop_size_ok:
  assumes "vnc_ok (s\<lparr>v_inRect := False\<rparr>)" "v_stage s = Running"
    and "r_w (v_rect s) \<noteq> 0" "r_h (v_rect s) \<noteq> 0"
    and "r_w (v_rect s) \<le> kMaxDesktopDimension" "r_h (v_rect s) \<le> kMaxDesktopDimension"
  shows "vnc_ok (rect_desktopSize s\<lparr>v_inRect := False\<rparr>)" "shows_work (rect_desktopSize s)"
    "v_buf (rect_desktopSize s) = v_buf s" "v_pos (rect_desktopSize s) = v_pos s" "v_stage (rect_desktopSize s) = Running"
proof -
  have "r_w (v_rect s) * 3 * r_h (v_rect s) \<le> 16384 * 3 * 16384"
    using assms(5,6) by (intro mult_le_mono) (simp_all add: kMaxDesktopDimension_def)
  then have "r_w (v_rect s) * 3 * r_h (v_rect s) < 2 ^ 31" by (rule le_less_trans) simp
  then show "vnc_ok (rect_desktopSize s\<lparr>v_inRect := False\<rparr>)"
    using assms
    by (simp add: rect_desktopSize_def allocFramebuffer_def addDirty_def vemit_def Let_def black_image_def
        vnc_ok_def conn_ok_def running_ok_def pending_dirty_def small_desktop_def same_size_def)
qed (use assms(2) in \<open>simp_all add: rect_desktopSize_def allocFramebuffer_def addDirty_def vemit_def Let_def
      black_image_def shows_work_def same_size_def\<close>)

lemma progress_entered:
  assumes "v_pos s + 12 \<le> length (v_buf s)" "v_buf t = v_buf s" "v_pos s + 12 \<le> v_pos t" "\<not> v_inRect t"
  shows "progress t < progress s"
  using assms by (simp add: progress_def avail_def)

text \<open>The pseudo-encodings, which complete at once.\<close>

lemma pseudo_body_ok:
  assumes "vnc_ok (s\<lparr>v_inRect := False\<rparr>)" "v_stage s = Running" "pseudo (v_encoding s)"
  shows "\<exists>b t. (do {
       (rectDone, s2) \<leftarrow> decode_rect env s;
       if \<not> rectDone then Some (False, s2) else do { s3 \<leftarrow> rect_done s2; Some (True, s3) }
     }) = Some (b, t) \<and> vnc_ok t \<and> v_buf t = v_buf s \<and> v_pos s \<le> v_pos t \<and> (b \<longrightarrow> \<not> v_inRect t) \<and>
     (v_fb t = v_fb s \<or> shows_work t) \<and> (v_stage t = Running \<or> v_stage t = Idle \<and> \<not> b)"
proof (cases "v_encoding s = EncLastRect")
  case True
  then have d: "decode_rect env s = Some (True, s)" by (simp add: decode_rect_def enc_defs)
  obtain u where "rect_done s = Some u" "vnc_ok u" "v_stage u = Running" "v_buf u = v_buf s"
      "v_pos u = v_pos s" "\<not> v_inRect u" "v_fb u = v_fb s \<or> shows_work u"
    using rect_done_ok [OF assms(1,2)] by blast
  then show ?thesis using d by (intro exI [of _ True] exI [of _ u]) auto
next
  case False
  then have e: "v_encoding s = EncDesktopSize" using assms(3) by (simp add: pseudo_def)
  let ?bad = "r_w (v_rect s) = 0 \<or> r_h (v_rect s) = 0 \<or>
      r_w (v_rect s) > kMaxDesktopDimension \<or> r_h (v_rect s) > kMaxDesktopDimension"
  let ?m = "''The server sent an invalid desktop size''"
  have d: "decode_rect env s = (if ?bad then Some (False, fail ?m s) else Some (True, rect_desktopSize s))"
    using e by (simp add: decode_rect_def enc_defs)
  show ?thesis
  proof (cases ?bad)
    case True
    have nf: "\<not> v_failedAlready s" using assms(1,2) by (simp add: vnc_ok_def conn_ok_def)
    have "vnc_ok (fail ?m s)" using assms(1,2) nf
      by (simp add: fail_def vclose_def vemit_def Let_def vnc_ok_def conn_ok_def)
    then show ?thesis
      using True d fail_stage [OF nf] by (intro exI [of _ False] exI [of _ "fail ?m s"]) simp
  next
    case good: False
    note ds = desktop_size_ok [OF assms(1,2)]
    have dt: "vnc_ok (rect_desktopSize s\<lparr>v_inRect := False\<rparr>)" "shows_work (rect_desktopSize s)"
      "v_buf (rect_desktopSize s) = v_buf s" "v_pos (rect_desktopSize s) = v_pos s" "v_stage (rect_desktopSize s) = Running"
      using ds good by auto
    obtain u where u: "rect_done (rect_desktopSize s) = Some u" "vnc_ok u" "v_stage u = Running"
      "v_buf u = v_buf (rect_desktopSize s)" "v_pos u = v_pos (rect_desktopSize s)" "\<not> v_inRect u"
      "v_work u = v_work (rect_desktopSize s)" "v_fb u = v_fb (rect_desktopSize s) \<or> shows_work u"
      using rect_done_ok [OF dt(1,5)] by blast
    have "shows_work u" using u(7,8) dt(2) by (auto simp: shows_work_def)
    then show ?thesis using good d dt u by (intro exI [of _ True] exI [of _ u]) auto
  qed
qed

lemma stepRect_ok:
  assumes "vnc_ok s" "v_stage s = Running" "env_ok env"
  shows "step_ok s (stepRect env s)"
proof -
  have p: "v_pos s \<le> length (v_buf s)" using assms(1) by (simp add: vnc_ok_def conn_ok_def)
  let ?body = "\<lambda>s1. do { (rectDone, s2) \<leftarrow> decode_rect env s1;
       if \<not> rectDone then Some (False, s2) else do { s3 \<leftarrow> rect_done s2; Some (True, s3) } }"
  show ?thesis
  proof (cases "v_inRect s")
    case True
    obtain b t where t: "?body s = Some (b, t)" "vnc_ok t" "v_buf t = v_buf s" "v_pos s \<le> v_pos t"
      "b \<longrightarrow> \<not> v_inRect t" "v_fb t = v_fb s \<or> shows_work t" "v_stage t = Running \<or> v_stage t = Idle \<and> \<not> b"
      using rect_body_ok [OF assms(1,2) True assms(3)] by blast
    have "stepRect env s = Some (b, t)" using True t(1) by (simp add: stepRect_def)
    moreover have "b \<Longrightarrow> progress t < progress s"
      using t(3-5) True by (simp add: progress_def avail_def)
    ultimately show ?thesis using t by (simp add: step_ok_Some)
  next
    case False
    show ?thesis
    proof (rule disjE [OF rect_header_cases [OF p]])
      assume "avail s < 12 \<and> rect_header s = Some (False, s)"
      then show ?thesis using False step_ok_wait [OF assms(1,2)] by (simp add: stepRect_def)
    next
      assume "\<exists>r e. 12 \<le> avail s \<and> rect_header s =
        (if \<not> pseudo e \<and> \<not> rect_contains (image_rect (v_work s)) r
         then Some (False, fail ''The server sent an update outside the screen'' (entered r e s))
         else Some (True, entered r e s))"
      then obtain r e where av: "12 \<le> avail s" and h: "rect_header s =
        (if \<not> pseudo e \<and> \<not> rect_contains (image_rect (v_work s)) r
         then Some (False, fail ''The server sent an update outside the screen'' (entered r e s))
         else Some (True, entered r e s))" by blast
      let ?s1 = "entered r e s"
      have room12: "v_pos s + 12 \<le> length (v_buf s)" using av p unfolding avail_def by linarith
      have out: "vnc_ok (?s1\<lparr>v_inRect := False\<rparr>)" by (rule vnc_ok_entered(1) [OF assms(1,2) False av])
      show ?thesis
      proof (cases "\<not> pseudo e \<and> \<not> rect_contains (image_rect (v_work s)) r")
        case True
        let ?t = "fail ''The server sent an update outside the screen'' ?s1"
        have nf: "\<not> v_failedAlready ?s1" "v_stage ?s1 = Running"
          using out assms(2) by (simp_all add: vnc_ok_def conn_ok_def)
        then have "vnc_ok ?t" using out
          by (simp add: fail_def vclose_def vemit_def Let_def vnc_ok_def conn_ok_def)
        then have "step_ok s (Some (False, ?t))" using fail_stage [OF nf(1)] by (simp add: step_ok_Some)
        then show ?thesis using True h False by (simp add: stepRect_def)
      next
        case enter: False
        have "\<exists>b t. ?body ?s1 = Some (b, t) \<and> vnc_ok t \<and> v_buf t = v_buf ?s1 \<and> v_pos ?s1 \<le> v_pos t \<and>
          (b \<longrightarrow> \<not> v_inRect t) \<and> (v_fb t = v_fb ?s1 \<or> shows_work t) \<and>
          (v_stage t = Running \<or> v_stage t = Idle \<and> \<not> b)"
        proof (cases "pseudo e")
          case True
          show ?thesis by (rule pseudo_body_ok [OF out]) (use assms(2) True in simp_all)
        next
          case ordinary: False
          have "vnc_ok ?s1" by (rule vnc_ok_entered(2) [OF assms(1,2) False av]) (use enter ordinary in simp_all)
          then show ?thesis by (rule rect_body_ok) (use assms(2,3) in simp_all)
        qed
        then obtain b t where t: "?body ?s1 = Some (b, t)" "vnc_ok t" "v_buf t = v_buf s" "v_pos s + 12 \<le> v_pos t"
          "b \<longrightarrow> \<not> v_inRect t" "v_fb t = v_fb s \<or> shows_work t" "v_stage t = Running \<or> v_stage t = Idle \<and> \<not> b"
          by auto
        have "stepRect env s = Some (b, t)"
          using False h enter t(1) by (simp add: stepRect_def)
        moreover have "b \<Longrightarrow> progress t < progress s"
          by (rule progress_entered [OF room12]) (use t in simp_all)
        ultimately show ?thesis using t by (simp add: step_ok_Some)
      qed
    qed
  qed
qed

text \<open>Consuming a message keeps the invariant and is progress.\<close>

lemma consume_vnc_ok:
  "vnc_ok s \<Longrightarrow> n \<le> avail s \<Longrightarrow> vnc_ok (consume n s)"
  by (auto simp: vnc_ok_def conn_ok_def running_ok_def pending_dirty_def small_desktop_def consume_def avail_def)

lemma vemit_vnc_ok [simp]: "vnc_ok (vemit e s) \<longleftrightarrow> vnc_ok s"
  by (simp add: vnc_ok_def conn_ok_def running_ok_def pending_dirty_def small_desktop_def vemit_def)

lemma vemit_frame [simp]:
  "v_buf (vemit e s) = v_buf s" "v_pos (vemit e s) = v_pos s" "v_stage (vemit e s) = v_stage s"
  "v_fb (vemit e s) = v_fb s" "v_inRect (vemit e s) = v_inRect s" "v_socket (vemit e s) = v_socket s"
  "progress (vemit e s) = progress s"
  by (simp_all add: vemit_def progress_def avail_def)

lemma consume_frame [simp]:
  "v_buf (consume n s) = v_buf s" "v_pos (consume n s) = v_pos s + n" "v_stage (consume n s) = v_stage s"
  "v_fb (consume n s) = v_fb s" "v_inRect (consume n s) = v_inRect s" "v_socket (consume n s) = v_socket s"
  by (simp_all add: consume_def)

lemma consume_progress: "0 < n \<Longrightarrow> n \<le> avail s \<Longrightarrow> progress (consume n s) < progress s"
  by (simp add: progress_def avail_def)

lemma stepRunning_ok:
  assumes "vnc_ok s" "v_stage s = Running" "env_ok env"
  shows "step_ok s (stepRunning env s)"
proof (cases "v_inRect s \<or> v_rectsLeft s > 0")
  case True
  then show ?thesis using stepRect_ok [OF assms] by (simp add: stepRunning_def)
next
  case idle: False
  have p: "v_pos s \<le> length (v_buf s)" using assms(1) by (simp add: vnc_ok_def conn_ok_def)
  note wait = step_ok_wait [OF assms(1,2)]
  have fail: "step_ok s (Some (False, fail m s))" for m
    by (rule step_ok_fail [OF assms(1)]) (use assms(2) in simp)
  have eaten: "step_ok s (Some (True, consume n s))" if "0 < n" "n \<le> avail s" for n
    using consume_vnc_ok [OF assms(1) that(2)] consume_progress [OF that] assms(2) by (simp add: step_ok_Some)
  have told: "step_ok s (Some (True, vemit e (consume n s)))" if "0 < n" "n \<le> avail s" for n e
    using eaten [OF that] by (simp add: step_ok_Some)
  show ?thesis
  proof (cases "avail s = 0")
    case True
    then show ?thesis using idle wait by (simp add: stepRunning_def)
  next
    case False
    obtain m where m: "u8 s 0 = Some m" using u8_Some [OF p, of 0] False by auto
    have update: "step_ok s (msg_update s)"
    proof (cases "avail s < 4")
      case True
      then show ?thesis using wait by (simp add: msg_update_def)
    next
      case enough: False
      obtain n where n: "u16 s 2 = Some n" using u16_Some [OF p, of 2] enough by auto
      let ?s1 = "consume 4 (s\<lparr>v_lastRectMode := (n = 0xFFFF), v_rectsLeft := (if n = 0xFFFF then 1 else uint n)\<rparr>)"
      have s1: "vnc_ok ?s1" "v_stage ?s1 = Running" "\<not> v_inRect ?s1"
        using assms(1,2) idle enough
        by (auto simp: vnc_ok_def conn_ok_def running_ok_def pending_dirty_def small_desktop_def consume_def avail_def)
      have pr: "progress t < progress s" if "v_buf t = v_buf s" "v_pos t = v_pos s + 4" "\<not> v_inRect t" for t
        using that enough idle by (simp add: progress_def avail_def)
      have eq: "msg_update s = (if v_rectsLeft ?s1 = 0
          then do { s2 \<leftarrow> finishUpdate ?s1; Some (True, s2) } else Some (True, ?s1))"
        using enough n by (simp add: msg_update_def Let_def)
      obtain t where t: "finishUpdate ?s1 = Some t" "vnc_ok t" "v_stage t = Running" "v_buf t = v_buf ?s1"
        "v_pos t = v_pos ?s1" "\<not> v_inRect t" "shows_work t"
        using finish_vnc_ok [OF s1] by blast
      have "step_ok s (Some (True, t))" using t pr [of t] by (simp add: step_ok_Some)
      moreover have "step_ok s (Some (True, ?s1))" using s1 pr [of ?s1] by (simp add: step_ok_Some)
      ultimately show ?thesis unfolding eq using t(1) by simp
    qed
    have colour: "step_ok s (msg_colourMap s)"
    proof (cases "avail s < 6")
      case True
      then show ?thesis using wait by (simp add: msg_colourMap_def)
    next
      case enough: False
      obtain n where n: "u16 s 4 = Some n" using u16_Some [OF p, of 4] enough by auto
      show ?thesis
        using enough n wait eaten [of "6 + 6 * unat n"] by (simp add: msg_colourMap_def Let_def)
    qed
    have cut: "step_ok s (msg_cutText s)"
    proof (cases "avail s < 8")
      case True
      then show ?thesis using wait by (simp add: msg_cutText_def)
    next
      case enough: False
      obtain n where n: "u32 s 4 = Some n" using u32_defined [OF p, of 4] enough by auto
      show ?thesis
        using enough n wait fail told [of "8 + unat n"] by (simp add: msg_cutText_def Let_def)
    qed
    show ?thesis
      using idle False m update colour cut fail told [of 1] by (simp add: stepRunning_def)
  qed
qed

subsection \<open>The receive loop\<close>

lemma drain_enough:
  assumes "vnc_ok s" "v_stage s = Running" "env_ok env" "progress s < fuel"
  shows "\<exists>t. drain fuel env s = Some t \<and> vnc_ok t \<and> (v_stage t = Running \<or> v_stage t = Idle)"
  using assms
proof (induction fuel arbitrary: s)
  case 0
  then show ?case by simp
next
  case (Suc fuel)
  obtain b t where t: "stepRunning env s = Some (b, t)" "vnc_ok t" "b \<longrightarrow> progress t < progress s"
    "v_stage t = Running \<or> v_stage t = Idle \<and> \<not> b"
    using stepRunning_ok [OF Suc.prems(1-3)] unfolding step_ok_def by blast
  have eq: "drain (Suc fuel) env s = (if b then drain fuel env t else Some t)"
    using Suc.prems(2) t(1) by (subst drain.simps) (simp add: vnc_step_def)
  show ?case
  proof (cases b)
    case False
    then show ?thesis unfolding eq using t by auto
  next
    case True
    have "\<exists>u. drain fuel env t = Some u \<and> vnc_ok u \<and> (v_stage u = Running \<or> v_stage u = Idle)"
      by (rule Suc.IH) (use t True Suc.prems(3,4) in auto)
    then show ?thesis unfolding eq using True by simp
  qed
qed

lemma drop_consumed_ok: "vnc_ok s \<Longrightarrow> vnc_ok (drop_consumed s)"
  by (simp add: drop_consumed_def vnc_ok_def conn_ok_def running_ok_def pending_dirty_def small_desktop_def)

lemma receive_ok: "vnc_ok s \<Longrightarrow> vnc_ok (receive chunk s)"
  by (simp add: receive_def vnc_ok_def conn_ok_def running_ok_def pending_dirty_def small_desktop_def)

end
