(* ===== verification/VncProps.thy ===== *)
theory VncProps
  imports VncRun
begin

text \<open>
  The properties of the RFB client: safety and termination of the receive loop, what the screen can
  show, the handshake, the message formats, and the inputs on which the code's assumptions fail.
\<close>

subsection \<open>A client to evaluate on\<close>

text \<open>A zlib that accepts everything and never produces output, no JPEG decoder, no password dialog.\<close>

definition demo_vnc_env :: "unit vnc_env" where
  "demo_vnc_env = \<lparr>e_inflate = (\<lambda>z inp room. (Z_OK, z, length inp, [])), e_inflateInit = Some (),
     e_inflateReset = (\<lambda>z. Some z), e_jpeg = (\<lambda>_. None), e_des = (\<lambda>key block. block),
     e_utf8 = (\<lambda>bs. map (\<lambda>b. char_of (unat b)) bs), e_toInt = (\<lambda>bs. if bs = latin1 ''003'' then 3 else 8),
     e_ask = None, e_uninit = (\<lambda>_. 0)\<rparr>"

definition demo_running :: "unit vnc" where
  "demo_running = (vnc_initial [])\<lparr>v_socket := True, v_stage := Running, v_work := black_image 2 2, v_fb := black_image 2 2\<rparr>"

definition demo_greeted :: "unit vnc" where
  "demo_greeted =
     (vnc_connectToHost ''host'' 5900 [] (vnc_initial []))\<lparr>v_buf := latin1 ''RFB 003.008'' @ [10]\<rparr>"




subsection \<open>Safety of the handshake\<close>

lemma conn_ok_consume: "conn_ok s \<Longrightarrow> n \<le> avail s \<Longrightarrow> conn_ok (consume n s)"
  by (auto simp: conn_ok_def avail_def consume_def)







text \<open>Having consumed \<open>n\<close> bytes and changed nothing the invariant reads.\<close>

definition kept :: "'z vnc \<Rightarrow> nat \<Rightarrow> 'z vnc \<Rightarrow> bool" where
  "kept s n t \<longleftrightarrow>
     v_buf t = v_buf s \<and> v_pos t = v_pos s + n \<and> v_tightStreams t = v_tightStreams s \<and>
     v_work t = v_work s \<and> v_fb t = v_fb s \<and> v_socket t = v_socket s \<and>
     v_failedAlready t = v_failedAlready s \<and> v_inRect t = v_inRect s \<and> v_stage t = v_stage s"


lemma kept_vemit [simp]: "kept s n (vemit e t) \<longleftrightarrow> kept s n t"
  by (simp add: kept_def vemit_def)

lemma kept_fields [simp]:
  "kept s n (t\<lparr>v_minor := m\<rparr>) \<longleftrightarrow> kept s n t" "kept s n (t\<lparr>v_securityType := ty\<rparr>) \<longleftrightarrow> kept s n t"
  "kept s n (t\<lparr>v_password := pw\<rparr>) \<longleftrightarrow> kept s n t" "kept s n (t\<lparr>v_desktopName := nm\<rparr>) \<longleftrightarrow> kept s n t"
  by (simp_all add: kept_def)


lemma consume_keeps [simp]: "v_minor (consume n s) = v_minor s" "v_password (consume n s) = v_password s"
  by (simp_all add: consume_def)
















subsection \<open>Properties\<close>







text \<open>
  C37. A Raw rectangle that has arrived is drawn exactly: pixel (col, row) of the rectangle is the
  little-endian colour at its place in the data, every other pixel is untouched, and precisely the
  rectangle's bytes are consumed.
\<close>

theorem vnc_raw_exact:
  assumes "decodable s" and "r_w (v_rect s) * r_h (v_rect s) * 4 \<le> avail s"
  shows "\<exists>t. rect_raw s = Some (True, t) \<and> v_pos t = v_pos s + r_w (v_rect s) * r_h (v_rect s) * 4 \<and>
    painted (r_x (v_rect s)) (r_y (v_rect s)) (r_w (v_rect s)) (r_h (v_rect s))
      (\<lambda>row col. the (pixelAt s (row * r_w (v_rect s) * 4 + col * 4))) (v_work s) (v_work t)"
proof -
  have p: "v_pos s \<le> length (v_buf s)" and r: "rect_in (v_work s) (v_rect s)"
    using assms(1) by (simp_all add: decodable_def)
  let ?w = "r_w (v_rect s)" and ?h = "r_h (v_rect s)"
  let ?f = "\<lambda>row col. pixelAt s (row * ?w * 4 + col * 4)"
  have "?f i k = Some (the (?f i k))" if "i < ?h" "k < ?w" for i k
    using row_index [OF that] pixelAt_defined [OF p, of "i * ?w * 4 + k * 4"] assms(2) by auto
  then obtain m where m: "blit ?w ?h (r_x (v_rect s)) (r_y (v_rect s)) ?f (v_work s) = Some m"
    "painted (r_x (v_rect s)) (r_y (v_rect s)) ?w ?h (\<lambda>row col. the (?f row col)) (v_work s) m"
    using blit_painted [of "r_x (v_rect s)" ?w "v_work s" "r_y (v_rect s)" ?h ?f "\<lambda>row col. the (?f row col)"] r
    by (auto simp: rect_in_def)
  then show ?thesis
    using assms(2) by (simp add: rect_raw_def Let_def draw_def consume_def addDirty_def)
qed

theorem vnc_raw_exact_witness:
  "\<exists>t. rect_raw (demo_running\<lparr>v_buf := [1, 2, 3, 4], v_rect := \<lparr>r_x = 1, r_y = 0, r_w = 1, r_h = 1\<rparr>\<rparr>) = Some (True, t) \<and>
    v_pos t = 4 \<and>
    painted 1 0 1 1 (\<lambda>row col. the (pixelAt (demo_running\<lparr>v_buf := [1, 2, 3, 4],
      v_rect := \<lparr>r_x = 1, r_y = 0, r_w = 1, r_h = 1\<rparr>\<rparr>) (row * 1 * 4 + col * 4))) (v_work demo_running) (v_work t)"
proof -
  let ?s = "demo_running\<lparr>v_buf := [1, 2, 3, 4], v_rect := \<lparr>r_x = 1, r_y = 0, r_w = 1, r_h = 1\<rparr>\<rparr>"
  have d: "decodable ?s"
    by (simp add: decodable_def rect_in_def demo_running_def vnc_initial_def black_image_def)
  have a: "r_w (v_rect ?s) * r_h (v_rect ?s) * 4 \<le> avail ?s"
    by (simp add: avail_def demo_running_def vnc_initial_def)
  have z: "v_pos ?s = 0" "v_work ?s = v_work demo_running"
    by (simp_all add: demo_running_def vnc_initial_def)
  show ?thesis using vnc_raw_exact [OF d a] by (simp add: z)
qed

text \<open>
  C38. Falling back to an older protocol version ends: a retry happens only while waiting for the
  security types, starts a fresh connection with an empty buffer, and strictly lowers the highest
  version to be offered, which no server can raise again.
\<close>

theorem vnc_retry_lowers:
  assumes "retryOlderProtocol s = (True, t)" and "v_minor s \<le> v_maxMinor s"
  shows "v_stage s = SecurityTypes \<and> v_maxMinor t < v_maxMinor s \<and> v_maxMinor t \<in> {3, 7} \<and>
    v_stage t = Version \<and> v_buf t = [] \<and> v_pos t = 0 \<and> v_socket t \<and> \<not> v_failedAlready t \<and>
    negotiate major minor (v_maxMinor t) \<le> v_maxMinor t"
  using assms
  by (auto simp: retryOlderProtocol_def startConnection_def vclose_def vemit_def Let_def negotiate_def split: if_splits)

theorem vnc_retry_lowers_witness:
  "v_maxMinor (snd (retryOlderProtocol (demo_greeted\<lparr>v_buf := [], v_stage := SecurityTypes, v_minor := 8\<rparr>))) = 7 \<and>
   negotiate 3 8 7 \<le> (7 :: nat)"
proof -
  let ?s = "demo_greeted\<lparr>v_buf := [], v_stage := SecurityTypes, v_minor := 8\<rparr>"
  obtain t where t: "retryOlderProtocol ?s = (True, t)" "v_maxMinor t = 7"
    by (simp add: retryOlderProtocol_def avail_def startConnection_def vclose_def vemit_def Let_def)
  have le: "v_minor ?s \<le> v_maxMinor ?s"
    by (simp add: demo_greeted_def vnc_connectToHost_def startConnection_def vclose_def vemit_def Let_def vnc_initial_def)
  show ?thesis using vnc_retry_lowers [OF t(1) le, of 3 8] t by simp
qed

text \<open>
  What \<open>putU32\<close> appends to a message is what \<open>u32\<close> reads at that place, whatever stands around it.
\<close>

theorem vnc_u32_roundtrip:
  "u32 (s\<lparr>v_buf := putU32 b v @ post, v_pos := length b\<rparr>) 0 = Some v"
proof -
  have bytes: "putU32 b v = b @ [ucast (drop_bit 8 (ucast (drop_bit 16 v) :: 16 word)), ucast ((ucast (drop_bit 16 v) :: 16 word) AND 0xff),
      ucast (drop_bit 8 (ucast (v AND 0xffff) :: 16 word)), ucast ((ucast (v AND 0xffff) :: 16 word) AND 0xff)]"
    by (simp add: putU32_def putU16_def)
  show ?thesis
    unfolding bytes
    by (simp add: u32_def u16_def u8_def rd_def nth_append be16_bytes be32_halves)
qed

text \<open>
  A wire pixel B, G, R, pad is the opaque colour (R, G, B), whatever the padding byte holds.
\<close>

theorem vnc_wire_pixel:
  "pixelAt (s\<lparr>v_buf := pre @ [b, g, r, pad] @ post, v_pos := length pre\<rparr>) 0 = Some (qRgb r g b)"
proof -
  have "0xff000000 OR le32 b g r pad = qRgb r g b"
  proof (rule bit_word_eqI)
    fix n
    assume n: "n < LENGTH(32)"
    show "bit (0xff000000 OR le32 b g r pad) n = bit (qRgb r g b) n"
      using n unfolding qRgb_def le32_def bit_or_iff bit_alpha
      by (auto simp: bit_push_bit_iff bit_ucast_iff dest: bit_imp_le_length)
  qed
  then show ?thesis by (simp add: pixelAt_def u8_def rd_def nth_append)
qed

text \<open>
  The DES key of VNC authentication: byte i of the key is the i-th Latin-1 byte of the password
  with its bits in reverse order, and zero behind the password's end.
\<close>

theorem vnc_des_key:
  "map (\<lambda>k. map (bit k) [0 ..< 8]) (des_key password) =
   map (\<lambda>i. map (\<lambda>j. i < length password \<and> bit (latin1 password ! i) (7 - j)) [0 ..< 8]) [0 ..< 8]"
  by (simp add: des_key_def Let_def bit_reversed latin1_def comp_def)

subsection \<open>Where the code's assumptions fail\<close>

text \<open>
  C39. A ZRLE run length of 8,421,505 or more bytes of 255 overflows the \<open>int\<close> that holds it, before
  it is compared with the tile's size: undefined behaviour that any server can cause with a few
  kilobytes of compressed data.
\<close>

theorem zrle_run_overflows:
  assumes "8421505 \<le> n"
  shows "zrle_run (replicate n 255 @ bs) 1 pos = None"
  by (rule zrle_run_over) (use assms in simp_all)

theorem zrle_run_overflows_witness:
  "zrle_run (replicate 8421505 255 @ []) 1 0 = None"
  by (rule zrle_run_overflows) simp

text \<open>
  A ZRLE tile with sub-encoding 127 is drawn from an uninitialised palette: its pixels are
  whatever the stack held.
\<close>

theorem zrle_tile_uninitialised:
  assumes "0 < i_w m" and "0 < i_h m"
  shows "\<exists>m'. zrle_tile env [127, b] \<lparr>r_x = 0, r_y = 0, r_w = 1, r_h = 1\<rparr> 0 0 0 m = Some (True, 2, m') \<and>
    i_px m' 0 0 = e_uninit env (unat (drop_bit 4 b))"
  by (rule zrle_127 [OF assms])

theorem zrle_tile_uninitialised_witness:
  "\<exists>m'. zrle_tile demo_vnc_env [127, 0x30] \<lparr>r_x = 0, r_y = 0, r_w = 1, r_h = 1\<rparr> 0 0 0 (black_image 1 1) = Some (True, 2, m') \<and>
    i_px m' 0 0 = e_uninit demo_vnc_env (unat (drop_bit 4 (0x30 :: byte)))"
  by (rule zrle_tile_uninitialised) (simp_all add: black_image_def)

text \<open>
  Accepting the password dialog after the server has hung up writes to a null socket: the
  connection is torn down while the dialog's event loop runs.
\<close>

theorem vnc_dialog_after_hangup:
  assumes "v_stage s = AuthChallenge" and "v_socket s" and "\<not> v_failedAlready s" and "16 \<le> avail s"
    and "v_password s = []" and "e_ask env = Some (Some pw, True)"
  shows "vnc_step env s = None"
  using assms
  by (simp add: vnc_step_def stepAuthChallenge_def Let_def onSocketClosed_def retryOlderProtocol_def consume_def
      fail_def vclose_def vemit_def vwrite_def)

theorem vnc_dialog_after_hangup_witness:
  "vnc_step (demo_vnc_env\<lparr>e_ask := Some (Some ''secret'', True)\<rparr>)
     (demo_greeted\<lparr>v_stage := AuthChallenge, v_buf := replicate 16 7\<rparr>) = None"
  by (rule vnc_dialog_after_hangup)
    (simp_all add: demo_greeted_def vnc_connectToHost_def startConnection_def vclose_def vemit_def vnc_initial_def
      Let_def avail_def)

text \<open>
  C31. The size a server announces at the start is not limited: any non-empty desktop is accepted,
  and when its byte count does not fit an \<open>int\<close>, a Tight rectangle of that size overflows.
\<close>

theorem vnc_desktop_size_unchecked:
  assumes "v_pos s + 24 \<le> length (v_buf s)" and "v_socket s" and "u32 s 20 = Some 0"
    and "u16 s 0 = Some w" and "u16 s 2 = Some h" and "w \<noteq> 0" and "h \<noteq> 0"
  shows "\<exists>t. stepServerInit env s = Some (True, t) \<and> v_stage t = Running \<and>
    i_w (v_work t) = unat w \<and> i_h (v_work t) = unat h \<and>
    (\<forall>u control. r_w (v_rect u) = unat w \<and> r_h (v_rect u) = unat h \<and> \<not> bit control 6 \<and>
       2 ^ 31 \<le> unat w * 3 * unat h \<longrightarrow> tight_basic env control u = None)"
proof -
  let ?s1 = "consume 24 (s\<lparr>v_desktopName := e_utf8 env (buf_mid s 24 0)\<rparr>)"
  let ?a = "allocFramebuffer (unat w) (unat h) ?s1"
  have av: "\<not> avail s < 24" using assms(1) by (simp add: avail_def)
  obtain b where b: "sendPixelFormatAndEncodings ?a = Some (vemit b ?a)"
    using assms(2) by (simp add: sendPixelFormatAndEncodings_def vwrite_def allocFramebuffer_def)
  let ?r = "(vemit b ?a)\<lparr>v_stage := Running\<rparr>"
  obtain m where m: "requestUpdate False ?r = Some (?r\<lparr>v_log := m\<rparr>)"
    using requestUpdate_defined [of ?r False] assms(2) by (auto simp: allocFramebuffer_def)
  have "stepServerInit env s = Some (True, vemit Ready (?r\<lparr>v_log := m\<rparr>))"
    using av assms b m by (simp add: stepServerInit_def Let_def)
  moreover have "tight_basic env control u = None"
    if "r_w (v_rect u) = unat w" "r_h (v_rect u) = unat h" "\<not> bit control 6" "2 ^ 31 \<le> unat w * 3 * unat h"
    for u :: "'a vnc" and control
    using that by (simp add: tight_basic_def tight_filter_def Let_def)
  ultimately show ?thesis by (simp add: vemit_def allocFramebuffer_def black_image_def)
qed

theorem vnc_desktop_size_unchecked_witness:
  "\<exists>t. stepServerInit demo_vnc_env (demo_greeted\<lparr>v_buf := replicate 4 255 @ replicate 20 0\<rparr>) = Some (True, t) \<and>
    v_stage t = Running \<and> i_w (v_work t) = 65535 \<and> i_h (v_work t) = 65535"
proof -
  let ?s = "demo_greeted\<lparr>v_buf := replicate 4 255 @ replicate 20 0\<rparr>"
  have a: "v_pos ?s + 24 \<le> length (v_buf ?s)" "v_socket ?s" "u32 ?s 20 = Some 0"
    "u16 ?s 0 = Some 0xFFFF" "u16 ?s 2 = Some 0xFFFF"
    by (simp_all add: demo_greeted_def vnc_connectToHost_def startConnection_def vclose_def vemit_def Let_def vnc_initial_def
        u32_def u16_def u8_def rd_def nth_append)
  have nz: "(0xFFFF :: 16 word) \<noteq> 0" by simp
  show ?thesis using vnc_desktop_size_unchecked [OF a nz nz, of demo_vnc_env] unfolding unat_65535 by blast
qed

end
