(* ===== verification/VncTransport.thy ===== *)
theory VncTransport
  imports ConnSettings VncProps
begin

text \<open>
  \<open>src/src/transports/vnc/VncTransport.{h,cpp}\<close>: the lifecycle of a VNC pane. The transport owns the
  client and turns its signals \<open>ready\<close>, \<open>failed\<close> and \<open>closed\<close> into transport states; the pixels do
  not pass through it.
\<close>

record 'z vnc_transport = transport +
  vt_settings :: vnc_settings
  vt_client :: "'z vnc"

definition vnc_transport_initial :: "vnc_settings \<Rightarrow> 'z vnc_transport" where
  "vnc_transport_initial cfg =
     \<lparr>m_state = Disconnected, emitted = [], vt_settings = cfg, vt_client = vnc_initial []\<rparr>"

text \<open>The slots connected to the client's signals.\<close>

fun onClientSignal :: "vnc_effect \<Rightarrow> 'z vnc_transport \<Rightarrow> 'z vnc_transport" where
  "onClientSignal Ready s = setState Connected s"
| "onClientSignal (Failed message) s = setState Error (emit (ErrorOccurred message) s)"
| "onClientSignal Closed s = (if m_state s \<noteq> Error then setState Disconnected s else s)"
| "onClientSignal _ s = s"

text \<open>A step of the client, whose new signals are delivered in the order they were emitted.\<close>

definition client_became :: "'z vnc \<Rightarrow> 'z vnc_transport \<Rightarrow> 'z vnc_transport" where
  "client_became c s =
     fold onClientSignal (drop (length (v_log (vt_client s))) (v_log c)) (s\<lparr>vt_client := c\<rparr>)"

definition vnct_connectToHost :: "'z vnc_transport \<Rightarrow> 'z vnc_transport" where
  "vnct_connectToHost s =
     (let s1 = setState Connecting s; cfg = vt_settings s1
      in client_became (vnc_connectToHost (vs_host cfg) (vs_port cfg) (vs_password cfg) (vt_client s1)) s1)"

definition vnct_disconnectFromHost :: "'z vnc_transport \<Rightarrow> 'z vnc_transport" where
  "vnct_disconnectFromHost s = setState Disconnected (client_became (vclose (vt_client s)) s)"

datatype 'z vnct_event =
  VtConnect | VtDisconnect | VtResize int int | VtWrite bytes | VtClient "'z vnc"

fun vnct_handle :: "'z vnct_event \<Rightarrow> 'z vnc_transport \<Rightarrow> 'z vnc_transport" where
  "vnct_handle VtConnect s = vnct_connectToHost s"
| "vnct_handle VtDisconnect s = vnct_disconnectFromHost s"
| "vnct_handle (VtResize cols rows) s = s"
| "vnct_handle (VtWrite data) s = s"
| "vnct_handle (VtClient c) s = client_became c s"

lemma onClientSignal_faithful [inv_intros, simp]: "faithful s \<Longrightarrow> faithful (onClientSignal e s)"
  by (cases e) simp_all

lemma faithful_vt_client [simp]: "faithful (s\<lparr>vt_client := c\<rparr>) = faithful s"
  by (simp add: faithful_def)

lemma client_became_faithful [inv_intros, simp]: "faithful s \<Longrightarrow> faithful (client_became c s)"
proof -
  have "faithful s \<Longrightarrow> faithful (fold onClientSignal es s)" for es and s :: "'a vnc_transport"
    by (induction es arbitrary: s) simp_all
  then show "faithful s \<Longrightarrow> faithful (client_became c s)" by (simp add: client_became_def)
qed

lemma vnct_handle_faithful: "faithful s \<Longrightarrow> faithful (vnct_handle e s)"
  by (cases e) (simp_all add: vnct_connectToHost_def vnct_disconnectFromHost_def Let_def)

interpretation vnct: transport_contract vnct_handle "\<lambda>s. \<exists>cfg. s = vnc_transport_initial cfg"
  by unfold_locales
    (auto simp: vnc_transport_initial_def faithful_def intro: vnct_handle_faithful [unfolded faithful_def])

subsection \<open>Properties\<close>

text \<open>
  Losing an established VNC session is an ordinary disconnect, and a failure before that is an
  error that the following \<open>closed\<close> does not hide: when the client's connection ends, the pane is
  told \<open>Disconnected\<close> in the first case and the message and \<open>Error\<close> in the second.
\<close>

theorem vnc_end_reported:
  assumes "v_stage (vt_client s) \<noteq> Idle" and "\<not> v_failedAlready (vt_client s)" and "v_socket (vt_client s)"
    and "\<not> fst (retryOlderProtocol (vt_client s))"
  shows "m_state (client_became (onSocketClosed (vt_client s)) s) =
      (if v_stage (vt_client s) = Running then
         (if m_state s = Error then Error else Disconnected) else Error) \<and>
    (v_stage (vt_client s) \<noteq> Running \<longrightarrow>
      ErrorOccurred ''Connection closed by the server'' \<in>
        set (emitted (client_became (onSocketClosed (vt_client s)) s)))"
proof (cases "v_stage (vt_client s) = Running")
  case True
  then have "client_became (onSocketClosed (vt_client s)) s =
      onClientSignal Closed (s\<lparr>vt_client := onSocketClosed (vt_client s)\<rparr>)"
    using assms(3) by (simp add: client_became_def onSocketClosed_def vclose_def vemit_def Let_def)
  then show ?thesis using True by simp
next
  case False
  let ?c = "fail ''Connection closed by the server'' (vt_client s)"
  have r: "retryOlderProtocol (vt_client s) = (False, vt_client s)"
    using assms(4) by (auto simp: retryOlderProtocol_def split: if_splits)
  have "onSocketClosed (vt_client s) = ?c"
    using assms(1) False r by (simp add: onSocketClosed_def)
  moreover have "drop (length (v_log (vt_client s))) (v_log ?c) =
      [SocketAbort, Failed ''Connection closed by the server'', Closed]"
    using assms(2,3) by (simp add: fail_def vclose_def vemit_def Let_def)
  ultimately show ?thesis using False by (simp add: client_became_def setState_def emit_def)
qed

theorem vnc_end_reported_witness:
  "m_state (client_became (onSocketClosed demo_running)
     ((vnc_transport_initial default_vnc_settings)\<lparr>m_state := Connected, vt_client := demo_running\<rparr>)) = Disconnected"
proof -
  let ?s = "(vnc_transport_initial default_vnc_settings)\<lparr>m_state := Connected, vt_client := demo_running\<rparr>"
  have a: "v_stage (vt_client ?s) \<noteq> Idle" "\<not> v_failedAlready (vt_client ?s)" "v_socket (vt_client ?s)"
    "\<not> fst (retryOlderProtocol (vt_client ?s))"
    by (simp_all add: demo_running_def vnc_initial_def retryOlderProtocol_def)
  have "v_stage demo_running = Running" by (simp add: demo_running_def)
  then show ?thesis using vnc_end_reported [OF a] by simp
qed

end
