(* ===== verification/Crypto.thy ===== *)
theory Crypto
  imports Prelude
begin

text \<open>
  At-rest encryption of saved secrets (\<open>src/src/core/Crypto.cpp\<close>), both halves of the file: the
  Linux one (a master key kept in the Secret Service, AES-256-GCM) and the Windows one (DPAPI).

  The Secret Service, OpenSSL and DPAPI are parameters: \<open>e_answers k\<close> says whether the
  \<open>k\<close>-th Secret Service call completes (no error and no timeout), \<open>e_rand k n\<close> is what the
  \<open>k\<close>-th \<open>RAND_bytes\<close> call puts into a buffer of \<open>n\<close> bytes, \<open>e_seal\<close> and
  \<open>e_open\<close> are the runs of \<open>EVP_Encrypt\<close>/\<open>EVP_Decrypt\<close> calls, with \<open>None\<close> for any
  failing call. The state holds the process's cached key, the keyring item and the numbers of calls
  made so far. A \<open>qtlib\<close> holds the Qt conversions that every saved file goes through.

  The locale \<open>vault\<close> is what \<open>ConnectionProfile\<close> relies on, and both halves provide it.
\<close>

type_synonym uuid = "128 word"

record qtlib =
  uuid_text :: "uuid \<Rightarrow> string"
  uuid_parse :: "string \<Rightarrow> uuid"
  toUtf8 :: "string \<Rightarrow> bytes"
  fromUtf8 :: "bytes \<Rightarrow> string"
  toBase64 :: "bytes \<Rightarrow> string"
  fromBase64 :: "string \<Rightarrow> bytes"

text \<open>The documented behaviour of the conversions: each parser inverts its printer.\<close>

definition qtlib_ok :: "qtlib \<Rightarrow> bool" where
  "qtlib_ok L \<longleftrightarrow>
     (\<forall>u. uuid_parse L (uuid_text L u) = u) \<and>
     (\<forall>s. fromUtf8 L (toUtf8 L s) = s) \<and> toUtf8 L [] = [] \<and>
     (\<forall>b. fromBase64 L (toBase64 L b) = b) \<and> toBase64 L [] = []"

lemma qtlib_okD [simp]:
  assumes "qtlib_ok L"
  shows "uuid_parse L (uuid_text L u) = u" "fromUtf8 L (toUtf8 L s) = s" "toUtf8 L [] = []"
    "fromBase64 L (toBase64 L b) = b" "toBase64 L [] = []"
  using assms by (simp_all add: qtlib_ok_def)

lemma fromUtf8_Nil [simp]:
  assumes "qtlib_ok L" shows "fromUtf8 L [] = []"
proof -
  have "fromUtf8 L (toUtf8 L []) = []" by (rule qtlib_okD(2) [OF assms])
  then show ?thesis by (simp only: qtlib_okD(3) [OF assms])
qed

lemma toUtf8_Nil_iff [simp]:
  assumes "qtlib_ok L" shows "toUtf8 L s = [] \<longleftrightarrow> s = []"
  using qtlib_okD(2) [OF assms, of s] fromUtf8_Nil [OF assms] qtlib_okD(3) [OF assms] by force

lemma fromBase64_Nil [simp]:
  assumes "qtlib_ok L" shows "fromBase64 L [] = []"
proof -
  have "fromBase64 L (toBase64 L []) = []" by (rule qtlib_okD(4) [OF assms])
  then show ?thesis by (simp only: qtlib_okD(5) [OF assms])
qed

lemma toBase64_Nil_iff [simp]:
  assumes "qtlib_ok L" shows "toBase64 L b = [] \<longleftrightarrow> b = []"
  using qtlib_okD(4) [OF assms, of b] fromBase64_Nil [OF assms] qtlib_okD(5) [OF assms] by force

text \<open>An instance of the conversions, for the witnesses.\<close>

definition plain_lib :: qtlib where
  "plain_lib =
     \<lparr>uuid_text = \<lambda>u. replicate (unat u) (CHR ''x''),
      uuid_parse = \<lambda>s. of_nat (length s),
      toUtf8 = map of_char, fromUtf8 = map (\<lambda>b. char_of (unat b)),
      toBase64 = map (\<lambda>b. char_of (unat b)), fromBase64 = map of_char\<rparr>"

lemma char_of_byte [simp]: "(of_char (char_of (unat (b :: byte))) :: byte) = b"
proof -
  have "(of_char (char_of (unat b)) :: byte) = of_nat (of_char (char_of (unat b)) :: nat)"
    by (simp only: of_nat_of_char)
  then show ?thesis by simp
qed

lemma char_of_of_byte [simp]: "char_of (unat (of_char c :: byte)) = c"
proof -
  have lt: "(of_char c :: nat) < 256" by (cases c) (simp add: of_char_def)
  have "(of_char c :: byte) = of_nat (of_char c :: nat)"
    by (simp only: of_nat_of_char)
  then have "unat (of_char c :: byte) = (of_char c :: nat)"
    using lt by (simp add: unat_of_nat take_bit_nat_eq_self del: of_nat_of_char)
  then show ?thesis by simp
qed

lemma plain_lib_ok [simp]: "qtlib_ok plain_lib"
  by (simp add: qtlib_ok_def plain_lib_def comp_def)

subsection \<open>Linux: master key in the keyring, AES-256-GCM\<close>

record crypto_env =
  e_lib :: qtlib
  e_answers :: "nat \<Rightarrow> bool"
  e_rand :: "nat \<Rightarrow> nat \<Rightarrow> bytes option"
  e_seal :: "bytes \<Rightarrow> bytes \<Rightarrow> bytes \<Rightarrow> (bytes \<times> bytes) option"
  e_open :: "bytes \<Rightarrow> bytes \<Rightarrow> bytes \<Rightarrow> bytes \<Rightarrow> bytes option"

record crypto =
  cachedKey :: bytes
  keyring :: "string option"
  calls :: nat
  draws :: nat

definition kIvSize :: nat where "kIvSize = 12"
definition kTagSize :: nat where "kTagSize = 16"

definition RAND_bytes :: "crypto_env \<Rightarrow> nat \<Rightarrow> crypto \<Rightarrow> bytes option \<times> crypto" where
  "RAND_bytes E n s = (e_rand E (draws s) n, s\<lparr>draws := draws s + 1\<rparr>)"

definition secret_lookup :: "crypto_env \<Rightarrow> crypto \<Rightarrow> string option \<times> crypto" where
  "secret_lookup E s =
     (if e_answers E (calls s) then keyring s else None, s\<lparr>calls := calls s + 1\<rparr>)"

text \<open>Storing replaces the item with the same schema and attributes.\<close>

definition secret_store :: "crypto_env \<Rightarrow> string \<Rightarrow> crypto \<Rightarrow> bool \<times> crypto" where
  "secret_store E v s =
     (e_answers E (calls s),
      s\<lparr>calls := calls s + 1, keyring := (if e_answers E (calls s) then Some v else keyring s)\<rparr>)"

definition found_key :: "crypto_env \<Rightarrow> string option \<Rightarrow> bytes" where
  "found_key E stored = (case stored of None \<Rightarrow> [] | Some t \<Rightarrow> fromBase64 (e_lib E) t)"

definition newMasterKey :: "crypto_env \<Rightarrow> crypto \<Rightarrow> bytes \<times> crypto" where
  "newMasterKey E s =
     (case RAND_bytes E 32 s of
        (None, s1) \<Rightarrow> ([], s1)
      | (Some newKey, s1) \<Rightarrow>
          (case secret_store E (toBase64 (e_lib E) newKey) s1 of
             (False, s2) \<Rightarrow> ([], s2)
           | (True, s2) \<Rightarrow> (newKey, s2\<lparr>cachedKey := newKey\<rparr>)))"

definition masterKey :: "crypto_env \<Rightarrow> crypto \<Rightarrow> bytes \<times> crypto" where
  "masterKey E s =
     (if cachedKey s \<noteq> [] then (cachedKey s, s)
      else
        (case secret_lookup E s of
           (stored, s1) \<Rightarrow>
             let found = found_key E stored
             in if length found = 32 then (found, s1\<lparr>cachedKey := found\<rparr>)
                else newMasterKey E s1))"

definition aesGcmEncrypt :: "crypto_env \<Rightarrow> bytes \<Rightarrow> bytes \<Rightarrow> crypto \<Rightarrow> bytes \<times> crypto" where
  "aesGcmEncrypt E key plaintext s =
     (case RAND_bytes E kIvSize s of
        (None, s1) \<Rightarrow> ([], s1)
      | (Some iv, s1) \<Rightarrow>
          (case e_seal E key iv plaintext of
             None \<Rightarrow> ([], s1)
           | Some (ciphertext, tag) \<Rightarrow> (iv @ ciphertext @ tag, s1)))"

definition aesGcmDecrypt :: "crypto_env \<Rightarrow> bytes \<Rightarrow> bytes \<Rightarrow> bytes" where
  "aesGcmDecrypt E key blob =
     (if length blob < kIvSize + kTagSize then []
      else
        let iv = take kIvSize blob;
            tag = drop (length blob - kTagSize) blob;
            ciphertext = take (length blob - kIvSize - kTagSize) (drop kIvSize blob)
        in (case e_open E key iv ciphertext tag of None \<Rightarrow> [] | Some p \<Rightarrow> p))"

definition protect :: "crypto_env \<Rightarrow> bytes \<Rightarrow> crypto \<Rightarrow> bytes \<times> crypto" where
  "protect E plaintext s =
     (if plaintext = [] then ([], s)
      else
        (case masterKey E s of
           (key, s1) \<Rightarrow> if key = [] then ([], s1) else aesGcmEncrypt E key plaintext s1))"

definition unprotect :: "crypto_env \<Rightarrow> bytes \<Rightarrow> crypto \<Rightarrow> bytes \<times> crypto" where
  "unprotect E encrypted s =
     (if encrypted = [] then ([], s)
      else
        (case masterKey E s of
           (key, s1) \<Rightarrow> if key = [] then ([], s1) else (aesGcmDecrypt E key encrypted, s1)))"

text \<open>
  What the documentation of the libraries promises: \<open>RAND_bytes\<close> fills the buffer, and
  decryption with the key, the IV and the tag of an encryption returns the plaintext. The tag is
  \<open>kTagSize\<close> bytes because that is what is asked for.
\<close>

definition engine_ok :: "crypto_env \<Rightarrow> bool" where
  "engine_ok E \<longleftrightarrow>
     qtlib_ok (e_lib E) \<and>
     (\<forall>k n r. e_rand E k n = Some r \<longrightarrow> length r = n) \<and>
     (\<forall>key iv p c t. e_seal E key iv p = Some (c, t) \<longrightarrow>
        length t = kTagSize \<and> e_open E key iv c t = Some p)"

text \<open>Nothing in the engine fails: random bytes are available and AES-GCM accepts every input.\<close>

definition engine_works :: "crypto_env \<Rightarrow> bool" where
  "engine_works E \<longleftrightarrow>
     engine_ok E \<and> (\<forall>k n. e_rand E k n \<noteq> None) \<and> (\<forall>key iv p. e_seal E key iv p \<noteq> None)"

definition key_ok :: "crypto \<Rightarrow> bool" where
  "key_ok s \<longleftrightarrow> cachedKey s = [] \<or> length (cachedKey s) = 32"

text \<open>The cached key is the one in the keyring.\<close>

definition key_stored :: "crypto_env \<Rightarrow> crypto \<Rightarrow> bool" where
  "key_stored E s \<longleftrightarrow>
     cachedKey s = [] \<or>
     length (cachedKey s) = 32 \<and> found_key E (keyring s) = cachedKey s"

lemma key_stored_key_ok: "key_stored E s \<Longrightarrow> key_ok s"
  by (auto simp: key_stored_def key_ok_def)

lemma engine_okD:
  assumes "engine_ok E"
  shows "qtlib_ok (e_lib E)" "e_rand E k n = Some r \<Longrightarrow> length r = n"
    "e_seal E key iv p = Some (c, t) \<Longrightarrow> length t = kTagSize"
    "e_seal E key iv p = Some (c, t) \<Longrightarrow> e_open E key iv c t = Some p"
  using assms by (auto simp: engine_ok_def)

lemma masterKey_cached [simp]: "cachedKey s \<noteq> [] \<Longrightarrow> masterKey E s = (cachedKey s, s)"
  by (simp add: masterKey_def)

text \<open>Whatever happens, a key that is returned is the one now cached, and a failure is not cached.\<close>

lemma masterKey_result:
  assumes "masterKey E s = (key, s1)"
  shows "cachedKey s1 = key"
  using assms
  by (auto simp: masterKey_def newMasterKey_def secret_lookup_def secret_store_def RAND_bytes_def
      Let_def split: if_splits option.splits prod.splits bool.splits)

lemma masterKey_length:
  assumes "masterKey E s = (key, s1)" and "key_ok s" and "engine_ok E" and "key \<noteq> []"
  shows "length key = 32"
  using assms
  by (auto simp: masterKey_def newMasterKey_def secret_lookup_def secret_store_def RAND_bytes_def
      key_ok_def Let_def dest: engine_okD(2)
      split: if_splits option.splits prod.splits bool.splits)

lemma masterKey_stored:
  assumes "masterKey E s = (key, s1)" and "key_stored E s" and "engine_ok E"
  shows "key_stored E s1"
  using assms engine_okD(1,2) [OF assms(3)]
  by (auto simp: masterKey_def newMasterKey_def secret_lookup_def secret_store_def RAND_bytes_def
      key_stored_def found_key_def Let_def
      split: if_splits option.splits prod.splits bool.splits)

lemma aesGcmEncrypt_state:
  "aesGcmEncrypt E key p s = (b, s1) \<Longrightarrow> cachedKey s1 = cachedKey s \<and> keyring s1 = keyring s"
  by (auto simp: aesGcmEncrypt_def RAND_bytes_def split: option.splits prod.splits)

lemma aesGcm_roundtrip:
  assumes "aesGcmEncrypt E key p s = (b, s1)" and "engine_ok E" and "b \<noteq> []"
  shows "aesGcmDecrypt E key b = p"
proof -
  from assms(1,3) obtain iv c t where iv: "e_rand E (draws s) kIvSize = Some iv"
    and seal: "e_seal E key iv p = Some (c, t)" and b: "b = iv @ c @ t"
    by (auto simp: aesGcmEncrypt_def RAND_bytes_def split: option.splits)
  note len = engine_okD(2) [OF assms(2) iv] engine_okD(3) [OF assms(2) seal]
  have "e_open E key iv c t = Some p" by (rule engine_okD(4) [OF assms(2) seal])
  with len show ?thesis by (simp add: aesGcmDecrypt_def b)
qed

subsection \<open>Windows: DPAPI\<close>

text \<open>
  \<open>d_protect k\<close> is the \<open>k\<close>-th \<open>CryptProtectData\<close> call (it is randomised), the state is the
  number of calls made.
\<close>

record dpapi =
  d_protect :: "nat \<Rightarrow> bytes \<Rightarrow> bytes option"
  d_unprotect :: "bytes \<Rightarrow> bytes option"

definition win_protect :: "dpapi \<Rightarrow> bytes \<Rightarrow> nat \<Rightarrow> bytes \<times> nat" where
  "win_protect D plaintext s =
     (if plaintext = [] then ([], s)
      else (case d_protect D s plaintext of None \<Rightarrow> [] | Some out \<Rightarrow> out, s + 1))"

definition win_unprotect :: "dpapi \<Rightarrow> bytes \<Rightarrow> nat \<Rightarrow> bytes \<times> nat" where
  "win_unprotect D encrypted s =
     (if encrypted = [] then ([], s)
      else (case d_unprotect D encrypted of None \<Rightarrow> [] | Some out \<Rightarrow> out, s))"

definition dpapi_works :: "dpapi \<Rightarrow> bool" where
  "dpapi_works D \<longleftrightarrow>
     (\<forall>k p. \<exists>b. d_protect D k p = Some b \<and> b \<noteq> [] \<and> d_unprotect D b = Some p)"

subsection \<open>The contract of a vault\<close>

text \<open>
  While a vault is unlocked, what \<open>protect\<close> returns is turned back by \<open>unprotect\<close> under the
  same key, and neither operation changes the key.
\<close>

locale vault =
  fixes seal :: "bytes \<Rightarrow> 's \<Rightarrow> bytes \<times> 's"
    and unseal :: "bytes \<Rightarrow> 's \<Rightarrow> bytes \<times> 's"
    and unlocked :: "'s \<Rightarrow> bool"
    and key_of :: "'s \<Rightarrow> 'k"
  assumes unseal_seal:
      "unlocked s \<Longrightarrow> unlocked t \<Longrightarrow> key_of t = key_of s \<Longrightarrow> fst (unseal (fst (seal p s)) t) = p"
    and seal_keeps: "unlocked s \<Longrightarrow> unlocked (snd (seal p s)) \<and> key_of (snd (seal p s)) = key_of s"
    and unseal_keeps:
      "unlocked s \<Longrightarrow> unlocked (snd (unseal b s)) \<and> key_of (snd (unseal b s)) = key_of s"
    and seal_Nil: "seal [] s = ([], s)"
    and unseal_Nil: "unseal [] s = ([], s)"
begin

lemma seal_nonempty: "unlocked s \<Longrightarrow> fst (seal p s) = [] \<longleftrightarrow> p = []"
  by (metis fst_conv seal_Nil unseal_Nil unseal_seal)

end

definition linux_unlocked :: "crypto_env \<Rightarrow> crypto \<Rightarrow> bool" where
  "linux_unlocked E s \<longleftrightarrow> engine_works E \<and> length (cachedKey s) = 32"

lemma linux_unlocked_cached: "linux_unlocked E s \<Longrightarrow> cachedKey s \<noteq> []"
  by (auto simp: linux_unlocked_def)

lemma protect_unlocked:
  assumes "linux_unlocked E s" and "p \<noteq> []"
  shows "\<exists>iv c t. protect E p s = (iv @ c @ t, s\<lparr>draws := draws s + 1\<rparr>) \<and>
    length iv = kIvSize \<and> e_seal E (cachedKey s) iv p = Some (c, t)"
proof -
  have works: "engine_works E" using assms(1) by (simp add: linux_unlocked_def)
  obtain iv where iv: "e_rand E (draws s) kIvSize = Some iv"
    using works unfolding engine_works_def by fast
  obtain c t where seal: "e_seal E (cachedKey s) iv p = Some (c, t)"
    using works by (metis engine_works_def not_None_eq surj_pair)
  have "length iv = kIvSize" using works iv by (auto simp: engine_works_def dest: engine_okD(2))
  moreover have "protect E p s = (iv @ c @ t, s\<lparr>draws := draws s + 1\<rparr>)"
    using iv seal assms
    by (simp add: protect_def linux_unlocked_cached aesGcmEncrypt_def RAND_bytes_def)
  ultimately show ?thesis using seal by blast
qed

lemma unprotect_unlocked:
  "linux_unlocked E s \<Longrightarrow> b \<noteq> [] \<Longrightarrow> unprotect E b s = (aesGcmDecrypt E (cachedKey s) b, s)"
  by (simp add: unprotect_def linux_unlocked_cached)

lemma linux_unseal_seal:
  assumes "linux_unlocked E s" and "linux_unlocked E t" and "cachedKey t = cachedKey s"
  shows "fst (unprotect E (fst (protect E p s)) t) = p"
proof (cases "p = []")
  case True
  then show ?thesis by (simp add: protect_def unprotect_def)
next
  case False
  from protect_unlocked [OF assms(1) False] obtain iv c tag
    where p: "protect E p s = (iv @ c @ tag, s\<lparr>draws := draws s + 1\<rparr>)" and iv: "length iv = kIvSize"
    and seal: "e_seal E (cachedKey s) iv p = Some (c, tag)" by blast
  have ok: "engine_ok E" using assms(1) by (simp add: linux_unlocked_def engine_works_def)
  have tag: "length tag = kTagSize" by (rule engine_okD(3) [OF ok seal])
  have "iv @ c @ tag \<noteq> []" using tag by (auto simp: kTagSize_def)
  then show ?thesis
    using engine_okD(4) [OF ok seal] assms iv tag
    by (simp add: p unprotect_unlocked aesGcmDecrypt_def)
qed

interpretation linux: vault "protect E" "unprotect E" "linux_unlocked E" cachedKey
  for E :: crypto_env
proof
  fix s :: crypto and p b :: bytes
  assume u: "linux_unlocked E s"
  show "linux_unlocked E (snd (protect E p s)) \<and> cachedKey (snd (protect E p s)) = cachedKey s"
    using protect_unlocked [OF u, of p] u
    by (cases "p = []") (auto simp: protect_def linux_unlocked_def)
  show "linux_unlocked E (snd (unprotect E b s)) \<and> cachedKey (snd (unprotect E b s)) = cachedKey s"
    using u unprotect_unlocked [OF u, of b] by (cases "b = []") (auto simp: unprotect_def)
qed (simp_all add: linux_unseal_seal, simp_all add: protect_def unprotect_def)

lemma win_unseal_seal:
  assumes "dpapi_works D"
  shows "fst (win_unprotect D (fst (win_protect D p s)) t) = p"
proof (cases "p = []")
  case True
  then show ?thesis by (simp add: win_protect_def win_unprotect_def)
next
  case False
  obtain b where "d_protect D s p = Some b" "b \<noteq> []" "d_unprotect D b = Some p"
    using assms by (auto simp: dpapi_works_def)
  with False show ?thesis by (simp add: win_protect_def win_unprotect_def)
qed

interpretation windows: vault "win_protect D" "win_unprotect D" "\<lambda>_. dpapi_works D" "\<lambda>_. ()"
  for D :: dpapi
  by unfold_locales (simp_all add: win_unseal_seal, simp_all add: win_protect_def win_unprotect_def)

subsection \<open>What reaches the disk, restarts, and the time-out\<close>

definition secret_blob :: "crypto_env \<Rightarrow> bytes \<Rightarrow> bytes \<Rightarrow> bool" where
  "secret_blob E p b \<longleftrightarrow>
     (\<exists>key iv c t. length key = 32 \<and> length iv = kIvSize \<and>
        e_seal E key iv p = Some (c, t) \<and> b = iv @ c @ t)"

lemma protect_blob:
  assumes "engine_ok E" and "key_ok s" and "fst (protect E p s) \<noteq> []"
  shows "secret_blob E p (fst (protect E p s))"
proof -
  obtain key s1 where mk: "masterKey E s = (key, s1)" by fastforce
  have "p \<noteq> []" "key \<noteq> []"
    using assms(3) mk by (auto simp: protect_def split: if_splits)
  have len: "length key = 32" by (rule masterKey_length [OF mk assms(2,1) \<open>key \<noteq> []\<close>])
  have "fst (aesGcmEncrypt E key p s1) \<noteq> []"
    using assms(3) \<open>p \<noteq> []\<close> \<open>key \<noteq> []\<close> by (simp add: protect_def mk)
  then obtain iv c t where iv: "e_rand E (draws s1) kIvSize = Some iv"
    and c: "e_seal E key iv p = Some (c, t)" "fst (aesGcmEncrypt E key p s1) = iv @ c @ t"
    by (auto simp: aesGcmEncrypt_def RAND_bytes_def split: option.splits)
  moreover have "length iv = kIvSize" by (rule engine_okD(2) [OF assms(1) iv])
  moreover have "fst (protect E p s) = fst (aesGcmEncrypt E key p s1)"
    using \<open>p \<noteq> []\<close> \<open>key \<noteq> []\<close> by (simp add: protect_def mk)
  ultimately show ?thesis unfolding secret_blob_def using len by metis
qed

lemma protect_key:
  assumes "engine_ok E" and "key_stored E s" and "fst (protect E p s) \<noteq> []"
  shows "aesGcmDecrypt E (cachedKey (snd (protect E p s))) (fst (protect E p s)) = p"
    "length (cachedKey (snd (protect E p s))) = 32"
    "found_key E (keyring (snd (protect E p s))) = cachedKey (snd (protect E p s))"
proof -
  obtain key s1 where mk: "masterKey E s = (key, s1)" by fastforce
  have nz: "p \<noteq> []" "key \<noteq> []"
    using assms(3) mk by (auto simp: protect_def split: if_splits)
  obtain b s2 where enc: "aesGcmEncrypt E key p s1 = (b, s2)" by fastforce
  have prot: "protect E p s = (b, s2)" using nz by (simp add: protect_def mk enc)
  have st: "key_stored E s1" "cachedKey s1 = key"
    using masterKey_stored [OF mk assms(2,1)] masterKey_result [OF mk] by simp_all
  have same: "cachedKey s2 = key" "keyring s2 = keyring s1"
    using aesGcmEncrypt_state [OF enc] st by simp_all
  show "aesGcmDecrypt E (cachedKey (snd (protect E p s))) (fst (protect E p s)) = p"
    using aesGcm_roundtrip [OF enc assms(1)] assms(3) by (simp add: prot same)
  show "length (cachedKey (snd (protect E p s))) = 32"
    using st nz by (auto simp: prot same key_stored_def)
  show "found_key E (keyring (snd (protect E p s))) = cachedKey (snd (protect E p s))"
    using st nz by (auto simp: prot same key_stored_def)
qed

text \<open>A new process starts with nothing cached; the keyring outlives it.\<close>

definition restarted :: "crypto \<Rightarrow> crypto" where
  "restarted s = s\<lparr>cachedKey := []\<rparr>"

text \<open>
  C12. A secret saved by one run of the program is recovered by a later run, as long as the keyring
  answers the lookup: the key that sealed it is the one that was stored.
\<close>

theorem secret_survives_restart:
  assumes "engine_ok E" and "key_stored E s" and "fst (protect E p s) \<noteq> []"
    and "e_answers E (calls (snd (protect E p s)))"
  shows "fst (unprotect E (fst (protect E p s)) (restarted (snd (protect E p s)))) = p"
proof -
  note k = protect_key [OF assms(1-3)]
  show ?thesis
    using assms(3,4) k
    by (auto simp: unprotect_def restarted_def masterKey_def secret_lookup_def Let_def)
qed

text \<open>
  An engine for the witnesses: it works on every input, but its cipher adds the first key byte to
  each byte and its tags are constant.
\<close>

definition demo_env :: crypto_env where
  "demo_env =
     \<lparr>e_lib = plain_lib, e_answers = (\<lambda>_. True), e_rand = (\<lambda>k n. Some (replicate n (of_nat k + 1))),
      e_seal = (\<lambda>key iv p. Some (map (\<lambda>b. b + hd key) p, replicate kTagSize 7)),
      e_open = (\<lambda>key iv c t. Some (map (\<lambda>b. b - hd key) c))\<rparr>"

definition fresh_crypto :: crypto where
  "fresh_crypto = \<lparr>cachedKey = [], keyring = None, calls = 0, draws = 0\<rparr>"

lemma demo_env_works [simp]: "engine_works demo_env"
  by (simp add: engine_works_def engine_ok_def demo_env_def comp_def)

lemma demo_env_ok [simp]: "engine_ok demo_env"
  using demo_env_works unfolding engine_works_def by (rule conjunct1)

lemma fresh_stored [simp]: "key_stored E fresh_crypto"
  by (simp add: key_stored_def fresh_crypto_def)

lemma demo_answers [simp]: "e_answers demo_env k"
  by (simp add: demo_env_def)

lemma demo_protect:
  "fst (protect demo_env [5, 6] fresh_crypto) = replicate 12 2 @ [6, 7] @ replicate 16 7"
  by (simp add: protect_def masterKey_def secret_lookup_def newMasterKey_def RAND_bytes_def
      secret_store_def aesGcmEncrypt_def demo_env_def fresh_crypto_def found_key_def Let_def
      kIvSize_def kTagSize_def)

theorem secret_survives_restart_witness:
  "fst (unprotect demo_env (replicate 12 2 @ [6, 7] @ replicate 16 7)
     (restarted (snd (protect demo_env [5, 6] fresh_crypto)))) = [5, 6]"
  using secret_survives_restart [of demo_env fresh_crypto "[5, 6]"] by (simp add: demo_protect)

text \<open>
  C13. Nothing is ever written in the clear: whatever the keyring and the random generator do,
  \<open>protect\<close> returns nothing or an IV, the AES-GCM ciphertext under a 32-byte key, and the tag.
\<close>

theorem secret_never_in_clear:
  assumes "engine_ok E" and "key_ok s"
  shows "fst (protect E p s) = [] \<or> secret_blob E p (fst (protect E p s))"
  using protect_blob [OF assms] by blast

theorem secret_never_in_clear_witness:
  "secret_blob demo_env [5, 6] (replicate 12 2 @ [6, 7] @ replicate 16 7)"
  using secret_never_in_clear [of demo_env fresh_crypto "[5, 6]"]
    key_stored_key_ok [OF fresh_stored] by (simp add: demo_protect)

text \<open>
  A lookup that times out is answered by replacing the key: when the keyring holds the key but
  the lookup does not complete and the following store does, a new random key takes its place
  in the keyring and in the process, and the old one is in neither.
\<close>

theorem timeout_replaces_key:
  assumes "cachedKey s = []" and "\<not> e_answers E (calls s)" and "e_answers E (calls s + 1)"
    and "e_rand E (draws s) 32 = Some newKey"
  shows "masterKey E s =
    (newKey, s\<lparr>calls := calls s + 2, draws := draws s + 1,
               keyring := Some (toBase64 (e_lib E) newKey), cachedKey := newKey\<rparr>)"
  using assms
  by (simp add: masterKey_def secret_lookup_def found_key_def newMasterKey_def RAND_bytes_def
      secret_store_def Let_def)

definition slow_env :: crypto_env where
  "slow_env = demo_env\<lparr>e_answers := (\<lambda>k. k \<noteq> 0)\<rparr>"

definition holding_key :: "bytes \<Rightarrow> crypto" where
  "holding_key k = \<lparr>cachedKey = [], keyring = Some (toBase64 plain_lib k), calls = 0, draws = 4\<rparr>"

theorem timeout_replaces_key_witness:
  "masterKey slow_env (holding_key (replicate 32 9)) =
     (replicate 32 5,
      (holding_key (replicate 32 9))\<lparr>calls := 2, draws := 5,
        keyring := Some (toBase64 plain_lib (replicate 32 5)), cachedKey := replicate 32 5\<rparr>)"
  using timeout_replaces_key [of "holding_key (replicate 32 9)" slow_env "replicate 32 5"]
  by (simp add: slow_env_def demo_env_def holding_key_def)

end
