(* ===== verification/Profiles.thy ===== *)
theory Profiles
  imports Crypto ConnSettings
begin

text \<open>
  A saved connection and its JSON form: \<open>src/src/core/ConnectionProfile.{h,cpp}\<close>. \<open>json\<close> is a
  \<open>QJsonValue\<close>; a number that is not whole is \<open>JReal\<close>, whose value the code never uses. The
  functions take the vault's \<open>protect\<close> and \<open>unprotect\<close> as arguments (\<open>seal\<close>, \<open>unseal\<close>) and
  thread its state, so that they stand for the Linux and the Windows build alike.
\<close>

datatype json =
    JNull
  | JBool bool
  | JNum int
  | JReal
  | JStr string
  | JArr "json list"
  | JObj "(string \<times> json) list"

type_synonym json_object = "(string \<times> json) list"

definition jmember :: "json_object \<Rightarrow> string \<Rightarrow> json" where
  "jmember ob k = (case map_of ob k of None \<Rightarrow> JNull | Some v \<Rightarrow> v)"

definition jcontains :: "json_object \<Rightarrow> string \<Rightarrow> bool" where
  "jcontains ob k \<longleftrightarrow> map_of ob k \<noteq> None"

definition toStringJ :: "json \<Rightarrow> string" where
  "toStringJ v = (case v of JStr s \<Rightarrow> s | _ \<Rightarrow> [])"

definition toBoolJ :: "bool \<Rightarrow> json \<Rightarrow> bool" where
  "toBoolJ d v = (case v of JBool b \<Rightarrow> b | _ \<Rightarrow> d)"

definition toIntJ :: "int \<Rightarrow> json \<Rightarrow> int" where
  "toIntJ d v = (case v of JNum n \<Rightarrow> if is_int32 n then n else d | _ \<Rightarrow> d)"

definition toObjectJ :: "json \<Rightarrow> json_object" where
  "toObjectJ v = (case v of JObj ob \<Rightarrow> ob | _ \<Rightarrow> [])"

definition toArrayJ :: "json \<Rightarrow> json list" where
  "toArrayJ v = (case v of JArr vs \<Rightarrow> vs | _ \<Rightarrow> [])"

definition isObjectJ :: "json \<Rightarrow> bool" where
  "isObjectJ v = (case v of JObj _ \<Rightarrow> True | _ \<Rightarrow> False)"

definition isStringJ :: "json \<Rightarrow> bool" where
  "isStringJ v = (case v of JStr _ \<Rightarrow> True | _ \<Rightarrow> False)"

lemmas json_simps =
  jmember_def jcontains_def toStringJ_def toBoolJ_def toIntJ_def toObjectJ_def toArrayJ_def
  isObjectJ_def isStringJ_def

subsection \<open>The profile\<close>

datatype conn_type = TSerial | TTelnet | TSsh | TLocal | TVnc | TRdp
datatype viewer_kind = VTerminal | VHex

record profile =
  p_id :: uuid
  p_name :: string
  p_folder :: string
  p_type :: conn_type
  autoReconnect :: bool
  keyboardProfile :: string
  logSessionToFile :: bool
  logFilePath :: string
  logIncludeTimestamps :: bool
  p_viewer :: viewer_kind
  p_serial :: serial_settings
  telnetHost :: string
  telnetPort :: "16 word"
  rawMode :: bool
  p_ssh :: ssh_settings
  p_vnc :: vnc_settings
  p_rdp :: rdp_settings
  localShell :: string

text \<open>A default-constructed profile, given the identifier \<open>createUuid()\<close> returned.\<close>

definition default_profile :: "uuid \<Rightarrow> profile" where
  "default_profile u =
     \<lparr>p_id = u, p_name = [], p_folder = [], p_type = TSerial, autoReconnect = True,
      keyboardProfile = [], logSessionToFile = False, logFilePath = [], logIncludeTimestamps = False,
      p_viewer = VTerminal, p_serial = default_serial_settings, telnetHost = [], telnetPort = 23,
      rawMode = False, p_ssh = default_ssh_settings, p_vnc = default_vnc_settings,
      p_rdp = default_rdp_settings, localShell = []\<rparr>"

fun typeToString :: "conn_type \<Rightarrow> string" where
  "typeToString TSerial = ''serial''"
| "typeToString TTelnet = ''telnet''"
| "typeToString TSsh = ''ssh''"
| "typeToString TLocal = ''local''"
| "typeToString TVnc = ''vnc''"
| "typeToString TRdp = ''rdp''"

definition typeFromString :: "string \<Rightarrow> conn_type" where
  "typeFromString s =
     (if s = ''telnet'' then TTelnet
      else if s = ''ssh'' then TSsh
      else if s = ''local'' then TLocal
      else if s = ''vnc'' then TVnc
      else if s = ''rdp'' then TRdp
      else TSerial)"

definition viewerToString :: "viewer_kind \<Rightarrow> string" where
  "viewerToString v = (if v = VHex then ''hex'' else ''terminal'')"

definition viewerFromString :: "string \<Rightarrow> viewer_kind" where
  "viewerFromString s = (if s = ''hex'' then VHex else VTerminal)"

definition authMethodToString :: "auth_method \<Rightarrow> string" where
  "authMethodToString m = (if m = AuthPublicKey then ''publickey'' else ''password'')"

definition authMethodFromString :: "string \<Rightarrow> auth_method" where
  "authMethodFromString s = (if s = ''publickey'' then AuthPublicKey else AuthPassword)"

lemma typeFromString_typeToString [simp]: "typeFromString (typeToString t) = t"
  by (cases t) (simp_all add: typeFromString_def)

lemma viewer_string_roundtrip [simp]: "viewerFromString (viewerToString v) = v"
  by (cases v) (simp_all add: viewerFromString_def viewerToString_def)

lemma authMethod_string_roundtrip [simp]: "authMethodFromString (authMethodToString m) = m"
  by (cases m) (simp_all add: authMethodFromString_def authMethodToString_def)

subsection \<open>Secrets as text\<close>

definition protectToBase64 ::
    "qtlib \<Rightarrow> (bytes \<Rightarrow> 's \<Rightarrow> bytes \<times> 's) \<Rightarrow> string \<Rightarrow> 's \<Rightarrow> string \<times> 's" where
  "protectToBase64 L seal plaintext s =
     (if plaintext = [] then ([], s)
      else (case seal (toUtf8 L plaintext) s of (b, s1) \<Rightarrow> (toBase64 L b, s1)))"

definition unprotectFromBase64 ::
    "qtlib \<Rightarrow> (bytes \<Rightarrow> 's \<Rightarrow> bytes \<times> 's) \<Rightarrow> string \<Rightarrow> 's \<Rightarrow> string \<times> 's" where
  "unprotectFromBase64 L unseal base64 s =
     (if base64 = [] then ([], s)
      else (case unseal (fromBase64 L base64) s of (p, s1) \<Rightarrow> (fromUtf8 L p, s1)))"

subsection \<open>Writing\<close>

definition serial_json :: "serial_settings \<Rightarrow> json_object" where
  "serial_json c =
     [(''portName'', JStr (portName c)), (''baudRate'', JNum (baudRate c)),
      (''dataBits'', JNum (dataBits c)), (''parity'', JNum (parity c)),
      (''stopBits'', JNum (stopBits c)), (''flowControl'', JNum (flowControl c))]"

definition telnet_json :: "profile \<Rightarrow> json_object" where
  "telnet_json p =
     [(''host'', JStr (telnetHost p)), (''port'', JNum (uint (telnetPort p))),
      (''rawMode'', JBool (rawMode p))]"

definition ssh_json ::
    "qtlib \<Rightarrow> (bytes \<Rightarrow> 's \<Rightarrow> bytes \<times> 's) \<Rightarrow> ssh_settings \<Rightarrow> 's \<Rightarrow> json_object \<times> 's" where
  "ssh_json L seal c s =
     (case protectToBase64 L seal (sh_password c) s of
        (pw, s1) \<Rightarrow>
          (case protectToBase64 L seal (passphrase c) s1 of
             (pp, s2) \<Rightarrow>
               ([(''host'', JStr (sh_host c)), (''port'', JNum (uint (sh_port c))),
                 (''username'', JStr (sh_username c)),
                 (''promptForUsername'', JBool (promptForUsername c)),
                 (''authMethod'', JStr (authMethodToString (authMethod c))),
                 (''privateKeyPath'', JStr (privateKeyPath c)),
                 (''passwordProtected'', JStr pw),
                 (''promptForPassword'', JBool (promptForPassword c)),
                 (''passphraseProtected'', JStr pp),
                 (''forwardX11'', JBool (forwardX11 c))], s2)))"

definition vnc_json ::
    "qtlib \<Rightarrow> (bytes \<Rightarrow> 's \<Rightarrow> bytes \<times> 's) \<Rightarrow> vnc_settings \<Rightarrow> 's \<Rightarrow> json_object \<times> 's" where
  "vnc_json L seal c s =
     (case protectToBase64 L seal (vs_password c) s of
        (pw, s1) \<Rightarrow>
          ([(''host'', JStr (vs_host c)), (''port'', JNum (uint (vs_port c))),
            (''passwordProtected'', JStr pw)], s1))"

definition rdp_json ::
    "qtlib \<Rightarrow> (bytes \<Rightarrow> 's \<Rightarrow> bytes \<times> 's) \<Rightarrow> rdp_settings \<Rightarrow> 's \<Rightarrow> json_object \<times> 's" where
  "rdp_json L seal c s =
     (case protectToBase64 L seal (rd_password c) s of
        (pw, s1) \<Rightarrow>
          ([(''host'', JStr (rd_host c)), (''port'', JNum (uint (rd_port c))),
            (''username'', JStr (rd_username c)), (''domain'', JStr (rd_domain c)),
            (''passwordProtected'', JStr pw), (''desktopWidth'', JNum (desktopWidth c)),
            (''desktopHeight'', JNum (desktopHeight c))], s1))"

definition common_json :: "qtlib \<Rightarrow> profile \<Rightarrow> json_object" where
  "common_json L p =
     [(''id'', JStr (uuid_text L (p_id p))), (''name'', JStr (p_name p)),
      (''folder'', JStr (p_folder p)), (''type'', JStr (typeToString (p_type p))),
      (''autoReconnect'', JBool (autoReconnect p)),
      (''keyboardProfile'', JStr (keyboardProfile p)),
      (''logSessionToFile'', JBool (logSessionToFile p)), (''logFilePath'', JStr (logFilePath p)),
      (''logIncludeTimestamps'', JBool (logIncludeTimestamps p)),
      (''viewer'', JStr (viewerToString (p_viewer p)))]"

definition settings_json ::
    "qtlib \<Rightarrow> (bytes \<Rightarrow> 's \<Rightarrow> bytes \<times> 's) \<Rightarrow> profile \<Rightarrow> 's \<Rightarrow> json_object \<times> 's" where
  "settings_json L seal p s =
     (case p_type p of
        TSerial \<Rightarrow> ([(''serial'', JObj (serial_json (p_serial p)))], s)
      | TTelnet \<Rightarrow> ([(''telnet'', JObj (telnet_json p))], s)
      | TSsh \<Rightarrow> (case ssh_json L seal (p_ssh p) s of (ob, s1) \<Rightarrow> ([(''ssh'', JObj ob)], s1))
      | TLocal \<Rightarrow> ([(''local'', JObj [(''shell'', JStr (localShell p))])], s)
      | TVnc \<Rightarrow> (case vnc_json L seal (p_vnc p) s of (ob, s1) \<Rightarrow> ([(''vnc'', JObj ob)], s1))
      | TRdp \<Rightarrow> (case rdp_json L seal (p_rdp p) s of (ob, s1) \<Rightarrow> ([(''rdp'', JObj ob)], s1)))"

definition toJson ::
    "qtlib \<Rightarrow> (bytes \<Rightarrow> 's \<Rightarrow> bytes \<times> 's) \<Rightarrow> profile \<Rightarrow> 's \<Rightarrow> json_object \<times> 's" where
  "toJson L seal p s =
     (case settings_json L seal p s of (ob, s1) \<Rightarrow> (common_json L p @ ob, s1))"

subsection \<open>Reading\<close>

definition serial_from :: "json_object \<Rightarrow> serial_settings" where
  "serial_from ob =
     \<lparr>portName = toStringJ (jmember ob ''portName''),
      baudRate = toIntJ 115200 (jmember ob ''baudRate''),
      dataBits = toIntJ 8 (jmember ob ''dataBits''),
      parity = toIntJ 0 (jmember ob ''parity''),
      stopBits = toIntJ 1 (jmember ob ''stopBits''),
      flowControl = toIntJ 0 (jmember ob ''flowControl'')\<rparr>"

definition ssh_from ::
    "qtlib \<Rightarrow> (bytes \<Rightarrow> 's \<Rightarrow> bytes \<times> 's) \<Rightarrow> json_object \<Rightarrow> 's \<Rightarrow> ssh_settings \<times> 's" where
  "ssh_from L unseal ob s =
     (case unprotectFromBase64 L unseal (toStringJ (jmember ob ''passwordProtected'')) s of
        (pw, s1) \<Rightarrow>
          (case unprotectFromBase64 L unseal (toStringJ (jmember ob ''passphraseProtected'')) s1 of
             (pp, s2) \<Rightarrow>
               (\<lparr>sh_host = toStringJ (jmember ob ''host''),
                 sh_port = word_of_int (toIntJ 22 (jmember ob ''port'')),
                 sh_username = toStringJ (jmember ob ''username''),
                 promptForUsername = toBoolJ False (jmember ob ''promptForUsername''),
                 authMethod = authMethodFromString (toStringJ (jmember ob ''authMethod'')),
                 sh_password = pw,
                 promptForPassword = toBoolJ False (jmember ob ''promptForPassword''),
                 privateKeyPath = toStringJ (jmember ob ''privateKeyPath''),
                 passphrase = pp,
                 forwardX11 = toBoolJ True (jmember ob ''forwardX11'')\<rparr>, s2)))"

definition vnc_from ::
    "qtlib \<Rightarrow> (bytes \<Rightarrow> 's \<Rightarrow> bytes \<times> 's) \<Rightarrow> json_object \<Rightarrow> 's \<Rightarrow> vnc_settings \<times> 's" where
  "vnc_from L unseal ob s =
     (case unprotectFromBase64 L unseal (toStringJ (jmember ob ''passwordProtected'')) s of
        (pw, s1) \<Rightarrow>
          (\<lparr>vs_host = toStringJ (jmember ob ''host''),
            vs_port = word_of_int (toIntJ 5900 (jmember ob ''port'')), vs_password = pw\<rparr>, s1))"

definition rdp_from ::
    "qtlib \<Rightarrow> (bytes \<Rightarrow> 's \<Rightarrow> bytes \<times> 's) \<Rightarrow> json_object \<Rightarrow> 's \<Rightarrow> rdp_settings \<times> 's" where
  "rdp_from L unseal ob s =
     (case unprotectFromBase64 L unseal (toStringJ (jmember ob ''passwordProtected'')) s of
        (pw, s1) \<Rightarrow>
          (\<lparr>rd_host = toStringJ (jmember ob ''host''),
            rd_port = word_of_int (toIntJ 3389 (jmember ob ''port'')),
            rd_username = toStringJ (jmember ob ''username''),
            rd_domain = toStringJ (jmember ob ''domain''),
            rd_password = pw,
            desktopWidth = toIntJ 1280 (jmember ob ''desktopWidth''),
            desktopHeight = toIntJ 800 (jmember ob ''desktopHeight'')\<rparr>, s1))"

text \<open>The fields every type has; \<open>u\<close> is the identifier \<open>createUuid()\<close> returns.\<close>

definition common_from :: "qtlib \<Rightarrow> uuid \<Rightarrow> json_object \<Rightarrow> profile" where
  "common_from L u ob =
     (let i = uuid_parse L (toStringJ (jmember ob ''id''))
      in (default_profile (if i = 0 then u else i))
           \<lparr>p_name := toStringJ (jmember ob ''name''),
            p_folder := toStringJ (jmember ob ''folder''),
            p_type := typeFromString (toStringJ (jmember ob ''type'')),
            autoReconnect := toBoolJ True (jmember ob ''autoReconnect''),
            keyboardProfile := toStringJ (jmember ob ''keyboardProfile''),
            logSessionToFile := toBoolJ False (jmember ob ''logSessionToFile''),
            logFilePath := toStringJ (jmember ob ''logFilePath''),
            logIncludeTimestamps := toBoolJ False (jmember ob ''logIncludeTimestamps''),
            p_viewer := viewerFromString (toStringJ (jmember ob ''viewer''))\<rparr>)"

definition fromJson ::
    "qtlib \<Rightarrow> (bytes \<Rightarrow> 's \<Rightarrow> bytes \<times> 's) \<Rightarrow> uuid \<Rightarrow> json_object \<Rightarrow> 's \<Rightarrow> profile \<times> 's" where
  "fromJson L unseal u ob s =
     (let p = common_from L u ob
      in case p_type p of
           TSerial \<Rightarrow> (p\<lparr>p_serial := serial_from (toObjectJ (jmember ob ''serial''))\<rparr>, s)
         | TTelnet \<Rightarrow>
             (let t = toObjectJ (jmember ob ''telnet'')
              in (p\<lparr>telnetHost := toStringJ (jmember t ''host''),
                    telnetPort := word_of_int (toIntJ 23 (jmember t ''port'')),
                    rawMode := toBoolJ False (jmember t ''rawMode'')\<rparr>, s))
         | TSsh \<Rightarrow>
             (case ssh_from L unseal (toObjectJ (jmember ob ''ssh'')) s of
                (c, s1) \<Rightarrow> (p\<lparr>p_ssh := c\<rparr>, s1))
         | TLocal \<Rightarrow>
             (p\<lparr>localShell := toStringJ (jmember (toObjectJ (jmember ob ''local'')) ''shell'')\<rparr>, s)
         | TVnc \<Rightarrow>
             (case vnc_from L unseal (toObjectJ (jmember ob ''vnc'')) s of
                (c, s1) \<Rightarrow> (p\<lparr>p_vnc := c\<rparr>, s1))
         | TRdp \<Rightarrow>
             (case rdp_from L unseal (toObjectJ (jmember ob ''rdp'')) s of
                (c, s1) \<Rightarrow> (p\<lparr>p_rdp := c\<rparr>, s1)))"

subsection \<open>Round trip\<close>

text \<open>
  What a profile is worth saving: its common fields and the settings of its type, the others at
  their defaults (\<open>ConnectionProfile.h\<close>: only the member matching \<open>type\<close> is meaningful).
\<close>

definition relevant :: "profile \<Rightarrow> profile" where
  "relevant p =
     (let d = default_profile (p_id p)
      in d\<lparr>p_name := p_name p, p_folder := p_folder p, p_type := p_type p,
           autoReconnect := autoReconnect p, keyboardProfile := keyboardProfile p,
           logSessionToFile := logSessionToFile p, logFilePath := logFilePath p,
           logIncludeTimestamps := logIncludeTimestamps p, p_viewer := p_viewer p,
           p_serial := (if p_type p = TSerial then p_serial p else p_serial d),
           telnetHost := (if p_type p = TTelnet then telnetHost p else telnetHost d),
           telnetPort := (if p_type p = TTelnet then telnetPort p else telnetPort d),
           rawMode := (if p_type p = TTelnet then rawMode p else rawMode d),
           p_ssh := (if p_type p = TSsh then p_ssh p else p_ssh d),
           localShell := (if p_type p = TLocal then localShell p else localShell d),
           p_vnc := (if p_type p = TVnc then p_vnc p else p_vnc d),
           p_rdp := (if p_type p = TRdp then p_rdp p else p_rdp d)\<rparr>)"

text \<open>What the C++ types guarantee, and an identifier that is not null.\<close>

definition profile_ok :: "profile \<Rightarrow> bool" where
  "profile_ok p \<longleftrightarrow>
     p_id p \<noteq> 0 \<and>
     is_int32 (baudRate (p_serial p)) \<and> is_int32 (dataBits (p_serial p)) \<and>
     is_int32 (parity (p_serial p)) \<and> is_int32 (stopBits (p_serial p)) \<and>
     is_int32 (flowControl (p_serial p)) \<and>
     is_int32 (desktopWidth (p_rdp p)) \<and> is_int32 (desktopHeight (p_rdp p))"

lemma p_type_relevant [simp]: "p_type (relevant p) = p_type p"
  by (simp add: relevant_def Let_def)

lemma p_id_relevant [simp]: "p_id (relevant p) = p_id p"
  by (simp add: relevant_def Let_def default_profile_def)

lemma p_folder_relevant [simp]: "p_folder (relevant p) = p_folder p"
  by (simp add: relevant_def Let_def)

lemma relevant_relevant [simp]: "relevant (relevant p) = relevant p"
  by (cases "p_type p") (simp_all add: relevant_def Let_def default_profile_def)

lemma relevant_folder [simp]:
  "relevant (p\<lparr>p_folder := f\<rparr>) = (relevant p)\<lparr>p_folder := f\<rparr>"
  by (simp add: relevant_def Let_def default_profile_def)

lemma toIntJ_JNum [simp]: "is_int32 n \<Longrightarrow> toIntJ d (JNum n) = n"
  by (simp add: toIntJ_def)

lemma serial_roundtrip:
  assumes "is_int32 (baudRate c)" "is_int32 (dataBits c)" "is_int32 (parity c)"
    "is_int32 (stopBits c)" "is_int32 (flowControl c)"
  shows "serial_from (serial_json c) = c"
  using assms by (simp add: serial_from_def serial_json_def jmember_def toStringJ_def)

lemma jmember_settings [simp]:
  "jmember (common_json L p @ ob) ''serial'' = jmember ob ''serial''"
  "jmember (common_json L p @ ob) ''telnet'' = jmember ob ''telnet''"
  "jmember (common_json L p @ ob) ''ssh'' = jmember ob ''ssh''"
  "jmember (common_json L p @ ob) ''local'' = jmember ob ''local''"
  "jmember (common_json L p @ ob) ''vnc'' = jmember ob ''vnc''"
  "jmember (common_json L p @ ob) ''rdp'' = jmember ob ''rdp''"
  by (simp_all add: common_json_def jmember_def)

lemma jmember_Cons [simp]: "jmember ((k, v) # ob) k' = (if k' = k then v else jmember ob k')"
  by (simp add: jmember_def)

lemma common_from_common_json:
  assumes "qtlib_ok L" and "p_id p \<noteq> 0"
  shows "common_from L u (common_json L p @ ob) =
    (default_profile (p_id p))
      \<lparr>p_name := p_name p, p_folder := p_folder p, p_type := p_type p,
       autoReconnect := autoReconnect p, keyboardProfile := keyboardProfile p,
       logSessionToFile := logSessionToFile p, logFilePath := logFilePath p,
       logIncludeTimestamps := logIncludeTimestamps p, p_viewer := p_viewer p\<rparr>"
  using assms
  by (simp add: common_from_def common_json_def toStringJ_def toBoolJ_def Let_def)

context vault begin

text \<open>\<open>seals s t\<close>: the vault is open in both states, with the same key.\<close>

definition same_vault :: "'s \<Rightarrow> 's \<Rightarrow> bool" where
  "same_vault s t \<longleftrightarrow> unlocked s \<and> unlocked t \<and> key_of t = key_of s"

lemma text_keeps:
  "unlocked s \<Longrightarrow> same_vault s (snd (protectToBase64 L seal p s))"
  "unlocked s \<Longrightarrow> same_vault s (snd (unprotectFromBase64 L unseal b s))"
  using seal_keeps unseal_keeps
  by (auto simp: same_vault_def protectToBase64_def unprotectFromBase64_def split: prod.split)
    (metis snd_conv)+

lemma same_vault_trans: "same_vault r s \<Longrightarrow> same_vault s t \<Longrightarrow> same_vault r t"
  by (simp add: same_vault_def)

lemma same_vault_sym: "same_vault s t \<Longrightarrow> same_vault t s"
  by (simp add: same_vault_def)

lemma same_vault_refl: "unlocked s \<Longrightarrow> same_vault s s"
  by (simp add: same_vault_def)

lemma same_vaultD: "same_vault s t \<Longrightarrow> unlocked s" "same_vault s t \<Longrightarrow> unlocked t"
  by (simp_all add: same_vault_def)

lemma text_roundtrip:
  assumes "qtlib_ok L" and "same_vault s t"
  shows "fst (unprotectFromBase64 L unseal (fst (protectToBase64 L seal p s)) t) = p"
proof (cases "p = []")
  case True
  then show ?thesis by (simp add: protectToBase64_def unprotectFromBase64_def)
next
  case False
  obtain b s1 where b: "seal (toUtf8 L p) s = (b, s1)" by fastforce
  have "fst (unseal b t) = toUtf8 L p"
    using unseal_seal [of s t "toUtf8 L p"] assms(2) by (simp add: same_vault_def b)
  moreover have "b \<noteq> []"
    using seal_nonempty [of s "toUtf8 L p"] assms False by (simp add: same_vault_def b)
  ultimately show ?thesis
    using assms(1) False
    by (auto simp: protectToBase64_def unprotectFromBase64_def b split: prod.split)
qed

lemma text_roundtrip_pair:
  assumes "qtlib_ok L" and "same_vault s t"
  shows "\<exists>t1. unprotectFromBase64 L unseal (fst (protectToBase64 L seal p s)) t = (p, t1) \<and>
    same_vault s t1"
proof -
  obtain t1 where t1: "unprotectFromBase64 L unseal (fst (protectToBase64 L seal p s)) t = (p, t1)"
    using text_roundtrip [OF assms, of p] by (metis prod.collapse)
  have "same_vault t t1"
    using text_keeps(2) [OF same_vaultD(2) [OF assms(2)]] t1 by (metis snd_conv)
  with t1 assms(2) show ?thesis by (blast intro: same_vault_trans)
qed

lemma ssh_roundtrip:
  assumes "qtlib_ok L" and "same_vault s t"
  shows "\<exists>t1. ssh_from L unseal (fst (ssh_json L seal c s)) t = (c, t1) \<and> same_vault s t1"
proof -
  obtain pw s1 where pw: "protectToBase64 L seal (sh_password c) s = (pw, s1)" by fastforce
  have v1: "same_vault s s1" using text_keeps(1) [OF same_vaultD(1) [OF assms(2)]] pw by (metis snd_conv)
  obtain pp s2 where pp: "protectToBase64 L seal (passphrase c) s1 = (pp, s2)" by fastforce
  obtain t1 where t1: "unprotectFromBase64 L unseal pw t = (sh_password c, t1)" "same_vault s t1"
    using text_roundtrip_pair [OF assms, of "sh_password c"] by (auto simp: pw)
  have "same_vault s1 t1" using v1 t1(2) by (blast intro: same_vault_trans same_vault_sym)
  then obtain t2 where t2: "unprotectFromBase64 L unseal pp t1 = (passphrase c, t2)" "same_vault s1 t2"
    using text_roundtrip_pair [OF assms(1), of s1 t1 "passphrase c"] by (auto simp: pp)
  have "same_vault s t2" using v1 t2(2) by (rule same_vault_trans)
  then show ?thesis
    by (simp add: ssh_from_def ssh_json_def pw pp jmember_def toStringJ_def toBoolJ_def t1(1) t2(1))
qed

lemma vnc_roundtrip:
  assumes "qtlib_ok L" and "same_vault s t"
  shows "\<exists>t1. vnc_from L unseal (fst (vnc_json L seal c s)) t = (c, t1) \<and> same_vault s t1"
proof -
  obtain pw s1 where pw: "protectToBase64 L seal (vs_password c) s = (pw, s1)" by fastforce
  obtain t1 where t1: "unprotectFromBase64 L unseal pw t = (vs_password c, t1)" "same_vault s t1"
    using text_roundtrip_pair [OF assms, of "vs_password c"] by (auto simp: pw)
  then show ?thesis by (simp add: vnc_from_def vnc_json_def pw jmember_def toStringJ_def)
qed

lemma rdp_roundtrip:
  assumes "qtlib_ok L" and "same_vault s t"
    and "is_int32 (desktopWidth c)" "is_int32 (desktopHeight c)"
  shows "\<exists>t1. rdp_from L unseal (fst (rdp_json L seal c s)) t = (c, t1) \<and> same_vault s t1"
proof -
  obtain pw s1 where pw: "protectToBase64 L seal (rd_password c) s = (pw, s1)" by fastforce
  obtain t1 where t1: "unprotectFromBase64 L unseal pw t = (rd_password c, t1)" "same_vault s t1"
    using text_roundtrip_pair [OF assms(1,2), of "rd_password c"] by (auto simp: pw)
  then show ?thesis
    using assms(3,4) by (simp add: rdp_from_def rdp_json_def pw jmember_def toStringJ_def)
qed


end

context vault begin

lemma ssh_json_keeps: "unlocked s \<Longrightarrow> same_vault s (snd (ssh_json L seal c s))"
proof -
  assume u: "unlocked s"
  obtain pw s1 where pw: "protectToBase64 L seal (sh_password c) s = (pw, s1)" by fastforce
  have v1: "same_vault s s1" using text_keeps(1) [OF u] pw by (metis snd_conv)
  obtain pp s2 where pp: "protectToBase64 L seal (passphrase c) s1 = (pp, s2)" by fastforce
  have "same_vault s1 s2" using text_keeps(1) [OF same_vaultD(2) [OF v1]] pp by (metis snd_conv)
  with v1 have "same_vault s s2" by (rule same_vault_trans)
  then show ?thesis by (simp add: ssh_json_def pw pp)
qed

lemma vnc_json_keeps: "unlocked s \<Longrightarrow> same_vault s (snd (vnc_json L seal c s))"
  using text_keeps(1) [of s L "vs_password c"] by (simp add: vnc_json_def case_prod_unfold)

lemma rdp_json_keeps: "unlocked s \<Longrightarrow> same_vault s (snd (rdp_json L seal c s))"
  using text_keeps(1) [of s L "rd_password c"] by (simp add: rdp_json_def case_prod_unfold)

lemma toJson_keeps: "unlocked s \<Longrightarrow> same_vault s (snd (toJson L seal p s))"
  using ssh_json_keeps [of s L "p_ssh p"] vnc_json_keeps [of s L "p_vnc p"]
    rdp_json_keeps [of s L "p_rdp p"] same_vault_refl [of s]
  by (cases "p_type p")
    (simp_all add: toJson_def settings_json_def case_prod_unfold)

lemma profile_roundtrip:
  assumes "qtlib_ok L" and "profile_ok p" and "same_vault s t"
  shows "\<exists>t1. fromJson L unseal u (fst (toJson L seal p s)) t = (relevant p, t1) \<and> same_vault s t1"
proof -
  have id: "p_id p \<noteq> 0" using assms(2) by (simp add: profile_ok_def)
  have ints: "serial_from (serial_json (p_serial p)) = p_serial p"
    using assms(2) by (simp add: profile_ok_def serial_roundtrip)
  have wh: "is_int32 (desktopWidth (p_rdp p))" "is_int32 (desktopHeight (p_rdp p))"
    using assms(2) by (simp_all add: profile_ok_def)
  note common = common_from_common_json [OF assms(1) id]
  show ?thesis
  proof (cases "p_type p")
    case TSerial
    then show ?thesis
      using assms(3) ints
      by (simp add: toJson_def settings_json_def fromJson_def common Let_def
          toObjectJ_def relevant_def default_profile_def)
  next
    case TTelnet
    then show ?thesis
      using assms(3)
      by (simp add: toJson_def settings_json_def fromJson_def common Let_def telnet_json_def
          toObjectJ_def toStringJ_def toBoolJ_def relevant_def default_profile_def)
  next
    case TSsh
    obtain ob s1 where ob: "ssh_json L seal (p_ssh p) s = (ob, s1)" by fastforce
    obtain t1 where "ssh_from L unseal ob t = (p_ssh p, t1)" "same_vault s t1"
      using ssh_roundtrip [OF assms(1,3), of "p_ssh p"] by (auto simp: ob)
    with TSsh show ?thesis
      by (simp add: toJson_def settings_json_def fromJson_def common Let_def ob
          toObjectJ_def relevant_def default_profile_def)
  next
    case TLocal
    then show ?thesis
      using assms(3)
      by (simp add: toJson_def settings_json_def fromJson_def common Let_def
          toObjectJ_def toStringJ_def relevant_def default_profile_def)
  next
    case TVnc
    obtain ob s1 where ob: "vnc_json L seal (p_vnc p) s = (ob, s1)" by fastforce
    obtain t1 where "vnc_from L unseal ob t = (p_vnc p, t1)" "same_vault s t1"
      using vnc_roundtrip [OF assms(1,3), of "p_vnc p"] by (auto simp: ob)
    with TVnc show ?thesis
      by (simp add: toJson_def settings_json_def fromJson_def common Let_def ob
          toObjectJ_def relevant_def default_profile_def)
  next
    case TRdp
    obtain ob s1 where ob: "rdp_json L seal (p_rdp p) s = (ob, s1)" by fastforce
    obtain t1 where "rdp_from L unseal ob t = (p_rdp p, t1)" "same_vault s t1"
      using rdp_roundtrip [OF assms(1,3) wh] by (auto simp: ob)
    with TRdp show ?thesis
      by (simp add: toJson_def settings_json_def fromJson_def common Let_def ob
          toObjectJ_def relevant_def default_profile_def)
  qed
qed

end

definition unlocked_crypto :: crypto where
  "unlocked_crypto = \<lparr>cachedKey = replicate 32 9, keyring = None, calls = 0, draws = 0\<rparr>"

definition demo_ssh_profile :: profile where
  "demo_ssh_profile =
     (default_profile 7)\<lparr>p_name := ''server'', p_folder := ''Work/Lab'', p_type := TSsh,
        p_ssh := default_ssh_settings\<lparr>sh_host := ''h'', sh_password := ''pw''\<rparr>\<rparr>"

lemma demo_ssh_profile_ok [simp]: "profile_ok demo_ssh_profile"
  by (simp add: demo_ssh_profile_def profile_ok_def default_profile_def default_serial_settings_def
      default_rdp_settings_def is_int32_def)

lemma unlocked_crypto_unlocked [simp]: "linux_unlocked demo_env unlocked_crypto"
  by (simp add: linux_unlocked_def unlocked_crypto_def)

text \<open>
  C15. A profile that is saved is read back as it was, for every connection type: its common fields
  and the settings of its type, the secrets recovered from their blobs; the settings of the other
  types come back at their defaults.
\<close>

theorem profile_saved_and_read:
  assumes "linux_unlocked E s" and "cachedKey t = cachedKey s" and "profile_ok p"
  shows "fst (fromJson (e_lib E) (unprotect E) u (fst (toJson (e_lib E) (protect E) p s)) t) = relevant p"
proof -
  have "qtlib_ok (e_lib E)"
    using assms(1) by (simp add: linux_unlocked_def engine_works_def engine_ok_def)
  moreover have "linux.same_vault E s t"
    using assms(1,2) by (simp add: linux.same_vault_def linux_unlocked_def)
  ultimately obtain t1 where
    "fromJson (e_lib E) (unprotect E) u (fst (toJson (e_lib E) (protect E) p s)) t = (relevant p, t1)"
    using linux.profile_roundtrip assms(3) by blast
  then show ?thesis by simp
qed

theorem profile_saved_and_read_witness:
  "fst (fromJson plain_lib (unprotect demo_env) 3
     (fst (toJson plain_lib (protect demo_env) demo_ssh_profile unlocked_crypto)) unlocked_crypto) =
   demo_ssh_profile"
proof -
  have "relevant demo_ssh_profile = demo_ssh_profile"
    by (simp add: relevant_def demo_ssh_profile_def default_profile_def Let_def)
  moreover have "e_lib demo_env = plain_lib" by (simp add: demo_env_def)
  ultimately show ?thesis
    using profile_saved_and_read [of demo_env unlocked_crypto unlocked_crypto demo_ssh_profile 3]
    by simp
qed

end
