(* ===== verification/ProfileStore.thy ===== *)
theory ProfileStore
  imports Profiles "HOL-Library.List_Lexorder" "HOL-Library.Char_ord"
begin

text \<open>
  The list of saved connections, its folders and its file: \<open>src/src/core/ProfileStore.cpp\<close>.

  The file is the JSON document it holds (\<open>None\<close> if it cannot be opened for reading); the text
  layer of \<open>QJsonDocument\<close> is not modelled, and \<open>st_writable\<close> says whether opening it for writing
  succeeds. \<open>st_changed\<close> counts the \<open>changed()\<close> signals. Identifiers made by \<open>createUuid()\<close>
  are drawn from \<open>fresh\<close>, whose position is threaded with the state of the vault.
\<close>

subsection \<open>Folder paths\<close>

definition startsWith :: "string \<Rightarrow> string \<Rightarrow> bool" where
  "startsWith s p \<longleftrightarrow> take (length p) s = p"

text \<open>\<open>path.split('/')\<close>, and the inverse join.\<close>

fun parts :: "string \<Rightarrow> string list" where
  "parts [] = [[]]"
| "parts (c # cs) =
     (if c = CHR ''/'' then [] # parts cs
      else (case parts cs of [] \<Rightarrow> [[c]] | w # ws \<Rightarrow> (c # w) # ws))"

fun joinp :: "string list \<Rightarrow> string" where
  "joinp [] = []"
| "joinp [w] = w"
| "joinp (w # ws) = w @ ''/'' @ joinp ws"

lemma parts_neq_Nil [simp]: "parts s \<noteq> []"
  by (cases s) (auto split: list.split)

lemma joinp_Cons: "ws \<noteq> [] \<Longrightarrow> joinp (w # ws) = w @ ''/'' @ joinp ws"
  by (cases ws) simp_all

lemma joinp_Cons_head: "joinp ((c # w) # ws) = c # joinp (w # ws)"
  by (cases ws) simp_all

lemma joinp_parts [simp]: "joinp (parts s) = s"
proof (induction s)
  case Nil
  then show ?case by simp
next
  case (Cons c cs)
  then show ?case
    by (cases "parts cs") (auto simp: joinp_Cons joinp_Cons_head)
qed

lemma parts_inject [simp]: "parts s = parts t \<longleftrightarrow> s = t"
  by (metis joinp_parts)

lemma parts_slash [simp]: "parts (x @ CHR ''/'' # y) = parts x @ parts y"
proof (induction x)
  case (Cons c x)
  then show ?case by (cases "parts x") auto
qed simp

lemma joinp_append:
  "us \<noteq> [] \<Longrightarrow> vs \<noteq> [] \<Longrightarrow> joinp (us @ vs) = joinp us @ ''/'' @ joinp vs"
  by (induction us rule: joinp.induct) (auto simp: joinp_Cons)

lemma startsWith_append [simp]: "startsWith (p @ s) p"
  by (simp add: startsWith_def)

lemma startsWithD: "startsWith s p \<Longrightarrow> s = p @ drop (length p) s"
  by (metis append_take_drop_id startsWith_def)

text \<open>A folder at or below \<open>path\<close>; the code tests it in three places.\<close>

definition under :: "string \<Rightarrow> string \<Rightarrow> bool" where
  "under path folder \<longleftrightarrow> folder = path \<or> startsWith folder (path @ ''/'')"

lemma under_parts:
  "under path folder \<longleftrightarrow> take (length (parts path)) (parts folder) = parts path"
proof
  assume "under path folder"
  then show "take (length (parts path)) (parts folder) = parts path"
  proof (cases "folder = path")
    case False
    then obtain r where "folder = path @ CHR ''/'' # r"
      using \<open>under path folder\<close> startsWithD [of folder "path @ ''/''"] by (auto simp: under_def)
    then show ?thesis by simp
  qed simp
next
  assume t: "take (length (parts path)) (parts folder) = parts path"
  obtain r where r: "parts folder = parts path @ r"
    by (metis t append_take_drop_id)
  show "under path folder"
  proof (cases "r = []")
    case True
    then show ?thesis using r by (simp add: under_def)
  next
    case False
    have "folder = joinp (parts path @ r)" using r by (metis joinp_parts)
    also have "\<dots> = path @ ''/'' @ joinp r" using False by (simp add: joinp_append)
    finally have "folder = (path @ ''/'') @ joinp r" by simp
    then show ?thesis unfolding under_def by (metis startsWith_append)
  qed
qed

subsection \<open>State\<close>

record 's profile_store =
  m_profiles :: "profile list"
  m_emptyFolders :: "string list"
  st_file :: "json option"
  st_writable :: bool
  st_changed :: nat
  st_vault :: 's
  st_uuids :: nat

text \<open>The loops of \<open>load()\<close> and \<open>save()\<close> over the profiles.\<close>

fun profiles_from ::
    "qtlib \<Rightarrow> (bytes \<Rightarrow> 's \<Rightarrow> bytes \<times> 's) \<Rightarrow> (nat \<Rightarrow> uuid) \<Rightarrow> json list \<Rightarrow> 's \<times> nat \<Rightarrow>
     profile list \<times> 's \<times> nat" where
  "profiles_from L unseal fresh [] s = ([], s)"
| "profiles_from L unseal fresh (v # vs) (s, n) =
     (if isObjectJ v
      then
        (case fromJson L unseal (fresh n) (toObjectJ v) s of
           (p, s1) \<Rightarrow>
             (case profiles_from L unseal fresh vs (s1, n + 1) of (ps, s2) \<Rightarrow> (p # ps, s2)))
      else profiles_from L unseal fresh vs (s, n))"

fun profiles_to ::
    "qtlib \<Rightarrow> (bytes \<Rightarrow> 's \<Rightarrow> bytes \<times> 's) \<Rightarrow> profile list \<Rightarrow> 's \<Rightarrow> json list \<times> 's" where
  "profiles_to L seal [] s = ([], s)"
| "profiles_to L seal (p # ps) s =
     (case toJson L seal p s of
        (ob, s1) \<Rightarrow> (case profiles_to L seal ps s1 of (vs, s2) \<Rightarrow> (JObj ob # vs, s2)))"

definition ps_load ::
    "qtlib \<Rightarrow> (bytes \<Rightarrow> 's \<Rightarrow> bytes \<times> 's) \<Rightarrow> (nat \<Rightarrow> uuid) \<Rightarrow> 's profile_store \<Rightarrow> 's profile_store" where
  "ps_load L unseal fresh st =
     (case st_file st of
        None \<Rightarrow> st
      | Some doc \<Rightarrow>
          (let st1 = st\<lparr>m_profiles := [], m_emptyFolders := []\<rparr>
           in case doc of
                JArr vs \<Rightarrow>
                  (case profiles_from L unseal fresh vs (st_vault st1, st_uuids st1) of
                     (ps, s, n) \<Rightarrow> st1\<lparr>m_profiles := ps, st_vault := s, st_uuids := n\<rparr>)
              | JObj root \<Rightarrow>
                  (case profiles_from L unseal fresh (toArrayJ (jmember root ''profiles''))
                          (st_vault st1, st_uuids st1) of
                     (ps, s, n) \<Rightarrow>
                       st1\<lparr>m_profiles := ps, st_vault := s, st_uuids := n,
                           m_emptyFolders :=
                             map toStringJ (filter isStringJ
                               (toArrayJ (jmember root ''emptyFolders'')))\<rparr>)
              | _ \<Rightarrow> st1))"

definition ps_save ::
    "qtlib \<Rightarrow> (bytes \<Rightarrow> 's \<Rightarrow> bytes \<times> 's) \<Rightarrow> 's profile_store \<Rightarrow> 's profile_store" where
  "ps_save L seal st =
     (case profiles_to L seal (m_profiles st) (st_vault st) of
        (vs, s) \<Rightarrow>
          (let root = JObj [(''profiles'', JArr vs),
                            (''emptyFolders'', JArr (map JStr (m_emptyFolders st)))];
               st1 = st\<lparr>st_vault := s\<rparr>
           in if st_writable st1 then st1\<lparr>st_file := Some root\<rparr> else st1))"

definition emit_changed :: "'s profile_store \<Rightarrow> 's profile_store" where
  "emit_changed st = st\<lparr>st_changed := st_changed st + 1\<rparr>"

definition save_changed ::
    "qtlib \<Rightarrow> (bytes \<Rightarrow> 's \<Rightarrow> bytes \<times> 's) \<Rightarrow> 's profile_store \<Rightarrow> 's profile_store" where
  "save_changed L seal st = emit_changed (ps_save L seal st)"

subsection \<open>Operations\<close>

definition addProfile ::
    "qtlib \<Rightarrow> (bytes \<Rightarrow> 's \<Rightarrow> bytes \<times> 's) \<Rightarrow> profile \<Rightarrow> 's profile_store \<Rightarrow> 's profile_store" where
  "addProfile L seal p st = save_changed L seal (st\<lparr>m_profiles := m_profiles st @ [p]\<rparr>)"

text \<open>The loop of \<open>updateProfile()\<close>: the first profile with the identifier, \<open>None\<close> if there is none.\<close>

fun replace_first :: "profile \<Rightarrow> profile list \<Rightarrow> profile list option" where
  "replace_first p [] = None"
| "replace_first p (q # qs) =
     (if p_id q = p_id p then Some (p # qs) else map_option ((#) q) (replace_first p qs))"

definition updateProfile ::
    "qtlib \<Rightarrow> (bytes \<Rightarrow> 's \<Rightarrow> bytes \<times> 's) \<Rightarrow> profile \<Rightarrow> 's profile_store \<Rightarrow> 's profile_store" where
  "updateProfile L seal p st =
     (case replace_first p (m_profiles st) of
        None \<Rightarrow> st
      | Some ps \<Rightarrow> save_changed L seal (st\<lparr>m_profiles := ps\<rparr>))"

definition removeProfile ::
    "qtlib \<Rightarrow> (bytes \<Rightarrow> 's \<Rightarrow> bytes \<times> 's) \<Rightarrow> uuid \<Rightarrow> 's profile_store \<Rightarrow> 's profile_store" where
  "removeProfile L seal i st =
     (let st1 = st\<lparr>m_profiles := filter (\<lambda>p. p_id p \<noteq> i) (m_profiles st)\<rparr>
      in if length (m_profiles st1) \<noteq> length (m_profiles st) then save_changed L seal st1 else st1)"

definition moved :: "string \<Rightarrow> string \<Rightarrow> string \<Rightarrow> string" where
  "moved old new f =
     (if f = old then new
      else if startsWith f (old @ ''/'') then new @ drop (length old) f
      else f)"

definition renameFolder ::
    "qtlib \<Rightarrow> (bytes \<Rightarrow> 's \<Rightarrow> bytes \<times> 's) \<Rightarrow> string \<Rightarrow> string \<Rightarrow> 's profile_store \<Rightarrow> 's profile_store" where
  "renameFolder L seal old new st =
     (if old = new then st
      else
        let anyChanged = list_ex (\<lambda>p. under old (p_folder p)) (m_profiles st);
            st1 = st\<lparr>m_profiles := map (\<lambda>p. p\<lparr>p_folder := moved old new (p_folder p)\<rparr>) (m_profiles st)\<rparr>
        in if anyChanged then save_changed L seal st1 else st1)"

definition addEmptyFolder ::
    "qtlib \<Rightarrow> (bytes \<Rightarrow> 's \<Rightarrow> bytes \<times> 's) \<Rightarrow> string \<Rightarrow> 's profile_store \<Rightarrow> 's profile_store" where
  "addEmptyFolder L seal path st =
     (if path = [] \<or> path \<in> set (m_emptyFolders st) then st
      else save_changed L seal (st\<lparr>m_emptyFolders := m_emptyFolders st @ [path]\<rparr>))"

definition removeFolder ::
    "qtlib \<Rightarrow> (bytes \<Rightarrow> 's \<Rightarrow> bytes \<times> 's) \<Rightarrow> string \<Rightarrow> 's profile_store \<Rightarrow> 's profile_store" where
  "removeFolder L seal path st =
     (if path = [] then st
      else
        let st1 = st\<lparr>m_profiles := filter (\<lambda>p. \<not> under path (p_folder p)) (m_profiles st),
                     m_emptyFolders := filter (\<lambda>f. \<not> under path f) (m_emptyFolders st)\<rparr>
        in if length (m_profiles st1) \<noteq> length (m_profiles st) \<or>
              length (m_emptyFolders st1) \<noteq> length (m_emptyFolders st)
           then save_changed L seal st1 else st1)"

text \<open>
  \<open>allFolders()\<close>: \<open>addWithAncestors\<close> walks the non-empty parts of a path; \<open>order\<close> is the
  iteration order of the \<open>QSet\<close>, \<open>caseFold\<close> the key of the case-insensitive sort.
\<close>

fun withAncestors :: "string \<Rightarrow> string list \<Rightarrow> string list" where
  "withAncestors pre [] = []"
| "withAncestors pre (w # ws) =
     (let pre' = (if pre = [] then w else pre @ ''/'' @ w) in pre' # withAncestors pre' ws)"

definition skipEmptyParts :: "string \<Rightarrow> string list" where
  "skipEmptyParts path = filter (\<lambda>w. w \<noteq> []) (parts path)"

definition folderList :: "'s profile_store \<Rightarrow> string list" where
  "folderList st =
     concat (map (\<lambda>f. withAncestors [] (skipEmptyParts f))
       (map p_folder (m_profiles st) @ m_emptyFolders st))"

definition allFolders ::
    "(string list \<Rightarrow> string list) \<Rightarrow> (string \<Rightarrow> string) \<Rightarrow> 's profile_store \<Rightarrow> string list" where
  "allFolders order caseFold st = sort_key caseFold (order (folderList st))"

datatype store_op =
    AddProfile profile | UpdateProfile profile | RemoveProfile uuid
  | RenameFolder string string | AddEmptyFolder string | RemoveFolder string

fun store_step ::
    "qtlib \<Rightarrow> (bytes \<Rightarrow> 's \<Rightarrow> bytes \<times> 's) \<Rightarrow> store_op \<Rightarrow> 's profile_store \<Rightarrow> 's profile_store" where
  "store_step L seal (AddProfile p) st = addProfile L seal p st"
| "store_step L seal (UpdateProfile p) st = updateProfile L seal p st"
| "store_step L seal (RemoveProfile i) st = removeProfile L seal i st"
| "store_step L seal (RenameFolder a b) st = renameFolder L seal a b st"
| "store_step L seal (AddEmptyFolder f) st = addEmptyFolder L seal f st"
| "store_step L seal (RemoveFolder f) st = removeFolder L seal f st"

subsection \<open>Saving and reloading\<close>

text \<open>What a new process would read: an empty store on the same file and vault.\<close>

definition reloaded ::
    "qtlib \<Rightarrow> (bytes \<Rightarrow> 's \<Rightarrow> bytes \<times> 's) \<Rightarrow> (nat \<Rightarrow> uuid) \<Rightarrow> 's profile_store \<Rightarrow> 's profile_store" where
  "reloaded L unseal fresh st =
     ps_load L unseal fresh (st\<lparr>m_profiles := [], m_emptyFolders := []\<rparr>)"

definition synced ::
    "qtlib \<Rightarrow> (bytes \<Rightarrow> 's \<Rightarrow> bytes \<times> 's) \<Rightarrow> (nat \<Rightarrow> uuid) \<Rightarrow> 's profile_store \<Rightarrow> bool" where
  "synced L unseal fresh st \<longleftrightarrow>
     m_profiles (reloaded L unseal fresh st) = map relevant (m_profiles st) \<and>
     m_emptyFolders (reloaded L unseal fresh st) = m_emptyFolders st"

definition store_ok :: "'s profile_store \<Rightarrow> bool" where
  "store_ok st \<longleftrightarrow> list_all profile_ok (m_profiles st)"

fun op_ok :: "store_op \<Rightarrow> bool" where
  "op_ok (AddProfile p) = profile_ok p"
| "op_ok (UpdateProfile p) = profile_ok p"
| "op_ok _ = True"

lemma filter_same_length [simp]: "length (filter P xs) = length xs \<longleftrightarrow> list_all P xs"
  by (metis filter_True filter_id_conv length_filter_less less_irrefl list_all_iff)

lemma list_all_filter_id: "list_all P xs \<Longrightarrow> filter P xs = xs"
  by (simp add: list_all_iff)

lemma map_toStringJ_JStr [simp]: "map toStringJ (filter isStringJ (map JStr xs)) = xs"
  by (induction xs) (simp_all add: toStringJ_def isStringJ_def)

lemma profile_ok_folder [simp]: "profile_ok (p\<lparr>p_folder := f\<rparr>) = profile_ok p"
  by (simp add: profile_ok_def)

lemma replace_first_ok:
  "replace_first p qs = Some ps \<Longrightarrow> profile_ok p \<Longrightarrow> list_all profile_ok qs \<Longrightarrow> list_all profile_ok ps"
  by (induction p qs arbitrary: ps rule: replace_first.induct) (auto split: if_splits)

lemma moved_not_under: "\<not> under old f \<Longrightarrow> moved old new f = f"
  by (simp add: moved_def under_def)

lemma store_step_fields [simp]:
  "st_writable (ps_save L seal st) = st_writable st"
  "m_profiles (ps_save L seal st) = m_profiles st"
  "m_emptyFolders (ps_save L seal st) = m_emptyFolders st"
  "st_vault (ps_save L seal st) = snd (profiles_to L seal (m_profiles st) (st_vault st))"
  by (simp_all add: ps_save_def Let_def split: prod.split)

lemma emit_changed_fields [simp]:
  "st_writable (emit_changed st) = st_writable st"
  "m_profiles (emit_changed st) = m_profiles st"
  "m_emptyFolders (emit_changed st) = m_emptyFolders st"
  "st_vault (emit_changed st) = st_vault st"
  "st_file (emit_changed st) = st_file st"
  by (simp_all add: emit_changed_def)

lemma synced_emit_changed [simp]: "synced L unseal fresh (emit_changed st) = synced L unseal fresh st"
  by (simp add: synced_def reloaded_def ps_load_def emit_changed_def Let_def
      split: option.split json.split prod.split)

text \<open>A step either changes nothing or saves a store that is still well formed.\<close>

lemma store_step_cases:
  assumes "store_ok st" and "op_ok e"
  shows "store_step L seal e st = st \<or>
    (\<exists>ps fs. store_step L seal e st = save_changed L seal (st\<lparr>m_profiles := ps, m_emptyFolders := fs\<rparr>) \<and>
       list_all profile_ok ps)"
proof (cases e)
  case (AddProfile p)
  then have "store_step L seal e st =
      save_changed L seal (st\<lparr>m_profiles := m_profiles st @ [p], m_emptyFolders := m_emptyFolders st\<rparr>)"
    by (simp add: addProfile_def)
  moreover have "list_all profile_ok (m_profiles st @ [p])"
    using assms AddProfile by (simp add: store_ok_def)
  ultimately show ?thesis by blast
next
  case (UpdateProfile p)
  show ?thesis
  proof (cases "replace_first p (m_profiles st)")
    case (Some ps)
    then have "store_step L seal e st =
        save_changed L seal (st\<lparr>m_profiles := ps, m_emptyFolders := m_emptyFolders st\<rparr>)"
      by (simp add: UpdateProfile updateProfile_def)
    moreover have "list_all profile_ok ps"
      using replace_first_ok [OF Some] assms UpdateProfile by (simp add: store_ok_def)
    ultimately show ?thesis by blast
  qed (simp add: UpdateProfile updateProfile_def)
next
  case (RemoveProfile i)
  let ?ps = "filter (\<lambda>p. p_id p \<noteq> i) (m_profiles st)"
  show ?thesis
  proof (cases "list_all (\<lambda>p. p_id p \<noteq> i) (m_profiles st)")
    case True
    then show ?thesis
      by (simp add: RemoveProfile removeProfile_def Let_def list_all_filter_id)
  next
    case False
    then have "store_step L seal e st =
        save_changed L seal (st\<lparr>m_profiles := ?ps, m_emptyFolders := m_emptyFolders st\<rparr>)"
      by (simp add: RemoveProfile removeProfile_def Let_def)
    moreover have "list_all profile_ok ?ps" using assms by (auto simp: store_ok_def list_all_iff)
    ultimately show ?thesis by blast
  qed
next
  case (RenameFolder old new)
  let ?ps = "map (\<lambda>p. p\<lparr>p_folder := moved old new (p_folder p)\<rparr>) (m_profiles st)"
  show ?thesis
  proof (cases "old = new \<or> \<not> list_ex (\<lambda>p. under old (p_folder p)) (m_profiles st)")
    case True
    have "?ps = m_profiles st" if "\<not> list_ex (\<lambda>p. under old (p_folder p)) (m_profiles st)"
      using that by (auto simp: list_ex_iff moved_not_under intro!: map_idI)
    with True show ?thesis by (auto simp: RenameFolder renameFolder_def Let_def)
  next
    case False
    then have "store_step L seal e st =
        save_changed L seal (st\<lparr>m_profiles := ?ps, m_emptyFolders := m_emptyFolders st\<rparr>)"
      by (simp add: RenameFolder renameFolder_def Let_def)
    moreover have "list_all profile_ok ?ps" using assms by (auto simp: store_ok_def list_all_iff)
    ultimately show ?thesis by blast
  qed
next
  case (AddEmptyFolder f)
  show ?thesis
  proof (cases "f = [] \<or> f \<in> set (m_emptyFolders st)")
    case False
    then have "store_step L seal e st =
        save_changed L seal (st\<lparr>m_profiles := m_profiles st, m_emptyFolders := m_emptyFolders st @ [f]\<rparr>)"
      by (simp add: AddEmptyFolder addEmptyFolder_def)
    moreover have "list_all profile_ok (m_profiles st)" using assms by (simp add: store_ok_def)
    ultimately show ?thesis by blast
  qed (simp add: AddEmptyFolder addEmptyFolder_def)
next
  case (RemoveFolder f)
  let ?ps = "filter (\<lambda>p. \<not> under f (p_folder p)) (m_profiles st)"
  let ?fs = "filter (\<lambda>g. \<not> under f g) (m_emptyFolders st)"
  show ?thesis
  proof (cases "f = [] \<or> list_all (\<lambda>p. \<not> under f (p_folder p)) (m_profiles st) \<and>
                          list_all (\<lambda>g. \<not> under f g) (m_emptyFolders st)")
    case True
    then show ?thesis
      by (auto simp: RemoveFolder removeFolder_def Let_def list_all_filter_id)
  next
    case False
    then have "store_step L seal e st = save_changed L seal (st\<lparr>m_profiles := ?ps, m_emptyFolders := ?fs\<rparr>)"
      by (auto simp: RemoveFolder removeFolder_def Let_def)
    moreover have "list_all profile_ok ?ps" using assms by (auto simp: store_ok_def list_all_iff)
    ultimately show ?thesis by blast
  qed
qed

context vault begin

lemma profiles_to_keeps: "unlocked s \<Longrightarrow> same_vault s (snd (profiles_to L seal ps s))"
proof (induction ps arbitrary: s)
  case Nil
  then show ?case by (simp add: same_vault_refl)
next
  case (Cons p ps)
  obtain ob s1 where ob: "toJson L seal p s = (ob, s1)" by fastforce
  obtain vs s2 where vs: "profiles_to L seal ps s1 = (vs, s2)" by fastforce
  have v1: "same_vault s s1" using toJson_keeps [OF Cons.prems, of L p] by (simp add: ob)
  have "same_vault s1 s2" using Cons.IH [OF same_vaultD(2) [OF v1]] by (simp add: vs)
  with v1 have "same_vault s s2" by (rule same_vault_trans)
  then show ?case by (simp add: ob vs)
qed

lemma profiles_roundtrip:
  assumes "qtlib_ok L" and "list_all profile_ok ps" and "same_vault s t"
  shows "fst (profiles_from L unseal fresh (fst (profiles_to L seal ps s)) (t, n)) = map relevant ps"
  using assms(2,3)
proof (induction ps arbitrary: s t n)
  case Nil
  then show ?case by simp
next
  case (Cons p ps)
  obtain ob s1 where ob: "toJson L seal p s = (ob, s1)" by fastforce
  obtain vs s2 where vs: "profiles_to L seal ps s1 = (vs, s2)" by fastforce
  have u: "unlocked s" by (rule same_vaultD(1) [OF Cons.prems(2)])
  have v1: "same_vault s s1" using toJson_keeps [OF u, of L p] by (simp add: ob)
  have "profile_ok p" using Cons.prems(1) by simp
  from profile_roundtrip [OF assms(1) this Cons.prems(2), of "fresh n"]
  obtain t1 where t1: "fromJson L unseal (fresh n) ob t = (relevant p, t1)" "same_vault s t1"
    by (auto simp: ob)
  have "same_vault s1 t1" using v1 t1(2) by (blast intro: same_vault_trans same_vault_sym)
  from Cons.IH [OF _ this, of "n + 1"] Cons.prems(1)
  have "fst (profiles_from L unseal fresh vs (t1, n + 1)) = map relevant ps" by (simp add: vs)
  then show ?case
    by (auto simp: ob vs isObjectJ_def toObjectJ_def t1(1) split: prod.split)
qed

lemma save_synced:
  assumes "qtlib_ok L" and "store_ok st" and "st_writable st" and "unlocked (st_vault st)"
  shows "synced L unseal fresh (ps_save L seal st)"
proof -
  obtain vs s where vs: "profiles_to L seal (m_profiles st) (st_vault st) = (vs, s)" by fastforce
  have v: "same_vault (st_vault st) s" using profiles_to_keeps [OF assms(4)] vs by (metis snd_conv)
  have "fst (profiles_from L unseal fresh vs (s, st_uuids st)) = map relevant (m_profiles st)"
    using profiles_roundtrip [OF assms(1) _ v, of "m_profiles st"] assms(2)
    by (simp add: vs store_ok_def)
  then show ?thesis
    using assms(3)
    by (auto simp: synced_def reloaded_def ps_save_def vs ps_load_def toArrayJ_def Let_def
        split: prod.split)
qed

lemma step_synced:
  assumes "qtlib_ok L" and "store_ok st" and "op_ok e" and "st_writable st"
    and "unlocked (st_vault st)" and "synced L unseal fresh st"
  shows "synced L unseal fresh (store_step L seal e st)" "store_ok (store_step L seal e st)"
    "st_writable (store_step L seal e st)" "same_vault (st_vault st) (st_vault (store_step L seal e st))"
proof -
  note c = store_step_cases [OF assms(2,3), of L seal]
  have k: "same_vault (st_vault st) (snd (profiles_to L seal ps (st_vault st)))" for ps
    by (rule profiles_to_keeps [OF assms(5)])
  have s: "synced L unseal fresh (ps_save L seal (st\<lparr>m_profiles := ps, m_emptyFolders := fs\<rparr>))"
    if "list_all profile_ok ps" for ps fs
    by (rule save_synced) (use assms that in \<open>simp_all add: store_ok_def\<close>)
  show "synced L unseal fresh (store_step L seal e st)"
    using c assms(6) s by (auto simp: save_changed_def)
  show "store_ok (store_step L seal e st)"
    using c assms(2) by (auto simp: save_changed_def store_ok_def)
  show "st_writable (store_step L seal e st)"
    using c assms(4) by (auto simp: save_changed_def)
  show "same_vault (st_vault st) (st_vault (store_step L seal e st))"
    using c k same_vault_refl [OF assms(5)] by (auto simp: save_changed_def)
qed

lemma run_synced:
  assumes "qtlib_ok L" and "store_ok st" and "list_all op_ok es" and "st_writable st"
    and "unlocked (st_vault st)" and "synced L unseal fresh st"
  shows "synced L unseal fresh (fold (store_step L seal) es st)"
  using assms(2-6)
proof (induction es arbitrary: st)
  case Nil
  then show ?case by simp
next
  case (Cons e es)
  have ok: "op_ok e" "list_all op_ok es" using Cons.prems(2) by simp_all
  note st = step_synced [OF assms(1) Cons.prems(1) ok(1) Cons.prems(3-5)]
  show ?case
    using Cons.IH [OF st(2) ok(2) st(3) same_vaultD(2) [OF st(4)] st(1)] by simp
qed

end

subsection \<open>Properties of the store\<close>

text \<open>
  C14. Whatever sequence of operations the user performs, the file always holds the store: a new
  process that reads it gets the same profiles (each with the settings of its type, secrets
  included), in the same order, and the same explicit folders.
\<close>

theorem store_persists:
  assumes "linux_unlocked E (st_vault st)" and "st_writable st" and "store_ok st"
    and "list_all op_ok es" and "synced (e_lib E) (unprotect E) fresh st"
  shows "synced (e_lib E) (unprotect E) fresh (fold (store_step (e_lib E) (protect E)) es st)"
proof -
  have "qtlib_ok (e_lib E)"
    using assms(1) by (simp add: linux_unlocked_def engine_works_def engine_ok_def)
  then show ?thesis using assms(3,4,2,1,5) by (rule linux.run_synced)
qed

definition empty_store :: "'s \<Rightarrow> 's profile_store" where
  "empty_store v =
     \<lparr>m_profiles = [], m_emptyFolders = [], st_file = None, st_writable = True, st_changed = 0,
      st_vault = v, st_uuids = 0\<rparr>"

lemma empty_store_fields [simp]:
  "st_vault (empty_store v) = v" "st_writable (empty_store v)" "store_ok (empty_store v)"
  "m_profiles (empty_store v) = []" "m_emptyFolders (empty_store v) = []"
  "synced L unseal fresh (empty_store v)"
  by (simp_all add: empty_store_def store_ok_def synced_def reloaded_def ps_load_def)

theorem store_persists_witness:
  "synced (e_lib demo_env) (unprotect demo_env) (\<lambda>_. 1)
     (fold (store_step (e_lib demo_env) (protect demo_env))
        [AddProfile demo_ssh_profile, RenameFolder ''Work'' ''Home'', AddEmptyFolder ''Work'']
        (empty_store unlocked_crypto))"
  using store_persists [of demo_env "empty_store unlocked_crypto"
      "[AddProfile demo_ssh_profile, RenameFolder ''Work'' ''Home'', AddEmptyFolder ''Work'']" "\<lambda>_. 1"]
  by simp

text \<open>Renaming a path prefix, on the parts of a path.\<close>

definition renamePath :: "string list \<Rightarrow> string list \<Rightarrow> string list \<Rightarrow> string list" where
  "renamePath old new ws = (if take (length old) ws = old then new @ drop (length old) ws else ws)"

lemma renamePath_same: "renamePath p p ws = ws"
  by (auto simp: renamePath_def) (metis append_take_drop_id)

lemma moved_parts: "parts (moved old new f) = renamePath (parts old) (parts new) (parts f)"
proof (cases "under old f")
  case False
  then show ?thesis
    using under_parts [of old f] by (simp add: renamePath_def moved_not_under)
next
  case True
  show ?thesis
  proof (cases "f = old")
    case True
    then show ?thesis by (simp add: moved_def renamePath_def)
  next
    case False
    then obtain r where "f = old @ CHR ''/'' # r"
      using True startsWithD [of f "old @ ''/''"] by (auto simp: under_def)
    then show ?thesis by (simp add: moved_def renamePath_def startsWith_def)
  qed
qed

lemma renameFolder_profiles:
  "m_profiles (renameFolder L seal old new st) =
     map (\<lambda>p. p\<lparr>p_folder := moved old new (p_folder p)\<rparr>) (m_profiles st)"
proof (cases "old = new")
  case True
  have "moved new new f = f" for f
    using moved_parts [of new new f] by (simp add: renamePath_same)
  then show ?thesis using True by (simp add: renameFolder_def)
qed (simp add: renameFolder_def Let_def save_changed_def)

lemma renameFolder_emptyFolders:
  "m_emptyFolders (renameFolder L seal old new st) = m_emptyFolders st"
  by (simp add: renameFolder_def Let_def save_changed_def)

text \<open>
  \<open>renameFolder()\<close> moves the subtree: the path of every profile, as a list of folder names, has
  its prefix \<open>old\<close> replaced by \<open>new\<close> and is otherwise unchanged, as is the rest of the profile. The
  explicitly created folders keep their old path, though.
\<close>

theorem rename_moves_subtree:
  "map (\<lambda>p. parts (p_folder p)) (m_profiles (renameFolder L seal old new st)) =
     map (\<lambda>p. renamePath (parts old) (parts new) (parts (p_folder p))) (m_profiles st) \<and>
   map (\<lambda>p. p\<lparr>p_folder := []\<rparr>) (m_profiles (renameFolder L seal old new st)) =
     map (\<lambda>p. p\<lparr>p_folder := []\<rparr>) (m_profiles st) \<and>
   m_emptyFolders (renameFolder L seal old new st) = m_emptyFolders st"
  by (simp add: renameFolder_profiles renameFolder_emptyFolders moved_parts comp_def)

text \<open>
  C33. \<open>removeFolder()\<close> deletes exactly the profiles and the explicit folders whose path starts with
  the path of the folder, and keeps the others in their order.
\<close>

theorem remove_folder_exact:
  "path \<noteq> [] \<Longrightarrow>
     m_profiles (removeFolder L seal path st) =
       filter (\<lambda>p. take (length (parts path)) (parts (p_folder p)) \<noteq> parts path) (m_profiles st) \<and>
     m_emptyFolders (removeFolder L seal path st) =
       filter (\<lambda>f. take (length (parts path)) (parts f) \<noteq> parts path) (m_emptyFolders st)"
  by (simp add: removeFolder_def Let_def save_changed_def under_parts [symmetric])

theorem remove_folder_exact_witness:
  "m_emptyFolders (removeFolder plain_lib (\<lambda>b v. (b, v)) ''A''
     ((empty_store unlocked_crypto)\<lparr>m_emptyFolders := [''A/x'', ''AB'', ''A'', ''B/A'']\<rparr>)) = [''AB'', ''B/A'']"
  using remove_folder_exact [of "''A''" plain_lib "\<lambda>b v. (b, v)"
      "(empty_store unlocked_crypto)\<lparr>m_emptyFolders := [''A/x'', ''AB'', ''A'', ''B/A'']\<rparr>"]
  by simp

lemma withAncestors_nth:
  "withAncestors pre ws =
     map (\<lambda>n. joinp ((if pre = [] then [] else [pre]) @ take n ws)) [1 ..< Suc (length ws)]"
  if "\<forall>w \<in> set ws. w \<noteq> []"
  using that
proof (induction pre ws rule: withAncestors.induct)
  case (1 pre)
  then show ?case by simp
next
  case (2 pre w ws)
  let ?pre = "if pre = [] then w else pre @ ''/'' @ w"
  have ne: "?pre \<noteq> []" using 2(2) by auto
  have IH: "withAncestors ?pre ws = map (\<lambda>n. joinp ([?pre] @ take n ws)) [1 ..< Suc (length ws)]"
    using 2 ne by simp
  have join: "joinp (?pre # us) = joinp ((if pre = [] then [] else [pre]) @ w # us)" for us
    by (cases us) auto
  have "[1 ..< Suc (length (w # ws))] = 1 # map Suc [1 ..< Suc (length ws)]"
    by (simp add: map_Suc_upt upt_conv_Cons del: upt_Suc)
  moreover have "withAncestors pre (w # ws) = ?pre # withAncestors ?pre ws" by (simp add: Let_def)
  ultimately show ?case
    using join [of "[]"] by (simp only: IH join list.map map_map comp_def) (simp add: join)
qed

lemma skipEmptyParts_nonempty: "\<forall>w \<in> set (skipEmptyParts f). w \<noteq> []"
  by (simp add: skipEmptyParts_def)

text \<open>
  C34. \<open>allFolders()\<close> lists every folder in use and every ancestor of one, nothing else: the
  non-empty prefixes of the paths of the profiles and of the explicit folders, once each and sorted,
  whatever the order in which the set is walked.
\<close>

theorem all_folders_spec:
  assumes "\<And>xs. set (order xs) = set xs" and "\<And>xs. distinct (order xs)"
  shows "distinct (allFolders order caseFold st) \<and>
    sorted (map caseFold (allFolders order caseFold st)) \<and>
    set (allFolders order caseFold st) =
    {joinp (take n (skipEmptyParts f)) | n f.
       f \<in> p_folder ` set (m_profiles st) \<union> set (m_emptyFolders st) \<and>
       0 < n \<and> n \<le> length (skipEmptyParts f)}"
proof -
  have anc: "set (withAncestors [] (skipEmptyParts f)) =
      {joinp (take n (skipEmptyParts f)) | n. 0 < n \<and> n \<le> length (skipEmptyParts f)}" for f
    using withAncestors_nth [OF skipEmptyParts_nonempty, of "[]" f] by (auto simp: Suc_le_eq)
  show ?thesis by (auto simp: allFolders_def assms folderList_def anc)
qed

theorem all_folders_spec_witness:
  "sorted (map (\<lambda>f. f) (allFolders remdups (\<lambda>f. f) ((empty_store unlocked_crypto)\<lparr>m_emptyFolders := [''A//b'']\<rparr>))) \<and>
   set (allFolders remdups (\<lambda>f. f) ((empty_store unlocked_crypto)\<lparr>m_emptyFolders := [''A//b'']\<rparr>)) =
    {joinp (take n [''A'', ''b'']) | n. 0 < n \<and> n \<le> Suc (Suc 0)}"
  using all_folders_spec [of remdups "\<lambda>f. f" "(empty_store unlocked_crypto)\<lparr>m_emptyFolders := [''A//b'']\<rparr>"]
  by (simp add: skipEmptyParts_def)

subsection \<open>A locked keyring\<close>

definition secretless :: "profile \<Rightarrow> bool" where
  "secretless p \<longleftrightarrow>
     sh_password (p_ssh p) = [] \<and> passphrase (p_ssh p) = [] \<and>
     vs_password (p_vnc p) = [] \<and> rd_password (p_rdp p) = []"

lemmas settings_defaults =
  default_profile_def default_ssh_settings_def default_vnc_settings_def default_rdp_settings_def

lemma unprotect_empty_text [simp]: "unprotectFromBase64 L unseal [] s = ([], s)"
  by (simp add: unprotectFromBase64_def)

lemma protect_empty_text [simp]: "protectToBase64 L seal [] s = ([], s)"
  by (simp add: protectToBase64_def)

text \<open>No vault answers: the Secret Service completes no call and no key is cached.\<close>

definition keyring_dead :: "crypto_env \<Rightarrow> crypto \<Rightarrow> bool" where
  "keyring_dead E s \<longleftrightarrow> (\<forall>k. \<not> e_answers E k) \<and> cachedKey s = []"







lemma secretless_common [simp]: "secretless (common_from L u ob)"
  by (simp add: common_from_def Let_def secretless_def settings_defaults)

lemma type_common [simp]: "p_type (common_from L u (common_json L p @ ob)) = p_type p"
  by (simp add: common_from_def common_json_def Let_def toStringJ_def)

lemma secretless_updates [simp]:
  "secretless p \<Longrightarrow> secretless (p\<lparr>p_serial := a\<rparr>)"
  "secretless p \<Longrightarrow> secretless (p\<lparr>telnetHost := b, telnetPort := c, rawMode := d\<rparr>)"
  "secretless p \<Longrightarrow> secretless (p\<lparr>localShell := h\<rparr>)"
  "secretless p \<Longrightarrow> sh_password e = [] \<Longrightarrow> passphrase e = [] \<Longrightarrow> secretless (p\<lparr>p_ssh := e\<rparr>)"
  "secretless p \<Longrightarrow> vs_password f = [] \<Longrightarrow> secretless (p\<lparr>p_vnc := f\<rparr>)"
  "secretless p \<Longrightarrow> rd_password g = [] \<Longrightarrow> secretless (p\<lparr>p_rdp := g\<rparr>)"
  by (simp_all add: secretless_def)





definition dead_env :: crypto_env where
  "dead_env = demo_env\<lparr>e_answers := (\<lambda>_. False)\<rparr>"


lemma dead_env_simps [simp]: "e_lib dead_env = plain_lib" "keyring_dead dead_env fresh_crypto"
  by (simp_all add: dead_env_def demo_env_def keyring_dead_def fresh_crypto_def)


end
