(* ===== verification/SessionStore.thy ===== *)
theory SessionStore
  imports Profiles
begin

text \<open>
  The tab and pane layout that is saved at exit and restored at start:
  \<open>src/src/core/SessionStore.{h,cpp}\<close>. A \<open>SessionNode\<close> is a datatype with one constructor for each
  \<open>Kind\<close>; the file is the JSON document it holds, as in the profile store. \<open>restorable\<close> says what of
  a tree comes back: a leaf without a connection and a splitter without children are dropped.
\<close>

datatype orientation = Horizontal | Vertical

datatype session_node =
    SLeaf "profile option"
  | SSplitter orientation "int list" "session_node list"

record session_tab =
  tab_title :: string
  tab_root :: session_node

record session_state =
  windowGeometry :: bytes
  windowState :: bytes
  ss_tabs :: "session_tab list"
  currentTabIndex :: int

definition orientationToString :: "orientation \<Rightarrow> string" where
  "orientationToString d = (if d = Horizontal then ''horizontal'' else ''vertical'')"

definition orientationFromString :: "string \<Rightarrow> orientation" where
  "orientationFromString s = (if s = ''vertical'' then Vertical else Horizontal)"

lemma orientation_roundtrip [simp]: "orientationFromString (orientationToString d) = d"
  by (cases d) (simp_all add: orientationFromString_def orientationToString_def)

fun nodeToJson ::
    "qtlib \<Rightarrow> (bytes \<Rightarrow> 's \<Rightarrow> bytes \<times> 's) \<Rightarrow> session_node \<Rightarrow> 's \<Rightarrow> json_object \<times> 's"
  and nodesToJson ::
    "qtlib \<Rightarrow> (bytes \<Rightarrow> 's \<Rightarrow> bytes \<times> 's) \<Rightarrow> session_node list \<Rightarrow> 's \<Rightarrow> json list \<times> 's" where
  "nodeToJson L seal (SLeaf None) s = ([(''kind'', JStr ''leaf'')], s)"
| "nodeToJson L seal (SLeaf (Some p)) s =
     (case toJson L seal p s of
        (ob, s1) \<Rightarrow> ([(''kind'', JStr ''leaf''), (''connection'', JObj ob)], s1))"
| "nodeToJson L seal (SSplitter d sizes children) s =
     (case nodesToJson L seal children s of
        (vs, s1) \<Rightarrow>
          ([(''kind'', JStr ''splitter''), (''orientation'', JStr (orientationToString d)),
            (''sizes'', JArr (map JNum sizes)), (''children'', JArr vs)], s1))"
| "nodesToJson L seal [] s = ([], s)"
| "nodesToJson L seal (c # cs) s =
     (case nodeToJson L seal c s of
        (ob, s1) \<Rightarrow> (case nodesToJson L seal cs s1 of (vs, s2) \<Rightarrow> (JObj ob # vs, s2)))"

lemma size_member: "map_of ob k = Some v \<Longrightarrow> size v < size (JObj ob)"
  by (induction ob) (auto split: if_splits)

lemma size_children:
  "size_list size (toArrayJ (jmember (toObjectJ v) k)) \<le> size v"
proof (cases v)
  case (JObj ob)
  show ?thesis
  proof (cases "map_of ob k")
    case (Some w)
    have "size_list size (toArrayJ w) \<le> size w" by (cases w) (simp_all add: toArrayJ_def)
    with size_member [OF Some] show ?thesis by (simp add: JObj toObjectJ_def jmember_def Some)
  qed (simp add: JObj toObjectJ_def jmember_def toArrayJ_def)
qed (simp_all add: toObjectJ_def jmember_def toArrayJ_def)

function nodeFromJson ::
    "qtlib \<Rightarrow> (bytes \<Rightarrow> 's \<Rightarrow> bytes \<times> 's) \<Rightarrow> (nat \<Rightarrow> uuid) \<Rightarrow> json \<Rightarrow> 's \<times> nat \<Rightarrow>
     session_node option \<times> 's \<times> nat"
  and nodesFromJson ::
    "qtlib \<Rightarrow> (bytes \<Rightarrow> 's \<Rightarrow> bytes \<times> 's) \<Rightarrow> (nat \<Rightarrow> uuid) \<Rightarrow> json list \<Rightarrow> 's \<times> nat \<Rightarrow>
     session_node list \<times> 's \<times> nat" where
  "nodeFromJson L unseal fresh v sn =
     (let ob = toObjectJ v
      in if toStringJ (jmember ob ''kind'') = ''splitter'' then
           (case nodesFromJson L unseal fresh (toArrayJ (jmember ob ''children'')) sn of
              (children, sn1) \<Rightarrow>
                (if children = [] then (None, sn1)
                 else (Some (SSplitter
                         (orientationFromString (toStringJ (jmember ob ''orientation'')))
                         (map (toIntJ 0) (toArrayJ (jmember ob ''sizes''))) children), sn1)))
         else if \<not> jcontains ob ''connection'' then (None, sn)
         else
           (case fromJson L unseal (fresh (snd sn)) (toObjectJ (jmember ob ''connection'')) (fst sn) of
              (p, s1) \<Rightarrow> (Some (SLeaf (Some p)), s1, snd sn + 1)))"
| "nodesFromJson L unseal fresh [] sn = ([], sn)"
| "nodesFromJson L unseal fresh (v # vs) sn =
     (if isObjectJ v then
        (case nodeFromJson L unseal fresh v sn of
           (child, sn1) \<Rightarrow>
             (case nodesFromJson L unseal fresh vs sn1 of
                (children, sn2) \<Rightarrow>
                  (case child of None \<Rightarrow> (children, sn2) | Some c \<Rightarrow> (c # children, sn2))))
      else nodesFromJson L unseal fresh vs sn)"
  by pat_completeness auto

termination
  by (relation "measure (\<lambda>x. case x of
        Inl (_, _, _, v, _) \<Rightarrow> 2 * size v + 1
      | Inr (_, _, _, vs, _) \<Rightarrow> 2 * size_list size vs)")
    (auto simp: size_children le_imp_less_Suc)

declare nodeFromJson.simps [simp del]

subsection \<open>Loading and saving\<close>

fun tabsFromJson ::
    "qtlib \<Rightarrow> (bytes \<Rightarrow> 's \<Rightarrow> bytes \<times> 's) \<Rightarrow> (nat \<Rightarrow> uuid) \<Rightarrow> json list \<Rightarrow> 's \<times> nat \<Rightarrow>
     session_tab list \<times> 's \<times> nat" where
  "tabsFromJson L unseal fresh [] sn = ([], sn)"
| "tabsFromJson L unseal fresh (v # vs) sn =
     (if \<not> isObjectJ v \<or> \<not> jcontains (toObjectJ v) ''root'' then tabsFromJson L unseal fresh vs sn
      else
        (case nodeFromJson L unseal fresh (jmember (toObjectJ v) ''root'') sn of
           (None, sn1) \<Rightarrow> tabsFromJson L unseal fresh vs sn1
         | (Some root, sn1) \<Rightarrow>
             (case tabsFromJson L unseal fresh vs sn1 of
                (tabs, sn2) \<Rightarrow>
                  (\<lparr>tab_title = toStringJ (jmember (toObjectJ v) ''title''), tab_root = root\<rparr> # tabs,
                   sn2))))"

fun tabsToJson ::
    "qtlib \<Rightarrow> (bytes \<Rightarrow> 's \<Rightarrow> bytes \<times> 's) \<Rightarrow> session_tab list \<Rightarrow> 's \<Rightarrow> json list \<times> 's" where
  "tabsToJson L seal [] s = ([], s)"
| "tabsToJson L seal (t # ts) s =
     (case nodeToJson L seal (tab_root t) s of
        (ob, s1) \<Rightarrow>
          (case tabsToJson L seal ts s1 of
             (vs, s2) \<Rightarrow> (JObj [(''title'', JStr (tab_title t)), (''root'', JObj ob)] # vs, s2)))"

definition empty_session :: session_state where
  "empty_session = \<lparr>windowGeometry = [], windowState = [], ss_tabs = [], currentTabIndex = 0\<rparr>"

definition session_load ::
    "qtlib \<Rightarrow> (bytes \<Rightarrow> 's \<Rightarrow> bytes \<times> 's) \<Rightarrow> (nat \<Rightarrow> uuid) \<Rightarrow> json option \<Rightarrow> 's \<times> nat \<Rightarrow>
     session_state \<times> 's \<times> nat" where
  "session_load L unseal fresh doc sn =
     (case doc of
        Some (JObj root) \<Rightarrow>
          (case tabsFromJson L unseal fresh (toArrayJ (jmember root ''tabs'')) sn of
             (tabs, sn1) \<Rightarrow>
               (\<lparr>windowGeometry = fromBase64 L (toStringJ (jmember root ''windowGeometry'')),
                 windowState = fromBase64 L (toStringJ (jmember root ''windowState'')),
                 ss_tabs = tabs,
                 currentTabIndex = toIntJ 0 (jmember root ''currentTabIndex'')\<rparr>, sn1))
      | _ \<Rightarrow> (empty_session, sn))"

definition session_save ::
    "qtlib \<Rightarrow> (bytes \<Rightarrow> 's \<Rightarrow> bytes \<times> 's) \<Rightarrow> bool \<Rightarrow> session_state \<Rightarrow> json option \<Rightarrow> 's \<Rightarrow>
     json option \<times> 's" where
  "session_save L seal writable st doc s =
     (case tabsToJson L seal (ss_tabs st) s of
        (vs, s1) \<Rightarrow>
          (if writable
           then Some (JObj [(''windowGeometry'', JStr (toBase64 L (windowGeometry st))),
                            (''windowState'', JStr (toBase64 L (windowState st))),
                            (''currentTabIndex'', JNum (currentTabIndex st)),
                            (''tabs'', JArr vs)])
           else doc, s1))"

subsection \<open>What comes back\<close>

fun restorable :: "session_node \<Rightarrow> session_node option"
  and restorables :: "session_node list \<Rightarrow> session_node list" where
  "restorable (SLeaf None) = None"
| "restorable (SLeaf (Some p)) = Some (SLeaf (Some (relevant p)))"
| "restorable (SSplitter d sizes children) =
     (if restorables children = [] then None
      else Some (SSplitter d sizes (restorables children)))"
| "restorables [] = []"
| "restorables (c # cs) =
     (case restorable c of None \<Rightarrow> restorables cs | Some n \<Rightarrow> n # restorables cs)"

definition restorable_tabs :: "session_tab list \<Rightarrow> session_tab list" where
  "restorable_tabs ts =
     concat (map (\<lambda>t. case restorable (tab_root t) of
                        None \<Rightarrow> [] | Some n \<Rightarrow> [t\<lparr>tab_root := n\<rparr>]) ts)"

fun node_ok :: "session_node \<Rightarrow> bool" where
  "node_ok (SLeaf None) = True"
| "node_ok (SLeaf (Some p)) = profile_ok p"
| "node_ok (SSplitter d sizes children) = (list_all is_int32 sizes \<and> list_all node_ok children)"

definition session_ok :: "session_state \<Rightarrow> bool" where
  "session_ok st \<longleftrightarrow>
     is_int32 (currentTabIndex st) \<and> list_all (\<lambda>t. node_ok (tab_root t)) (ss_tabs st)"

lemma map_toIntJ_JNum: "list_all is_int32 ns \<Longrightarrow> map (toIntJ 0) (map JNum ns) = ns"
  by (induction ns) simp_all

context vault begin

lemma nodes_roundtrip:
  assumes "qtlib_ok L"
  shows "node_ok c \<Longrightarrow> same_vault s t \<Longrightarrow> \<exists>t1 m.
      nodeFromJson L unseal fresh (JObj (fst (nodeToJson L seal c s))) (t, n) = (restorable c, t1, m) \<and>
      same_vault s t1 \<and> same_vault s (snd (nodeToJson L seal c s))"
    and "list_all node_ok cs \<Longrightarrow> same_vault s t \<Longrightarrow> \<exists>t1 m.
      nodesFromJson L unseal fresh (fst (nodesToJson L seal cs s)) (t, n) = (restorables cs, t1, m) \<and>
      same_vault s t1 \<and> same_vault s (snd (nodesToJson L seal cs s))"
proof (induction c and cs arbitrary: s t n and s t n rule: restorable_restorables.induct)
  case 1
  then show ?case
    by (simp add: nodeFromJson.simps toObjectJ_def toStringJ_def jcontains_def same_vaultD same_vault_refl)
next
  case (2 p)
  have u: "unlocked s" by (rule same_vaultD(1) [OF 2(2)])
  obtain ob s1 where ob: "toJson L seal p s = (ob, s1)" by fastforce
  obtain t1 where "fromJson L unseal (fresh n) ob t = (relevant p, t1)" "same_vault s t1"
    using profile_roundtrip [OF assms _ 2(2), of p "fresh n"] 2(1) by (auto simp: ob)
  then show ?case
    using toJson_keeps [OF u, of L p]
    by (simp add: ob nodeFromJson.simps toObjectJ_def toStringJ_def jcontains_def)
next
  case (3 d sizes children)
  obtain vs s1 where vs: "nodesToJson L seal children s = (vs, s1)" by fastforce
  obtain t1 m where "nodesFromJson L unseal fresh vs (t, n) = (restorables children, t1, m)"
    "same_vault s t1" "same_vault s s1"
    using 3 by (fastforce simp: vs)
  then show ?case
    using 3(3) map_toIntJ_JNum [of sizes]
    by (simp add: vs nodeFromJson.simps toObjectJ_def toStringJ_def toArrayJ_def comp_def)
next
  case 4
  then show ?case by (auto dest: same_vaultD intro: same_vault_refl)
next
  case (5 c cs)
  obtain ob s1 where ob: "nodeToJson L seal c s = (ob, s1)" by fastforce
  obtain vs s2 where vs: "nodesToJson L seal cs s1 = (vs, s2)" by fastforce
  obtain t1 m where c: "nodeFromJson L unseal fresh (JObj ob) (t, n) = (restorable c, t1, m)"
    "same_vault s t1" "same_vault s s1"
    using 5(1) [of s t n] 5(4,5) by (auto simp: ob)
  have v: "same_vault s1 t1" using c(2,3) by (blast intro: same_vault_trans same_vault_sym)
  have ok: "list_all node_ok cs" using 5(4) by simp
  have "\<exists>t2 m2. nodesFromJson L unseal fresh vs (t1, m) = (restorables cs, t2, m2) \<and>
      same_vault s1 t2 \<and> same_vault s1 s2"
    using 5(2) [OF _ ok v, of m] 5(3) [OF _ ok v, of _ m] by (cases "restorable c") (auto simp: vs)
  then obtain t2 m2 where cs: "nodesFromJson L unseal fresh vs (t1, m) = (restorables cs, t2, m2)"
    "same_vault s1 t2" "same_vault s1 s2" by blast
  then show ?case
    using c same_vault_trans [OF c(3)]
    by (auto simp: ob vs isObjectJ_def split: option.split)
qed

lemma tabs_roundtrip:
  assumes "qtlib_ok L"
  shows "list_all (\<lambda>t. node_ok (tab_root t)) ts \<Longrightarrow> same_vault s t \<Longrightarrow> \<exists>t1 m.
    tabsFromJson L unseal fresh (fst (tabsToJson L seal ts s)) (t, n) = (restorable_tabs ts, t1, m) \<and>
    same_vault s t1 \<and> same_vault s (snd (tabsToJson L seal ts s))"
proof (induction ts arbitrary: s t n)
  case Nil
  then show ?case by (auto simp: restorable_tabs_def dest: same_vaultD intro: same_vault_refl)
next
  case (Cons x ts)
  obtain ob s1 where ob: "nodeToJson L seal (tab_root x) s = (ob, s1)" by fastforce
  obtain vs s2 where vs: "tabsToJson L seal ts s1 = (vs, s2)" by fastforce
  have ok: "node_ok (tab_root x)" "list_all (\<lambda>t. node_ok (tab_root t)) ts" using Cons.prems(1) by simp_all
  obtain t1 m where c: "nodeFromJson L unseal fresh (JObj ob) (t, n) = (restorable (tab_root x), t1, m)"
    "same_vault s t1" "same_vault s s1"
    using nodes_roundtrip(1) [OF assms ok(1) Cons.prems(2), of fresh n] by (auto simp: ob)
  have v: "same_vault s1 t1" using c(2,3) by (blast intro: same_vault_trans same_vault_sym)
  obtain t2 m2 where cs: "tabsFromJson L unseal fresh vs (t1, m) = (restorable_tabs ts, t2, m2)"
    "same_vault s1 t2" "same_vault s1 s2"
    using Cons.IH [OF ok(2) v, of m] by (auto simp: vs)
  then show ?case
    using c same_vault_trans [OF c(3)]
    by (cases "restorable (tab_root x)")
      (auto simp: ob vs isObjectJ_def toObjectJ_def toStringJ_def jcontains_def restorable_tabs_def)
qed

lemma session_roundtrip:
  assumes "qtlib_ok L" and "session_ok st" and "same_vault s t"
  shows "fst (session_load L unseal fresh (fst (session_save L seal True st doc s)) (t, n)) =
    st\<lparr>ss_tabs := restorable_tabs (ss_tabs st)\<rparr>"
proof -
  obtain vs s1 where vs: "tabsToJson L seal (ss_tabs st) s = (vs, s1)" by fastforce
  have ok: "list_all (\<lambda>t. node_ok (tab_root t)) (ss_tabs st)" "is_int32 (currentTabIndex st)"
    using assms(2) by (simp_all add: session_ok_def)
  obtain t1 m where "tabsFromJson L unseal fresh vs (t, n) = (restorable_tabs (ss_tabs st), t1, m)"
    using tabs_roundtrip [OF assms(1) ok(1) assms(3), of fresh n] by (auto simp: vs)
  then show ?thesis
    using assms(1) ok(2)
    by (simp add: session_save_def session_load_def vs toArrayJ_def toStringJ_def)
qed

end

text \<open>
  C16. The layout that is saved is the layout that is restored: geometry, current tab and the tree of
  every tab with its connections, orientations and sizes, less the leaves without a connection and
  the splitters and tabs left empty.
\<close>

theorem session_saved_and_read:
  assumes "linux_unlocked E s" and "cachedKey t = cachedKey s" and "session_ok st"
  shows "fst (session_load (e_lib E) (unprotect E) fresh
      (fst (session_save (e_lib E) (protect E) True st doc s)) (t, n)) =
    st\<lparr>ss_tabs := restorable_tabs (ss_tabs st)\<rparr>"
proof -
  have "qtlib_ok (e_lib E)"
    using assms(1) by (simp add: linux_unlocked_def engine_works_def engine_ok_def)
  moreover have "linux.same_vault E s t"
    using assms(1,2) by (simp add: linux.same_vault_def linux_unlocked_def)
  ultimately show ?thesis using assms(3) by (intro linux.session_roundtrip)
qed

definition demo_session :: session_state where
  "demo_session =
     \<lparr>windowGeometry = [1, 2], windowState = [],
      ss_tabs =
        [\<lparr>tab_title = ''t'',
          tab_root = SSplitter Vertical [60, 40] [SLeaf (Some demo_ssh_profile), SLeaf None]\<rparr>,
         \<lparr>tab_title = ''gone'', tab_root = SSplitter Horizontal [] [SLeaf None]\<rparr>],
      currentTabIndex = 1\<rparr>"

theorem session_saved_and_read_witness:
  "fst (session_load plain_lib (unprotect demo_env) (\<lambda>_. 1)
      (fst (session_save plain_lib (protect demo_env) True demo_session None unlocked_crypto))
      (unlocked_crypto, 0)) =
    demo_session\<lparr>ss_tabs :=
      [\<lparr>tab_title = ''t'',
        tab_root = SSplitter Vertical [60, 40] [SLeaf (Some (relevant demo_ssh_profile))]\<rparr>]\<rparr>"
proof -
  have "session_ok demo_session" by (simp add: session_ok_def demo_session_def is_int32_def)
  moreover have "restorable_tabs (ss_tabs demo_session) =
      [\<lparr>tab_title = ''t'',
        tab_root = SSplitter Vertical [60, 40] [SLeaf (Some (relevant demo_ssh_profile))]\<rparr>]"
    by (simp add: restorable_tabs_def demo_session_def)
  moreover have "e_lib demo_env = plain_lib" by (simp add: demo_env_def)
  ultimately show ?thesis
    using session_saved_and_read [of demo_env unlocked_crypto unlocked_crypto demo_session "\<lambda>_. 1" None 0]
    by simp
qed

end
