(* ===== verification/Connections.thy ===== *)
theory Connections
  imports Profiles SessionStore
begin

text \<open>
  From settings to a pane: the quick-connect dialogs, saved profiles and "Change Settings" of
  \<open>src/src/app/MainWindow.cpp\<close>, and the credential prompts of \<open>src/src/ui/SshCredentialDialog.cpp\<close>.

  A dialog is an argument: the settings it returns, or \<open>None\<close> when it is not accepted. A transport
  is what it is built from, so a factory is the transport it would build. The two kinds of generated
  title, \<open>QString("%1:%2").arg(host).arg(port)\<close> and \<open>("%1@%2").arg(user, host)\<close>, are the fields of
  \<open>titles\<close>.
\<close>

datatype transport_kind =
    KLoopback
  | KSerial serial_settings
  | KRaw string "16 word"
  | KTelnet string "16 word"
  | KSsh ssh_settings
  | KLocal string
  | KVnc vnc_settings
  | KRdp rdp_settings

record connection =
  c_transport :: transport_kind
  c_title :: string
  c_recreate :: transport_kind
  c_autoReconnect :: bool
  c_sshSettings :: "ssh_settings option"
  c_snapshot :: "profile option"

record titles =
  hostPort :: "string \<Rightarrow> 16 word \<Rightarrow> string"
  userHost :: "string \<Rightarrow> string \<Rightarrow> string"

definition new_connection :: "transport_kind \<Rightarrow> string \<Rightarrow> bool \<Rightarrow> profile option \<Rightarrow> connection" where
  "new_connection k t auto snap =
     \<lparr>c_transport = k, c_title = t, c_recreate = k, c_autoReconnect = auto,
      c_sshSettings = None, c_snapshot = snap\<rparr>"

definition loopbackResult :: connection where
  "loopbackResult = new_connection KLoopback ''loopback'' True None"

subsection \<open>Credentials asked for at connect time\<close>

text \<open>\<open>askUser\<close> and \<open>askPassword\<close> are the answers of the two input dialogs, \<open>None\<close> a cancelled one.\<close>

definition resolve :: "string option \<Rightarrow> string option \<Rightarrow> ssh_settings \<Rightarrow> ssh_settings option" where
  "resolve askUser askPassword settings =
     do {
       s1 \<leftarrow> (if promptForUsername settings
             then map_option (\<lambda>v. settings\<lparr>sh_username := v\<rparr>) askUser
             else Some settings);
       if authMethod s1 = AuthPassword \<and> promptForPassword s1
       then map_option (\<lambda>v. s1\<lparr>sh_password := v\<rparr>) askPassword
       else Some s1
     }"

lemma resolve_no_prompt:
  "\<not> promptForUsername s \<Longrightarrow> \<not> promptForPassword s \<Longrightarrow> resolve a b s = Some s"
  by (simp add: resolve_def)

subsection \<open>Quick connect\<close>

definition localResult :: "uuid \<Rightarrow> string \<Rightarrow> connection" where
  "localResult u shell =
     (let snapshot = (default_profile u)\<lparr>p_type := TLocal, p_name := ''Local'', localShell := shell\<rparr>
      in new_connection (KLocal shell) (p_name snapshot) False (Some snapshot))"

definition runSerialDialog :: "uuid \<Rightarrow> serial_settings option \<Rightarrow> connection option" where
  "runSerialDialog u answer =
     do {
       settings \<leftarrow> answer;
       if portName settings = [] then None
       else
         (let snapshot = (default_profile u)\<lparr>p_type := TSerial, p_name := portName settings,
                                              p_serial := settings\<rparr>
          in Some (new_connection (KSerial settings) (portName settings) True (Some snapshot)))
     }"

definition telnetFactory :: "string \<Rightarrow> 16 word \<Rightarrow> bool \<Rightarrow> transport_kind" where
  "telnetFactory host port raw = (if raw then KRaw host port else KTelnet host port)"

definition runTelnetDialog ::
    "titles \<Rightarrow> uuid \<Rightarrow> (string \<times> 16 word \<times> bool) option \<Rightarrow> connection option" where
  "runTelnetDialog T u answer =
     (case answer of
        None \<Rightarrow> None
      | Some (host, port, raw) \<Rightarrow>
          if host = [] then None
          else
            (let title = hostPort T host port;
                 snapshot = (default_profile u)\<lparr>p_type := TTelnet, p_name := title, telnetHost := host,
                                                telnetPort := port, rawMode := raw\<rparr>
             in Some (new_connection (telnetFactory host port raw) title True (Some snapshot))))"

definition ssh_incomplete :: "ssh_settings \<Rightarrow> bool" where
  "ssh_incomplete s \<longleftrightarrow> sh_host s = [] \<or> sh_username s = [] \<and> \<not> promptForUsername s"

definition runSshDialog ::
    "titles \<Rightarrow> uuid \<Rightarrow> string option \<Rightarrow> string option \<Rightarrow> ssh_settings option \<Rightarrow> connection option" where
  "runSshDialog T u askUser askPassword answer =
     do {
       entered \<leftarrow> answer;
       if ssh_incomplete entered then None
       else do {
         settings \<leftarrow> resolve askUser askPassword entered;
         let title = userHost T (sh_username settings) (sh_host settings);
             snapshot = (default_profile u)\<lparr>p_type := TSsh, p_name := title, p_ssh := settings\<rparr>
         in Some ((new_connection (KSsh settings) title True (Some snapshot))
                    \<lparr>c_sshSettings := Some settings\<rparr>)
       }
     }"

definition runVncDialog :: "titles \<Rightarrow> uuid \<Rightarrow> vnc_settings option \<Rightarrow> connection option" where
  "runVncDialog T u answer =
     do {
       settings \<leftarrow> answer;
       if vs_host settings = [] then None
       else
         (let title = hostPort T (vs_host settings) (vs_port settings);
              snapshot = (default_profile u)\<lparr>p_type := TVnc, p_name := title, p_vnc := settings\<rparr>
          in Some (new_connection (KVnc settings) title True (Some snapshot)))
     }"

definition runRdpDialog :: "titles \<Rightarrow> uuid \<Rightarrow> rdp_settings option \<Rightarrow> connection option" where
  "runRdpDialog T u answer =
     do {
       settings \<leftarrow> answer;
       if rd_host settings = [] then None
       else
         (let title = hostPort T (rd_host settings) (rd_port settings);
              snapshot = (default_profile u)\<lparr>p_type := TRdp, p_name := title, p_rdp := settings\<rparr>
          in Some (new_connection (KRdp settings) title True (Some snapshot)))
     }"

subsection \<open>Saved connections\<close>

definition resultForProfile ::
    "uuid \<Rightarrow> string option \<Rightarrow> string option \<Rightarrow> profile \<Rightarrow> connection option" where
  "resultForProfile u askUser askPassword p =
     (case p_type p of
        TSerial \<Rightarrow> Some (new_connection (KSerial (p_serial p)) (p_name p) (autoReconnect p) (Some p))
      | TTelnet \<Rightarrow>
          Some (new_connection (telnetFactory (telnetHost p) (telnetPort p) (rawMode p)) (p_name p)
                  (autoReconnect p) (Some p))
      | TSsh \<Rightarrow>
          (case resolve askUser askPassword (p_ssh p) of
             None \<Rightarrow> None
           | Some s \<Rightarrow>
               Some ((new_connection (KSsh s) (p_name p) (autoReconnect p) (Some p))
                       \<lparr>c_sshSettings := Some s\<rparr>))
      | TLocal \<Rightarrow>
          Some ((localResult u (localShell p))\<lparr>c_title := p_name p, c_snapshot := Some p\<rparr>)
      | TVnc \<Rightarrow> Some (new_connection (KVnc (p_vnc p)) (p_name p) (autoReconnect p) (Some p))
      | TRdp \<Rightarrow> Some (new_connection (KRdp (p_rdp p)) (p_name p) (autoReconnect p) (Some p)))"

subsection \<open>Changing the settings of a pane\<close>

datatype settings_answer =
    ASerial serial_settings
  | ATelnet string "16 word" bool
  | ASsh ssh_settings
  | ALocal string
  | AVnc vnc_settings
  | ARdp rdp_settings

text \<open>
  The dialog shown is that of the profile's type, so an answer of another type does not occur;
  \<open>ALocal\<close> holds the trimmed text. \<open>None\<close> is an early return.
\<close>

definition editProfile :: "settings_answer option \<Rightarrow> profile \<Rightarrow> profile option" where
  "editProfile answer p =
     (case (p_type p, answer) of
        (TSerial, Some (ASerial c)) \<Rightarrow> if portName c = [] then None else Some (p\<lparr>p_serial := c\<rparr>)
      | (TTelnet, Some (ATelnet h pt raw)) \<Rightarrow>
          if h = [] then None else Some (p\<lparr>telnetHost := h, telnetPort := pt, rawMode := raw\<rparr>)
      | (TSsh, Some (ASsh c)) \<Rightarrow> if ssh_incomplete c then None else Some (p\<lparr>p_ssh := c\<rparr>)
      | (TLocal, Some (ALocal sh)) \<Rightarrow> Some (p\<lparr>localShell := sh\<rparr>)
      | (TVnc, Some (AVnc c)) \<Rightarrow> if vs_host c = [] then None else Some (p\<lparr>p_vnc := c\<rparr>)
      | (TRdp, Some (ARdp c)) \<Rightarrow> if rd_host c = [] then None else Some (p\<lparr>p_rdp := c\<rparr>)
      | _ \<Rightarrow> None)"

definition autoName :: "titles \<Rightarrow> profile \<Rightarrow> string" where
  "autoName T p =
     (case p_type p of
        TSerial \<Rightarrow> portName (p_serial p)
      | TTelnet \<Rightarrow> hostPort T (telnetHost p) (telnetPort p)
      | TSsh \<Rightarrow> userHost T (sh_username (p_ssh p)) (sh_host (p_ssh p))
      | TLocal \<Rightarrow> []
      | TVnc \<Rightarrow> hostPort T (vs_host (p_vnc p)) (vs_port (p_vnc p))
      | TRdp \<Rightarrow> hostPort T (rd_host (p_rdp p)) (rd_port (p_rdp p)))"

text \<open>
  \<open>tabText\<close> is the title of the pane's tab when the pane is the whole tab, \<open>canRespawn\<close> whether the
  pane may drop its transport. The result is the connection the pane is reconfigured with and the
  new tab title, if it changes.
\<close>

definition changePaneSettings ::
    "titles \<Rightarrow> uuid \<Rightarrow> string option \<Rightarrow> string option \<Rightarrow> settings_answer option \<Rightarrow> bool \<Rightarrow>
     string option \<Rightarrow> profile option \<Rightarrow> (connection \<times> string option) option" where
  "changePaneSettings T u askUser askPassword answer canRespawn tabText snapshot =
     do {
       old \<leftarrow> snapshot;
       edited \<leftarrow> (if canRespawn then editProfile answer old else None);
       let newAutoName = autoName T edited;
           rename = (tabText = Some (p_name old) \<and> newAutoName \<noteq> []);
           profile = (if rename then edited\<lparr>p_name := newAutoName\<rparr> else edited)
       in do {
            result \<leftarrow> resultForProfile u askUser askPassword profile;
            Some (result, if rename then Some newAutoName else None)
          }
     }"

subsection \<open>Properties\<close>

lemma resultForProfile_fields:
  assumes "resultForProfile u a b p = Some c"
  shows "c_snapshot c = Some p" "c_title c = p_name p" "c_recreate c = c_transport c"
  using assms
  by (auto simp: resultForProfile_def new_connection_def localResult_def Let_def
      split: conn_type.splits option.splits)

text \<open>
  Opening a saved connection succeeds unless a credential prompt is cancelled; the pane then
  carries the saved profile as its snapshot, so a user name or password typed at a prompt is not part
  of what is saved, and reconnecting builds the same transport again.
\<close>

theorem profile_connection_spec:
  "case resultForProfile u askUser askPassword p of
     None \<Rightarrow>
       p_type p = TSsh \<and>
       (promptForUsername (p_ssh p) \<and> askUser = None \<or>
        authMethod (p_ssh p) = AuthPassword \<and> promptForPassword (p_ssh p) \<and> askPassword = None)
   | Some c \<Rightarrow>
       c_snapshot c = Some p \<and> c_title c = p_name p \<and> c_recreate c = c_transport c"
proof (cases "resultForProfile u askUser askPassword p")
  case None
  then show ?thesis
    by (cases "p_type p"; cases askUser; cases askPassword)
      (auto simp: resultForProfile_def resolve_def split: if_splits)
qed (simp add: resultForProfile_fields)

text \<open>
  Quick connect does save what was typed: the snapshot of a pane opened from the SSH dialog holds
  the password given at the prompt, and it is part of what comes back from the saved session, although
  the settings say it is never saved.
\<close>

theorem prompted_password_is_saved:
  assumes "\<not> ssh_incomplete entered" and "\<not> promptForUsername entered"
    and "authMethod entered = AuthPassword" and "promptForPassword entered"
  shows "map_option (\<lambda>c. restorable (SLeaf (c_snapshot c))) (runSshDialog T u a (Some typed) (Some entered)) =
    Some (Some (SLeaf (Some ((default_profile u)
      \<lparr>p_type := TSsh, p_name := userHost T (sh_username entered) (sh_host entered),
       p_ssh := entered\<lparr>sh_password := typed\<rparr>\<rparr>))))"
  using assms
  by (simp add: runSshDialog_def resolve_def new_connection_def relevant_def default_profile_def Let_def)

definition plain_titles :: titles where
  "plain_titles =
     \<lparr>hostPort = (\<lambda>h p. h @ '':'' @ replicate (unat p) (CHR ''1'')), userHost = (\<lambda>u h. u @ ''@'' @ h)\<rparr>"

theorem prompted_password_is_saved_witness:
  "map_option (\<lambda>c. restorable (SLeaf (c_snapshot c)))
     (runSshDialog plain_titles 3 None (Some ''secret'')
        (Some (default_ssh_settings\<lparr>sh_host := ''h'', sh_username := ''u'', promptForPassword := True\<rparr>))) =
   Some (Some (SLeaf (Some ((default_profile 3)
      \<lparr>p_type := TSsh, p_name := ''u@h'',
       p_ssh := default_ssh_settings\<lparr>sh_host := ''h'', sh_username := ''u'', promptForPassword := True,
                  sh_password := ''secret''\<rparr>\<rparr>))))"
  using prompted_password_is_saved [of
      "default_ssh_settings\<lparr>sh_host := ''h'', sh_username := ''u'', promptForPassword := True\<rparr>"
      plain_titles 3 None "''secret''"]
  by (simp add: default_ssh_settings_def ssh_incomplete_def plain_titles_def)

text \<open>The profile without its name and its protocol settings.\<close>

definition otherFields :: "profile \<Rightarrow> profile" where
  "otherFields p =
     p\<lparr>p_name := [], p_serial := default_serial_settings, telnetHost := [], telnetPort := 0,
       rawMode := False, p_ssh := default_ssh_settings, p_vnc := default_vnc_settings,
       p_rdp := default_rdp_settings, localShell := []\<rparr>"

lemma editProfile_otherFields:
  "editProfile answer p = Some q \<Longrightarrow> otherFields q = otherFields p"
  by (auto simp: editProfile_def otherFields_def
      split: conn_type.splits option.splits settings_answer.splits if_splits)

lemma editProfile_name: "editProfile answer p = Some q \<Longrightarrow> p_name q = p_name p"
  by (auto simp: editProfile_def
      split: conn_type.splits option.splits settings_answer.splits if_splits)

lemma otherFields_name [simp]: "otherFields (p\<lparr>p_name := n\<rparr>) = otherFields p"
  by (simp add: otherFields_def)

text \<open>
  "Change Settings" changes nothing but the protocol settings of the pane, and its name only when
  the tab still showed the name it was given automatically: the keyboard profile, the logging and the
  viewer carry over, and a title the user chose stays.
\<close>

theorem change_settings_scope:
  assumes "changePaneSettings T u a b answer respawnable tabText (Some old) = Some (c, newTitle)"
  shows "map_option otherFields (c_snapshot c) = Some (otherFields old) \<and>
    map_option p_name (c_snapshot c) = Some (case newTitle of None \<Rightarrow> p_name old | Some n \<Rightarrow> n) \<and>
    respawnable \<and> (newTitle = None \<or> tabText = Some (p_name old))"
proof -
  obtain edited where e: "editProfile answer old = Some edited" and r: "respawnable"
    using assms by (auto simp: changePaneSettings_def bind_eq_Some_conv split: if_splits)
  let ?rename = "tabText = Some (p_name old) \<and> autoName T edited \<noteq> []"
  let ?p = "if ?rename then edited\<lparr>p_name := autoName T edited\<rparr> else edited"
  have res: "resultForProfile u a b ?p = Some c"
    and t: "newTitle = (if ?rename then Some (autoName T edited) else None)"
    using assms e r by (auto simp: changePaneSettings_def bind_eq_Some_conv Let_def split: if_splits)
  have "c_snapshot c = Some ?p" by (rule resultForProfile_fields(1) [OF res])
  then show ?thesis
    using r t editProfile_otherFields [OF e] editProfile_name [OF e] by auto
qed

theorem change_settings_scope_witness:
  "map_option (\<lambda>(c, t). (map_option otherFields (c_snapshot c), t))
     (changePaneSettings plain_titles 3 None None (Some (ATelnet ''new'' 1 False)) True (Some ''old'')
        (Some ((default_profile 3)\<lparr>p_type := TTelnet, p_name := ''old'', logSessionToFile := True\<rparr>))) =
   Some (Some (otherFields ((default_profile 3)\<lparr>p_type := TTelnet, p_name := ''old'', logSessionToFile := True\<rparr>)),
         Some ''new:1'')"
proof -
  let ?old = "(default_profile 3)\<lparr>p_type := TTelnet, p_name := ''old'', logSessionToFile := True\<rparr>"
  obtain c where c: "changePaneSettings plain_titles 3 None None (Some (ATelnet ''new'' 1 False)) True
      (Some ''old'') (Some ?old) = Some (c, Some ''new:1'')"
    by (simp add: changePaneSettings_def editProfile_def autoName_def plain_titles_def
        resultForProfile_def default_profile_def Let_def)
  show ?thesis using change_settings_scope [OF c] by (simp add: c)
qed

end
