(* ===== verification/Panes.thy ===== *)
theory Panes
  imports SessionStore Connections Reconnect "HOL-Library.Multiset"
begin

text \<open>
  The tabs of a window and the tree of panes in each (\<open>src/src/app/MainWindow.cpp\<close>): splitting,
  dragging, closing, detaching, and the way to and from a saved session.

  A tab page is a \<open>pane_tree\<close>: a terminal view, the "connect to:" picker of an unfinished split, the
  welcome page, or a splitter with its children. Widgets are numbered, \<open>w_next\<close> is the next unused
  number. \<open>w_pickers\<close> holds what the lambdas connected to a picker have captured: the splitter and the
  pane that was split. Those are raw pointers in the code, so answering a picker whose splitter or
  pane has been deleted is undefined (\<open>None\<close>). Titles, current tab and active pane are kept; sizes,
  focus and icons are Qt's (\<open>worstState\<close> is the state the icon shows, a focus change is an event).
\<close>

datatype pane_tree =
    View nat
  | Picker nat
  | Welcome
  | Splitter nat orientation "pane_tree list"

record window =
  w_tabs :: "(string \<times> pane_tree) list"
  w_current :: int
  w_active :: "nat option"
  w_pickers :: "(nat \<times> nat \<times> nat) list"
  w_next :: nat

subsection \<open>The pane tree\<close>

fun collectViews :: "pane_tree \<Rightarrow> nat list" where
  "collectViews (View v) = [v]"
| "collectViews (Splitter s d cs) = concat (map collectViews cs)"
| "collectViews _ = []"

fun leaves :: "pane_tree \<Rightarrow> pane_tree list" where
  "leaves (Splitter s d cs) = concat (map leaves cs)"
| "leaves t = [t]"

fun splitters :: "pane_tree \<Rightarrow> nat list" where
  "splitters (Splitter s d cs) = s # concat (map splitters cs)"
| "splitters _ = []"

fun is_leaf :: "pane_tree \<Rightarrow> bool" where
  "is_leaf (Splitter _ _ _) = False"
| "is_leaf _ = True"

text \<open>\<open>parentWidget()\<close> of a leaf, where it is a splitter.\<close>

fun parents :: "pane_tree \<Rightarrow> pane_tree \<Rightarrow> nat list" where
  "parents x (Splitter s d cs) = (if x \<in> set cs then [s] else []) @ concat (map (parents x) cs)"
| "parents x _ = []"

definition parentSplitter :: "pane_tree \<Rightarrow> pane_tree \<Rightarrow> nat option" where
  "parentSplitter x t = (case parents x t of [] \<Rightarrow> None | s # _ \<Rightarrow> Some s)"

text \<open>\<open>setParent(nullptr)\<close> (or \<open>delete\<close>) of a leaf.\<close>

fun takeOut :: "pane_tree \<Rightarrow> pane_tree \<Rightarrow> pane_tree" where
  "takeOut x (Splitter s d cs) = Splitter s d (map (takeOut x) (filter (\<lambda>c. c \<noteq> x) cs))"
| "takeOut x t = t"

text \<open>\<open>collapseSplitterIfSingle()\<close>: a splitter with one child is replaced by it, in its parent or as tab page.\<close>

fun collapse :: "nat \<Rightarrow> pane_tree \<Rightarrow> pane_tree" where
  "collapse s (Splitter s' d cs) =
     (if s' = s then (case cs of [c] \<Rightarrow> c | _ \<Rightarrow> Splitter s' d cs)
      else Splitter s' d (map (collapse s) cs))"
| "collapse s t = t"

text \<open>A leaf replaced in its place: \<open>replaceWidget()\<close>, or wrapping it with \<open>insertWidget()\<close> at its index.\<close>

fun replaceLeaf :: "pane_tree \<Rightarrow> pane_tree \<Rightarrow> pane_tree \<Rightarrow> pane_tree" where
  "replaceLeaf x y (Splitter s d cs) = Splitter s d (map (replaceLeaf x y) cs)"
| "replaceLeaf x y t = (if t = x then y else t)"

fun swapViews :: "nat \<Rightarrow> nat \<Rightarrow> pane_tree \<Rightarrow> pane_tree" where
  "swapViews a b (Splitter s d cs) = Splitter s d (map (swapViews a b) cs)"
| "swapViews a b (View v) = View (if v = a then b else if v = b then a else v)"
| "swapViews a b t = t"

definition beside :: "bool \<Rightarrow> pane_tree \<Rightarrow> pane_tree \<Rightarrow> pane_tree list" where
  "beside after x y = (if after then [x, y] else [y, x])"

text \<open>
  The pane \<open>source\<close> put next to \<open>target\<close>: in the target's own splitter when it has the direction of
  the drop, else in a new splitter \<open>n\<close> around both.
\<close>

fun dropBeside :: "nat \<Rightarrow> orientation \<Rightarrow> bool \<Rightarrow> pane_tree \<Rightarrow> pane_tree \<Rightarrow> pane_tree \<Rightarrow> pane_tree" where
  "dropBeside n d after source target (Splitter s d' cs) =
     (if d' = d \<and> target \<in> set cs
      then Splitter s d' (concat (map (\<lambda>c. if c = target then beside after c source else [c]) cs))
      else Splitter s d' (map (dropBeside n d after source target) cs))"
| "dropBeside n d after source target t =
     (if t = target then Splitter n d (beside after t source) else t)"

definition dropOrientation :: "PaneDropZone \<Rightarrow> orientation" where
  "dropOrientation z = (if z = Left \<or> z = Right then Horizontal else Vertical)"

definition dropAfter :: "PaneDropZone \<Rightarrow> bool" where
  "dropAfter z \<longleftrightarrow> z = Right \<or> z = Bottom"

subsection \<open>The window\<close>

definition findTab :: "pane_tree \<Rightarrow> window \<Rightarrow> nat option" where
  "findTab x w = List.find (\<lambda>i. x \<in> set (leaves (snd (w_tabs w ! i)))) [0 ..< length (w_tabs w)]"

definition empty_window :: window where
  "empty_window = \<lparr>w_tabs = [], w_current = -1, w_active = None, w_pickers = [], w_next = 0\<rparr>"

text \<open>The root of a tab page replaced, its title kept.\<close>

definition updateTab :: "nat \<Rightarrow> (pane_tree \<Rightarrow> pane_tree) \<Rightarrow> window \<Rightarrow> window" where
  "updateTab i f w =
     w\<lparr>w_tabs := (w_tabs w)[i := (fst (w_tabs w ! i), f (snd (w_tabs w ! i)))]\<rparr>"

definition windowViews :: "window \<Rightarrow> nat list" where
  "windowViews w = concat (map (\<lambda>t. collectViews (snd t)) (w_tabs w))"

definition windowSplitters :: "window \<Rightarrow> nat list" where
  "windowSplitters w = concat (map (\<lambda>t. splitters (snd t)) (w_tabs w))"

definition tabAt :: "window \<Rightarrow> int \<Rightarrow> (string \<times> pane_tree) option" where
  "tabAt w i = (if 0 \<le> i \<and> nat i < length (w_tabs w) then Some (w_tabs w ! nat i) else None)"

definition currentActiveView :: "window \<Rightarrow> nat option" where
  "currentActiveView w =
     (case w_active w of
        Some v \<Rightarrow> Some v
      | None \<Rightarrow>
          (case tabAt w (w_current w) of
             None \<Rightarrow> None
           | Some (title, page) \<Rightarrow>
               (case collectViews page of [] \<Rightarrow> None | v # _ \<Rightarrow> Some v)))"

text \<open>
  \<open>addTerminalTab()\<close>, with the new view numbered \<open>w_next\<close>. The focus it gives to the new view
  reaches \<open>m_activeView\<close> as a focus event.
\<close>

definition addTerminalTab :: "string \<Rightarrow> window \<Rightarrow> window" where
  "addTerminalTab title w =
     w\<lparr>w_tabs := w_tabs w @ [(title, View (w_next w))], w_current := int (length (w_tabs w)),
       w_next := w_next w + 1\<rparr>"

text \<open>The part of \<open>onFocusChanged()\<close> that keeps state: a pane of this window becomes the active one.\<close>

definition onFocusChanged :: "nat option \<Rightarrow> window \<Rightarrow> window" where
  "onFocusChanged focused w =
     (case focused of
        None \<Rightarrow> w
      | Some v \<Rightarrow> if findTab (View v) w = None then w else w\<lparr>w_active := Some v\<rparr>)"

subsection \<open>Splitting\<close>

definition splitActivePane :: "orientation \<Rightarrow> window \<Rightarrow> window" where
  "splitActivePane d w =
     (case currentActiveView w of
        None \<Rightarrow> w
      | Some existing \<Rightarrow>
          (case findTab (View existing) w of
             None \<Rightarrow> w
           | Some i \<Rightarrow>
               let splitter = w_next w; picker = w_next w + 1;
                   wrapped = Splitter splitter d [View existing, Picker picker];
                   page = snd (w_tabs w ! i);
                   w1 = updateTab i (replaceLeaf (View existing) wrapped) w
               in w1\<lparr>w_active := Some existing,
                     w_pickers := (picker, splitter, existing) # w_pickers w1,
                     w_next := w_next w1 + 2,
                     w_current := (if page = View existing then int i else w_current w1)\<rparr>))"

text \<open>\<open>collapseSplitterIfSingle()\<close> on the tab that holds the splitter; a collapsed root makes its tab current.\<close>

definition collapseAt :: "nat \<Rightarrow> nat \<Rightarrow> window \<Rightarrow> window" where
  "collapseAt i s w =
     (let page = snd (w_tabs w ! i); w1 = updateTab i (collapse s) w
      in case page of
           Splitter s' d [c] \<Rightarrow> if s' = s then w1\<lparr>w_current := int i\<rparr> else w1
         | _ \<Rightarrow> w1)"

definition forget :: "nat \<Rightarrow> window \<Rightarrow> window" where
  "forget p w = w\<lparr>w_pickers := filter (\<lambda>e. fst e \<noteq> p) (w_pickers w)\<rparr>"

text \<open>
  What an answer to the picker \<open>p\<close> dereferences: its splitter always, the pane that was split when it
  is cancelled or duplicated.
\<close>

definition captured :: "nat \<Rightarrow> bool \<Rightarrow> window \<Rightarrow> (nat \<times> nat) option" where
  "captured p usesPane w =
     do {
       (splitter, existing) \<leftarrow> map_of (w_pickers w) p;
       if splitter \<in> set (windowSplitters w) \<and> (usesPane \<longrightarrow> existing \<in> set (windowViews w))
       then Some (splitter, existing) else None
     }"

definition pickerCancelled :: "nat \<Rightarrow> window \<Rightarrow> window option" where
  "pickerCancelled p w =
     (case findTab (Picker p) w of
        None \<Rightarrow> Some w
      | Some i \<Rightarrow>
          do {
            (splitter, existing) \<leftarrow> captured p True w;
            Some (forget p (collapseAt i splitter (updateTab i (takeOut (Picker p)) w)))
          })"

text \<open>
  A choice that yields a connection (\<open>duplicate\<close>: that of the existing pane);
  \<open>finishSplitWithResult()\<close> puts the new view \<open>w_next\<close> in the picker's place.
\<close>

definition pickerChosen :: "nat \<Rightarrow> bool \<Rightarrow> window \<Rightarrow> window option" where
  "pickerChosen p duplicate w =
     (case findTab (Picker p) w of
        None \<Rightarrow> Some w
      | Some i \<Rightarrow>
          do {
            (splitter, existing) \<leftarrow> captured p duplicate w;
            let w1 = (if parentSplitter (Picker p) (snd (w_tabs w ! i)) = Some splitter
                      then updateTab i (replaceLeaf (Picker p) (View (w_next w))) w
                      else updateTab i (takeOut (Picker p)) w)
            in Some (forget p (w1\<lparr>w_next := w_next w1 + 1\<rparr>))
          })"

subsection \<open>Dragging\<close>

definition movePane :: "nat \<Rightarrow> nat \<Rightarrow> PaneDropZone \<Rightarrow> window \<Rightarrow> window" where
  "movePane source target zone w =
     (case (findTab (View source) w, findTab (View target) w) of
        (Some i, Some j) \<Rightarrow>
          (let page = snd (w_tabs w ! i) in
           if source = target \<or> i \<noteq> j \<or> parentSplitter (View source) page = None \<or>
              parentSplitter (View target) page = None
           then w
           else if zone = Swap
           then (updateTab i (swapViews source target) w)\<lparr>w_active := Some source\<rparr>
           else
             let s = the (parentSplitter (View source) page);
                 w1 = collapseAt i s (updateTab i (takeOut (View source)) w);
                 alone = (snd (w_tabs w1 ! i) = View target);
                 w2 = updateTab i (dropBeside (w_next w) (dropOrientation zone) (dropAfter zone)
                                     (View source) (View target)) w1
             in w2\<lparr>w_active := Some source, w_next := w_next w2 + 1,
                   w_current := (if alone then int i else w_current w2)\<rparr>)
      | _ \<Rightarrow> w)"

subsection \<open>Closing\<close>

text \<open>The current tab after \<open>removeTab(i)\<close>: \<open>QTabBar\<close> selects the tab to the right by default.\<close>

definition currentAfterRemove :: "nat \<Rightarrow> int \<Rightarrow> nat \<Rightarrow> int" where
  "currentAfterRemove n cur i =
     (if int i < cur then cur - 1 else if cur = int i then min cur (int n - 2) else cur)"

definition dropTab :: "nat \<Rightarrow> window \<Rightarrow> window" where
  "dropTab i w =
     w\<lparr>w_tabs := take i (w_tabs w) @ drop (Suc i) (w_tabs w),
       w_current := currentAfterRemove (length (w_tabs w)) (w_current w) i\<rparr>"

definition leavesTab :: "nat \<Rightarrow> window \<Rightarrow> window" where
  "leavesTab i w =
     (case w_active w of
        Some v \<Rightarrow>
          if v \<in> set (collectViews (snd (w_tabs w ! i))) then w\<lparr>w_active := None\<rparr> else w
      | None \<Rightarrow> w)"

text \<open>Deleting the page deletes its pickers and with them the connections of their signals.\<close>

definition forgetAll :: "pane_tree \<Rightarrow> window \<Rightarrow> window" where
  "forgetAll page w = w\<lparr>w_pickers := filter (\<lambda>e. Picker (fst e) \<notin> set (leaves page)) (w_pickers w)\<rparr>"

definition closeTab :: "nat \<Rightarrow> window \<Rightarrow> window" where
  "closeTab i w =
     (if i < length (w_tabs w)
      then forgetAll (snd (w_tabs w ! i)) (dropTab i (leavesTab i w))
      else w)"

definition closePane :: "nat \<Rightarrow> window \<Rightarrow> window" where
  "closePane v w =
     (case findTab (View v) w of
        None \<Rightarrow> w
      | Some i \<Rightarrow>
          (let page = snd (w_tabs w ! i) in
           if length (collectViews page) = 1 then closeTab i w
           else
             (case parentSplitter (View v) page of
                None \<Rightarrow> closeTab i w
              | Some s \<Rightarrow>
                  collapseAt i s (updateTab i (takeOut (View v)) (w\<lparr>w_active := None\<rparr>)))))"

text \<open>\<open>focusedPicker\<close> is the picker with the focus in the current tab, if any.\<close>

definition closeActivePane :: "nat option \<Rightarrow> window \<Rightarrow> window option" where
  "closeActivePane focusedPicker w =
     (case focusedPicker of
        Some p \<Rightarrow> pickerCancelled p w
      | None \<Rightarrow>
          (case currentActiveView w of None \<Rightarrow> Some w | Some v \<Rightarrow> Some (closePane v w)))"

text \<open>The pane \<open>confirmCloseActivePane()\<close> asks about, and what it does once the answer is yes.\<close>

definition confirmCloseActivePane :: "nat option \<Rightarrow> bool \<Rightarrow> window \<Rightarrow> window option" where
  "confirmCloseActivePane focusedPicker yes w =
     (case tabAt w (w_current w) of
        None \<Rightarrow> Some w
      | Some (title, page) \<Rightarrow>
          (case focusedPicker of
             Some p \<Rightarrow> pickerCancelled p w
           | None \<Rightarrow>
               (case collectViews page of
                  [] \<Rightarrow> Some (closeTab (nat (w_current w)) w)
                | v # vs \<Rightarrow>
                    (let target = (case w_active w of
                                     Some a \<Rightarrow> if a \<in> set (v # vs) then a else v
                                   | None \<Rightarrow> v)
                     in if \<not> yes then Some w
                        else
                          Some (closePane target
                            (if w_active w = Some target then w\<lparr>w_active := None\<rparr> else w))))))"

definition renameTab :: "nat \<Rightarrow> string option \<Rightarrow> window \<Rightarrow> window" where
  "renameTab i answer w =
     (case answer of
        Some name \<Rightarrow>
          if i < length (w_tabs w) \<and> name \<noteq> []
          then w\<lparr>w_tabs := (w_tabs w)[i := (name, snd (w_tabs w ! i))]\<rparr> else w
      | None \<Rightarrow> w)"

subsection \<open>Moving a tab to another window\<close>

definition acceptTab :: "string \<times> pane_tree \<Rightarrow> window \<Rightarrow> window" where
  "acceptTab tab w =
     w\<lparr>w_tabs := w_tabs w @ [tab], w_current := int (length (w_tabs w))\<rparr>"

definition transferTab :: "nat \<Rightarrow> window \<times> window \<Rightarrow> window \<times> window" where
  "transferTab i ws =
     (case ws of
        (w, dest) \<Rightarrow>
          if i < length (w_tabs w)
          then (dropTab i (leavesTab i w), acceptTab (w_tabs w ! i) dest)
          else (w, dest))"

subsection \<open>The icon of a tab\<close>

fun worst_from :: "transport_state \<Rightarrow> transport_state list \<Rightarrow> transport_state" where
  "worst_from worst [] = worst"
| "worst_from worst (s # ss) =
     (if s = Error then s
      else if s = Connecting \<and> worst \<noteq> Error then worst_from s ss
      else if s = Disconnected \<and> worst = Connected then worst_from s ss
      else worst_from worst ss)"

definition worstState :: "(nat \<Rightarrow> transport_state) \<Rightarrow> pane_tree \<Rightarrow> transport_state option" where
  "worstState st page =
     (case collectViews page of
        [] \<Rightarrow> None
      | vs \<Rightarrow> Some (worst_from Connected (map st vs)))"

subsection \<open>To a saved session and back\<close>

text \<open>
  \<open>snap\<close> is the \<open>sessionSnapshot()\<close> of a view, \<open>sizes\<close> the \<open>sizes()\<close> of a splitter. A tab with
  anything in it that is not to be kept is dropped as a whole.
\<close>

fun captureNode :: "(nat \<Rightarrow> profile option) \<Rightarrow> (nat \<Rightarrow> int list) \<Rightarrow> pane_tree \<Rightarrow> session_node option" where
  "captureNode snap sizes (View v) = map_option (\<lambda>p. SLeaf (Some p)) (snap v)"
| "captureNode snap sizes (Splitter s d cs) =
     map_option (SSplitter d (sizes s)) (those (map (captureNode snap sizes) cs))"
| "captureNode snap sizes t = None"

definition captureTabs ::
    "(nat \<Rightarrow> profile option) \<Rightarrow> (nat \<Rightarrow> int list) \<Rightarrow> window \<Rightarrow> session_tab list" where
  "captureTabs snap sizes w =
     List.map_filter (\<lambda>t. map_option (\<lambda>n. \<lparr>tab_title = fst t, tab_root = n\<rparr>)
       (captureNode snap sizes (snd t))) (w_tabs w)"

text \<open>The windows are those of \<open>s_windows\<close>, each with "it is this one" and \<open>m_secondary\<close>.\<close>

definition captureSession ::
    "(nat \<Rightarrow> profile option) \<Rightarrow> (nat \<Rightarrow> int list) \<Rightarrow> bytes \<Rightarrow> bytes \<Rightarrow> int \<Rightarrow>
     (bool \<times> bool \<times> window) list \<Rightarrow> session_state" where
  "captureSession snap sizes geometry docks current windows =
     \<lparr>windowGeometry = geometry, windowState = docks,
      ss_tabs = concat (map (\<lambda>(this, secondary, w).
                    if \<not> this \<and> \<not> secondary then [] else captureTabs snap sizes w) windows),
      currentTabIndex = current\<rparr>"

text \<open>
  The widgets built from a session: \<open>b_conn\<close> holds the connection of each new view, \<open>b_sizes\<close> the
  sizes set on each splitter, \<open>b_asked\<close> counts the connections opened, so that \<open>ask n\<close> are the
  answers to the credential prompts of the n-th.
\<close>

record build_state =
  b_next :: nat
  b_asked :: nat
  b_conn :: "(nat \<times> connection) list"
  b_sizes :: "(nat \<times> int list) list"

fun buildNode ::
    "uuid \<Rightarrow> (nat \<Rightarrow> string option \<times> string option) \<Rightarrow> session_node \<Rightarrow> build_state \<Rightarrow>
     pane_tree option \<times> build_state"
  and buildNodes ::
    "uuid \<Rightarrow> (nat \<Rightarrow> string option \<times> string option) \<Rightarrow> session_node list \<Rightarrow> build_state \<Rightarrow>
     pane_tree list \<times> build_state" where
  "buildNode u ask (SLeaf None) st = (None, st)"
| "buildNode u ask (SLeaf (Some p)) st =
     (let st1 = st\<lparr>b_asked := b_asked st + 1\<rparr>
      in case resultForProfile u (fst (ask (b_asked st))) (snd (ask (b_asked st))) p of
           None \<Rightarrow> (None, st1)
         | Some c \<Rightarrow>
             (Some (View (b_next st)),
              st1\<lparr>b_next := b_next st + 1, b_conn := (b_next st, c) # b_conn st\<rparr>))"
| "buildNode u ask (SSplitter d sizes children) st =
     (case buildNodes u ask children (st\<lparr>b_next := b_next st + 1\<rparr>) of
        (ts, st1) \<Rightarrow>
          if ts = [] then (None, st1)
          else (Some (Splitter (b_next st) d ts),
                if sizes \<noteq> [] then st1\<lparr>b_sizes := (b_next st, sizes) # b_sizes st1\<rparr> else st1))"
| "buildNodes u ask [] st = ([], st)"
| "buildNodes u ask (n # ns) st =
     (case buildNode u ask n st of
        (r, st1) \<Rightarrow>
          (case buildNodes u ask ns st1 of
             (ts, st2) \<Rightarrow> (case r of None \<Rightarrow> ts | Some t \<Rightarrow> t # ts, st2)))"

fun buildTabs ::
    "uuid \<Rightarrow> (nat \<Rightarrow> string option \<times> string option) \<Rightarrow> session_tab list \<Rightarrow> build_state \<Rightarrow>
     (string \<times> pane_tree) list \<times> build_state" where
  "buildTabs u ask [] st = ([], st)"
| "buildTabs u ask (t # ts) st =
     (case buildNode u ask (tab_root t) st of
        (r, st1) \<Rightarrow>
          (case buildTabs u ask ts st1 of
             (tabs, st2) \<Rightarrow> (case r of None \<Rightarrow> tabs | Some page \<Rightarrow> (tab_title t, page) # tabs, st2)))"

text \<open>The first tab added to an empty \<open>QTabWidget\<close> becomes its current one.\<close>

definition restoreSession ::
    "uuid \<Rightarrow> (nat \<Rightarrow> string option \<times> string option) \<Rightarrow> session_state \<Rightarrow> window \<Rightarrow> window \<times> build_state" where
  "restoreSession u ask state w =
     (case buildTabs u ask (ss_tabs state) \<lparr>b_next = w_next w, b_asked = 0, b_conn = [], b_sizes = []\<rparr> of
        (tabs, st) \<Rightarrow>
          (let all = w_tabs w @ tabs;
               first = (if w_tabs w = [] \<and> tabs \<noteq> [] then 0 else w_current w);
               current = (if 0 \<le> currentTabIndex state \<and> currentTabIndex state < int (length all)
                          then currentTabIndex state else first)
           in (w\<lparr>w_tabs := all, w_current := current, w_next := b_next st\<rparr>, st)))"

end
