(* ===== verification/PaneTrees.thy ===== *)
theory PaneTrees
  imports Panes
begin

text \<open>
  What the operations on a pane tree (\<open>Panes\<close>) do to its leaves, its splitters and its shape: every
  splitter keeps at least two children.
\<close>

lemma leaves_leaf [simp]: "is_leaf x \<Longrightarrow> leaves x = [x]"
  by (cases x) simp_all

lemma splitters_leaf [simp]: "is_leaf x \<Longrightarrow> splitters x = []"
  by (cases x) simp_all

lemma leaf_leaves: "l \<in> set (leaves t) \<Longrightarrow> is_leaf l"
  by (induction t rule: leaves.induct) auto

definition viewsOf :: "pane_tree \<Rightarrow> nat list" where
  "viewsOf l = (case l of View v \<Rightarrow> [v] | _ \<Rightarrow> [])"

lemma concat_map_concat: "concat (map f (concat xss)) = concat (map (\<lambda>xs. concat (map f xs)) xss)"
  by (induction xss) simp_all

lemma collectViews_leaves: "collectViews t = concat (map viewsOf (leaves t))"
proof (induction t rule: collectViews.induct)
  case (2 s d cs)
  then show ?case by (simp add: concat_map_concat comp_def cong: map_cong)
qed (simp_all add: viewsOf_def)

lemma in_collectViews [simp]: "v \<in> set (collectViews t) \<longleftrightarrow> View v \<in> set (leaves t)"
  by (auto simp: collectViews_leaves viewsOf_def split: pane_tree.splits)

lemma leaves_takeOut:
  "is_leaf x \<Longrightarrow> t \<noteq> x \<Longrightarrow> leaves (takeOut x t) = filter (\<lambda>y. y \<noteq> x) (leaves t)"
proof (induction x t rule: takeOut.induct)
  case (1 x s d cs)
  have "leaves (takeOut x c) = filter (\<lambda>y. y \<noteq> x) (leaves c)" if "c \<in> set cs" "c \<noteq> x" for c
    using 1 that by simp
  then have "concat (map leaves (map (takeOut x) (filter (\<lambda>c. c \<noteq> x) cs))) =
      filter (\<lambda>y. y \<noteq> x) (concat (map leaves cs))"
    using \<open>is_leaf x\<close> by (induction cs) auto
  then show ?case by simp
qed auto

lemma leaves_collapse [simp]: "leaves (collapse s t) = leaves t"
proof (induction s t rule: collapse.induct)
  case (1 s s' d cs)
  then show ?case by (auto simp: comp_def split: list.split cong: map_cong)
qed simp_all

lemma leaves_replaceLeaf:
  "is_leaf x \<Longrightarrow>
     leaves (replaceLeaf x y t) = concat (map (\<lambda>l. if l = x then leaves y else [l]) (leaves t))"
proof (induction x y t rule: replaceLeaf.induct)
  case (1 x y s d cs)
  then show ?case by (simp add: concat_map_concat comp_def cong: map_cong)
qed auto

definition swapLeaf :: "nat \<Rightarrow> nat \<Rightarrow> pane_tree \<Rightarrow> pane_tree" where
  "swapLeaf a b l =
     (case l of View v \<Rightarrow> View (if v = a then b else if v = b then a else v) | _ \<Rightarrow> l)"

lemma leaves_swapViews: "leaves (swapViews a b t) = map (swapLeaf a b) (leaves t)"
proof (induction a b t rule: swapViews.induct)
  case (1 a b s d cs)
  then show ?case by (simp add: map_concat comp_def cong: map_cong)
qed (simp_all add: swapLeaf_def)

lemma distinct_concat_map_elem:
  "distinct (concat (map f xs)) \<Longrightarrow> x \<in> set xs \<Longrightarrow> distinct (f x)"
  by (induction xs) auto

lemma distinct_children:
  "distinct (concat (map leaves cs)) \<Longrightarrow> is_leaf x \<Longrightarrow> x \<in> set cs \<Longrightarrow> c \<in> set cs \<Longrightarrow> c \<noteq> x \<Longrightarrow>
     x \<notin> set (leaves c)"
proof (induction cs)
  case (Cons e cs)
  then show ?case by (cases "e = x") force+
qed simp

lemma concat_map_absent:
  "x \<notin> set xs \<Longrightarrow> concat (map (\<lambda>l. if l = x then f l else [l]) xs) = xs"
  by (induction xs) auto

lemma leaves_dropBeside:
  "is_leaf source \<Longrightarrow> is_leaf target \<Longrightarrow> distinct (leaves t) \<Longrightarrow>
     leaves (dropBeside n d after source target t) =
       concat (map (\<lambda>l. if l = target then beside after l source else [l]) (leaves t))"
proof (induction n d after source target t rule: dropBeside.induct)
  case (1 n d after source target s d' cs)
  let ?put = "\<lambda>l. if l = target then beside after l source else [l]"
  have elem: "distinct (leaves c)" if "c \<in> set cs" for c
    using 1(4) that by (auto intro: distinct_concat_map_elem)
  show ?case
  proof (cases "d' = d \<and> target \<in> set cs")
    case True
    have "concat (map leaves (?put c)) = concat (map ?put (leaves c))" if "c \<in> set cs" for c
    proof (cases "c = target")
      case True
      then show ?thesis using 1(2,3) by (simp add: beside_def)
    next
      case False
      have "target \<notin> set (leaves c)"
        using distinct_children [of cs target c] 1(3,4) True that False by simp
      then show ?thesis using False by (simp add: concat_map_absent)
    qed
    then have "concat (map leaves (concat (map ?put cs))) = concat (map ?put (concat (map leaves cs)))"
      by (simp add: concat_map_concat comp_def cong: map_cong)
    with True show ?thesis by simp
  next
    case False
    have "leaves (dropBeside n d after source target c) = concat (map ?put (leaves c))"
      if "c \<in> set cs" for c
      using 1(1) [OF False that 1(2,3) elem [OF that]] .
    with False show ?thesis by (auto simp: concat_map_concat comp_def cong: map_cong)
  qed
qed (auto simp: beside_def)

lemma splitters_takeOut [simp]: "is_leaf x \<Longrightarrow> splitters (takeOut x t) = splitters t"
proof (induction x t rule: takeOut.induct)
  case (1 x s d cs)
  have "splitters (takeOut x c) = splitters c" if "c \<in> set cs" "c \<noteq> x" for c
    using 1 that by simp
  then have "concat (map splitters (map (takeOut x) (filter (\<lambda>c. c \<noteq> x) cs))) =
      concat (map splitters cs)"
    using \<open>is_leaf x\<close> by (induction cs) auto
  then show ?case by simp
qed auto

lemma mset_concat_mono:
  "(\<And>c. c \<in> set cs \<Longrightarrow> mset (f c) \<subseteq># mset (g c)) \<Longrightarrow>
     mset (concat (map f cs)) \<subseteq># mset (concat (map g cs))"
  by (induction cs) (auto intro: subset_mset.add_mono)

lemma splitters_collapse: "mset (splitters (collapse s t)) \<subseteq># mset (splitters t)"
proof (induction s t rule: collapse.induct)
  case (1 s s' d cs)
  show ?case
  proof (cases "s' = s")
    case True
    then show ?thesis by (auto split: list.split)
  next
    case False
    have "mset (concat (map (\<lambda>c. splitters (collapse s c)) cs)) \<subseteq># mset (concat (map splitters cs))"
      by (rule mset_concat_mono) (rule 1 [OF False])
    then show ?thesis using False by (simp add: comp_def)
  qed
qed simp_all

lemma splitters_swapViews [simp]: "splitters (swapViews a b t) = splitters t"
proof (induction a b t rule: swapViews.induct)
  case (1 a b s d cs)
  then show ?case by (simp add: comp_def cong: map_cong)
qed simp_all

lemma splitters_replaceLeaf:
  "is_leaf x \<Longrightarrow>
     mset (splitters (replaceLeaf x y t)) =
       mset (splitters t) + repeat_mset (count (mset (leaves t)) x) (mset (splitters y))"
proof (induction x y t rule: replaceLeaf.induct)
  case (1 x y s d cs)
  then have "mset (splitters (replaceLeaf x y c)) =
      mset (splitters c) + repeat_mset (count (mset (leaves c)) x) (mset (splitters y))"
    if "c \<in> set cs" for c using that by simp
  then have "mset (concat (map (\<lambda>c. splitters (replaceLeaf x y c)) cs)) =
      mset (concat (map splitters cs)) +
      repeat_mset (count (mset (concat (map leaves cs))) x) (mset (splitters y))"
    by (induction cs) (simp_all add: repeat_mset_distrib)
  then show ?case by (simp add: comp_def)
qed auto

lemma replicate_mset_sum: "replicate_mset (m + k) x = replicate_mset m x + replicate_mset k x"
  by (rule multiset_eqI) simp

lemma splitters_dropBeside:
  "is_leaf source \<Longrightarrow> is_leaf target \<Longrightarrow>
     mset (splitters (dropBeside n d after source target t)) \<subseteq>#
       mset (splitters t) + repeat_mset (count (mset (leaves t)) target) {#n#}"
proof (induction n d after source target t rule: dropBeside.induct)
  case (1 n d after source target s d' cs)
  show ?case
  proof (cases "d' = d \<and> target \<in> set cs")
    case True
    have "mset (concat (map splitters (concat (map (\<lambda>c. if c = target then beside after c source else [c]) cs)))) =
        mset (concat (map splitters cs))"
      using 1(2,3) by (induction cs) (auto simp: beside_def)
    with True show ?thesis by simp
  next
    case False
    have step: "mset (splitters (dropBeside n d after source target c)) \<subseteq>#
        mset (splitters c) + repeat_mset (count (mset (leaves c)) target) {#n#}"
      if "c \<in> set cs" for c using 1(1) [OF False that 1(2,3)] .
    have "mset (concat (map (\<lambda>c. splitters (dropBeside n d after source target c)) cs)) \<subseteq>#
        mset (concat (map splitters cs)) +
        repeat_mset (count (mset (concat (map leaves cs))) target) {#n#}"
      using step
    proof (induction cs)
      case (Cons c cs)
      have a: "mset (splitters (dropBeside n d after source target c)) \<subseteq>#
          mset (splitters c) + repeat_mset (count (mset (leaves c)) target) {#n#}"
        using Cons.prems by simp
      have b: "mset (concat (map (\<lambda>c. splitters (dropBeside n d after source target c)) cs)) \<subseteq>#
          mset (concat (map splitters cs)) + repeat_mset (count (mset (concat (map leaves cs))) target) {#n#}"
        using Cons by simp
      from subset_mset.add_mono [OF a b] show ?case
        by (simp add: replicate_mset_sum algebra_simps)
    qed simp
    with False show ?thesis by (auto simp: comp_def)
  qed
qed (auto simp: beside_def)

subsection \<open>Shape\<close>

text \<open>Every splitter has at least two children; \<open>shapedBut s\<close>: but \<open>s\<close>, which may have one.\<close>

fun shaped :: "pane_tree \<Rightarrow> bool" where
  "shaped (Splitter s d cs) = (2 \<le> length cs \<and> list_all shaped cs)"
| "shaped _ = True"

fun shapedBut :: "nat \<Rightarrow> pane_tree \<Rightarrow> bool" where
  "shapedBut s (Splitter s' d cs) =
     ((if s' = s then 1 else 2) \<le> length cs \<and> list_all (shapedBut s) cs)"
| "shapedBut s _ = True"

lemma shaped_leaf [simp]: "is_leaf x \<Longrightarrow> shaped x"
  by (cases x) simp_all

lemma shapedBut_absent: "s \<notin> set (splitters t) \<Longrightarrow> shapedBut s t \<longleftrightarrow> shaped t"
proof (induction s t rule: shapedBut.induct)
  case (1 s s' d cs)
  then show ?case by (auto simp: list_all_iff)
qed simp_all

lemma shaped_shapedBut: "shaped t \<Longrightarrow> shapedBut s t"
  by (induction s t rule: shapedBut.induct) (auto simp: list_all_iff)

lemma shaped_collapse: "shapedBut s t \<Longrightarrow> distinct (splitters t) \<Longrightarrow> shaped (collapse s t)"
proof (induction s t rule: collapse.induct)
  case (1 s s' d cs)
  have elem: "distinct (splitters c)" if "c \<in> set cs" for c
    using 1(3) that by (auto intro: distinct_concat_map_elem)
  show ?case
  proof (cases "s' = s")
    case True
    have "shaped c" if "c \<in> set cs" for c
      using 1(2,3) that True shapedBut_absent [of s c] by (auto simp: list_all_iff)
    then show ?thesis
      using True 1(2) by (cases cs rule: remdups_adj.cases) (auto simp: list_all_iff)
  next
    case False
    then show ?thesis using 1 elem by (auto simp: list_all_iff)
  qed
qed simp_all

lemma takeOut_absent: "x \<notin> set (leaves t) \<Longrightarrow> is_leaf x \<Longrightarrow> takeOut x t = t"
proof (induction x t rule: takeOut.induct)
  case (1 x s d cs)
  have "filter (\<lambda>c. c \<noteq> x) cs = cs" using 1(2,3) by (intro filter_True) auto
  moreover have "takeOut x c = c" if "c \<in> set cs" for c
    using 1 that by (cases "c = x") auto
  ultimately show ?case by (simp add: map_idI)
qed simp_all

lemma parents_absent: "x \<notin> set (leaves t) \<Longrightarrow> is_leaf x \<Longrightarrow> parents x t = []"
  by (induction x t rule: parents.induct) auto

lemma one_child_gone:
  "distinct (concat (map leaves cs)) \<Longrightarrow> is_leaf x \<Longrightarrow>
     length cs \<le> Suc (length (filter (\<lambda>c. c \<noteq> x) cs))"
proof (induction cs)
  case (Cons c cs)
  show ?case
  proof (cases "c = x")
    case True
    have "c' \<noteq> x" if "c' \<in> set cs" for c'
      using Cons.prems True that by force
    then have "filter (\<lambda>c. c \<noteq> x) cs = cs" by (simp add: filter_id_conv)
    then show ?thesis by simp
  qed (use Cons in simp)
qed simp

lemma distinct_owner:
  "distinct (concat (map leaves cs)) \<Longrightarrow> c \<in> set cs \<Longrightarrow> c' \<in> set cs \<Longrightarrow>
     x \<in> set (leaves c) \<Longrightarrow> x \<in> set (leaves c') \<Longrightarrow> c = c'"
  by (induction cs) auto

lemma parents_leaves: "s \<in> set (parents x t) \<Longrightarrow> is_leaf x \<Longrightarrow> x \<in> set (leaves t)"
  using parents_absent [of x t] by (cases "x \<in> set (leaves t)") auto

lemma shapedBut_takeOut:
  "is_leaf x \<Longrightarrow> shaped t \<Longrightarrow> distinct (leaves t) \<Longrightarrow> s \<in> set (parents x t) \<Longrightarrow>
     shapedBut s (takeOut x t)"
proof (induction x t rule: takeOut.induct)
  case (1 x s' d cs)
  have sh: "shaped c" "distinct (leaves c)" if "c \<in> set cs" for c
    using 1(3,4) that by (auto simp: list_all_iff intro: distinct_concat_map_elem)
  have dl: "distinct (concat (map leaves cs))" using 1(4) by simp
  show ?case
  proof (cases "x \<in> set cs")
    case True
    have absent: "x \<notin> set (leaves c)" if "c \<in> set cs" "c \<noteq> x" for c
      using distinct_children [OF dl 1(2) True that] .
    have "parents x c = []" if "c \<in> set cs" for c
      using absent [OF that] 1(2) by (cases "c = x"; cases x) (auto simp: parents_absent)
    then have s: "s' = s" using 1(5) True by auto
    have "map (takeOut x) (filter (\<lambda>c. c \<noteq> x) cs) = filter (\<lambda>c. c \<noteq> x) cs"
      using absent 1(2) by (intro map_idI) (auto simp: takeOut_absent)
    moreover have "list_all (shapedBut s) (filter (\<lambda>c. c \<noteq> x) cs)"
      using sh(1) shaped_shapedBut by (auto simp: list_all_iff)
    ultimately show ?thesis
      using one_child_gone [OF dl 1(2)] 1(3) s by auto
  next
    case False
    then obtain c where c: "c \<in> set cs" "s \<in> set (parents x c)" using 1(5) by auto
    have xc: "x \<in> set (leaves c)" by (rule parents_leaves [OF c(2) 1(2)])
    have "shapedBut s (takeOut x e)" if e: "e \<in> set cs" for e
    proof (cases "e = c")
      case True
      have "e \<in> set (filter (\<lambda>c. c \<noteq> x) cs)" using e False by auto
      from 1(1) [OF this 1(2) sh [OF e]] show ?thesis using c(2) True by simp
    next
      case neq: False
      have "x \<notin> set (leaves e)" using distinct_owner [OF dl e c(1) _ xc] neq by auto
      then show ?thesis using sh(1) [OF e] 1(2) shaped_shapedBut by (simp add: takeOut_absent)
    qed
    moreover have "filter (\<lambda>c. c \<noteq> x) cs = cs" using False by (auto simp: filter_id_conv)
    ultimately show ?thesis using 1(3) by (auto simp: list_all_iff)
  qed
qed auto

lemma shaped_takeOut_collapse:
  assumes "is_leaf x" and "shaped t" and "distinct (leaves t)" and "distinct (splitters t)"
    and "parentSplitter x t = Some s"
  shows "shaped (collapse s (takeOut x t))"
proof -
  have "s \<in> set (parents x t)" using assms(5) by (auto simp: parentSplitter_def split: list.splits)
  then have "shapedBut s (takeOut x t)" using assms by (intro shapedBut_takeOut)
  then show ?thesis using assms(1,4) by (intro shaped_collapse) simp_all
qed

lemma shaped_replaceLeaf: "shaped t \<Longrightarrow> shaped y \<Longrightarrow> shaped (replaceLeaf x y t)"
  by (induction x y t rule: replaceLeaf.induct) (auto simp: list_all_iff)

lemma shaped_swapViews: "shaped t \<Longrightarrow> shaped (swapViews a b t)"
  by (induction a b t rule: swapViews.induct) (auto simp: list_all_iff)

lemma length_concat_beside:
  "length cs \<le> length (concat (map (\<lambda>c. if c = target then beside after c source else [c]) cs))"
  by (induction cs) (auto simp: beside_def)

lemma shaped_dropBeside:
  "is_leaf source \<Longrightarrow> is_leaf target \<Longrightarrow> shaped t \<Longrightarrow>
     shaped (dropBeside n d after source target t)"
proof (induction n d after source target t rule: dropBeside.induct)
  case (1 n d after source target s d' cs)
  show ?case
  proof (cases "d' = d \<and> target \<in> set cs")
    case True
    then show ?thesis
      using 1(2-4) length_concat_beside [of cs target after source]
      by (auto simp: list_all_iff beside_def split: if_splits)
  next
    case False
    then show ?thesis using 1 by (auto simp: list_all_iff)
  qed
qed (auto simp: beside_def)

end
