(* ===== verification/PaneWindow.thy ===== *)
theory PaneWindow
  imports PaneTrees
begin

text \<open>
  The invariant \<open>win_ok\<close> of a window: its panes, pickers and splitters are distinct and numbered, the
  active pane exists, and a shown picker sits in the splitter its lambdas have captured as long as
  that splitter lives. Every operation of \<open>Panes\<close> keeps it.
\<close>

definition windowLeaves :: "window \<Rightarrow> pane_tree list" where
  "windowLeaves w = concat (map (\<lambda>t. leaves (snd t)) (w_tabs w))"

text \<open>
  No widget is in two places, every splitter has at least two children and numbers are not reused
  (\<open>struct_ok\<close>); the active pane is one of the window's; every picker shown has its captured
  pointers, and while the captured splitter exists the picker is in it.
\<close>

definition numbered :: "nat \<Rightarrow> pane_tree \<Rightarrow> bool" where
  "numbered n l = (case l of View v \<Rightarrow> v < n | Picker p \<Rightarrow> p < n | _ \<Rightarrow> True)"

definition struct_ok :: "window \<Rightarrow> bool" where
  "struct_ok w \<longleftrightarrow>
     distinct (windowLeaves w) \<and> distinct (windowSplitters w) \<and>
     list_all (\<lambda>t. shaped (snd t)) (w_tabs w) \<and>
     (\<forall>l \<in> set (windowLeaves w). numbered (w_next w) l) \<and>
     (\<forall>s \<in> set (windowSplitters w). s < w_next w)"

definition active_ok :: "window \<Rightarrow> bool" where
  "active_ok w \<longleftrightarrow> (\<forall>v. w_active w = Some v \<longrightarrow> View v \<in> set (windowLeaves w))"

definition windowParents :: "pane_tree \<Rightarrow> window \<Rightarrow> nat list" where
  "windowParents x w = concat (map (\<lambda>t. parents x (snd t)) (w_tabs w))"

definition pickers_ok :: "window \<Rightarrow> bool" where
  "pickers_ok w \<longleftrightarrow>
     (\<forall>p. Picker p \<in> set (windowLeaves w) \<longrightarrow>
        (\<exists>s e. map_of (w_pickers w) p = Some (s, e) \<and> s < w_next w \<and>
           (s \<in> set (windowSplitters w) \<longrightarrow> s \<in> set (windowParents (Picker p) w))))"

definition win_ok :: "window \<Rightarrow> bool" where
  "win_ok w \<longleftrightarrow> struct_ok w \<and> active_ok w \<and> pickers_ok w"

lemma in_windowViews [simp]: "v \<in> set (windowViews w) \<longleftrightarrow> View v \<in> set (windowLeaves w)"
  by (auto simp: windowViews_def windowLeaves_def)

lemma windowViews_leaves: "windowViews w = concat (map viewsOf (windowLeaves w))"
  by (simp add: windowViews_def windowLeaves_def collectViews_leaves concat_map_concat comp_def)

lemma mset_concat_update:
  "i < length xs \<Longrightarrow>
     mset (concat (map f (xs[i := y]))) + mset (f (xs ! i)) = mset (concat (map f xs)) + mset (f y)"
  by (induction xs arbitrary: i) (auto split: nat.split)

lemma updateTab_tabs:
  "i < length (w_tabs w) \<Longrightarrow>
     mset (windowLeaves (updateTab i f w)) + mset (leaves (snd (w_tabs w ! i))) =
       mset (windowLeaves w) + mset (leaves (f (snd (w_tabs w ! i))))"
  "i < length (w_tabs w) \<Longrightarrow>
     mset (windowSplitters (updateTab i f w)) + mset (splitters (snd (w_tabs w ! i))) =
       mset (windowSplitters w) + mset (splitters (f (snd (w_tabs w ! i))))"
  using mset_concat_update [of i "w_tabs w" "\<lambda>t. leaves (snd t)"]
    mset_concat_update [of i "w_tabs w" "\<lambda>t. splitters (snd t)"]
  by (simp_all add: windowLeaves_def windowSplitters_def updateTab_def)

lemma updateTab_fields [simp]:
  "w_active (updateTab i f w) = w_active w" "w_pickers (updateTab i f w) = w_pickers w"
  "w_next (updateTab i f w) = w_next w" "w_current (updateTab i f w) = w_current w"
  "length (w_tabs (updateTab i f w)) = length (w_tabs w)"
  by (simp_all add: updateTab_def)

lemma updateTab_nth [simp]:
  "i < length (w_tabs w) \<Longrightarrow> w_tabs (updateTab i f w) ! i = (fst (w_tabs w ! i), f (snd (w_tabs w ! i)))"
  by (simp add: updateTab_def)

lemma updateTab_shaped:
  "list_all (\<lambda>t. shaped (snd t)) (w_tabs w) \<Longrightarrow> shaped (f (snd (w_tabs w ! i))) \<Longrightarrow>
     list_all (\<lambda>t. shaped (snd t)) (w_tabs (updateTab i f w))"
  by (auto simp: updateTab_def list_all_iff dest!: set_update_subset_insert [THEN subsetD])

lemma updateTab_comp: "i < length (w_tabs w) \<Longrightarrow> updateTab i g (updateTab i f w) = updateTab i (g \<circ> f) w"
  by (simp add: updateTab_def)

lemma findTab_Some:
  assumes "findTab x w = Some i"
  shows "i < length (w_tabs w)" "x \<in> set (leaves (snd (w_tabs w ! i)))"
  using assms by (auto simp: findTab_def find_Some_iff)

lemma findTab_None: "findTab x w = None \<longleftrightarrow> x \<notin> set (windowLeaves w)"
proof -
  have "x \<notin> set (windowLeaves w) \<longleftrightarrow> (\<forall>t \<in> set (w_tabs w). x \<notin> set (leaves (snd t)))"
    by (auto simp: windowLeaves_def)
  then show ?thesis by (simp add: findTab_def find_None_iff all_set_conv_all_nth)
qed

lemma tab_subset:
  assumes "i < length (w_tabs w)"
  shows "mset (leaves (snd (w_tabs w ! i))) \<subseteq># mset (windowLeaves w)"
    "mset (splitters (snd (w_tabs w ! i))) \<subseteq># mset (windowSplitters w)"
proof -
  have "mset (f (xs ! j)) \<subseteq># mset (concat (map f xs))" if "j < length xs" for f :: "'a \<Rightarrow> 'b list" and xs j
    using that
    by (induction xs arbitrary: j)
      (auto simp: nth_Cons' intro: subset_mset.order_trans [OF _ mset_subset_eq_add_right])
  from this [OF assms, of "\<lambda>t. leaves (snd t)"] this [OF assms, of "\<lambda>t. splitters (snd t)"]
  show "mset (leaves (snd (w_tabs w ! i))) \<subseteq># mset (windowLeaves w)"
    "mset (splitters (snd (w_tabs w ! i))) \<subseteq># mset (windowSplitters w)"
    by (simp_all add: windowLeaves_def windowSplitters_def)
qed

lemma distinct_submset:
  assumes "mset xs \<subseteq># mset ys" and "distinct ys"
  shows "distinct xs"
  unfolding distinct_count_atmost_1
proof
  fix a
  have le: "count (mset xs) a \<le> count (mset ys) a" using assms(1) by (rule mset_subset_eq_count)
  have one: "count (mset ys) a \<le> 1" using assms(2) by (simp add: distinct_count_atmost_1)
  show "count (mset xs) a = (if a \<in> set xs then 1 else 0)"
  proof (cases "a \<in> set xs")
    case True
    then have "0 < count (mset xs) a" by simp
    with le one have "count (mset xs) a = 1" by linarith
    with True show ?thesis by (simp only: if_True)
  next
    case False
    then show ?thesis by (simp add: count_eq_zero_iff)
  qed
qed

lemma distinct_mset_add:
  "mset xs \<subseteq># mset ys + mset zs \<Longrightarrow> distinct ys \<Longrightarrow> distinct zs \<Longrightarrow> set ys \<inter> set zs = {} \<Longrightarrow> distinct xs"
  using distinct_submset [of xs "ys @ zs"] by simp

lemma tab_ok:
  assumes "struct_ok w" and "i < length (w_tabs w)"
  shows "distinct (leaves (snd (w_tabs w ! i)))" "distinct (splitters (snd (w_tabs w ! i)))"
    "shaped (snd (w_tabs w ! i))"
  using assms distinct_submset [OF tab_subset(1) [OF assms(2)]]
    distinct_submset [OF tab_subset(2) [OF assms(2)]]
  by (simp_all add: struct_ok_def list_all_length)

lemma update_bounds:
  assumes "i < length (w_tabs w)"
  shows "mset (leaves (f (snd (w_tabs w ! i)))) \<subseteq># mset (leaves (snd (w_tabs w ! i))) + A \<Longrightarrow>
      mset (windowLeaves (updateTab i f w)) \<subseteq># mset (windowLeaves w) + A"
    and "mset (splitters (f (snd (w_tabs w ! i)))) \<subseteq># mset (splitters (snd (w_tabs w ! i))) + B \<Longrightarrow>
      mset (windowSplitters (updateTab i f w)) \<subseteq># mset (windowSplitters w) + B"
proof -
  have cancel: "X + R = W + F \<Longrightarrow> F \<subseteq># R + C \<Longrightarrow> X \<subseteq># W + C" for X R W F C :: "'b multiset"
    by (metis (no_types, lifting) add.assoc add.commute subset_mset.add_le_cancel_right
        subset_mset.add_left_mono)
  show "mset (leaves (f (snd (w_tabs w ! i)))) \<subseteq># mset (leaves (snd (w_tabs w ! i))) + A \<Longrightarrow>
      mset (windowLeaves (updateTab i f w)) \<subseteq># mset (windowLeaves w) + A"
    by (rule cancel [OF updateTab_tabs(1) [OF assms]])
  show "mset (splitters (f (snd (w_tabs w ! i)))) \<subseteq># mset (splitters (snd (w_tabs w ! i))) + B \<Longrightarrow>
      mset (windowSplitters (updateTab i f w)) \<subseteq># mset (windowSplitters w) + B"
    by (rule cancel [OF updateTab_tabs(2) [OF assms]])
qed

lemma windowLeaves_fields [simp]:
  "windowLeaves (w\<lparr>w_active := a\<rparr>) = windowLeaves w" "windowSplitters (w\<lparr>w_active := a\<rparr>) = windowSplitters w"
  "windowLeaves (w\<lparr>w_pickers := ps\<rparr>) = windowLeaves w" "windowSplitters (w\<lparr>w_pickers := ps\<rparr>) = windowSplitters w"
  "windowLeaves (w\<lparr>w_next := n\<rparr>) = windowLeaves w" "windowSplitters (w\<lparr>w_next := n\<rparr>) = windowSplitters w"
  "windowLeaves (w\<lparr>w_current := c\<rparr>) = windowLeaves w" "windowSplitters (w\<lparr>w_current := c\<rparr>) = windowSplitters w"
  by (simp_all add: windowLeaves_def windowSplitters_def)

lemma struct_ok_fields [simp]:
  "struct_ok (w\<lparr>w_active := a\<rparr>) = struct_ok w" "struct_ok (w\<lparr>w_pickers := ps\<rparr>) = struct_ok w"
  "struct_ok (w\<lparr>w_current := c\<rparr>) = struct_ok w"
  by (simp_all add: struct_ok_def)

lemma numbered_mono: "numbered n l \<Longrightarrow> n \<le> m \<Longrightarrow> numbered m l"
  by (auto simp: numbered_def split: pane_tree.splits)

lemma struct_ok_next: "struct_ok w \<Longrightarrow> w_next w \<le> n \<Longrightarrow> struct_ok (w\<lparr>w_next := n\<rparr>)"
  by (auto simp: struct_ok_def intro: numbered_mono)

text \<open>One step on a tab: what is added must be new to the window and within the numbering.\<close>

lemma struct_update:
  assumes "struct_ok w" and "i < length (w_tabs w)"
    and "mset (leaves (f (snd (w_tabs w ! i)))) \<subseteq># mset (leaves (snd (w_tabs w ! i))) + mset al"
    and "mset (splitters (f (snd (w_tabs w ! i)))) \<subseteq># mset (splitters (snd (w_tabs w ! i))) + mset sl"
    and "distinct al" "set al \<inter> set (windowLeaves w) = {}" "\<forall>l \<in> set al. numbered n l"
    and "distinct sl" "set sl \<inter> set (windowSplitters w) = {}" "\<forall>s \<in> set sl. s < n"
    and "shaped (f (snd (w_tabs w ! i)))" and "w_next w \<le> n"
  shows "struct_ok ((updateTab i f w)\<lparr>w_next := n\<rparr>)"
    "set (windowLeaves (updateTab i f w)) \<subseteq> set (windowLeaves w) \<union> set al"
proof -
  note L = update_bounds(1) [OF assms(2), of f "mset al", OF assms(3)]
  note S = update_bounds(2) [OF assms(2), of f "mset sl", OF assms(4)]
  have ok: "distinct (windowLeaves w)" "distinct (windowSplitters w)"
    "list_all (\<lambda>t. shaped (snd t)) (w_tabs w)"
    "\<forall>l \<in> set (windowLeaves w). numbered (w_next w) l" "\<forall>s \<in> set (windowSplitters w). s < w_next w"
    using assms(1) by (simp_all add: struct_ok_def)
  show sub: "set (windowLeaves (updateTab i f w)) \<subseteq> set (windowLeaves w) \<union> set al"
    using set_mset_mono [OF L] by simp
  have subs: "set (windowSplitters (updateTab i f w)) \<subseteq> set (windowSplitters w) \<union> set sl"
    using set_mset_mono [OF S] by simp
  have "distinct (windowLeaves (updateTab i f w))"
    by (rule distinct_mset_add [OF L ok(1) assms(5)]) (use assms(6) in auto)
  moreover have "distinct (windowSplitters (updateTab i f w))"
    by (rule distinct_mset_add [OF S ok(2) assms(8)]) (use assms(9) in auto)
  moreover have "list_all (\<lambda>t. shaped (snd t)) (w_tabs (updateTab i f w))"
    using ok(3) assms(11) by (rule updateTab_shaped)
  moreover have "\<forall>l \<in> set (windowLeaves (updateTab i f w)). numbered n l"
    using sub ok(4) assms(7,12) by (blast intro: numbered_mono)
  moreover have "\<forall>s \<in> set (windowSplitters (updateTab i f w)). s < n"
    using subs ok(5) assms(10,12) by (fastforce intro: less_le_trans)
  ultimately show "struct_ok ((updateTab i f w)\<lparr>w_next := n\<rparr>)"
    by (simp add: struct_ok_def)
qed

lemma collapseAt_update:
  assumes "i < length (w_tabs w)"
  shows "\<exists>c. collapseAt i s (updateTab i f w) = (updateTab i (collapse s \<circ> f) w)\<lparr>w_current := c\<rparr>"
proof -
  have "\<exists>c. collapseAt i s u = (updateTab i (collapse s) u)\<lparr>w_current := c\<rparr>" for u
    by (auto simp: collapseAt_def Let_def split: pane_tree.split list.split)
      (rule exI [of _ "w_current u"], simp add: updateTab_def)+
  then show ?thesis using updateTab_comp [OF assms, of "collapse s" f] by metis
qed

lemma parentSplitter_not_root: "is_leaf x \<Longrightarrow> parentSplitter x t = Some s \<Longrightarrow> t \<noteq> x"
  by (cases x) (auto simp: parentSplitter_def)

lemma mset_without:
  assumes "distinct xs" shows "mset (filter (\<lambda>y. y \<noteq> x) xs) = mset xs - {#x#}"
proof -
  have "filter (\<lambda>y. y \<noteq> x) xs = removeAll x xs" by (induction xs) auto
  also have "\<dots> = remove1 x xs" using assms by (simp add: distinct_remove1_removeAll)
  finally show ?thesis by (simp del: mset_filter)
qed

lemma mset_cancel_one:
  assumes "X + R = W + (R - {#x#})" and "x \<in># R"
  shows "X = W - {#x#}"
proof -
  obtain R' where R: "R = add_mset x R'" using assms(2) by (rule multi_member_split [THEN exE])
  have "add_mset x X + R' = W + R'" using assms(1) by (simp add: R)
  then have "add_mset x X = W" by simp
  then show ?thesis by auto
qed

text \<open>Taking a leaf out of its splitter removes it and nothing else.\<close>

lemma removed:
  assumes "struct_ok w" and "findTab x w = Some i" and "is_leaf x"
    and "parentSplitter x (snd (w_tabs w ! i)) = Some s"
    and w1: "w1 = collapseAt i s (updateTab i (takeOut x) w)"
  shows "struct_ok w1" "mset (windowLeaves w1) = mset (windowLeaves w) - {#x#}"
    "w_active w1 = w_active w" "w_pickers w1 = w_pickers w" "w_next w1 = w_next w"
    "length (w_tabs w1) = length (w_tabs w)"
    "leaves (snd (w_tabs w1 ! i)) = filter (\<lambda>y. y \<noteq> x) (leaves (snd (w_tabs w ! i)))"
proof -
  let ?t = "snd (w_tabs w ! i)" and ?f = "collapse s \<circ> takeOut x"
  note i = findTab_Some [OF assms(2)]
  note t = tab_ok [OF assms(1) i(1)]
  have nr: "?t \<noteq> x" by (rule parentSplitter_not_root [OF assms(3,4)])
  have lv: "leaves (?f ?t) = filter (\<lambda>y. y \<noteq> x) (leaves ?t)"
    using leaves_takeOut [OF assms(3) nr] by simp
  obtain c where c: "w1 = (updateTab i ?f w)\<lparr>w_current := c\<rparr>"
    using collapseAt_update [OF i(1), of s "takeOut x"] w1 by auto
  have "shaped (?f ?t)"
    using shaped_takeOut_collapse [OF assms(3) t(3,1,2) assms(4)] by simp
  moreover have "mset (splitters (?f ?t)) \<subseteq># mset (splitters ?t)"
    using splitters_collapse [of s "takeOut x ?t"] assms(3) by simp
  ultimately have "struct_ok ((updateTab i ?f w)\<lparr>w_next := w_next w\<rparr>)"
    using struct_update(1) [OF assms(1) i(1), of ?f "[]" "[]" "w_next w"] lv
      multiset_filter_subset [of "\<lambda>y. y \<noteq> x" "mset (leaves ?t)"]
    by simp
  moreover have "(updateTab i ?f w)\<lparr>w_next := w_next w\<rparr> = updateTab i ?f w" by (simp add: updateTab_def)
  ultimately show "struct_ok w1" by (simp add: c)
  have "mset (filter (\<lambda>y. y \<noteq> x) (leaves ?t)) = mset (leaves ?t) - {#x#}"
    by (rule mset_without [OF t(1)])
  then have "mset (windowLeaves (updateTab i ?f w)) + mset (leaves ?t) =
      mset (windowLeaves w) + (mset (leaves ?t) - {#x#})"
    using updateTab_tabs(1) [OF i(1), of ?f] lv by simp
  then have "mset (windowLeaves (updateTab i ?f w)) = mset (windowLeaves w) - {#x#}"
    by (rule mset_cancel_one) (use i(2) in simp)
  then show "mset (windowLeaves w1) = mset (windowLeaves w) - {#x#}" by (simp add: c)
  show "w_active w1 = w_active w" "w_pickers w1 = w_pickers w" "w_next w1 = w_next w"
    "length (w_tabs w1) = length (w_tabs w)" by (simp_all add: c)
  show "leaves (snd (w_tabs w1 ! i)) = filter (\<lambda>y. y \<noteq> x) (leaves ?t)"
    using lv i(1) by (simp add: c)
qed

lemma mset_subst:
  "distinct xs \<Longrightarrow> x \<in> set xs \<Longrightarrow>
     mset (concat (map (\<lambda>l. if l = x then ys l else [l]) xs)) = (mset xs - {#x#}) + mset (ys x)"
proof (induction xs)
  case (Cons a xs)
  show ?case
  proof (cases "a = x")
    case True
    then show ?thesis using Cons.prems by (simp add: concat_map_absent)
  next
    case False
    then have "x \<in> set xs" "distinct xs" using Cons.prems by simp_all
    then show ?thesis using Cons.IH False by simp
  qed
qed simp

lemma update_exact:
  assumes "i < length (w_tabs w)" and "x \<in> set (leaves (snd (w_tabs w ! i)))"
    and "mset (leaves (f (snd (w_tabs w ! i)))) = (mset (leaves (snd (w_tabs w ! i))) - {#x#}) + A"
  shows "mset (windowLeaves (updateTab i f w)) = (mset (windowLeaves w) - {#x#}) + A"
proof -
  let ?R = "mset (leaves (snd (w_tabs w ! i)))" and ?W = "mset (windowLeaves w)"
  have R: "?R = add_mset x (?R - {#x#})" using assms(2) by simp
  have "x \<in># ?W" using set_mset_mono [OF tab_subset(1) [OF assms(1)]] assms(2) by auto
  then have W: "?W = add_mset x (?W - {#x#})" by simp
  have "mset (windowLeaves (updateTab i f w)) + ?R = ?W + ((?R - {#x#}) + A)"
    using updateTab_tabs(1) [OF assms(1), of f] assms(3) by simp
  then have "mset (windowLeaves (updateTab i f w)) + add_mset x (?R - {#x#}) =
      add_mset x (?W - {#x#}) + ((?R - {#x#}) + A)"
    using R W by simp
  then show ?thesis by (simp add: ac_simps)
qed

lemma windowViews_mset: "mset (windowViews w) = (\<Sum>l \<in># mset (windowLeaves w). mset (viewsOf l))"
proof -
  have "mset (concat (map viewsOf ls)) = (\<Sum>l \<in># mset ls. mset (viewsOf l))" for ls
    by (induction ls) simp_all
  then show ?thesis by (simp add: windowViews_leaves)
qed

lemma in_tab_in_window: "i < length (w_tabs w) \<Longrightarrow> l \<in> set (leaves (snd (w_tabs w ! i))) \<Longrightarrow> l \<in> set (windowLeaves w)"
  by (auto simp: windowLeaves_def)

text \<open>Replacing a leaf by a tree of new widgets.\<close>

lemma replaced:
  assumes "struct_ok w" and "findTab x w = Some i" and "is_leaf x" and "shaped y"
    and "mset (leaves y) \<subseteq># add_mset x (mset al)" and "distinct al" "set al \<inter> set (windowLeaves w) = {}"
    "\<forall>l \<in> set al. numbered n l"
    and "distinct (splitters y)" "set (splitters y) \<inter> set (windowSplitters w) = {}"
    "\<forall>s \<in> set (splitters y). s < n"
    and "w_next w \<le> n"
  shows "struct_ok ((updateTab i (replaceLeaf x y) w)\<lparr>w_next := n\<rparr>)"
    "mset (windowLeaves (updateTab i (replaceLeaf x y) w)) = (mset (windowLeaves w) - {#x#}) + mset (leaves y)"
proof -
  let ?t = "snd (w_tabs w ! i)" and ?f = "replaceLeaf x y"
  note i = findTab_Some [OF assms(2)]
  note t = tab_ok [OF assms(1) i(1)]
  have lv: "mset (leaves (?f ?t)) = (mset (leaves ?t) - {#x#}) + mset (leaves y)"
    using mset_subst [OF t(1) i(2), of "\<lambda>_. leaves y"] by (simp add: leaves_replaceLeaf [OF assms(3)])
  have "mset (leaves ?t) = add_mset x (mset (leaves ?t) - {#x#})" using i(2) by simp
  moreover have "(mset (leaves ?t) - {#x#}) + mset (leaves y) \<subseteq># (mset (leaves ?t) - {#x#}) + add_mset x (mset al)"
    using assms(5) by (rule subset_mset.add_left_mono)
  ultimately have sub: "mset (leaves (?f ?t)) \<subseteq># mset (leaves ?t) + mset al"
    unfolding lv by (metis union_mset_add_mset_left union_mset_add_mset_right)
  have "count (mset (leaves ?t)) x = 1" using t(1) i(2) by (simp add: distinct_count_atmost_1)
  then have sp: "mset (splitters (?f ?t)) \<subseteq># mset (splitters ?t) + mset (splitters y)"
    by (simp add: splitters_replaceLeaf [OF assms(3)])
  show "struct_ok ((updateTab i ?f w)\<lparr>w_next := n\<rparr>)"
    using struct_update(1) [OF assms(1) i(1), of ?f al "splitters y" n] sub sp assms(6-12)
      shaped_replaceLeaf [OF t(3) assms(4), of x] by simp
  show "mset (windowLeaves (updateTab i ?f w)) = (mset (windowLeaves w) - {#x#}) + mset (leaves y)"
    using update_exact [OF i, of ?f "mset (leaves y)"] lv by simp
qed

subsection \<open>Where the pickers are\<close>

lemma in_map_takeOut: "is_leaf x \<Longrightarrow> x \<noteq> y \<Longrightarrow> x \<in> set cs \<Longrightarrow> x \<in> set (map (takeOut y) (filter (\<lambda>c. c \<noteq> y) cs))"
  by (cases x) (force simp: image_iff)+

lemma parents_takeOut:
  "is_leaf x \<Longrightarrow> is_leaf y \<Longrightarrow> x \<noteq> y \<Longrightarrow> s \<in> set (parents x t) \<Longrightarrow> s \<in> set (parents x (takeOut y t))"
proof (induction y t rule: takeOut.induct)
  case (1 y s' d cs)
  show ?case
  proof (cases "x \<in> set cs \<and> s = s'")
    case True
    then show ?thesis using in_map_takeOut [OF 1(2,4)] by auto
  next
    case False
    then obtain c where c: "c \<in> set cs" "s \<in> set (parents x c)" using 1(5) by (auto split: if_splits)
    then have "c \<noteq> y" using 1(3) by (cases y) auto
    then have "s \<in> set (parents x (takeOut y c))" using 1(1) [of c] 1(2-4) c by simp
    then show ?thesis using c \<open>c \<noteq> y\<close> by auto
  qed
qed auto

lemma distinct_splitters_owner:
  "distinct (concat (map splitters cs)) \<Longrightarrow> c \<in> set cs \<Longrightarrow> c' \<in> set cs \<Longrightarrow>
     s \<in> set (splitters c) \<Longrightarrow> s \<in> set (splitters c') \<Longrightarrow> c' = c"
  by (induction cs) auto

lemma parent_in_splitters: "s \<in> set (parents x t) \<Longrightarrow> s \<in> set (splitters t)"
  by (induction x t rule: parents.induct) (auto split: if_splits)

lemma parents_collapse:
  "is_leaf x \<Longrightarrow> distinct (splitters t) \<Longrightarrow> s \<in> set (parents x t) \<Longrightarrow>
     s \<in> set (splitters (collapse s0 t)) \<Longrightarrow> s \<in> set (parents x (collapse s0 t))"
proof (induction s0 t rule: collapse.induct)
  case (1 s0 s' d cs)
  have elem: "distinct (splitters c)" if "c \<in> set cs" for c
    using 1(3) that by (auto intro: distinct_concat_map_elem)
  have sub: "set (splitters (collapse s0 c)) \<subseteq> set (splitters c)" for c
    using set_mset_mono [OF splitters_collapse [of s0 c]] by simp
  show ?case
  proof (cases "s' = s0")
    case True
    then show ?thesis
      using 1(2-5) by (cases cs rule: remdups_adj.cases) (auto split: if_splits)
  next
    case neq: False
    show ?thesis
    proof (cases "x \<in> set cs \<and> s = s'")
      case True
      have "collapse s0 x = x" using 1(2) by (cases x) auto
      then have "x \<in> collapse s0 ` set cs" using True by (metis image_eqI)
      then show ?thesis using neq True by simp
    next
      case False
      then obtain c where c: "c \<in> set cs" "s \<in> set (parents x c)" using 1(4) by (auto split: if_splits)
      have sc: "s \<in> set (splitters c)" by (rule parent_in_splitters [OF c(2)])
      then have "s \<noteq> s'" using 1(3) c(1) by auto
      then obtain c' where c': "c' \<in> set cs" "s \<in> set (splitters (collapse s0 c'))"
        using 1(5) neq by auto
      have "c' = c"
        by (rule distinct_splitters_owner [of cs c c' s]) (use c' c(1) sc sub [of c'] 1(3) in auto)
      then have "s \<in> set (parents x (collapse s0 c))"
        using 1(1) [OF neq c(1) 1(2) elem [OF c(1)] c(2)] c'(2) by simp
      then show ?thesis using neq c(1) by auto
    qed
  qed
qed auto

lemma parents_replaceLeaf:
  "is_leaf x \<Longrightarrow> x \<noteq> y \<Longrightarrow> s \<in> set (parents x t) \<Longrightarrow> s \<in> set (parents x (replaceLeaf y z t))"
proof (induction y z t rule: replaceLeaf.induct)
  case (1 y z s' d cs)
  have "replaceLeaf y z x = x" using 1(2,3) by (cases x) auto
  then have "x \<in> set cs \<Longrightarrow> x \<in> replaceLeaf y z ` set cs" by (metis image_eqI)
  then show ?case using 1 by (auto split: if_splits)
qed auto

lemma parents_replacement:
  "y \<in> set (leaves t) \<Longrightarrow> is_leaf y \<Longrightarrow> s \<in> set (parents x z) \<Longrightarrow> s \<in> set (parents x (replaceLeaf y z t))"
proof (induction y z t rule: replaceLeaf.induct)
  case (1 y z s' d cs)
  then obtain c where "c \<in> set cs" "y \<in> set (leaves c)" by auto
  then show ?case using 1 by auto
qed auto

lemma parents_swapViews:
  "s \<in> set (parents (Picker p) t) \<Longrightarrow> s \<in> set (parents (Picker p) (swapViews a b t))"
proof (induction a b t rule: swapViews.induct)
  case (1 a b s' d cs)
  have "Picker p \<in> set cs \<Longrightarrow> Picker p \<in> swapViews a b ` set cs" by (force simp: image_iff)
  then show ?case using 1 by (auto split: if_splits)
qed auto

lemma parents_dropBeside:
  "is_leaf x \<Longrightarrow> is_leaf target \<Longrightarrow> x \<noteq> target \<Longrightarrow> s \<in> set (parents x t) \<Longrightarrow>
     s \<in> set (parents x (dropBeside n d after source target t))"
proof (induction n d after source target t rule: dropBeside.induct)
  case (1 n d after source target s' d' cs)
  let ?put = "\<lambda>c. if c = target then beside after c source else [c]"
  show ?case
  proof (cases "d' = d \<and> target \<in> set cs")
    case True
    have "x \<in> set cs \<Longrightarrow> x \<in> set (concat (map ?put cs))" using 1(4) by auto
    moreover have "s \<in> set (concat (map (parents x) (concat (map ?put cs))))"
      if c: "c \<in> set cs" "s \<in> set (parents x c)" for c
    proof -
      have "c \<noteq> target" using c(2) 1(3) by (cases target) auto
      then have "c \<in> set (concat (map ?put cs))" using c(1) by auto
      then show ?thesis using c(2) by (simp only: set_concat set_map UN_iff) blast
    qed
    ultimately show ?thesis using True 1(5) by (auto split: if_splits)
  next
    case False
    have "dropBeside n d after source target x = x" using 1(2,4) by (cases x) auto
    then have "x \<in> set cs \<Longrightarrow> x \<in> dropBeside n d after source target ` set cs" by (metis image_eqI)
    then show ?thesis using False 1 by (auto split: if_splits)
  qed
qed auto

lemma pickers_step:
  assumes "pickers_ok w" and "w_next w \<le> w_next w'"
    and "set (windowSplitters w') \<subseteq> set (windowSplitters w) \<union> {w_next w ..}"
    and "\<And>p. Picker p \<in> set (windowLeaves w') \<Longrightarrow>
      Picker p \<in> set (windowLeaves w) \<and> map_of (w_pickers w') p = map_of (w_pickers w) p \<or>
      (\<exists>s e. map_of (w_pickers w') p = Some (s, e) \<and> s < w_next w' \<and> s \<in> set (windowParents (Picker p) w'))"
    and "\<And>p s. Picker p \<in> set (windowLeaves w') \<Longrightarrow> s \<in> set (windowParents (Picker p) w) \<Longrightarrow>
      s \<in> set (windowSplitters w') \<Longrightarrow> s \<in> set (windowParents (Picker p) w')"
  shows "pickers_ok w'"
  unfolding pickers_ok_def
proof (intro allI impI)
  fix p assume p: "Picker p \<in> set (windowLeaves w')"
  let ?thesis = "\<exists>s e. map_of (w_pickers w') p = Some (s, e) \<and> s < w_next w' \<and>
      (s \<in> set (windowSplitters w') \<longrightarrow> s \<in> set (windowParents (Picker p) w'))"
  from assms(4) [OF p] show ?thesis
  proof
    assume old: "Picker p \<in> set (windowLeaves w) \<and> map_of (w_pickers w') p = map_of (w_pickers w) p"
    then obtain s e where se: "map_of (w_pickers w) p = Some (s, e)" "s < w_next w"
      "s \<in> set (windowSplitters w) \<longrightarrow> s \<in> set (windowParents (Picker p) w)"
      using assms(1) unfolding pickers_ok_def by blast
    have "s \<in> set (windowParents (Picker p) w')" if "s \<in> set (windowSplitters w')"
    proof -
      have "s \<in> set (windowSplitters w)" using that assms(3) se(2) by auto
      then show ?thesis using assms(5) [OF p] se(3) that by blast
    qed
    then show ?thesis using old se assms(2) by auto
  qed blast
qed

lemma in_windowParents:
  "s \<in> set (windowParents x w) \<longleftrightarrow> (\<exists>t \<in> set (w_tabs w). s \<in> set (parents x (snd t)))"
  by (auto simp: windowParents_def)

lemma windowParents_update:
  assumes "i < length (w_tabs w)" and "s \<in> set (windowParents x w)"
    and "s \<in> set (parents x (snd (w_tabs w ! i))) \<Longrightarrow> s \<in> set (parents x (f (snd (w_tabs w ! i))))"
  shows "s \<in> set (windowParents x (updateTab i f w))"
proof -
  obtain j where j: "j < length (w_tabs w)" "s \<in> set (parents x (snd (w_tabs w ! j)))"
    using assms(2) unfolding in_windowParents by (metis in_set_conv_nth)
  have "w_tabs (updateTab i f w) ! j = (if j = i then (fst (w_tabs w ! i), f (snd (w_tabs w ! i))) else w_tabs w ! j)"
    using j(1) by (simp add: updateTab_def nth_list_update)
  then have "s \<in> set (parents x (snd (w_tabs (updateTab i f w) ! j)))"
    using j(2) assms(3) by (cases "j = i") auto
  moreover have "w_tabs (updateTab i f w) ! j \<in> set (w_tabs (updateTab i f w))"
    using j(1) by (intro nth_mem) simp
  ultimately show ?thesis unfolding in_windowParents by blast
qed

lemma distinct_concat_nth:
  "distinct (concat (map f xs)) \<Longrightarrow> i < length xs \<Longrightarrow> j < length xs \<Longrightarrow> x \<in> set (f (xs ! i)) \<Longrightarrow>
     x \<in> set (f (xs ! j)) \<Longrightarrow> j = i"
proof (induction xs arbitrary: i j)
  case (Cons a xs)
  have "x \<notin> set (f (xs ! k))" if "x \<in> set (f a)" "k < length xs" for k
  proof -
    have "x \<notin> (\<Union>a \<in> set xs. set (f a))" using Cons.prems(1) that(1) by auto
    then show ?thesis using nth_mem [OF that(2)] by blast
  qed
  then show ?case using Cons by (cases i; cases j) auto
qed simp

lemma parents_unique:
  "is_leaf x \<Longrightarrow> distinct (leaves t) \<Longrightarrow> s \<in> set (parents x t) \<Longrightarrow> s' \<in> set (parents x t) \<Longrightarrow> s = s'"
proof (induction x t rule: parents.induct)
  case (1 x u d cs)
  have dl: "distinct (concat (map leaves cs))" using 1(3) by simp
  show ?case
  proof (cases "x \<in> set cs")
    case True
    have "parents x c = []" if "c \<in> set cs" for c
      using distinct_children [OF dl 1(2) True that] 1(2)
      by (cases "c = x"; cases x) (auto simp: parents_absent)
    then show ?thesis using 1(4,5) True by auto
  next
    case False
    then obtain c c' where c: "c \<in> set cs" "s \<in> set (parents x c)" "c' \<in> set cs" "s' \<in> set (parents x c')"
      using 1(4,5) by auto
    have "c = c'"
      by (rule distinct_owner [OF dl c(1,3)]) (use c parents_leaves 1(2) in blast)+
    then show ?thesis
      using 1(1) [OF c(1) 1(2)] c dl by (auto intro: distinct_concat_map_elem)
  qed
qed auto

lemma parentSplitter_eq:
  assumes "struct_ok w" and "findTab x w = Some i" and "is_leaf x" and "s \<in> set (windowParents x w)"
  shows "parentSplitter x (snd (w_tabs w ! i)) = Some s"
proof -
  note i = findTab_Some [OF assms(2)]
  obtain j where j: "j < length (w_tabs w)" "s \<in> set (parents x (snd (w_tabs w ! j)))"
    using assms(4) unfolding in_windowParents by (metis in_set_conv_nth)
  have xj: "x \<in> set (leaves (snd (w_tabs w ! j)))" by (rule parents_leaves [OF j(2) assms(3)])
  have "distinct (concat (map (\<lambda>t. leaves (snd t)) (w_tabs w)))"
    using assms(1) by (simp add: struct_ok_def windowLeaves_def)
  then have "j = i" using distinct_concat_nth [of "\<lambda>t. leaves (snd t)" "w_tabs w" i j x] i j(1) xj by simp
  then have s: "s \<in> set (parents x (snd (w_tabs w ! i)))" using j(2) by simp
  then obtain s' ss where p: "parents x (snd (w_tabs w ! i)) = s' # ss"
    by (cases "parents x (snd (w_tabs w ! i))") auto
  then have "s = s'"
    using parents_unique [OF assms(3) tab_ok(1) [OF assms(1) i(1)] s, of s'] by simp
  then show ?thesis using p by (simp add: parentSplitter_def)
qed

lemma windowParents_fields [simp]:
  "windowParents x (w\<lparr>w_active := a\<rparr>) = windowParents x w" "windowParents x (w\<lparr>w_pickers := ps\<rparr>) = windowParents x w"
  "windowParents x (w\<lparr>w_next := n\<rparr>) = windowParents x w" "windowParents x (w\<lparr>w_current := c\<rparr>) = windowParents x w"
  by (simp_all add: windowParents_def)

text \<open>In the tab that changes, a splitter still in the window is still in the tab.\<close>

lemma splitter_stays:
  assumes "struct_ok w" and "i < length (w_tabs w)" and "s \<in> set (splitters (snd (w_tabs w ! i)))"
    and "s \<in> set (windowSplitters (updateTab i f w))"
  shows "s \<in> set (splitters (f (snd (w_tabs w ! i))))"
proof -
  have "count (mset (windowSplitters w)) s \<le> 1"
    using assms(1) by (simp add: struct_ok_def distinct_count_atmost_1)
  moreover have "0 < count (mset (splitters (snd (w_tabs w ! i)))) s" using assms(3) by simp
  moreover have "0 < count (mset (windowSplitters (updateTab i f w))) s" using assms(4) by simp
  moreover have "count (mset (windowSplitters (updateTab i f w))) s + count (mset (splitters (snd (w_tabs w ! i)))) s =
      count (mset (windowSplitters w)) s + count (mset (splitters (f (snd (w_tabs w ! i))))) s"
    using updateTab_tabs(2) [OF assms(2), of f] by (metis count_union)
  ultimately have "0 < count (mset (splitters (f (snd (w_tabs w ! i))))) s" by linarith
  then show ?thesis by simp
qed

lemma removed_parents:
  assumes "struct_ok w" and "findTab y w = Some i" and "is_leaf x" "is_leaf y" "x \<noteq> y"
    and w1: "w1 = collapseAt i sp (updateTab i (takeOut y) w)"
  shows "set (windowSplitters w1) \<subseteq> set (windowSplitters w)"
    "s \<in> set (windowParents x w) \<Longrightarrow> s \<in> set (windowSplitters w1) \<Longrightarrow> s \<in> set (windowParents x w1)"
proof -
  let ?t = "snd (w_tabs w ! i)" and ?f = "collapse sp \<circ> takeOut y"
  note i = findTab_Some [OF assms(2)]
  note t = tab_ok [OF assms(1) i(1)]
  obtain c where c: "w1 = (updateTab i ?f w)\<lparr>w_current := c\<rparr>"
    using collapseAt_update [OF i(1), of sp "takeOut y"] w1 by auto
  have sub: "mset (splitters (?f ?t)) \<subseteq># mset (splitters ?t) + {#}"
    using splitters_collapse [of sp "takeOut y ?t"] assms(4) by simp
  show "set (windowSplitters w1) \<subseteq> set (windowSplitters w)"
    using set_mset_mono [OF update_bounds(2) [OF i(1), of ?f "{#}", OF sub]] by (simp add: c)
  assume s: "s \<in> set (windowParents x w)" "s \<in> set (windowSplitters w1)"
  have "s \<in> set (parents x (?f ?t))" if p: "s \<in> set (parents x ?t)"
  proof -
    have st: "s \<in> set (splitters (?f ?t))"
      using splitter_stays [OF assms(1) i(1) parent_in_splitters [OF p], of ?f] s(2) by (simp add: c)
    have "s \<in> set (parents x (takeOut y ?t))" by (rule parents_takeOut [OF assms(3-5) p])
    then show ?thesis using parents_collapse [OF assms(3), of "takeOut y ?t" s sp] st t(2) assms(4) by simp
  qed
  then show "s \<in> set (windowParents x w1)"
    using windowParents_update [OF i(1) s(1), of ?f] by (simp add: c)
qed

subsection \<open>Every operation keeps the invariant\<close>

lemma win_okI: "struct_ok w \<Longrightarrow> active_ok w \<Longrightarrow> pickers_ok w \<Longrightarrow> win_ok w"
  by (simp add: win_ok_def)

lemma in_minus:
  assumes "distinct xs" shows "l \<in># mset xs - {#x#} \<longleftrightarrow> l \<in> set xs \<and> l \<noteq> x"
proof -
  have "set_mset (mset xs - {#x#}) = set (filter (\<lambda>y. y \<noteq> x) xs)"
    using mset_without [OF assms, of x] by (metis set_mset_mset)
  then show ?thesis by simp
qed

lemma struct_ok_all:
  "struct_ok (w\<lparr>w_next := n\<rparr>) \<Longrightarrow>
     struct_ok (w\<lparr>w_active := a, w_pickers := ps, w_next := n, w_current := c\<rparr>)"
  by (simp add: struct_ok_def)

lemma currentActiveView_in:
  "active_ok w \<Longrightarrow> currentActiveView w = Some e \<Longrightarrow> View e \<in> set (windowLeaves w)"
proof (cases "w_active w")
  case None
  assume "currentActiveView w = Some e"
  then obtain i where "i < length (w_tabs w)" "e \<in> set (collectViews (snd (w_tabs w ! i)))"
    using None
    by (auto simp: currentActiveView_def tabAt_def split: option.splits if_splits prod.splits list.splits
        simp del: in_collectViews)
  then show ?thesis by (simp add: in_tab_in_window)
qed (auto simp: currentActiveView_def active_ok_def)

lemma not_numbered: "struct_ok w \<Longrightarrow> w_next w \<le> p \<Longrightarrow> Picker p \<notin> set (windowLeaves w)"
  "struct_ok w \<Longrightarrow> w_next w \<le> v \<Longrightarrow> View v \<notin> set (windowLeaves w)"
  "struct_ok w \<Longrightarrow> w_next w \<le> s \<Longrightarrow> s \<notin> set (windowSplitters w)"
  by (auto simp: struct_ok_def numbered_def)

lemma windowParents_new:
  "i < length (w_tabs w) \<Longrightarrow> s \<in> set (parents x (f (snd (w_tabs w ! i)))) \<Longrightarrow>
     s \<in> set (windowParents x (updateTab i f w))"
  unfolding in_windowParents updateTab_def
  by (rule bexI [of _ "(fst (w_tabs w ! i), f (snd (w_tabs w ! i)))"]) (simp_all add: set_update_memI)

lemma update_splitters:
  "i < length (w_tabs w) \<Longrightarrow>
     set (windowSplitters (updateTab i f w)) \<subseteq> set (windowSplitters w) \<union> set (splitters (f (snd (w_tabs w ! i))))"
  unfolding windowSplitters_def updateTab_def
  by (auto dest!: set_update_subset_insert [THEN subsetD])

lemma splitters_in_window:
  "i < length (w_tabs w) \<Longrightarrow> set (splitters (snd (w_tabs w ! i))) \<subseteq> set (windowSplitters w)"
  unfolding windowSplitters_def by (auto intro!: bexI [OF _ nth_mem])

lemma splitters_replaced:
  "is_leaf x \<Longrightarrow> set (splitters (replaceLeaf x y t)) \<subseteq> set (splitters t) \<union> set (splitters y)"
proof (induction x y t rule: replaceLeaf.induct)
  case (1 x y s d cs)
  then show ?case by fastforce
qed simp_all

lemma splitActivePane_spec:
  assumes "win_ok w" and "currentActiveView w = Some e"
  shows "win_ok (splitActivePane d w)"
    "mset (windowLeaves (splitActivePane d w)) = add_mset (Picker (w_next w + 1)) (mset (windowLeaves w))"
proof -
  have ok: "struct_ok w" "active_ok w" "pickers_ok w" using assms(1) by (simp_all add: win_ok_def)
  have e: "View e \<in> set (windowLeaves w)" by (rule currentActiveView_in [OF ok(2) assms(2)])
  then obtain i where i: "findTab (View e) w = Some i" using findTab_None by fastforce
  let ?n = "w_next w" let ?p = "Picker (?n + 1)"
  let ?y = "Splitter ?n d [View e, ?p]"
  let ?w1 = "updateTab i (replaceLeaf (View e) ?y) w"
  have rep: "struct_ok (?w1\<lparr>w_next := ?n + 2\<rparr>)"
    "mset (windowLeaves ?w1) = (mset (windowLeaves w) - {#View e#}) + mset (leaves ?y)"
    using replaced [OF ok(1) i, of ?y "[?p]" "?n + 2"] not_numbered [OF ok(1)]
    by (auto simp: numbered_def)
  obtain c where w': "splitActivePane d w = ?w1\<lparr>w_active := Some e,
      w_pickers := (?n + 1, ?n, e) # w_pickers w, w_next := ?n + 2, w_current := c\<rparr>"
    using assms(2) i by (simp add: splitActivePane_def Let_def)
  have "mset (windowLeaves w) = add_mset (View e) (mset (windowLeaves w) - {#View e#})" using e by simp
  moreover have "mset (leaves ?y) = {#View e, ?p#}" by simp
  ultimately have L: "mset (windowLeaves ?w1) = add_mset ?p (mset (windowLeaves w))"
    using rep(2) by (simp add: add_mset_commute)
  then have S: "set (windowLeaves ?w1) = insert ?p (set (windowLeaves w))"
    by (metis set_mset_add_mset_insert set_mset_mset)
  show "mset (windowLeaves (splitActivePane d w)) = add_mset ?p (mset (windowLeaves w))"
    using L by (simp add: w')
  show "win_ok (splitActivePane d w)"
  proof (rule win_okI)
    show "struct_ok (splitActivePane d w)" unfolding w' by (rule struct_ok_all [OF rep(1)])
    show "active_ok (splitActivePane d w)" using S e by (simp add: w' active_ok_def)
    have "?n \<in> set (parents ?p (replaceLeaf (View e) ?y (snd (w_tabs w ! i))))"
      using findTab_Some(2) [OF i] by (intro parents_replacement) simp_all
    then have new: "?n \<in> set (windowParents ?p ?w1)"
      by (rule windowParents_new [OF findTab_Some(1) [OF i]])
    have spl: "set (windowSplitters ?w1) \<subseteq> set (windowSplitters w) \<union> {?n ..}"
      using update_splitters [OF findTab_Some(1) [OF i], of "replaceLeaf (View e) ?y"]
        splitters_replaced [of "View e" ?y "snd (w_tabs w ! i)"] splitters_in_window [OF findTab_Some(1) [OF i]]
      by auto
    have par: "s \<in> set (windowParents (Picker p) ?w1)" if "s \<in> set (windowParents (Picker p) w)" for p s
      using windowParents_update [OF findTab_Some(1) [OF i] that] parents_replaceLeaf [of "Picker p" "View e"]
      by simp
    show "pickers_ok (splitActivePane d w)"
      by (rule pickers_step [OF ok(3)]) (use S new spl par in \<open>auto simp: w'\<close>)
  qed
qed

lemma forget_fields [simp]:
  "w_active (forget p w) = w_active w" "windowLeaves (forget p w) = windowLeaves w"
  "windowSplitters (forget p w) = windowSplitters w" "struct_ok (forget p w) = struct_ok w"
  "w_tabs (forget p w) = w_tabs w"
  by (simp_all add: forget_def)

lemma map_of_forget: "q \<noteq> p \<Longrightarrow> map_of (w_pickers (forget p w)) q = map_of (w_pickers w) q"
proof -
  assume "q \<noteq> p"
  then have "map_of (filter (\<lambda>e. fst e \<noteq> p) es) q = map_of es q" for es :: "(nat \<times> nat \<times> nat) list"
    by (induction es) auto
  then show ?thesis by (simp add: forget_def)
qed

lemma forget_next [simp]: "w_next (forget p w) = w_next w"
  by (simp add: forget_def)

lemma windowParents_forget [simp]: "windowParents x (forget p w) = windowParents x w"
  by (simp add: windowParents_def)

text \<open>A picker that can be answered is still in the splitter its lambdas captured.\<close>

lemma captured_attached:
  assumes "win_ok w" and "captured p b w = Some (s, e)" and "findTab (Picker p) w = Some i"
  shows "parentSplitter (Picker p) (snd (w_tabs w ! i)) = Some s"
proof -
  have ok: "struct_ok w" "pickers_ok w" using assms(1) by (simp_all add: win_ok_def)
  have "map_of (w_pickers w) p = Some (s, e)" "s \<in> set (windowSplitters w)"
    using assms(2) by (auto simp: captured_def bind_eq_Some_conv split: if_splits)
  moreover have "Picker p \<in> set (windowLeaves w)" using assms(3) findTab_None [of "Picker p" w] by auto
  ultimately have "s \<in> set (windowParents (Picker p) w)"
    using ok(2) unfolding pickers_ok_def by fastforce
  then show ?thesis by (intro parentSplitter_eq [OF ok(1) assms(3)]) simp_all
qed

lemma pickerChosen_spec:
  assumes "win_ok w" and "pickerChosen p dup w = Some w'" and "findTab (Picker p) w = Some i"
  shows "win_ok w'"
    "mset (windowLeaves w') = add_mset (View (w_next w)) (mset (windowLeaves w) - {#Picker p#})"
proof -
  have ok: "struct_ok w" "active_ok w" "pickers_ok w" using assms(1) by (simp_all add: win_ok_def)
  obtain s e where se: "captured p dup w = Some (s, e)"
    using assms(2,3) by (auto simp: pickerChosen_def bind_eq_Some_conv)
  note par = captured_attached [OF assms(1) se assms(3)]
  note i = findTab_Some(1) [OF assms(3)]
  let ?n = "w_next w"
  let ?w1 = "updateTab i (replaceLeaf (Picker p) (View ?n)) w"
  have w': "w' = forget p (?w1\<lparr>w_next := ?n + 1\<rparr>)"
    using assms(2,3) se par by (auto simp: pickerChosen_def Let_def)
  have rep: "struct_ok (?w1\<lparr>w_next := ?n + 1\<rparr>)"
    "mset (windowLeaves ?w1) = (mset (windowLeaves w) - {#Picker p#}) + mset (leaves (View ?n))"
    using replaced [OF ok(1) assms(3), of "View ?n" "[View ?n]" "?n + 1"] not_numbered [OF ok(1)]
    by (auto simp: numbered_def)
  show L: "mset (windowLeaves w') = add_mset (View ?n) (mset (windowLeaves w) - {#Picker p#})"
    using rep(2) by (simp add: w')
  have d: "distinct (windowLeaves w)" using ok(1) by (simp add: struct_ok_def)
  have S: "l \<in> set (windowLeaves w') \<longleftrightarrow> l = View ?n \<or> l \<in> set (windowLeaves w) \<and> l \<noteq> Picker p" for l
    using L in_minus [OF d, of l "Picker p"] by (metis insert_iff set_mset_add_mset_insert set_mset_mset)
  have spl: "set (windowSplitters ?w1) \<subseteq> set (windowSplitters w)"
    using update_splitters [OF i, of "replaceLeaf (Picker p) (View ?n)"]
      splitters_replaced [of "Picker p" "View ?n" "snd (w_tabs w ! i)"] splitters_in_window [OF i]
    by auto
  have keep: "u \<in> set (windowParents (Picker q) ?w1)"
    if "q \<noteq> p" "u \<in> set (windowParents (Picker q) w)" for q u
    using windowParents_update [OF i that(2)] parents_replaceLeaf [of "Picker q" "Picker p"] that(1) by simp
  show "win_ok w'"
  proof (rule win_okI)
    show "struct_ok w'" using rep(1) by (simp add: w')
    show "active_ok w'" using ok(2) S by (auto simp: active_ok_def w')
    show "pickers_ok w'"
      by (rule pickers_step [OF ok(3)])
        (use S spl keep map_of_forget in \<open>auto simp: w'\<close>)
  qed
qed

lemma pickerCancelled_spec:
  assumes "win_ok w" and "pickerCancelled p w = Some w'" and "findTab (Picker p) w = Some i"
  shows "win_ok w'" "mset (windowLeaves w') = mset (windowLeaves w) - {#Picker p#}"
proof -
  have ok: "struct_ok w" "active_ok w" "pickers_ok w" using assms(1) by (simp_all add: win_ok_def)
  obtain s e where se: "captured p True w = Some (s, e)"
    and w': "w' = forget p (collapseAt i s (updateTab i (takeOut (Picker p)) w))"
    using assms(2,3) by (auto simp: pickerCancelled_def bind_eq_Some_conv)
  note par = captured_attached [OF assms(1) se assms(3)]
  note r = removed [OF ok(1) assms(3) _ par refl]
  note rp = removed_parents [where sp = s, OF ok(1) assms(3) _ _ _ refl]
  show L: "mset (windowLeaves w') = mset (windowLeaves w) - {#Picker p#}"
    using r(2) by (simp add: w')
  have d: "distinct (windowLeaves w)" using ok(1) by (simp add: struct_ok_def)
  have S: "l \<in> set (windowLeaves w') \<longleftrightarrow> l \<in> set (windowLeaves w) \<and> l \<noteq> Picker p" for l
    using L in_minus [OF d, of l "Picker p"] by (metis set_mset_mset)
  let ?w1 = "collapseAt i s (updateTab i (takeOut (Picker p)) w)"
  have spl: "set (windowSplitters ?w1) \<subseteq> set (windowSplitters w)"
    by (rule rp(1) [of "View 0"]) simp_all
  have keep: "u \<in> set (windowParents (Picker q) ?w1)"
    if "q \<noteq> p" "u \<in> set (windowParents (Picker q) w)" "u \<in> set (windowSplitters ?w1)" for q u
    using rp(2) [of "Picker q" u] that by simp
  show "win_ok w'"
  proof (rule win_okI)
    show "struct_ok w'" using r(1) by (simp add: w')
    show "active_ok w'" using ok(2) S r(3) by (auto simp: active_ok_def w')
    show "pickers_ok w'"
      by (rule pickers_step [OF ok(3)])
        (use S spl keep r(4,5) map_of_forget in \<open>auto simp: w'\<close>)
  qed
qed

lemma movePane_swap:
  assumes "win_ok w" and "findTab (View a) w = Some i" and "View b \<in> set (leaves (snd (w_tabs w ! i)))"
    and "a \<noteq> b"
  shows "struct_ok (updateTab i (swapViews a b) w)"
    "mset (windowLeaves (updateTab i (swapViews a b) w)) = mset (windowLeaves w)"
proof -
  have ok: "struct_ok w" using assms(1) by (simp add: win_ok_def)
  let ?t = "snd (w_tabs w ! i)"
  note i = findTab_Some [OF assms(2)]
  note t = tab_ok [OF ok i(1)]
  have bij: "inj_on (swapLeaf a b) (set (leaves ?t))"
    by (rule inj_onI) (auto simp: swapLeaf_def split: pane_tree.splits if_splits)
  have "set (map (swapLeaf a b) (leaves ?t)) \<subseteq> set (leaves ?t)"
    using i(2) assms(3) by (auto simp: swapLeaf_def split: pane_tree.splits)
  then have eq: "set (map (swapLeaf a b) (leaves ?t)) = set (leaves ?t)"
    using bij by (simp add: endo_inj_surj)
  have dm: "distinct (map (swapLeaf a b) (leaves ?t))" using t(1) bij by (simp add: distinct_map)
  have lv: "mset (leaves (swapViews a b ?t)) = mset (leaves ?t)"
    unfolding leaves_swapViews
    by (rule set_eq_iff_mset_eq_distinct [THEN iffD1, OF dm t(1) eq])
  show "mset (windowLeaves (updateTab i (swapViews a b) w)) = mset (windowLeaves w)"
    using updateTab_tabs(1) [OF i(1), of "swapViews a b"] lv by simp
  have "struct_ok ((updateTab i (swapViews a b) w)\<lparr>w_next := w_next w\<rparr>)"
    using struct_update(1) [OF ok i(1), of "swapViews a b" "[]" "[]" "w_next w"] lv
      shaped_swapViews [OF t(3)] by simp
  moreover have "(updateTab i (swapViews a b) w)\<lparr>w_next := w_next w\<rparr> = updateTab i (swapViews a b) w"
    by (simp add: updateTab_def)
  ultimately show "struct_ok (updateTab i (swapViews a b) w)" by simp
qed

lemma dropped:
  assumes "struct_ok w" and "i < length (w_tabs w)" and "View target \<in> set (leaves (snd (w_tabs w ! i)))"
    and "View source \<notin> set (windowLeaves w)" and "source < w_next w"
    and w2: "w2 = updateTab i (dropBeside (w_next w) d after (View source) (View target)) w"
  shows "struct_ok (w2\<lparr>w_next := w_next w + 1\<rparr>)"
    "mset (windowLeaves w2) = add_mset (View source) (mset (windowLeaves w))"
proof -
  let ?t = "snd (w_tabs w ! i)" and ?n = "w_next w"
  let ?f = "dropBeside ?n d after (View source) (View target)"
  note t = tab_ok [OF assms(1,2)]
  have "mset (leaves (?f ?t)) = (mset (leaves ?t) - {#View target#}) + mset (beside after (View target) (View source))"
    using mset_subst [OF t(1) assms(3), of "\<lambda>l. beside after l (View source)"] t(1)
    by (simp add: leaves_dropBeside)
  moreover have "mset (beside after (View target) (View source)) = {#View target, View source#}"
    by (simp add: beside_def)
  ultimately have lv: "mset (leaves (?f ?t)) =
      (mset (leaves ?t) - {#View target#}) + {#View target, View source#}" by simp
  have "mset (leaves ?t) = add_mset (View target) (mset (leaves ?t) - {#View target#})"
    using assms(3) by simp
  then have lv2: "mset (leaves (?f ?t)) = mset (leaves ?t) + mset [View source]"
    using lv by (metis add_mset_add_single mset.simps union_mset_add_mset_left union_mset_add_mset_right add_mset_commute)
  have "count (mset (leaves ?t)) (View target) = 1"
    using t(1) assms(3) by (simp add: distinct_count_atmost_1)
  then have sp: "mset (splitters (?f ?t)) \<subseteq># mset (splitters ?t) + mset [?n]"
    using splitters_dropBeside [of "View source" "View target" ?n d after ?t] by simp
  show "struct_ok (w2\<lparr>w_next := ?n + 1\<rparr>)"
    unfolding w2
    using struct_update(1) [OF assms(1,2), of ?f "[View source]" "[?n]" "?n + 1"] lv2 sp
      shaped_dropBeside [of "View source" "View target" ?t ?n d after] t(3) assms(4,5)
      not_numbered(3) [OF assms(1), of ?n]
    by (simp add: numbered_def)
  have "mset (windowLeaves w2) + mset (leaves ?t) = mset (windowLeaves w) + (mset (leaves ?t) + {#View source#})"
    using updateTab_tabs(1) [OF assms(2), of ?f] lv2 by (simp add: w2)
  then show "mset (windowLeaves w2) = add_mset (View source) (mset (windowLeaves w))"
    by (simp add: ac_simps)
qed

lemma splitters_dropped:
  "set (splitters (dropBeside n d after (View a) (View b) t)) \<subseteq> insert n (set (splitters t))"
  using set_mset_mono [OF splitters_dropBeside [of "View a" "View b" n d after t]]
  by (auto split: if_splits)

lemma windowParents_splitters: "s \<in> set (windowParents x w) \<Longrightarrow> s \<in> set (windowSplitters w)"
  unfolding in_windowParents windowSplitters_def by (auto dest: parent_in_splitters)

lemma movePane_spec:
  assumes "win_ok w"
  shows "win_ok (movePane a b zone w)" "mset (windowLeaves (movePane a b zone w)) = mset (windowLeaves w)"
proof -
  have ok: "struct_ok w" "active_ok w" "pickers_ok w" using assms by (simp_all add: win_ok_def)
  let ?goal = "win_ok (movePane a b zone w) \<and>
      mset (windowLeaves (movePane a b zone w)) = mset (windowLeaves w)"
  have ?goal
  proof (cases "movePane a b zone w = w")
    case True
    then show ?thesis using assms by simp
  next
    case moved: False
    then obtain i where i: "findTab (View a) w = Some i" "findTab (View b) w = Some i" and ab: "a \<noteq> b"
      and par: "parentSplitter (View a) (snd (w_tabs w ! i)) \<noteq> None"
      by (auto simp: movePane_def Let_def split: option.splits if_splits)
    have a: "View a \<in> set (windowLeaves w)" using findTab_None [of "View a" w] i(1) by auto
    obtain s where s: "parentSplitter (View a) (snd (w_tabs w ! i)) = Some s" using par by auto
    have "parentSplitter (View b) (snd (w_tabs w ! i)) \<noteq> None"
      using moved i ab by (auto simp: movePane_def Let_def split: if_splits)
    then obtain s' where pb: "parentSplitter (View b) (snd (w_tabs w ! i)) = Some s'" by auto
    have finish: ?thesis
      if m: "struct_ok (movePane a b zone w)" "w_active (movePane a b zone w) = Some a"
        "w_pickers (movePane a b zone w) = w_pickers w"
        "mset (windowLeaves (movePane a b zone w)) = mset (windowLeaves w)"
        "w_next w \<le> w_next (movePane a b zone w)"
        "set (windowSplitters (movePane a b zone w)) \<subseteq> set (windowSplitters w) \<union> {w_next w ..}"
        "\<And>p u. u \<in> set (windowParents (Picker p) w) \<Longrightarrow> u \<in> set (windowSplitters (movePane a b zone w)) \<Longrightarrow>
          u \<in> set (windowParents (Picker p) (movePane a b zone w))"
    proof -
      have S: "set (windowLeaves (movePane a b zone w)) = set (windowLeaves w)"
        using m(4) by (rule mset_eq_setD)
      have "pickers_ok (movePane a b zone w)"
        by (rule pickers_step [OF ok(3) m(5,6)]) (use m(3,7) S in auto)
      then have "win_ok (movePane a b zone w)"
        using m a S by (simp add: win_ok_def active_ok_def)
      then show ?thesis using m(4) by simp
    qed
    have ti: "i < length (w_tabs w)" by (rule findTab_Some(1) [OF i(1)])
    show ?thesis
    proof (cases "zone = Swap")
      case True
      have m: "movePane a b zone w = (updateTab i (swapViews a b) w)\<lparr>w_active := Some a\<rparr>"
        using i ab s pb True by (simp add: movePane_def Let_def)
      note sw = movePane_swap [OF assms i(1) findTab_Some(2) [OF i(2)] ab]
      have spl: "set (windowSplitters (updateTab i (swapViews a b) w)) \<subseteq> set (windowSplitters w)"
        using update_splitters [OF ti, of "swapViews a b"] splitters_in_window [OF ti] by auto
      have keep: "u \<in> set (windowParents (Picker p) (updateTab i (swapViews a b) w))"
        if "u \<in> set (windowParents (Picker p) w)" for p u
        using windowParents_update [OF ti that] parents_swapViews by simp
      show ?thesis by (rule finish) (use spl keep in \<open>auto simp: m sw\<close>)
    next
      case False
      let ?w1 = "collapseAt i s (updateTab i (takeOut (View a)) w)"
      let ?w2 = "updateTab i (dropBeside (w_next w) (dropOrientation zone) (dropAfter zone) (View a) (View b)) ?w1"
      note r = removed [OF ok(1) i(1) _ s refl]
      note rp = removed_parents [where sp = s, OF ok(1) i(1) _ _ _ refl]
      have d: "distinct (windowLeaves w)" using ok(1) by (simp add: struct_ok_def)
      have i1: "i < length (w_tabs ?w1)" using r(6) findTab_Some(1) [OF i(1)] by simp
      have b1: "View b \<in> set (leaves (snd (w_tabs ?w1 ! i)))"
        using r(7) findTab_Some(2) [OF i(2)] ab by simp
      have a1: "View a \<notin> set (windowLeaves ?w1)"
        using r(2) in_minus [OF d, of "View a" "View a"] by (metis is_leaf.simps(2) set_mset_mset)
      have an: "a < w_next ?w1" using a ok(1) r(5) by (auto simp: struct_ok_def numbered_def)
      note dr = dropped [OF r(1) i1 b1 a1 an refl]
      obtain c where m: "movePane a b zone w = ?w2\<lparr>w_active := Some a, w_next := w_next w + 1, w_current := c\<rparr>"
        using i ab s pb False r(5) by (simp add: movePane_def Let_def)
      have "struct_ok (?w2\<lparr>w_next := w_next w + 1\<rparr>)" using dr(1) r(5) by simp
      then have "struct_ok (movePane a b zone w)" by (simp add: m struct_ok_def)
      moreover have "mset (windowLeaves ?w2) = mset (windowLeaves w)"
        using dr(2) r(2,5) a by simp
      moreover have spl1: "set (windowSplitters ?w1) \<subseteq> set (windowSplitters w)"
        using rp(1) [of "Picker 0"] by simp
      moreover have spl2: "set (windowSplitters ?w2) \<subseteq> insert (w_next w) (set (windowSplitters ?w1))"
        using update_splitters [OF i1] splitters_in_window [OF i1] splitters_dropped by fastforce
      moreover have "u \<in> set (windowParents (Picker p) ?w2)"
        if u: "u \<in> set (windowParents (Picker p) w)" "u \<in> set (windowSplitters ?w2)" for p u
      proof -
        have "u < w_next w" using u(1) windowParents_splitters ok(1) by (fastforce simp: struct_ok_def)
        then have "u \<in> set (windowSplitters ?w1)" using spl2 u(2) by auto
        then have "u \<in> set (windowParents (Picker p) ?w1)" using rp(2) [of "Picker p" u] u(1) by simp
        then show ?thesis
          using windowParents_update [OF i1] parents_dropBeside [of "Picker p" "View b"] by simp
      qed
      ultimately show ?thesis using r(4) by (intro finish) (auto simp: m)
    qed
  qed
  then show "win_ok (movePane a b zone w)"
    "mset (windowLeaves (movePane a b zone w)) = mset (windowLeaves w)" by simp_all
qed

lemma struct_ok_sub:
  assumes "struct_ok w" and "mset (windowLeaves w') \<subseteq># mset (windowLeaves w)"
    and "mset (windowSplitters w') \<subseteq># mset (windowSplitters w)"
    and "set (w_tabs w') \<subseteq> set (w_tabs w)" and "w_next w' = w_next w"
  shows "struct_ok w'"
  using assms(1,4,5) distinct_submset [OF assms(2)] distinct_submset [OF assms(3)]
    set_mset_mono [OF assms(2)] set_mset_mono [OF assms(3)]
  by (auto simp: struct_ok_def list_all_iff)

lemma mset_drop_nth:
  assumes "i < length xs"
  shows "mset (concat (map f (take i xs @ drop (Suc i) xs))) = mset (concat (map f xs)) - mset (f (xs ! i))"
proof -
  have "mset (concat (map f xs)) = mset (concat (map f (take i xs @ xs ! i # drop (Suc i) xs)))"
    using id_take_nth_drop [OF assms] by simp
  then show ?thesis by simp
qed

lemma nth_in_others: "j \<noteq> i \<Longrightarrow> j < length xs \<Longrightarrow> xs ! j \<in> set (take i xs @ drop (Suc i) xs)"
proof (induction xs arbitrary: i j)
  case (Cons a xs)
  then show ?case by (cases i; cases j) (auto simp: less_Suc_eq_0_disj)
qed simp

lemma closeTab_spec:
  assumes "win_ok w" and "i < length (w_tabs w)"
  shows "win_ok (closeTab i w)"
    "mset (windowLeaves (closeTab i w)) = mset (windowLeaves w) - mset (leaves (snd (w_tabs w ! i)))"
proof -
  have ok: "struct_ok w" "active_ok w" "pickers_ok w" using assms(1) by (simp_all add: win_ok_def)
  let ?t = "snd (w_tabs w ! i)"
  have lt [simp]: "w_tabs (leavesTab i w) = w_tabs w" "w_pickers (leavesTab i w) = w_pickers w"
    "w_next (leavesTab i w) = w_next w"
    by (auto simp: leavesTab_def split: option.split)
  have tabs: "w_tabs (closeTab i w) = take i (w_tabs w) @ drop (Suc i) (w_tabs w)"
    "w_next (closeTab i w) = w_next w" "w_active (closeTab i w) = w_active (leavesTab i w)"
    "w_pickers (closeTab i w) = filter (\<lambda>e. Picker (fst e) \<notin> set (leaves ?t)) (w_pickers w)"
    using assms(2) by (simp_all add: closeTab_def forgetAll_def dropTab_def)
  show L: "mset (windowLeaves (closeTab i w)) = mset (windowLeaves w) - mset (leaves ?t)"
    using mset_drop_nth [OF assms(2), of "\<lambda>t. leaves (snd t)"] by (simp add: windowLeaves_def tabs)
  have M: "mset (windowSplitters (closeTab i w)) = mset (windowSplitters w) - mset (splitters ?t)"
    using mset_drop_nth [OF assms(2), of "\<lambda>t. splitters (snd t)"] by (simp add: windowSplitters_def tabs)
  have d: "distinct (windowLeaves w)" using ok(1) by (simp add: struct_ok_def)
  have S: "l \<in> set (windowLeaves (closeTab i w)) \<longleftrightarrow> l \<in> set (windowLeaves w) \<and> l \<notin> set (leaves ?t)" for l
  proof -
    have c: "count (mset (windowLeaves (closeTab i w))) l =
        count (mset (windowLeaves w)) l - count (mset (leaves ?t)) l" by (simp add: L)
    have "l \<in> set (windowLeaves (closeTab i w)) \<longleftrightarrow>
        0 < count (mset (windowLeaves (closeTab i w))) l" by simp
    also have "\<dots> \<longleftrightarrow> l \<in> set (windowLeaves w) \<and> l \<notin> set (leaves ?t)"
      unfolding c using d tab_ok(1) [OF ok(1) assms(2)] by (auto simp: distinct_count_atmost_1)
    finally show ?thesis .
  qed
  show "win_ok (closeTab i w)"
  proof (rule win_okI)
    show "struct_ok (closeTab i w)"
      by (rule struct_ok_sub [OF ok(1)])
        (auto simp: L M tabs dest: in_set_takeD in_set_dropD)
    show "active_ok (closeTab i w)"
      using ok(2) S by (auto simp: active_ok_def tabs leavesTab_def split: option.splits if_splits)
    have spl: "set (windowSplitters (closeTab i w)) \<subseteq> set (windowSplitters w)"
      using M by (metis diff_subset_eq_self set_mset_mono set_mset_mset)
    have keep: "u \<in> set (windowParents (Picker q) (closeTab i w))"
      if q: "Picker q \<in> set (windowLeaves (closeTab i w))" and u: "u \<in> set (windowParents (Picker q) w)" for q u
    proof -
      obtain j where j: "j < length (w_tabs w)" "u \<in> set (parents (Picker q) (snd (w_tabs w ! j)))"
        using u unfolding in_windowParents by (metis in_set_conv_nth)
      have "Picker q \<in> set (leaves (snd (w_tabs w ! j)))" by (rule parents_leaves [OF j(2)]) simp
      then have "j \<noteq> i" using S q by auto
      then have "w_tabs w ! j \<in> set (w_tabs (closeTab i w))"
        using j(1) unfolding tabs by (rule nth_in_others)
      then show ?thesis using j(2) unfolding in_windowParents by blast
    qed
    have caps: "map_of (filter (\<lambda>e. Picker (fst e) \<notin> L) es) q = map_of es q" if "Picker q \<notin> L"
      for L q and es :: "(nat \<times> nat \<times> nat) list"
      using that by (induction es) auto
    show "pickers_ok (closeTab i w)"
      by (rule pickers_step [OF ok(3)]) (use spl keep S caps in \<open>auto simp: tabs\<close>)
  qed
qed

lemma parents_Nil: "parents x t = [] \<Longrightarrow> x \<in> set (leaves t) \<Longrightarrow> t = x"
  by (induction x t rule: parents.induct) (auto split: if_splits)

lemma viewsOf_sum: "(\<Sum>l \<in># mset ls. mset (viewsOf l)) = mset (concat (map viewsOf ls))"
  by (induction ls) simp_all

lemma views_remove:
  assumes "mset (windowLeaves w1) = mset (windowLeaves w) - {#View v#}"
    and "View v \<in> set (windowLeaves w)"
  shows "mset (windowViews w1) = mset (windowViews w) - {#v#}"
proof -
  define M where "M = mset (windowLeaves w) - {#View v#}"
  have w: "mset (windowLeaves w) = add_mset (View v) M" using assms(2) by (simp add: M_def)
  have w1: "mset (windowLeaves w1) = M" using assms(1) by (simp add: M_def)
  have v: "mset (viewsOf (View v)) = {#v#}" by (simp add: viewsOf_def)
  show ?thesis unfolding windowViews_mset w w1 by (simp add: v)
qed

lemma closePane_spec:
  assumes "win_ok w" and "View v \<in> set (windowLeaves w)"
  shows "win_ok (closePane v w) \<and> mset (windowViews (closePane v w)) = mset (windowViews w) - {#v#}"
proof -
  have ok: "struct_ok w" "active_ok w" "pickers_ok w" using assms(1) by (simp_all add: win_ok_def)
  obtain i where i: "findTab (View v) w = Some i" using assms(2) findTab_None by fastforce
  note b = findTab_Some [OF i]
  let ?t = "snd (w_tabs w ! i)"
  have d: "distinct (windowLeaves w)" using ok(1) by (simp add: struct_ok_def)
  show ?thesis
  proof (cases "length (collectViews ?t) = 1 \<or> parentSplitter (View v) ?t = None")
    case True
    then have c: "closePane v w = closeTab i w"
      using i by (auto simp: closePane_def Let_def)
    have "v \<in> set (collectViews ?t)" using b(2) by simp
    then have l: "collectViews ?t = [v]"
      using True parents_Nil [OF _ b(2)]
      by (cases "collectViews ?t") (auto simp: parentSplitter_def split: list.splits simp del: in_collectViews)
    have "(\<Sum>l \<in># mset (leaves ?t). mset (viewsOf l)) = {#v#}"
      using l by (simp add: viewsOf_sum collectViews_leaves)
    moreover have "mset (windowLeaves w) =
        (mset (windowLeaves w) - mset (leaves ?t)) + mset (leaves ?t)"
      using tab_subset(1) [OF b(1)] by simp
    ultimately have "mset (windowViews w) = mset (windowViews (closeTab i w)) + {#v#}"
      using closeTab_spec(2) [OF assms(1) b(1)]
      by (metis (no_types, lifting) image_mset_union sum_mset.union windowViews_mset)
    then show ?thesis using closeTab_spec(1) [OF assms(1) b(1)] c by simp
  next
    case False
    then obtain s where s: "parentSplitter (View v) ?t = Some s" by auto
    let ?u = "w\<lparr>w_active := None\<rparr>"
    let ?w1 = "collapseAt i s (updateTab i (takeOut (View v)) ?u)"
    have c: "closePane v w = ?w1" using i s False by (simp add: closePane_def Let_def)
    have fi: "findTab (View v) ?u = Some i" using i by (simp add: findTab_def)
    note r = removed [of ?u "View v" i s ?w1, simplified, OF ok(1) fi s]
    have "win_ok ?w1"
    proof (rule win_okI)
      show "struct_ok ?w1" by (rule r(1))
      show "active_ok ?w1" using r(3) by (simp add: active_ok_def)
      have "set (windowLeaves ?w1) \<subseteq> set (windowLeaves w)"
        using r(2) by (metis diff_subset_eq_self set_mset_mono set_mset_mset)
      moreover have "pickers_ok ?u" using ok(3) by (simp add: pickers_ok_def)
      moreover note rp = removed_parents [where sp = s, OF _ fi _ _ _ refl, simplified, OF ok(1)]
      ultimately show "pickers_ok ?w1"
        by (intro pickers_step [of ?u ?w1])
          (use r(4,5) rp(1) [of "Picker 0"] rp(2) in auto)
    qed
    moreover have "mset (windowViews ?w1) = mset (windowViews w) - {#v#}"
      by (rule views_remove [OF r(2) assms(2)])
    ultimately show ?thesis by (simp add: c)
  qed
qed

end
