(* ===== verification/PaneEvents.thy ===== *)
theory PaneEvents
  imports PaneWindow
begin

text \<open>
  The tabs and panes of one window driven by the user's actions, with the properties of every run.
\<close>

datatype tab_event =
    OpenTab string
  | SplitPane orientation
  | DropPane nat nat PaneDropZone
  | ClosePane nat
  | CloseTab nat
  | RenameTab nat "string option"
  | FocusPane "nat option"
  | CancelPicker nat
  | ChoosePicker nat bool

fun tab_step :: "tab_event \<Rightarrow> window \<Rightarrow> window option" where
  "tab_step (OpenTab title) w = Some (addTerminalTab title w)"
| "tab_step (SplitPane d) w = Some (splitActivePane d w)"
| "tab_step (DropPane a b z) w = Some (movePane a b z w)"
| "tab_step (ClosePane v) w = Some (closePane v w)"
| "tab_step (CloseTab i) w = Some (closeTab i w)"
| "tab_step (RenameTab i answer) w = Some (renameTab i answer w)"
| "tab_step (FocusPane f) w = Some (onFocusChanged f w)"
| "tab_step (CancelPicker p) w = pickerCancelled p w"
| "tab_step (ChoosePicker p dup) w = pickerChosen p dup w"

fun tab_run :: "tab_event list \<Rightarrow> window \<Rightarrow> window option" where
  "tab_run [] w = Some w"
| "tab_run (e # es) w = Option.bind (tab_step e w) (tab_run es)"

lemma empty_window_ok [simp]: "win_ok empty_window"
  by (simp add: empty_window_def win_ok_def struct_ok_def active_ok_def pickers_ok_def
      windowLeaves_def windowSplitters_def)

lemma addTerminalTab_spec:
  assumes "win_ok w"
  shows "win_ok (addTerminalTab title w)"
    "windowLeaves (addTerminalTab title w) = windowLeaves w @ [View (w_next w)]"
proof -
  have ok: "struct_ok w" "active_ok w" "pickers_ok w" using assms by (simp_all add: win_ok_def)
  let ?w = "addTerminalTab title w"
  show L: "windowLeaves ?w = windowLeaves w @ [View (w_next w)]"
    by (simp add: addTerminalTab_def windowLeaves_def)
  have M: "windowSplitters ?w = windowSplitters w"
    by (simp add: addTerminalTab_def windowSplitters_def)
  have P: "set (windowParents x ?w) = set (windowParents x w)" for x
    by (simp add: addTerminalTab_def windowParents_def)
  show "win_ok ?w"
  proof (rule win_okI)
    show "struct_ok ?w"
      using ok(1) not_numbered(2) [OF ok(1), of "w_next w"] unfolding struct_ok_def L M
      by (auto simp: addTerminalTab_def numbered_def intro: less_SucI split: pane_tree.splits)
    show "active_ok ?w" using ok(2) unfolding active_ok_def L by (simp add: addTerminalTab_def)
    show "pickers_ok ?w"
      by (rule pickers_step [OF ok(3)]) (auto simp: L M P, simp_all add: addTerminalTab_def)
  qed
qed

lemma renameTab_fields:
  "windowLeaves (renameTab i answer w) = windowLeaves w"
  "windowSplitters (renameTab i answer w) = windowSplitters w"
  "windowParents x (renameTab i answer w) = windowParents x w"
  "map snd (w_tabs (renameTab i answer w)) = map snd (w_tabs w)"
  "w_active (renameTab i answer w) = w_active w" "w_pickers (renameTab i answer w) = w_pickers w"
  "w_next (renameTab i answer w) = w_next w"
proof -
  show m: "map snd (w_tabs (renameTab i answer w)) = map snd (w_tabs w)"
    by (simp add: renameTab_def map_update split: option.split) (metis list_update_id nth_map)
  have e: "concat (map (\<lambda>t. f (snd t)) ts) = concat (map f (map snd ts))"
    for f :: "pane_tree \<Rightarrow> 'b list" and ts :: "(string \<times> pane_tree) list" by (simp add: comp_def)
  show "windowLeaves (renameTab i answer w) = windowLeaves w"
    "windowSplitters (renameTab i answer w) = windowSplitters w"
    "windowParents x (renameTab i answer w) = windowParents x w"
    unfolding windowLeaves_def windowSplitters_def windowParents_def e m by simp_all
qed (auto simp: renameTab_def split: option.split)

lemma renameTab_ok:
  assumes "win_ok w"
  shows "win_ok (renameTab i answer w)"
proof -
  have e: "list_all (\<lambda>t. shaped (snd t)) (w_tabs w) = list_all shaped (map snd (w_tabs w))" for w :: window
    by (simp add: list_all_iff)
  show ?thesis
    using assms unfolding win_ok_def struct_ok_def active_ok_def pickers_ok_def e renameTab_fields .
qed

lemma onFocusChanged_ok: "win_ok w \<Longrightarrow> win_ok (onFocusChanged f w)"
  using findTab_None
  by (auto simp: onFocusChanged_def win_ok_def active_ok_def pickers_ok_def split: option.split)

text \<open>What a step does to the views of the window.\<close>

fun viewsAfter :: "tab_event \<Rightarrow> window \<Rightarrow> nat multiset" where
  "viewsAfter (OpenTab title) w = add_mset (w_next w) (mset (windowViews w))"
| "viewsAfter (ClosePane v) w = mset (windowViews w) - {#v#}"
| "viewsAfter (CloseTab i) w =
     mset (windowViews w) -
     (if i < length (w_tabs w) then mset (collectViews (snd (w_tabs w ! i))) else {#})"
| "viewsAfter (ChoosePicker p dup) w =
     (if findTab (Picker p) w = None then mset (windowViews w)
      else add_mset (w_next w) (mset (windowViews w)))"
| "viewsAfter _ w = mset (windowViews w)"

lemma views_same: "mset (windowLeaves w') = mset (windowLeaves w) \<Longrightarrow> mset (windowViews w') = mset (windowViews w)"
  by (simp add: windowViews_mset)

lemma views_picker_gone:
  assumes "mset (windowLeaves w') = mset (windowLeaves w) - {#Picker p#}"
  shows "mset (windowViews w') = mset (windowViews w)"
proof (cases "Picker p \<in># mset (windowLeaves w)")
  case True
  then obtain M where M: "mset (windowLeaves w) = add_mset (Picker p) M" by (rule multi_member_split [THEN exE])
  have "viewsOf (Picker p) = []" by (simp add: viewsOf_def)
  then show ?thesis using assms by (simp add: windowViews_mset M)
next
  case False
  then show ?thesis using assms by (simp add: windowViews_mset)
qed

lemma tab_step_ok:
  assumes "win_ok w" "tab_step e w = Some w'"
  shows "win_ok w'"
proof (cases e)
  case (SplitPane d)
  show ?thesis
  proof (cases "currentActiveView w")
    case None
    then show ?thesis using assms SplitPane by (simp add: splitActivePane_def)
  next
    case (Some v)
    then show ?thesis using assms SplitPane splitActivePane_spec(1) [OF assms(1) Some, of d] by simp
  qed
next
  case (ClosePane v)
  show ?thesis
  proof (cases "View v \<in> set (windowLeaves w)")
    case True
    then show ?thesis using assms ClosePane closePane_spec [OF assms(1) True] by simp
  next
    case False
    then show ?thesis using assms ClosePane findTab_None [of "View v" w] by (simp add: closePane_def)
  qed
next
  case (CloseTab i)
  then show ?thesis using assms closeTab_spec(1) [OF assms(1), of i] by (cases "i < length (w_tabs w)") (auto simp: closeTab_def)
next
  case (CancelPicker p)
  then show ?thesis using assms pickerCancelled_spec(1) [OF assms(1), of p w']
    by (cases "findTab (Picker p) w") (auto simp: pickerCancelled_def)
next
  case (ChoosePicker p dup)
  then show ?thesis using assms pickerChosen_spec(1) [OF assms(1), of p dup w']
    by (cases "findTab (Picker p) w") (auto simp: pickerChosen_def)
qed (use assms in \<open>auto simp: addTerminalTab_spec movePane_spec renameTab_ok onFocusChanged_ok\<close>)

text \<open>What a step that has no value has done: it answered a picker whose split is gone.\<close>

definition stale_answer :: "tab_event \<Rightarrow> window \<Rightarrow> bool" where
  "stale_answer e w =
     (case e of
        CancelPicker p \<Rightarrow> findTab (Picker p) w \<noteq> None \<and> captured p True w = None
      | ChoosePicker p dup \<Rightarrow> findTab (Picker p) w \<noteq> None \<and> captured p dup w = None
      | _ \<Rightarrow> False)"

lemma step_stale: "tab_step e w = None \<longleftrightarrow> stale_answer e w"
  by (cases e)
    (auto simp: stale_answer_def pickerCancelled_def pickerChosen_def Let_def split: option.splits bind_splits)

text \<open>
  C4. The tabs and panes stay sound under everything the user does: a step that has a value leads to a window
  where every splitter has two children or more, no view, picker or splitter is used twice, the active
  pane is one of the window's, and every picker can still find its split; the only steps that have no
  value answer a picker whose splitter or split pane has been deleted.
\<close>

theorem panes_stay_sound:
  assumes "win_ok w"
  shows "case tab_step e w of Some w' \<Rightarrow> win_ok w' | None \<Rightarrow> stale_answer e w"
  using tab_step_ok [OF assms, of e] step_stale [of e w] by (simp split: option.split)

lemma panes_stay_sound_witness:
  "win_ok (addTerminalTab ''a'' empty_window) \<and>
   (case tab_step (SplitPane Horizontal) (addTerminalTab ''a'' empty_window) of
      Some w' \<Rightarrow> win_ok w' | None \<Rightarrow> stale_answer (SplitPane Horizontal) (addTerminalTab ''a'' empty_window))"
  using addTerminalTab_spec(1) [OF empty_window_ok]
    panes_stay_sound [OF addTerminalTab_spec(1) [OF empty_window_ok]] by blast

lemma viewsOf_view [simp]: "viewsOf (View v) = [v]" "viewsOf (Picker p) = []"
  by (simp_all add: viewsOf_def)

lemma views_closeTab:
  assumes "win_ok w" "i < length (w_tabs w)"
  shows "mset (windowViews (closeTab i w)) = mset (windowViews w) - mset (collectViews (snd (w_tabs w ! i)))"
proof -
  let ?t = "snd (w_tabs w ! i)"
  have "mset (windowLeaves w) = (mset (windowLeaves w) - mset (leaves ?t)) + mset (leaves ?t)"
    using tab_subset(1) [OF assms(2)] by simp
  moreover have "(\<Sum>l \<in># mset (leaves ?t). mset (viewsOf l)) = mset (collectViews ?t)"
    by (simp add: viewsOf_sum collectViews_leaves)
  ultimately have "mset (windowViews w) = mset (windowViews (closeTab i w)) + mset (collectViews ?t)"
    using closeTab_spec(2) [OF assms]
    by (metis (no_types, lifting) image_mset_union sum_mset.union windowViews_mset)
  then show ?thesis by simp
qed

lemma views_added: "mset (windowLeaves w') = add_mset l (mset (windowLeaves w)) \<Longrightarrow>
    mset (windowViews w') = mset (viewsOf l) + mset (windowViews w)"
  by (simp add: windowViews_mset)

text \<open>
  C5. No session is lost or duplicated by the way panes are arranged: opening a tab and a choice in a
  picker add exactly the new view, closing a pane or a tab removes exactly that pane or the panes of
  that tab, and splitting, dropping a pane on any zone of another, cancelling a picker, renaming and
  focusing keep the views of the window.
\<close>

theorem panes_conserved:
  assumes "win_ok w" and "tab_step e w = Some w'"
  shows "mset (windowViews w') = viewsAfter e w"
proof (cases e)
  case (OpenTab t)
  then show ?thesis using assms addTerminalTab_spec(2) [OF assms(1), of t]
    by (simp add: views_added [of _ "View (w_next w)" w, simplified])
next
  case (SplitPane d)
  show ?thesis
  proof (cases "currentActiveView w")
    case None
    then show ?thesis using assms SplitPane by (simp add: splitActivePane_def)
  next
    case (Some v)
    then show ?thesis using assms SplitPane views_added [OF splitActivePane_spec(2) [OF assms(1) Some, of d]] by simp
  qed
next
  case (DropPane a b z)
  then show ?thesis using assms views_same [OF movePane_spec(2) [OF assms(1)]] by auto
next
  case (ClosePane v)
  show ?thesis
  proof (cases "View v \<in> set (windowLeaves w)")
    case True
    then show ?thesis using assms ClosePane closePane_spec [OF assms(1) True] by simp
  next
    case False
    then have "v \<notin># mset (windowViews w)" by simp
    then show ?thesis using assms ClosePane False findTab_None [of "View v" w]
      by (simp add: closePane_def diff_single_trivial)
  qed
next
  case (CloseTab i)
  then show ?thesis using assms views_closeTab [OF assms(1), of i]
    by (cases "i < length (w_tabs w)") (auto simp: closeTab_def)
next
  case (RenameTab i a)
  moreover have "mset (windowViews (renameTab i a w)) = mset (windowViews w)"
    by (rule views_same) (simp add: renameTab_fields(1))
  ultimately show ?thesis using assms by auto
next
  case (FocusPane f)
  then show ?thesis using assms by (auto simp: onFocusChanged_def windowViews_def split: option.splits if_splits)
next
  case (CancelPicker p)
  then show ?thesis using assms views_picker_gone [OF pickerCancelled_spec(2) [OF assms(1), of p w']]
    by (cases "findTab (Picker p) w") (auto simp: pickerCancelled_def)
next
  case (ChoosePicker p dup)
  show ?thesis
  proof (cases "findTab (Picker p) w")
    case None
    then show ?thesis using assms ChoosePicker by (simp add: pickerChosen_def)
  next
    case (Some i)
    have s: "mset (windowLeaves w') = add_mset (View (w_next w)) (mset (windowLeaves w) - {#Picker p#})"
      using assms ChoosePicker pickerChosen_spec(2) [OF assms(1) _ Some] by simp
    have "Picker p \<in> set (windowLeaves w)" using Some findTab_None [of "Picker p" w] by simp
    then obtain M where M: "mset (windowLeaves w) = add_mset (Picker p) M"
      by (metis mset_add set_mset_mset)
    then show ?thesis using s Some ChoosePicker by (simp add: windowViews_mset M)
  qed
qed

lemma panes_conserved_witness:
  "tab_step (CloseTab 0) (addTerminalTab ''a'' empty_window) = Some (empty_window\<lparr>w_next := 1\<rparr>) \<and>
   mset (windowViews (empty_window\<lparr>w_next := 1\<rparr>)) = viewsAfter (CloseTab 0) (addTerminalTab ''a'' empty_window)"
proof -
  have s: "tab_step (CloseTab 0) (addTerminalTab ''a'' empty_window) = Some (empty_window\<lparr>w_next := 1\<rparr>)"
    by (simp add: addTerminalTab_def empty_window_def closeTab_def leavesTab_def dropTab_def
        currentAfterRemove_def forgetAll_def)
  then show ?thesis using panes_conserved [OF addTerminalTab_spec(1) [OF empty_window_ok] s] by simp
qed

lemma run_ok: "win_ok w \<Longrightarrow> tab_run es w = Some w' \<Longrightarrow> win_ok w'"
  by (induction es arbitrary: w) (auto intro: tab_step_ok split: bind_splits)

lemmas pane_defs =
  addTerminalTab_def splitActivePane_def pickerChosen_def pickerCancelled_def captured_def forget_def
  onFocusChanged_def closePane_def closeTab_def collapseAt_def updateTab_def findTab_def
  currentActiveView_def parentSplitter_def windowSplitters_def windowViews_def empty_window_def

text \<open>
  A picker can outlive its split. In a tab with two panes one is split again and closed while the
  picker beside it is still shown: the new splitter, left with the picker alone, is collapsed and
  deleted, and the picker stays in the outer splitter. Its lambdas still hold the deleted splitter
  and, for a cancellation, the closed pane, so there is no answer to it that has a value, although
  the window itself is sound.
\<close>

theorem picker_outlives_its_split:
  "tab_run [OpenTab ''a'', SplitPane Horizontal, ChoosePicker 2 False, FocusPane (Some 0),
            SplitPane Vertical, ClosePane 0] empty_window =
     Some \<lparr>w_tabs = [(''a'', Splitter 1 Horizontal [Picker 5, View 3])], w_current = 0,
           w_active = None, w_pickers = [(5, 4, 0)], w_next = 6\<rparr> \<and>
   tab_step (CancelPicker 5)
     \<lparr>w_tabs = [(''a'', Splitter 1 Horizontal [Picker 5, View 3])], w_current = 0,
      w_active = None, w_pickers = [(5, 4, 0)], w_next = 6\<rparr> = None \<and>
   tab_step (ChoosePicker 5 dup)
     \<lparr>w_tabs = [(''a'', Splitter 1 Horizontal [Picker 5, View 3])], w_current = 0,
      w_active = None, w_pickers = [(5, 4, 0)], w_next = 6\<rparr> = None"
  by (simp add: pane_defs tabAt_def Let_def upt_rec)

text \<open>The close shortcut, with its confirmation, is one of the events above.\<close>

lemma closeActivePane_step:
  "closeActivePane f w = Some w' \<Longrightarrow> w' = w \<or> (\<exists>e. tab_step e w = Some w')"
  by (auto simp: closeActivePane_def split: option.splits intro: exI [of _ "ClosePane v" for v] exI [of _ "CancelPicker p" for p])

lemma confirmCloseActivePane_ok:
  assumes "win_ok w" and "confirmCloseActivePane f yes w = Some w'"
  shows "win_ok w'"
proof -
  have c: "win_ok (closePane v w)" if "win_ok w" for v w
    using tab_step_ok [OF that, of "ClosePane v"] by simp
  have a: "win_ok (w\<lparr>w_active := None\<rparr>)" if "win_ok w" for w
    using that by (simp add: win_ok_def active_ok_def pickers_ok_def)
  have "win_ok (closeTab i w)" for i using tab_step_ok [OF assms(1), of "CloseTab i"] by simp
  moreover have "pickerCancelled p w = Some w' \<Longrightarrow> win_ok w'" for p
    using tab_step_ok [OF assms(1), of "CancelPicker p"] by simp
  ultimately show ?thesis
    using assms c a
    by (auto simp: confirmCloseActivePane_def Let_def split: option.splits list.splits if_splits)
qed

lemma mset_split_nth:
  assumes "i < length xs"
  shows "mset (concat (map f xs)) = mset (concat (map f (take i xs @ drop (Suc i) xs))) + mset (f (xs ! i))"
proof -
  have "mset (concat (map f xs)) = mset (concat (map f (take i xs @ xs ! i # drop (Suc i) xs)))"
    using id_take_nth_drop [OF assms] by simp
  then show ?thesis by simp
qed

lemma transferTab_views:
  assumes "transferTab i (w, d) = (w', d')"
  shows "mset (windowViews w') + mset (windowViews d') = mset (windowViews w) + mset (windowViews d)"
proof (cases "i < length (w_tabs w)")
  case True
  have l: "w_tabs (leavesTab i w) = w_tabs w" by (simp add: leavesTab_def split: option.split)
  show ?thesis
    using assms True l mset_split_nth [OF True, of "\<lambda>t. collectViews (snd t)"]
    by (auto simp: transferTab_def windowViews_def acceptTab_def dropTab_def)
qed (use assms in \<open>simp add: transferTab_def\<close>)

end
