(* ===== verification/PaneSession.thy ===== *)
theory PaneSession
  imports PaneWindow
begin

text \<open>
  Restoring the tabs of a session and capturing them again (\<open>restoreSession()\<close>, \<open>captureSession()\<close>), and
  the icon of a tab.
\<close>

subsection \<open>What building a tree leaves alone\<close>










subsection \<open>A whole session\<close>






lemma worst_from_spec:
  "worst_from w ss =
     (if w = Error \<or> Error \<in> set ss then Error
      else if w = Connecting \<or> Connecting \<in> set ss then Connecting
      else if w = Disconnected \<or> Disconnected \<in> set ss then Disconnected else Connected)"
proof (induction ss arbitrary: w)
  case Nil
  then show ?case by (cases w) auto
next
  case (Cons s ss)
  then show ?case by (cases s; cases w) auto
qed

text \<open>
  The icon of a tab shows the state that needs attention most among its panes, whatever their order:
  an error before a connection attempt, that before a dropped connection, and "connected" only if
  every pane is; a tab without panes keeps its icon.
\<close>

theorem worst_icon:
  "worstState st page =
     (if collectViews page = [] then None
      else Some (if Error \<in> st ` set (collectViews page) then Error
                 else if Connecting \<in> st ` set (collectViews page) then Connecting
                 else if Disconnected \<in> st ` set (collectViews page) then Disconnected
                 else Connected))"
  by (cases "collectViews page") (auto simp: worstState_def worst_from_spec)

end
