(* ===== verification/X11.thy ===== *)
theory X11
  imports Transport
begin

text \<open>
  X11 forwarding of an SSH session (\<open>src/src/transports/ssh/X11Forwarder.{h,cpp}\<close>): the rewriting of
  the authorization in the first packet of a remote X client, and the pump that moves bytes between
  the channels and the local X server.

  A connection logs what it has received on its channel and written to the local server, and what the
  server has given and it has sent on the channel. The answers of
  libssh2 and of the sockets are the arguments of the pump. During any call of libssh2 the server may
  open new channels, whose callback appends to \<open>m_connections\<close>: the pump holds a reference into that
  list, so an append beyond its capacity while it does is undefined (\<open>None\<close>).
\<close>

subsection \<open>The setup packet\<close>

definition kAuthProto :: bytes where
  "kAuthProto = map (\<lambda>c. of_nat (of_char c)) ''MIT-MAGIC-COOKIE-1''"

definition pad4 :: "nat \<Rightarrow> nat" where
  "pad4 n = (n + 3) div 4 * 4"

definition readU16 :: "bytes \<Rightarrow> nat \<Rightarrow> bool \<Rightarrow> 16 word" where
  "readU16 b off little = (if little then be16 (b ! (off + 1)) (b ! off) else be16 (b ! off) (b ! (off + 1)))"

definition writeU16 :: "bytes \<Rightarrow> nat \<Rightarrow> 16 word \<Rightarrow> bool \<Rightarrow> bytes" where
  "writeU16 b off v little =
     b[off := ucast (if little then v AND 0xff else drop_bit 8 v),
       off + 1 := ucast (if little then drop_bit 8 v else v AND 0xff)]"

record x11_conn =
  x_setup :: bytes
  x_setupDone :: bool
  x_toRemote :: bytes
  x_toLocal :: bytes
  x_received :: bytes
  x_written :: bytes
  x_given :: bytes
  x_sent :: bytes

definition new_conn :: x11_conn where
  "new_conn = \<lparr>x_setup = [], x_setupDone = False, x_toRemote = [], x_toLocal = [],
      x_received = [], x_written = [], x_given = [], x_sent = []\<rparr>"

definition padded :: "bytes \<Rightarrow> bytes" where
  "padded b = b @ replicate (pad4 (length b) - length b) 0"

definition processSetup :: "bytes \<Rightarrow> bytes \<Rightarrow> x11_conn \<Rightarrow> bool \<times> x11_conn" where
  "processSetup fakeCookie realCookie c =
     (let b = x_setup c in
      if length b < 12 then (True, c)
      else
        let little = (b ! 0 = 0x6c) in
        if \<not> little \<and> b ! 0 \<noteq> 0x42 then (False, c)
        else
          let nameLen = unat (readU16 b 6 little); dataLen = unat (readU16 b 8 little);
              total = 12 + pad4 nameLen + pad4 dataLen
          in if length b < total then (True, c)
             else if take dataLen (drop (12 + pad4 nameLen) b) \<noteq> fakeCookie then (False, c)
             else
               let head = take 12 b;
                   out = (if realCookie = [] then writeU16 (writeU16 head 6 0 little) 8 0 little
                          else writeU16 (writeU16 head 6 (of_nat (length kAuthProto)) little) 8
                                 (of_nat (length realCookie)) little @ padded kAuthProto @ padded realCookie)
               in (True, c\<lparr>x_toLocal := x_toLocal c @ out @ drop total b, x_setup := [], x_setupDone := True\<rparr>))"

subsection \<open>The pump\<close>

record x11 =
  x_fake :: bytes
  x_real :: bytes
  x_conns :: "x11_conn list"
  x_capacity :: nat
  x_poll :: bool

text \<open>\<open>grow\<close> is the capacity \<open>QList\<close> chooses for a list of that length.\<close>

definition adopt :: "(nat \<Rightarrow> nat) \<Rightarrow> x11 \<Rightarrow> x11" where
  "adopt grow f =
     (let n = length (x_conns f) + 1
      in f\<lparr>x_conns := x_conns f @ [new_conn],
           x_capacity := (if n \<le> x_capacity f then x_capacity f else grow n), x_poll := True\<rparr>)"

text \<open>
  Channels opened during a call, seen by a caller that goes on using its reference: undefined when
  the list has been moved.
\<close>

fun opened :: "(nat \<Rightarrow> nat) \<Rightarrow> nat \<Rightarrow> x11 \<Rightarrow> x11 option" where
  "opened grow 0 f = Some f"
| "opened grow (Suc n) f =
     (if length (x_conns f) < x_capacity f then opened grow n (adopt grow f) else None)"

datatype chan_read = ChanData bytes | ChanAgain | ChanZero bool | ChanError
datatype chan_write = WroteN nat | WriteAgain | WriteError

definition update_conn :: "nat \<Rightarrow> (x11_conn \<Rightarrow> x11_conn) \<Rightarrow> x11 \<Rightarrow> x11" where
  "update_conn i g f = f\<lparr>x_conns := (x_conns f)[i := g (x_conns f ! i)]\<rparr>"

text \<open>One \<open>n > 0\<close> round of the read loop; the result is \<open>processSetup()\<close>'s answer.\<close>

definition gotData :: "bytes \<Rightarrow> bytes \<Rightarrow> bytes \<Rightarrow> x11_conn \<Rightarrow> bool \<times> x11_conn" where
  "gotData fake real d c =
     (let c1 = c\<lparr>x_received := x_received c @ d\<rparr>
      in if x_setupDone c1 then (True, c1\<lparr>x_toLocal := x_toLocal c1 @ d\<rparr>)
         else processSetup fake real (c1\<lparr>x_setup := x_setup c1 @ d\<rparr>))"

text \<open>Each answer of \<open>libssh2_channel_read\<close> with the number of channels opened during the call.\<close>

fun readLoop :: "(nat \<Rightarrow> nat) \<Rightarrow> nat \<Rightarrow> (nat \<times> chan_read) list \<Rightarrow> x11 \<Rightarrow> (bool \<times> x11) option" where
  "readLoop grow i [] f = Some (False, f)"
| "readLoop grow i ((n, r) # rs) f =
     do {
       f1 \<leftarrow> opened grow n f;
       (case r of
          ChanData d \<Rightarrow>
            (case gotData (x_fake f1) (x_real f1) d (x_conns f1 ! i) of
               (ok, c) \<Rightarrow>
                 let f2 = update_conn i (\<lambda>_. c) f1
                 in if ok then readLoop grow i rs f2 else Some (True, f2))
        | ChanAgain \<Rightarrow> Some (False, f1)
        | ChanZero eof \<Rightarrow> Some (eof, f1)
        | ChanError \<Rightarrow> Some (True, f1))
     }"

fun writeLoop :: "(nat \<Rightarrow> nat) \<Rightarrow> nat \<Rightarrow> (nat \<times> chan_write) list \<Rightarrow> x11 \<Rightarrow> (bool \<times> x11) option" where
  "writeLoop grow i [] f = Some (False, f)"
| "writeLoop grow i ((n, r) # rs) f =
     (if x_toRemote (x_conns f ! i) = [] then Some (False, f)
      else do {
        f1 \<leftarrow> opened grow n f;
        (case r of
           WroteN k \<Rightarrow>
             writeLoop grow i rs
               (update_conn i (\<lambda>c. c\<lparr>x_sent := x_sent c @ take k (x_toRemote c),
                                     x_toRemote := drop k (x_toRemote c)\<rparr>) f1)
         | WriteAgain \<Rightarrow> Some (False, f1)
         | WriteError \<Rightarrow> Some (True, f1))
      })"

text \<open>The local socket: its state, how much of \<open>toLocal\<close> a \<open>write()\<close> takes, and \<open>readAll()\<close>.\<close>

record x11_local =
  l_closed :: bool
  l_open :: bool
  l_takes :: nat
  l_gives :: bytes

definition exchangeLocal :: "x11_local \<Rightarrow> x11_conn \<Rightarrow> x11_conn" where
  "exchangeLocal l c =
     c\<lparr>x_written := x_written c @ take (l_takes l) (x_toLocal c),
       x_toLocal := drop (l_takes l) (x_toLocal c),
       x_toRemote := x_toRemote c @ l_gives l, x_given := x_given c @ l_gives l\<rparr>"

text \<open>One round of \<open>pump()\<close>: whether the connection is dead. \<open>pump\<close> goes on until its script ends.\<close>

definition pumpConn ::
    "(nat \<Rightarrow> nat) \<Rightarrow> nat \<Rightarrow> (nat \<times> chan_read) list \<times> x11_local \<times> (nat \<times> chan_write) list \<Rightarrow>
     x11 \<Rightarrow> (bool \<times> x11) option" where
  "pumpConn grow i script f =
     (case script of
        (reads, l, writes) \<Rightarrow>
          do {
            (dead1, f1) \<leftarrow> readLoop grow i reads f;
            let f2 = (if \<not> dead1 \<and> \<not> l_closed l \<and> l_open l then update_conn i (exchangeLocal l) f1 else f1);
            (dead2, f3) \<leftarrow> (if dead1 then Some (True, f2) else writeLoop grow i writes f2);
            Some (dead2 \<or> l_closed l \<and> x_toRemote (x_conns f3 ! i) = [], f3)
          })"

fun pumpFrom ::
    "(nat \<Rightarrow> nat) \<Rightarrow> nat \<Rightarrow>
     ((nat \<times> chan_read) list \<times> x11_local \<times> (nat \<times> chan_write) list) list \<Rightarrow> x11 \<Rightarrow> x11 option" where
  "pumpFrom grow i [] f = Some f"
| "pumpFrom grow i (s # ss) f =
     (if i < length (x_conns f) then
        do {
          (dead, f1) \<leftarrow> pumpConn grow i s f;
          if dead
          then pumpFrom grow i ss (f1\<lparr>x_conns := take i (x_conns f1) @ drop (Suc i) (x_conns f1)\<rparr>)
          else pumpFrom grow (Suc i) ss f1
        }
      else Some f)"

definition pump ::
    "(nat \<Rightarrow> nat) \<Rightarrow> ((nat \<times> chan_read) list \<times> x11_local \<times> (nat \<times> chan_write) list) list \<Rightarrow>
     x11 \<Rightarrow> x11 option" where
  "pump grow script f =
     do {
       f1 \<leftarrow> pumpFrom grow 0 script f;
       Some (if x_conns f1 = [] then f1\<lparr>x_poll := False\<rparr> else f1)
     }"

subsection \<open>What the rewriting does to a stream\<close>

definition enc16 :: "bool \<Rightarrow> 16 word \<Rightarrow> bytes" where
  "enc16 little v =
     (if little then [ucast (v AND 0xff), ucast (drop_bit 8 v)]
      else [ucast (drop_bit 8 v), ucast (v AND 0xff)])"

text \<open>
  A setup packet as the protocol defines it: byte order, an unused byte, the version, the lengths of
  name and data, two unused bytes, name and data each padded to four bytes.
\<close>

definition setup_packet ::
    "bool \<Rightarrow> byte \<Rightarrow> bytes \<Rightarrow> bytes \<Rightarrow> bytes \<Rightarrow> bytes \<Rightarrow> bytes \<Rightarrow> bytes \<Rightarrow> bytes" where
  "setup_packet little u ver unused name pad1 data pad2 =
     [if little then 0x6c else 0x42, u] @ ver @ enc16 little (of_nat (length name)) @
     enc16 little (of_nat (length data)) @ unused @ name @ pad1 @ data @ pad2"

lemma pad4_ge: "n \<le> pad4 n"
  by (simp add: pad4_def)

lemma list4: "length xs = 4 \<Longrightarrow> \<exists>a b c d. xs = [a, b, c, d]"
  by (auto simp: numeral_eq_Suc length_Suc_conv)

lemma list2: "length xs = 2 \<Longrightarrow> \<exists>a b. xs = [a, b]"
  by (auto simp: numeral_eq_Suc length_Suc_conv)

lemma unat_of_nat_16: "n < 65536 \<Longrightarrow> unat (of_nat n :: 16 word) = n"
  by (simp add: unat_of_nat)

lemma rewrite_head:
  "writeU16 (writeU16 ([b0, u, v1, v2, v3, v4] @ enc16 little n @ enc16 little d @ [u1, u2]) 6 a little) 8 b little =
     [b0, u, v1, v2, v3, v4] @ enc16 little a @ enc16 little b @ [u1, u2]"
  by (simp add: writeU16_def enc16_def)

text \<open>
  The first packet of a remote client that presents the throwaway cookie is passed on with the real
  credentials in the place of its own and nothing else changed, in either byte order: byte order,
  version and everything after the packet are kept; without a real cookie the authorization is empty.
\<close>

theorem x11_setup_rewritten:
  assumes "length ver = 4" "length unused = 2"
    and "length name < 65536" "length fake < 65536"
    and "length pad1 = pad4 (length name) - length name" "length pad2 = pad4 (length fake) - length fake"
    and "x_setup c = setup_packet little u ver unused name pad1 fake pad2 @ rest"
  shows "processSetup fake real c =
    (True, c\<lparr>x_toLocal := x_toLocal c @
       (if real = [] then setup_packet little u ver unused [] [] [] []
        else setup_packet little u ver unused kAuthProto [0, 0] real (replicate (pad4 (length real) - length real) 0))
       @ rest, x_setup := [], x_setupDone := True\<rparr>)"
proof -
  obtain v1 v2 v3 v4 where ver: "ver = [v1, v2, v3, v4]" using list4 [OF assms(1)] by blast
  obtain u1 u2 where unused: "unused = [u1, u2]" using list2 [OF assms(2)] by blast
  let ?b = "x_setup c"
  let ?n = "of_nat (length name) :: 16 word" and ?d = "of_nat (length fake) :: 16 word"
  have first: "?b ! 0 = (if little then 0x6c else 0x42)" by (simp add: assms(7) setup_packet_def)
  have l: "(?b ! 0 = 0x6c) = little" by (simp add: first)
  have n: "readU16 ?b 6 little = ?n"
    by (simp add: assms(7) setup_packet_def ver enc16_def readU16_def be16_bytes)
  have d: "readU16 ?b 8 little = ?d"
    by (simp add: assms(7) setup_packet_def ver enc16_def readU16_def be16_bytes)
  have un: "unat ?n = length name" "unat ?d = length fake"
    using assms(3,4) by (simp_all add: unat_of_nat_16)
  have len: "length name + length pad1 = pad4 (length name)" "length fake + length pad2 = pad4 (length fake)"
    using assms(5,6) pad4_ge [of "length name"] pad4_ge [of "length fake"] by simp_all
  have size: "length ?b = 12 + pad4 (length name) + pad4 (length fake) + length rest"
    using len by (simp add: assms(7) setup_packet_def ver unused enc16_def)
  have head: "take 12 ?b = [?b ! 0, u, v1, v2, v3, v4] @ enc16 little ?n @ enc16 little ?d @ unused"
    by (simp add: first assms(7) setup_packet_def ver unused enc16_def)
  have body: "drop 12 ?b = name @ pad1 @ fake @ pad2 @ rest"
    by (simp add: assms(7) setup_packet_def ver unused enc16_def)
  have "drop (12 + pad4 (length name)) ?b = drop (pad4 (length name)) (drop 12 ?b)" by (simp add: add.commute)
  also have "\<dots> = fake @ pad2 @ rest" unfolding body using len(1) [symmetric] by simp
  finally have r: "drop (12 + pad4 (length name)) ?b = fake @ pad2 @ rest" .
  then have cookie: "take (length fake) (drop (12 + pad4 (length name)) ?b) = fake" by simp
  have "drop (12 + pad4 (length name) + pad4 (length fake)) ?b =
      drop (pad4 (length fake)) (drop (12 + pad4 (length name)) ?b)" by (metis add.commute drop_drop)
  also have "\<dots> = drop (length (fake @ pad2)) (fake @ pad2 @ rest)"
    unfolding r by (simp add: len(2) [symmetric])
  finally have tail: "drop (12 + pad4 (length name) + pad4 (length fake)) ?b = rest" by simp
  have second: "(\<not> little \<and> ?b ! 0 \<noteq> 0x42) = False" by (simp add: first)
  have fits: "(length ?b < 12) = False"
    "(length ?b < 12 + pad4 (length name) + pad4 (length fake)) = False" by (simp_all add: size)
  note rw = rewrite_head [of "if little then 0x6c else 0x42" u v1 v2 v3 v4 little ?n ?d u1 u2]
  have out: "(if real = [] then writeU16 (writeU16 (take 12 ?b) 6 0 little) 8 0 little
      else writeU16 (writeU16 (take 12 ?b) 6 (of_nat (length kAuthProto)) little) 8
             (of_nat (length real)) little @ padded kAuthProto @ padded real) =
    (if real = [] then setup_packet little u ver unused [] [] [] []
     else setup_packet little u ver unused kAuthProto [0, 0] real (replicate (pad4 (length real) - length real) 0))"
    unfolding head first unused rw
    by (simp add: setup_packet_def ver padded_def kAuthProto_def pad4_def numeral_2_eq_2)
  show ?thesis
    unfolding processSetup_def Let_def l n d un second fits tail out
    by (simp add: cookie)
qed

definition demo_asking :: x11_conn where
  "demo_asking =
     new_conn\<lparr>x_setup := setup_packet False 0 [0, 11, 0, 0] [0, 0] [5] [0, 0, 0] [1, 2] [0, 0] @ [7]\<rparr>"

lemma x11_setup_rewritten_witness:
  "processSetup [1, 2] [9, 9, 9, 9] demo_asking =
   (True, new_conn\<lparr>x_toLocal :=
      setup_packet False 0 [0, 11, 0, 0] [0, 0] kAuthProto [0, 0] [9, 9, 9, 9] [] @ [7], x_setupDone := True\<rparr>)"
proof -
  have c: "x_setup demo_asking = setup_packet False 0 [0, 11, 0, 0] [0, 0] [5] [0, 0, 0] [1, 2] [0, 0] @ [7]"
    by (simp add: demo_asking_def)
  have "processSetup [1, 2] [9, 9, 9, 9] demo_asking =
      (True, demo_asking\<lparr>x_toLocal := x_toLocal demo_asking @
         (if [9, 9, 9, 9] = ([] :: bytes) then setup_packet False 0 [0, 11, 0, 0] [0, 0] [] [] [] []
          else setup_packet False 0 [0, 11, 0, 0] [0, 0] kAuthProto [0, 0] [9, 9, 9, 9]
                 (replicate (pad4 (length ([9, 9, 9, 9] :: bytes)) - length ([9, 9, 9, 9] :: bytes)) 0)) @ [7],
         x_setup := [], x_setupDone := True\<rparr>)"
    by (rule x11_setup_rewritten [OF _ _ _ _ _ _ c]) (simp_all add: pad4_def)
  then show ?thesis by (simp add: pad4_def demo_asking_def new_conn_def)
qed

subsection \<open>Streams\<close>

text \<open>The outcome of the setup on all bytes received so far: not refused, and the rewritten stream.\<close>

definition setupOut :: "bytes \<Rightarrow> bytes \<Rightarrow> bytes \<Rightarrow> bool \<times> bytes option" where
  "setupOut fake real b =
     (case processSetup fake real (new_conn\<lparr>x_setup := b\<rparr>) of
        (ok, c) \<Rightarrow> (ok, if x_setupDone c then Some (x_toLocal c) else None))"

lemma processSetup_out:
  "processSetup fake real c =
     (fst (setupOut fake real (x_setup c)),
      case snd (setupOut fake real (x_setup c)) of
        None \<Rightarrow> c
      | Some out \<Rightarrow> c\<lparr>x_toLocal := x_toLocal c @ out, x_setup := [], x_setupDone := True\<rparr>)"
  by (simp add: setupOut_def processSetup_def new_conn_def Let_def)

lemma readU16_append: "k + 1 < length b \<Longrightarrow> readU16 (b @ d) k little = readU16 b k little"
  by (simp add: readU16_def nth_append)

definition rewritten_head :: "bytes \<Rightarrow> bool \<Rightarrow> bytes \<Rightarrow> bytes" where
  "rewritten_head real little head =
     (if real = [] then writeU16 (writeU16 head 6 0 little) 8 0 little
      else writeU16 (writeU16 head 6 (of_nat (length kAuthProto)) little) 8
             (of_nat (length real)) little @ padded kAuthProto @ padded real)"

lemma setupOut_eq:
  "setupOut fake real b =
     (let little = (b ! 0 = 0x6c);
          N = unat (readU16 b 6 little); D = unat (readU16 b 8 little); T = 12 + pad4 N + pad4 D
      in if length b < 12 then (True, None)
         else if \<not> little \<and> b ! 0 \<noteq> 0x42 then (False, None)
         else if length b < T then (True, None)
         else if take D (drop (12 + pad4 N) b) \<noteq> fake then (False, None)
         else (True, Some (rewritten_head real little (take 12 b) @ drop T b)))"
  by (simp add: setupOut_def processSetup_def new_conn_def rewritten_head_def Let_def)

lemma setupOut_more:
  assumes "setupOut fake real b = (ok, Some out)"
  shows "setupOut fake real (b @ d) = (ok, Some (out @ d))"
proof -
  define little N D T where "little = (b ! 0 = 0x6c)" and "N = unat (readU16 b 6 little)"
    and "D = unat (readU16 b 8 little)" and "T = 12 + pad4 N + pad4 D"
  note defs = little_def N_def D_def T_def
  have b: "\<not> length b < 12" "\<not> (\<not> little \<and> b ! 0 \<noteq> 0x42)" "\<not> length b < T"
    "take D (drop (12 + pad4 N) b) = fake"
    "ok" "out = rewritten_head real little (take 12 b) @ drop T b"
    using assms unfolding setupOut_eq Let_def little_def [symmetric] N_def [symmetric] D_def [symmetric]
      T_def [symmetric] by (simp_all split: if_splits)
  have n: "(b @ d) ! 0 = b ! 0" using b(1) by (cases b) simp_all
  have r: "readU16 (b @ d) 6 little = readU16 b 6 little" "readU16 (b @ d) 8 little = readU16 b 8 little"
    using b(1) by (simp_all add: readU16_append)
  have "12 + pad4 N + D \<le> length b" using b(3) pad4_ge [of D] by (simp add: T_def)
  then have c: "take D (drop (12 + pad4 N) (b @ d)) = fake" using b(4) by simp
  have t: "take 12 (b @ d) = take 12 b" "drop T (b @ d) = drop T b @ d" using b(1,3) by simp_all
  have len: "(length (b @ d) < 12) = False" "(length (b @ d) < T) = False" using b(1,3) by simp_all
  have "setupOut fake real (b @ d) = (True, Some (rewritten_head real little (take 12 b) @ drop T b @ d))"
    unfolding setupOut_eq Let_def n little_def [symmetric] r N_def [symmetric] D_def [symmetric]
      T_def [symmetric] c t len using b(2) by simp
  then show ?thesis using b(5,6) by simp
qed

text \<open>
  A connection is exact: what was written to the local server, and what is waiting for it, is the
  rewritten stream of what was received; what was sent, and what is waiting, is what the server gave.
\<close>

definition conn_ok :: "bytes \<Rightarrow> bytes \<Rightarrow> x11_conn \<Rightarrow> bool" where
  "conn_ok fake real c \<longleftrightarrow>
     (case snd (setupOut fake real (x_received c)) of
        None \<Rightarrow> \<not> x_setupDone c \<and> x_setup c = x_received c \<and> x_toLocal c = [] \<and> x_written c = []
      | Some out \<Rightarrow> x_setupDone c \<and> x_written c @ x_toLocal c = out) \<and>
     x_sent c @ x_toRemote c = x_given c"

lemma conn_ok_new [simp]: "conn_ok fake real new_conn"
  by (simp add: conn_ok_def setupOut_def processSetup_def new_conn_def)

lemma conn_ok_gotData:
  assumes "conn_ok fake real c"
  shows "conn_ok fake real (snd (gotData fake real d c))"
proof (cases "snd (setupOut fake real (x_received c))")
  case None
  then have c: "\<not> x_setupDone c" "x_setup c = x_received c" "x_toLocal c = []" "x_written c = []"
    "x_sent c @ x_toRemote c = x_given c"
    using assms by (simp_all add: conn_ok_def)
  then show ?thesis
    by (auto simp: gotData_def Let_def processSetup_out conn_ok_def split: option.split)
next
  case (Some out)
  then obtain ok where "setupOut fake real (x_received c) = (ok, Some out)"
    by (cases "setupOut fake real (x_received c)") auto
  then have "setupOut fake real (x_received c @ d) = (ok, Some (out @ d))" by (rule setupOut_more)
  then show ?thesis using assms Some by (auto simp: gotData_def Let_def conn_ok_def)
qed

lemma conn_ok_exchange: "conn_ok fake real c \<Longrightarrow> conn_ok fake real (exchangeLocal l c)"
  by (auto simp: conn_ok_def exchangeLocal_def split: option.splits)

definition x11_ok :: "x11 \<Rightarrow> bool" where
  "x11_ok f \<longleftrightarrow> list_all (conn_ok (x_fake f) (x_real f)) (x_conns f)"

lemma x11_ok_update:
  "x11_ok f \<Longrightarrow> (\<And>c. conn_ok (x_fake f) (x_real f) c \<Longrightarrow> conn_ok (x_fake f) (x_real f) (g c)) \<Longrightarrow>
     i < length (x_conns f) \<Longrightarrow> x11_ok (update_conn i g f)"
  by (auto simp: x11_ok_def update_conn_def list_all_length nth_list_update)

lemma update_conn_fields [simp]:
  "length (x_conns (update_conn i g f)) = length (x_conns f)"
  "x_fake (update_conn i g f) = x_fake f" "x_real (update_conn i g f) = x_real f"
  "x_capacity (update_conn i g f) = x_capacity f"
  by (simp_all add: update_conn_def)

text \<open>Between two states of a call: nothing is lost of the list, the cookies stay.\<close>

definition grown :: "nat \<Rightarrow> x11 \<Rightarrow> x11 \<Rightarrow> bool" where
  "grown n f f' \<longleftrightarrow> x_fake f' = x_fake f \<and> x_real f' = x_real f \<and>
     length (x_conns f) \<le> length (x_conns f') \<and> length (x_conns f') \<le> length (x_conns f) + n \<and>
     x_capacity f' = x_capacity f"

lemma opened_ok:
  "opened grow n f = Some f' \<Longrightarrow> x11_ok f \<Longrightarrow>
     x11_ok f' \<and> grown n f f' \<and> (\<forall>i < length (x_conns f). x_conns f' ! i = x_conns f ! i)"
proof (induction n arbitrary: f)
  case (Suc n)
  have "x11_ok (adopt grow f)" using Suc.prems(2) by (simp add: adopt_def x11_ok_def Let_def)
  moreover have "length (x_conns f) < x_capacity f" "opened grow n (adopt grow f) = Some f'"
    using Suc.prems(1) by (auto split: if_splits)
  ultimately show ?case
    using Suc.IH [of "adopt grow f"] by (auto simp: adopt_def grown_def Let_def nth_append)
qed (simp add: grown_def)

lemma opened_defined: "length (x_conns f) + n \<le> x_capacity f \<Longrightarrow> \<exists>f'. opened grow n f = Some f'"
  by (induction n arbitrary: f) (simp_all add: adopt_def Let_def)

lemma grown_trans: "grown n f g \<Longrightarrow> grown m g h \<Longrightarrow> grown (n + m) f h"
  by (auto simp: grown_def)

lemma grown_update: "grown n f g \<Longrightarrow> grown n f (update_conn i h g)"
  by (auto simp: grown_def)

definition opens :: "(nat \<times> 'a) list \<Rightarrow> nat" where
  "opens rs = sum_list (map fst rs)"

lemma opens_Cons [simp]: "opens ((n, r) # rs) = n + opens rs" "opens [] = 0"
  by (simp_all add: opens_def)

lemma grown_weaken: "grown n f g \<Longrightarrow> n \<le> m \<Longrightarrow> grown m f g"
  by (auto simp: grown_def)

lemma readLoop_ok:
  "readLoop grow i rs f = Some (dead, f') \<Longrightarrow> x11_ok f \<Longrightarrow> i < length (x_conns f) \<Longrightarrow>
     x11_ok f' \<and> grown (opens rs) f f'"
proof (induction grow i rs f arbitrary: dead f' rule: readLoop.induct)
  case (2 grow i n r rs f)
  from 2(2) obtain f1 where o: "opened grow n f = Some f1" by (cases "opened grow n f") auto
  note k = opened_ok [OF o 2(3)]
  have i: "i < length (x_conns f1)" using k 2(4) by (simp add: grown_def)
  show ?case
  proof (cases r)
    case (ChanData d)
    obtain ok c where g: "gotData (x_fake f1) (x_real f1) d (x_conns f1 ! i) = (ok, c)"
      by (cases "gotData (x_fake f1) (x_real f1) d (x_conns f1 ! i)")
    let ?f2 = "update_conn i (\<lambda>_. c) f1"
    have "conn_ok (x_fake f1) (x_real f1) (x_conns f1 ! i)"
      using k i by (simp add: x11_ok_def list_all_length)
    from conn_ok_gotData [OF this, of d] have "conn_ok (x_fake f1) (x_real f1) c" by (simp add: g)
    then have f2: "x11_ok ?f2" using k i by (intro x11_ok_update) auto
    have gr: "grown n f ?f2" using k by (blast intro: grown_update)
    show ?thesis
    proof (cases ok)
      case True
      then have "readLoop grow i rs ?f2 = Some (dead, f')" using 2(2) o ChanData g by simp
      then have "x11_ok f' \<and> grown (opens rs) ?f2 f'" using 2(1) [OF o ChanData g [symmetric] refl True] f2 i by simp
      then show ?thesis using gr grown_trans by auto
    next
      case False
      then show ?thesis using 2(2) o ChanData g f2 gr by (auto intro: grown_weaken)
    qed
  qed (use 2(2) o k in \<open>auto intro: grown_weaken\<close>)
qed (simp add: grown_def)

lemma writeLoop_ok:
  "writeLoop grow i rs f = Some (dead, f') \<Longrightarrow> x11_ok f \<Longrightarrow> i < length (x_conns f) \<Longrightarrow>
     x11_ok f' \<and> grown (opens rs) f f'"
proof (induction grow i rs f arbitrary: dead f' rule: writeLoop.induct)
  case (2 grow i n r rs f)
  show ?case
  proof (cases "x_toRemote (x_conns f ! i) = []")
    case True
    then show ?thesis using 2 by (auto simp: grown_def)
  next
    case False
    with 2(2) obtain f1 where o: "opened grow n f = Some f1" by (cases "opened grow n f") auto
    note k = opened_ok [OF o 2(3)]
    have i: "i < length (x_conns f1)" using k 2(4) by (simp add: grown_def)
    show ?thesis
    proof (cases r)
      case (WroteN m)
      let ?g = "\<lambda>c. c\<lparr>x_sent := x_sent c @ take m (x_toRemote c), x_toRemote := drop m (x_toRemote c)\<rparr>"
      have "x11_ok (update_conn i ?g f1)"
        using k i by (intro x11_ok_update) (auto simp: conn_ok_def split: option.splits)
      moreover have "writeLoop grow i rs (update_conn i ?g f1) = Some (dead, f')"
        using 2(2) False o WroteN by simp
      ultimately have "x11_ok f' \<and> grown (opens rs) (update_conn i ?g f1) f'"
        using 2(1) [OF False o WroteN] i by simp
      moreover have "grown n f (update_conn i ?g f1)" using k by (blast intro: grown_update)
      ultimately show ?thesis using grown_trans by auto
    qed (use 2(2) False o k in \<open>auto intro: grown_weaken\<close>)
  qed
qed (simp add: grown_def)

type_synonym x11_script = "(nat \<times> chan_read) list \<times> x11_local \<times> (nat \<times> chan_write) list"

definition script_opens :: "x11_script \<Rightarrow> nat" where
  "script_opens s = (case s of (reads, l, writes) \<Rightarrow> opens reads + opens writes)"

lemma pumpConn_ok:
  assumes "pumpConn grow i s f = Some (dead, f')" "x11_ok f" "i < length (x_conns f)"
  shows "x11_ok f' \<and> grown (script_opens s) f f'"
proof -
  obtain reads l writes where s: "s = (reads, l, writes)" by (cases s)
  obtain dead1 f1 where r: "readLoop grow i reads f = Some (dead1, f1)"
    using assms(1) by (cases "readLoop grow i reads f") (auto simp: pumpConn_def s)
  note k = readLoop_ok [OF r assms(2,3)]
  let ?f2 = "if \<not> dead1 \<and> \<not> l_closed l \<and> l_open l then update_conn i (exchangeLocal l) f1 else f1"
  have f2: "x11_ok ?f2" "grown (opens reads) f ?f2" "i < length (x_conns ?f2)"
    using k assms(3) by (auto intro: x11_ok_update conn_ok_exchange grown_update simp: grown_def)
  show ?thesis
  proof (cases dead1)
    case True
    then show ?thesis
      using assms(1) r f2 by (auto simp: pumpConn_def s script_opens_def Let_def intro: grown_weaken)
  next
    case False
    then obtain dead2 f3 where w: "writeLoop grow i writes ?f2 = Some (dead2, f3)" "f' = f3"
      using assms(1) r by (cases "writeLoop grow i writes ?f2") (auto simp: pumpConn_def s Let_def)
    then show ?thesis
      using writeLoop_ok [OF w(1) f2(1,3)] grown_trans [OF f2(2)] by (auto simp: s script_opens_def)
  qed
qed

lemma x11_ok_drop: "x11_ok f \<Longrightarrow> x11_ok (f\<lparr>x_conns := take i (x_conns f) @ drop (Suc i) (x_conns f)\<rparr>)"
  by (auto simp: x11_ok_def list_all_iff dest: in_set_takeD in_set_dropD)

lemma x11_ok_poll [simp]: "x11_ok (f\<lparr>x_poll := b\<rparr>) = x11_ok f"
  by (simp add: x11_ok_def)

lemma pumpFrom_ok:
  "pumpFrom grow i ss f = Some f' \<Longrightarrow> x11_ok f \<Longrightarrow>
     x11_ok f' \<and> x_fake f' = x_fake f \<and> x_real f' = x_real f"
proof (induction grow i ss f rule: pumpFrom.induct)
  case (2 grow i s ss f)
  show ?case
  proof (cases "i < length (x_conns f)")
    case True
    then obtain dead f1 where p: "pumpConn grow i s f = Some (dead, f1)"
      using 2(3) by (cases "pumpConn grow i s f") auto
    note k = pumpConn_ok [OF p 2(4) True]
    have fields: "x_fake f1 = x_fake f" "x_real f1 = x_real f" using k by (simp_all add: grown_def)
    show ?thesis
      using 2(1) [OF True p refl] 2(2) [OF True p refl] 2(3) True p k x11_ok_drop [of f1 i] fields
      by (cases dead) auto
  qed (use 2 in simp)
qed simp

text \<open>
  C22. X11 forwarding loses and invents nothing: on every connection the bytes written to the local X
  server, with those still waiting, are the received stream with its authorization rewritten, however
  it was cut into reads and whatever the sockets took, and the bytes sent to the remote client, with
  those still waiting, are what the local server gave.
\<close>

theorem x11_streams_exact:
  assumes "x11_ok f" and "pump grow script f = Some f'"
  shows "x11_ok f'"
proof -
  obtain f1 where f1: "pumpFrom grow 0 script f = Some f1"
    using assms(2) by (cases "pumpFrom grow 0 script f") (simp_all add: pump_def)
  then have "f' = (if x_conns f1 = [] then f1\<lparr>x_poll := False\<rparr> else f1)"
    using assms(2) by (simp add: pump_def)
  then show ?thesis using pumpFrom_ok [OF f1 assms(1)] by simp
qed

definition demo_x11 :: x11 where
  "demo_x11 = \<lparr>x_fake = [1, 2, 3, 4], x_real = [9, 9, 9, 9], x_conns = [new_conn], x_capacity = 4, x_poll = True\<rparr>"

lemma demo_x11_ok [simp]: "x11_ok demo_x11"
  by (simp add: demo_x11_def x11_ok_def)

definition demo_setup :: bytes where
  "demo_setup = setup_packet True 0 [11, 0, 0, 0] [0, 0] [5] [0, 0, 0] [1, 2, 3, 4] []"

lemma x11_streams_exact_witness:
  "(case pump id [([(0, ChanData (take 9 demo_setup)), (0, ChanData (drop 9 demo_setup @ [7]))],
                   \<lparr>l_closed = False, l_open = True, l_takes = 40, l_gives = [3]\<rparr>, [(0, WroteN 1)])] demo_x11 of
      None \<Rightarrow> False
    | Some f \<Rightarrow> x11_ok f \<and> map x_written (x_conns f) =
        [setup_packet True 0 [11, 0, 0, 0] [0, 0] kAuthProto [0, 0] [9, 9, 9, 9] [] @ [7]] \<and>
        map x_sent (x_conns f) = [[3]])"
proof -
  let ?p = "pump id [([(0, ChanData (take 9 demo_setup)), (0, ChanData (drop 9 demo_setup @ [7]))],
                   \<lparr>l_closed = False, l_open = True, l_takes = 40, l_gives = [3]\<rparr>, [(0, WroteN 1)])] demo_x11"
  have "x11_ok f" if "?p = Some f" for f
    using that by (rule x11_streams_exact [OF demo_x11_ok])
  moreover have "?p \<noteq> None \<and> map_option (\<lambda>f. map x_written (x_conns f)) ?p =
      Some [setup_packet True 0 [11, 0, 0, 0] [0, 0] kAuthProto [0, 0] [9, 9, 9, 9] [] @ [7]] \<and>
      map_option (\<lambda>f. map x_sent (x_conns f)) ?p = Some [[3]]"
    by code_simp
  ultimately show ?thesis by (cases ?p) auto
qed

text \<open>
  C23. Only a client that presents the throwaway cookie reaches the local X server: as long as the bytes
  received do not contain it where the setup packet carries the authorization data, nothing is written
  to the local server, the real cookie included.
\<close>

theorem x11_cookie_guard:
  assumes "conn_ok fake real c" and "x_written c \<noteq> []"
  shows "\<exists>little k. take (length fake) (drop k (x_received c)) = fake \<and>
    k = 12 + pad4 (unat (readU16 (x_received c) 6 little)) \<and>
    length fake = unat (readU16 (x_received c) 8 little)"
proof -
  obtain out where "snd (setupOut fake real (x_received c)) = Some out"
    using assms by (auto simp: conn_ok_def split: option.splits)
  moreover define little N D where "little = (x_received c ! 0 = 0x6c)"
    and "N = unat (readU16 (x_received c) 6 little)" and "D = unat (readU16 (x_received c) 8 little)"
  ultimately have b: "\<not> length (x_received c) < 12 + pad4 N + pad4 D"
    "take D (drop (12 + pad4 N) (x_received c)) = fake"
    unfolding setupOut_eq Let_def by (simp_all split: if_splits)
  then have "length fake = D" using pad4_ge [of D] by auto
  then show ?thesis using b(2) by (auto simp: N_def D_def)
qed

lemma x11_cookie_guard_witness:
  "\<exists>little k. take (length ([1, 2, 3, 4] :: bytes)) (drop k demo_setup) = [1, 2, 3, 4] \<and>
     k = 12 + pad4 (unat (readU16 demo_setup 6 little)) \<and>
     length ([1, 2, 3, 4] :: bytes) = unat (readU16 demo_setup 8 little)"
proof -
  let ?c = "snd (gotData [1, 2, 3, 4] [] demo_setup new_conn)"
  let ?d = "exchangeLocal \<lparr>l_closed = False, l_open = True, l_takes = 1, l_gives = []\<rparr> ?c"
  have ok: "conn_ok [1, 2, 3, 4] [] ?d" by (intro conn_ok_exchange conn_ok_gotData conn_ok_new)
  have ne: "x_written ?d \<noteq> []" and r: "x_received ?d = demo_setup" by code_simp+
  show ?thesis using x11_cookie_guard [OF ok ne] unfolding r .
qed

text \<open>
  The last bytes of a remote client are lost: when it sends data and ends its channel before the
  pump runs, the data is read, the end is seen in the same round, and the connection is closed
  without the data having been written to the local server.
\<close>

theorem x11_last_bytes_lost:
  assumes "i < length (x_conns f)" and "x_setupDone (x_conns f ! i)"
  shows "pumpConn grow i ([(0, ChanData d), (0, ChanZero True)], l, ws) f =
    Some (True, update_conn i (\<lambda>c. c\<lparr>x_received := x_received c @ d, x_toLocal := x_toLocal c @ d\<rparr>) f)"
  using assms by (simp add: pumpConn_def gotData_def update_conn_def Let_def)

lemma x11_last_bytes_lost_witness:
  "pumpConn id 0 ([(0, ChanData [8]), (0, ChanZero True)],
      \<lparr>l_closed = False, l_open = True, l_takes = 9, l_gives = []\<rparr>, [])
     (demo_x11\<lparr>x_conns := [new_conn\<lparr>x_setupDone := True\<rparr>]\<rparr>) =
   Some (True, demo_x11\<lparr>x_conns := [new_conn\<lparr>x_setupDone := True, x_received := [8], x_toLocal := [8]\<rparr>]\<rparr>)"
  using x11_last_bytes_lost [of 0 "demo_x11\<lparr>x_conns := [new_conn\<lparr>x_setupDone := True\<rparr>]\<rparr>" id "[8]"]
  by (simp add: update_conn_def new_conn_def)

text \<open>
  A channel opened at the wrong moment breaks the pump: if the server opens an X11 channel while the
  pump reads another one and the list of connections is at its capacity, the pump goes on with a
  reference into memory that has been freed.
\<close>

theorem x11_open_during_pump:
  assumes "x_conns f \<noteq> []" and "length (x_conns f) = x_capacity f"
  shows "pump grow [((Suc n, r) # rs, l, ws)] f = None"
proof -
  have "0 < length (x_conns f)" using assms(1) by simp
  then show ?thesis using assms(2) by (simp add: pump_def pumpConn_def)
qed

lemma x11_open_during_pump_witness:
  "pump id [([(1, ChanAgain)], \<lparr>l_closed = False, l_open = True, l_takes = 0, l_gives = []\<rparr>, [])]
     (demo_x11\<lparr>x_capacity := 1\<rparr>) = None"
  using x11_open_during_pump [of "demo_x11\<lparr>x_capacity := 1\<rparr>" id 0]
  by (simp add: demo_x11_def)

subsection \<open>The local display\<close>

datatype local_server = UnixServer string | TcpServer string "16 word"

text \<open>The text before and after the last colon, if there is one.\<close>

definition lastColon :: "string \<Rightarrow> (string \<times> string) option" where
  "lastColon s =
     (if CHR '':'' \<in> set s
      then Some (rev (tl (dropWhile (\<lambda>c. c \<noteq> CHR '':'') (rev s))), rev (takeWhile (\<lambda>c. c \<noteq> CHR '':'') (rev s)))
      else None)"

text \<open>\<open>num\<close> and \<open>text\<close> are \<open>QString::toInt\<close> and its inverse; \<open>display\<close> is \<open>$DISPLAY\<close>.\<close>

definition loadLocalDisplay ::
    "bool \<Rightarrow> (string \<Rightarrow> int) \<Rightarrow> (int \<Rightarrow> string) \<Rightarrow> string \<Rightarrow> local_server option" where
  "loadLocalDisplay windows num text display =
     (let d = (if display = [] then (if windows then ''localhost:0'' else '':0'') else display)
      in case lastColon d of
           None \<Rightarrow> None
         | Some (host, rest) \<Rightarrow>
             let number = num (takeWhile (\<lambda>c. c \<noteq> CHR ''.'') rest)
             in Some (if \<not> windows \<and> (host = [] \<or> host = ''unix'')
                      then UnixServer (''/tmp/.X11-unix/X'' @ text number)
                      else TcpServer (if host = [] then ''localhost'' else host) (word_of_int (6000 + number))))"

text \<open>The lines of \<open>xauth list\<close>, split into fields; \<open>fromHex\<close> is \<open>QByteArray::fromHex\<close>.\<close>

fun findCookie :: "(bytes \<Rightarrow> bytes) \<Rightarrow> bytes list list \<Rightarrow> bytes" where
  "findCookie fromHex [] = []"
| "findCookie fromHex (ws # lines) =
     (if 3 \<le> length ws \<and> ws ! 1 = kAuthProto \<and> length (fromHex (ws ! 2)) = 16
      then fromHex (ws ! 2) else findCookie fromHex lines)"

lemma findCookie_length: "findCookie fromHex lines = [] \<or> length (findCookie fromHex lines) = 16"
  by (induction lines) auto

lemma lastColon_split:
  assumes "CHR '':'' \<notin> set rest"
  shows "lastColon (host @ '':'' @ rest) = Some (host, rest)"
proof -
  have "dropWhile (\<lambda>c. c \<noteq> CHR '':'') (rev rest @ CHR '':'' # rev host) = CHR '':'' # rev host"
    by (subst dropWhile_append2) (use assms in auto)
  moreover have "takeWhile (\<lambda>c. c \<noteq> CHR '':'') (rev rest @ CHR '':'' # rev host) = rev rest"
    by (subst takeWhile_append2) (use assms in auto)
  ultimately show ?thesis by (simp add: lastColon_def)
qed

lemma local_display_default:
  "loadLocalDisplay False num text [] = Some (UnixServer (''/tmp/.X11-unix/X'' @ text (num ''0'')))"
  by (simp add: loadLocalDisplay_def lastColon_def Let_def)

lemma remote_display:
  assumes "CHR '':'' \<notin> set rest" and "host \<noteq> []" and "host \<noteq> ''unix''" and "CHR ''.'' \<notin> set rest"
  shows "loadLocalDisplay windows num text (host @ '':'' @ rest) =
    Some (TcpServer host (word_of_int (6000 + num rest)))"
proof -
  have "takeWhile (\<lambda>c. c \<noteq> CHR ''.'') rest = rest"
    unfolding takeWhile_eq_all_conv using assms(4) by blast
  then have "num (takeWhile (\<lambda>c. c \<noteq> CHR ''.'') rest) = num rest" by (rule arg_cong)
  then show ?thesis using lastColon_split [OF assms(1), of host] assms(2,3)
    by (simp add: loadLocalDisplay_def Let_def del: takeWhile_eq_all_conv)
qed

end
