(* ===== verification/Ssh.thy ===== *)
theory Ssh
  imports ConnSettings X11
begin

text \<open>
  The SSH connection: \<open>src/src/transports/ssh/SshConnectHelper.cpp\<close> (socket, host key, authentication),
  \<open>SshWorker.{h,cpp}\<close> (the session on its thread) and \<open>SshTransport.cpp\<close> (the pane's side).

  What libssh2, the sockets and the user answer are arguments; what the code asks of them and the
  signals it emits are a log. \<open>windows\<close> selects the half of the file that is compiled. The file of
  known hosts has the type \<open>'k\<close>, with libssh2's operations on it in \<open>hosts_lib\<close>. Error messages are
  values of \<open>ssh_error\<close>.
\<close>

datatype ssh_error =
    NoWinsock | NoSocket | Unresolved string | NotReachable string "16 word" | TimedOut string "16 word"
  | NoSession | HandshakeFailed | NoHostKey | KeyRejected | AuthFailed | Cancelled
  | NoChannel | NoPty | NoShell

datatype credential =
    CredPassword string string
  | CredKey string string string
  | CredKeyboard string string

datatype ssh_effect =
    WsaStartup | WsaCleanup
  | SocketOpened | SocketClosed | SocketBlocking bool | SocketTimeout nat
  | SessionOpened | SessionFreed | ChannelOpened | ChannelFreed
  | AskHostKey bool string nat "bytes option"
  | Authenticate credential
  | AskPassword string string
  | ChannelWrote bytes | PtySize int int | Keepalive
  | SigConnected | SigDisconnected | SigError ssh_error | SigData bytes

subsection \<open>The socket\<close>

datatype connect_rc = ConnectDone | ConnectInProgress | ConnectFailed

record tcp_answers =
  t_startup :: bool
  t_socket :: bool
  t_resolved :: bool
  t_connect :: connect_rc
  t_select :: int
  t_except :: bool

text \<open>An error, or a connected socket; with the calls made.\<close>

definition connectSocketPosix ::
    "tcp_answers \<Rightarrow> string \<Rightarrow> 16 word \<Rightarrow> ssh_error option \<times> ssh_effect list" where
  "connectSocketPosix a host port =
     (let waiting = [SocketOpened, SocketBlocking False];
          ready = waiting @ [SocketBlocking True, SocketTimeout 15]
      in if \<not> t_socket a then (Some NoSocket, [])
         else if \<not> t_resolved a then (Some (Unresolved host), [SocketOpened, SocketClosed])
         else
           (case t_connect a of
              ConnectFailed \<Rightarrow> (Some (NotReachable host port), waiting @ [SocketClosed])
            | ConnectDone \<Rightarrow> (None, ready)
            | ConnectInProgress \<Rightarrow>
                if t_select a \<le> 0 \<or> t_except a
                then (Some (if t_select a = 0 then TimedOut host port else NotReachable host port),
                      waiting @ [SocketClosed])
                else (None, ready)))"

text \<open>The Windows half is the same sequence after \<open>WSAStartup\<close>, which a failure does not take back.\<close>

definition connectSocketWindows ::
    "tcp_answers \<Rightarrow> string \<Rightarrow> 16 word \<Rightarrow> ssh_error option \<times> ssh_effect list" where
  "connectSocketWindows a host port =
     (if \<not> t_startup a then (Some NoWinsock, [])
      else (case connectSocketPosix a host port of (e, fx) \<Rightarrow> (e, WsaStartup # fx)))"

definition connectSocket ::
    "bool \<Rightarrow> tcp_answers \<Rightarrow> string \<Rightarrow> 16 word \<Rightarrow> ssh_error option \<times> ssh_effect list" where
  "connectSocket windows = (if windows then connectSocketWindows else connectSocketPosix)"

lemmas connectSocket_defs = connectSocket_def connectSocketWindows_def connectSocketPosix_def

definition closeSocketAndCleanup :: "bool \<Rightarrow> bool \<Rightarrow> ssh_effect list" where
  "closeSocketAndCleanup windows open_socket =
     (if open_socket then [SocketClosed] else []) @ (if windows then [WsaCleanup] else [])"

subsection \<open>The host key\<close>

datatype check_result = CheckMatch | CheckMismatch | CheckNotFound | CheckFailure

record ('k, 'e) hosts_lib =
  kh_check :: "'k \<Rightarrow> string \<Rightarrow> 16 word \<Rightarrow> nat \<Rightarrow> bytes \<Rightarrow> check_result \<times> 'e option"
  kh_del :: "'e \<Rightarrow> 'k \<Rightarrow> 'k"
  kh_add :: "string \<Rightarrow> nat \<Rightarrow> bytes \<Rightarrow> 'k \<Rightarrow> 'k"

record host_answers =
  h_handshake :: bool
  h_key :: "(bytes \<times> nat) option"
  h_hosts :: bool
  h_fingerprint :: "bytes option"
  h_accept :: bool
  h_writable :: bool

text \<open>\<open>hostKeyTypeMask\<close>: libssh2's known-host bit for its host key type, for the types it lists.\<close>

definition hostKeyTypeMask :: "nat \<Rightarrow> nat" where
  "hostKeyTypeMask t = (if 1 \<le> t \<and> t \<le> 6 \<and> t \<noteq> 2 then t else 0)"

definition handshakeAndVerifyHostKey ::
    "('k, 'e) hosts_lib \<Rightarrow> host_answers \<Rightarrow> string \<Rightarrow> 16 word \<Rightarrow> 'k \<Rightarrow>
     ssh_error option \<times> 'k \<times> ssh_effect list" where
  "handshakeAndVerifyHostKey lib a host port known =
     (if \<not> h_handshake a then (Some HandshakeFailed, known, [])
      else
        (case h_key a of
           None \<Rightarrow> (Some NoHostKey, known, [])
         | Some (key, keyType) \<Rightarrow>
             (let bit = hostKeyTypeMask keyType;
                  (check, entry) = (if h_hosts a then kh_check lib known host port bit key
                                    else (CheckFailure, None))
              in if check = CheckMatch then (None, known, [])
                 else
                   (let asked = [AskHostKey (check = CheckMismatch) host keyType (h_fingerprint a)];
                        kept = (case entry of None \<Rightarrow> known | Some e \<Rightarrow> kh_del lib e known);
                        added = kh_add lib host bit key kept
                    in if \<not> h_accept a then (Some KeyRejected, known, asked)
                       else (None, if h_hosts a \<and> h_writable a then added else known, asked)))))"

subsection \<open>Authentication\<close>

text \<open>\<open>server\<close> tells whether it accepts a credential.\<close>

definition authenticate :: "(credential \<Rightarrow> bool) \<Rightarrow> ssh_settings \<Rightarrow> bool \<times> ssh_effect list" where
  "authenticate server s =
     (let user = sh_username s;
          first = (if authMethod s = AuthPublicKey then CredKey user (privateKeyPath s) (passphrase s)
                   else CredPassword user (sh_password s));
          second = CredKeyboard user (sh_password s)
      in if server first then (True, [Authenticate first])
         else if sh_password s \<noteq> [] then (server second, [Authenticate first, Authenticate second])
         else (False, [Authenticate first]))"

definition kMaxPasswordAttempts :: nat where
  "kMaxPasswordAttempts = 3"

text \<open>
  The retry loop of \<open>start()\<close>. \<open>prompt n\<close> is the answer of the dialog after the n-th attempt,
  \<open>alive\<close> whether the transport still exists.
\<close>

function authLoop ::
    "(nat \<Rightarrow> credential \<Rightarrow> bool) \<Rightarrow> (nat \<Rightarrow> string option) \<Rightarrow> bool \<Rightarrow> nat \<Rightarrow> ssh_settings \<Rightarrow>
     ssh_error option \<times> ssh_settings \<times> ssh_effect list" where
  "authLoop server prompt alive attempt s =
     (case authenticate (server attempt) s of
        (True, fx) \<Rightarrow> (None, s, fx)
      | (False, fx) \<Rightarrow>
          if authMethod s = AuthPassword \<and> attempt < kMaxPasswordAttempts \<and> alive then
            let asked = fx @ [AskPassword (sh_host s) (sh_username s)]
            in (case prompt attempt of
                  None \<Rightarrow> (Some Cancelled, s, asked)
                | Some pw \<Rightarrow>
                    (case authLoop server prompt alive (attempt + 1) (s\<lparr>sh_password := pw\<rparr>) of
                       (e, s', fx') \<Rightarrow> (e, s', asked @ fx')))
          else (Some AuthFailed, s, fx))"
  by pat_completeness auto
termination
  by (relation "measure (\<lambda>(server, prompt, alive, attempt, s). kMaxPasswordAttempts - attempt)") auto

declare authLoop.simps [simp del]

subsection \<open>The worker\<close>

record ssh_worker =
  w_settings :: ssh_settings
  w_socket :: bool
  w_session :: bool
  w_channel :: bool
  w_reader :: bool
  w_writer :: "bool option"
  w_timer :: bool
  w_x11 :: "x11 option"
  w_pending :: bytes
  w_connected :: bool
  w_cols :: int
  w_rows :: int
  w_log :: "ssh_effect list"

definition ssh_worker_initial :: "ssh_settings \<Rightarrow> ssh_worker" where
  "ssh_worker_initial s =
     \<lparr>w_settings = s, w_socket = False, w_session = False, w_channel = False, w_reader = False,
      w_writer = None, w_timer = False, w_x11 = None, w_pending = [], w_connected = False,
      w_cols = 80, w_rows = 24, w_log = []\<rparr>"

definition wlog :: "ssh_effect list \<Rightarrow> ssh_worker \<Rightarrow> ssh_worker" where
  "wlog fx w = w\<lparr>w_log := w_log w @ fx\<rparr>"

definition ssh_teardown :: "bool \<Rightarrow> ssh_worker \<Rightarrow> ssh_worker" where
  "ssh_teardown windows w =
     wlog ((if w_channel w then [ChannelFreed] else []) @ (if w_session w then [SessionFreed] else []) @
           closeSocketAndCleanup windows (w_socket w))
       (w\<lparr>w_connected := False, w_timer := False, w_reader := False, w_writer := None, w_x11 := None,
          w_channel := False, w_session := False, w_socket := False\<rparr>)"

record ssh_answers =
  a_tcp :: tcp_answers
  a_session :: bool
  a_host :: host_answers
  a_server :: "nat \<Rightarrow> credential \<Rightarrow> bool"
  a_prompt :: "nat \<Rightarrow> string option"
  a_alive :: bool
  a_channel :: bool
  a_pty :: bool
  a_shell :: bool
  a_fake :: bytes
  a_real :: bytes

definition openShellChannel :: "ssh_answers \<Rightarrow> ssh_worker \<Rightarrow> bool \<times> ssh_worker" where
  "openShellChannel a w =
     (if \<not> a_channel a then (False, wlog [SigError NoChannel] w)
      else
        let w1 = wlog [ChannelOpened] (w\<lparr>w_channel := True\<rparr>)
        in if \<not> a_pty a then (False, wlog [SigError NoPty] w1)
           else
             let w2 = wlog [PtySize (w_cols w) (w_rows w)]
                   (if forwardX11 (w_settings w1)
                    then w1\<lparr>w_x11 := Some \<lparr>x_fake = a_fake a, x_real = a_real a, x_conns = [],
                                           x_capacity = 0, x_poll = False\<rparr>\<rparr>
                    else w1)
             in if \<not> a_shell a then (False, wlog [SigError NoShell] w2) else (True, w2))"

text \<open>A failure of \<open>start()\<close>; the shell channel has emitted its error itself.\<close>

definition giveUp :: "bool \<Rightarrow> ssh_error option \<Rightarrow> ssh_worker \<Rightarrow> ssh_worker" where
  "giveUp windows e w =
     wlog [SigDisconnected]
       (ssh_teardown windows (case e of None \<Rightarrow> w | Some e \<Rightarrow> wlog [SigError e] w))"

definition ssh_start ::
    "bool \<Rightarrow> ('k, 'e) hosts_lib \<Rightarrow> ssh_answers \<Rightarrow> ssh_worker \<Rightarrow> 'k \<Rightarrow> ssh_worker \<times> 'k" where
  "ssh_start windows lib a w known =
     (let s = w_settings w; host = sh_host s; port = sh_port s in
      case connectSocket windows (a_tcp a) host port of
        (Some e, fx) \<Rightarrow> (giveUp windows (Some e) (wlog fx (w\<lparr>w_socket := False\<rparr>)), known)
      | (None, fx) \<Rightarrow>
          let w1 = wlog fx (w\<lparr>w_socket := True\<rparr>) in
          if \<not> a_session a then (giveUp windows (Some NoSession) (w1\<lparr>w_session := False\<rparr>), known)
          else
            let w2 = wlog [SessionOpened] (w1\<lparr>w_session := True\<rparr>) in
            (case handshakeAndVerifyHostKey lib (a_host a) host port known of
               (Some e, known1, fx1) \<Rightarrow> (giveUp windows (Some e) (wlog fx1 w2), known1)
             | (None, known1, fx1) \<Rightarrow>
                 (case authLoop (a_server a) (a_prompt a) (a_alive a) 1 s of
                    (Some e, s', fx2) \<Rightarrow>
                      (giveUp windows (Some e) (wlog fx2 ((wlog fx1 w2)\<lparr>w_settings := s'\<rparr>)), known1)
                  | (None, s', fx2) \<Rightarrow>
                      (case openShellChannel a (wlog fx2 ((wlog fx1 w2)\<lparr>w_settings := s'\<rparr>)) of
                         (False, w3) \<Rightarrow> (giveUp windows None w3, known1)
                       | (True, w3) \<Rightarrow>
                           (wlog [SocketTimeout 0, SigConnected]
                              (w3\<lparr>w_connected := True, w_reader := True, w_writer := Some False,
                                  w_timer := True\<rparr>), known1)))))"

definition ssh_stop :: "bool \<Rightarrow> ssh_worker \<Rightarrow> ssh_worker" where
  "ssh_stop windows w = wlog [SigDisconnected] (ssh_teardown windows w)"

text \<open>
  Channels opened by the server during a call of libssh2 outside the X11 pump; without forwarding
  they are refused.
\<close>

definition adopted :: "(nat \<Rightarrow> nat) \<Rightarrow> nat \<Rightarrow> ssh_worker \<Rightarrow> ssh_worker" where
  "adopted grow n w = w\<lparr>w_x11 := map_option (adopt grow ^^ n) (w_x11 w)\<rparr>"

text \<open>The answers of \<open>libssh2_channel_write\<close>; \<open>None\<close> dereferences a missing notifier.\<close>

fun pumpWrites :: "bool \<Rightarrow> (nat \<Rightarrow> nat) \<Rightarrow> (nat \<times> chan_write) list \<Rightarrow> ssh_worker \<Rightarrow> ssh_worker option" where
  "pumpWrites windows grow rs w =
     (if w_pending w = [] then
        (if w_writer w = None then None else Some (w\<lparr>w_writer := Some False\<rparr>))
      else
        (case rs of
           [] \<Rightarrow> Some w
         | (n, r) # rs' \<Rightarrow>
             let w1 = adopted grow n w in
             (case r of
                WriteAgain \<Rightarrow> if w_writer w1 = None then None else Some (w1\<lparr>w_writer := Some True\<rparr>)
              | WriteError \<Rightarrow> Some (wlog [SigDisconnected] (ssh_teardown windows w1))
              | WroteN k \<Rightarrow>
                  pumpWrites windows grow rs'
                    (wlog [ChannelWrote (take k (w_pending w1))] (w1\<lparr>w_pending := drop k (w_pending w1)\<rparr>)))))"

declare pumpWrites.simps [simp del]

definition enqueueWrite ::
    "bool \<Rightarrow> (nat \<Rightarrow> nat) \<Rightarrow> bytes \<Rightarrow> (nat \<times> chan_write) list \<Rightarrow> ssh_worker \<Rightarrow> ssh_worker option" where
  "enqueueWrite windows grow data rs w =
     (if \<not> w_connected w then Some w
      else pumpWrites windows grow rs (w\<lparr>w_pending := w_pending w @ data\<rparr>))"

text \<open>The resize is tried again on EAGAIN, twenty times at most: \<open>again k\<close> is the k-th answer.\<close>

definition requestResize :: "int \<Rightarrow> int \<Rightarrow> (nat \<Rightarrow> bool) \<Rightarrow> ssh_worker \<Rightarrow> ssh_worker" where
  "requestResize cols rows again w =
     (let w1 = w\<lparr>w_cols := cols, w_rows := rows\<rparr>;
          tries = min 20 (length (takeWhile again [0 ..< 20]) + 1)
      in if \<not> w_connected w1 \<or> \<not> w_channel w1 then w1
         else wlog (replicate tries (PtySize cols rows)) w1)"

fun readChannel :: "bool \<Rightarrow> (nat \<Rightarrow> nat) \<Rightarrow> (nat \<times> chan_read) list \<Rightarrow> ssh_worker \<Rightarrow> ssh_worker" where
  "readChannel windows grow [] w = w"
| "readChannel windows grow ((n, r) # rs) w =
     (let w1 = adopted grow n w in
      (case r of
         ChanData d \<Rightarrow> readChannel windows grow rs (wlog [SigData d] w1)
       | ChanAgain \<Rightarrow> w1
       | ChanZero eof \<Rightarrow> if eof then wlog [SigDisconnected] (ssh_teardown windows w1) else w1
       | ChanError \<Rightarrow> wlog [SigDisconnected] (ssh_teardown windows w1)))"

definition pumpX11 :: "(nat \<Rightarrow> nat) \<Rightarrow> x11_script list \<Rightarrow> ssh_worker \<Rightarrow> ssh_worker option" where
  "pumpX11 grow xs w =
     (case w_x11 w of
        None \<Rightarrow> Some w
      | Some f \<Rightarrow> map_option (\<lambda>f'. w\<lparr>w_x11 := Some f'\<rparr>) (pump grow xs f))"

definition onReadActivity ::
    "bool \<Rightarrow> (nat \<Rightarrow> nat) \<Rightarrow> x11_script list \<Rightarrow> (nat \<times> chan_read) list \<Rightarrow> ssh_worker \<Rightarrow> ssh_worker option" where
  "onReadActivity windows grow xs rs w =
     (if \<not> w_connected w then Some w
      else do {
        w1 \<leftarrow> pumpX11 grow xs w;
        Some (readChannel windows grow rs w1)
      })"

definition onKeepaliveTimer :: "ssh_worker \<Rightarrow> ssh_worker" where
  "onKeepaliveTimer w = (if w_connected w then wlog [Keepalive] w else w)"

datatype ssh_event =
    EnqueueWrite bytes "(nat \<times> chan_write) list"
  | WriteActivity "(nat \<times> chan_write) list"
  | ReadActivity "x11_script list" "(nat \<times> chan_read) list"
  | Resize int int "nat \<Rightarrow> bool"
  | PumpX11 "x11_script list"
  | KeepaliveTimeout
  | Stop

fun ssh_handle :: "bool \<Rightarrow> (nat \<Rightarrow> nat) \<Rightarrow> ssh_event \<Rightarrow> ssh_worker \<Rightarrow> ssh_worker option" where
  "ssh_handle windows grow (EnqueueWrite d rs) w = enqueueWrite windows grow d rs w"
| "ssh_handle windows grow (WriteActivity rs) w =
     (if w_writer w = None then Some w else pumpWrites windows grow rs w)"
| "ssh_handle windows grow (ReadActivity xs rs) w =
     (if w_reader w then onReadActivity windows grow xs rs w else Some w)"
| "ssh_handle windows grow (Resize c r again) w = Some (requestResize c r again w)"
| "ssh_handle windows grow (PumpX11 xs) w = pumpX11 grow xs w"
| "ssh_handle windows grow KeepaliveTimeout w = Some (if w_timer w then onKeepaliveTimer w else w)"
| "ssh_handle windows grow Stop w = Some (ssh_stop windows w)"

subsection \<open>The transport\<close>

text \<open>What the transport asks of its worker, by queued calls, and what the worker's signals do.\<close>

datatype worker_call = CallStart | CallStop | CallResize int int | CallWrite bytes

record ssh_transport = transport +
  s_calls :: "worker_call list"

definition ssh_transport_initial :: ssh_transport where
  "ssh_transport_initial = \<lparr>m_state = Disconnected, emitted = [], s_calls = []\<rparr>"

definition ssh_call :: "worker_call \<Rightarrow> ssh_transport \<Rightarrow> ssh_transport" where
  "ssh_call c s = s\<lparr>s_calls := s_calls s @ [c]\<rparr>"

datatype ssht_event =
    SshConnect | SshDisconnect | SshResize int int | SshWrite bytes | WorkerSignal ssh_effect

fun onWorkerSignal :: "(ssh_error \<Rightarrow> string) \<Rightarrow> ssh_effect \<Rightarrow> ssh_transport \<Rightarrow> ssh_transport" where
  "onWorkerSignal msg SigConnected s = setState Connected s"
| "onWorkerSignal msg SigDisconnected s = setState Disconnected s"
| "onWorkerSignal msg (SigError e) s = emit (ErrorOccurred (msg e)) s"
| "onWorkerSignal msg (SigData d) s = emit (ReadyRead d) s"
| "onWorkerSignal msg _ s = s"

fun ssht_handle :: "(ssh_error \<Rightarrow> string) \<Rightarrow> ssht_event \<Rightarrow> ssh_transport \<Rightarrow> ssh_transport" where
  "ssht_handle msg SshConnect s = ssh_call CallStart (setState Connecting s)"
| "ssht_handle msg SshDisconnect s = ssh_call CallStop s"
| "ssht_handle msg (SshResize c r) s = ssh_call (CallResize c r) s"
| "ssht_handle msg (SshWrite d) s = ssh_call (CallWrite d) s"
| "ssht_handle msg (WorkerSignal e) s = onWorkerSignal msg e s"

lemma faithful_ssh_call [simp]: "faithful (ssh_call c s) = faithful s"
  by (simp add: faithful_def ssh_call_def)

lemma ssht_handle_faithful [inv_intros]: "faithful s \<Longrightarrow> faithful (ssht_handle msg e s)"
proof (cases e)
  case (WorkerSignal x)
  assume "faithful s"
  then show ?thesis using WorkerSignal by (cases x) simp_all
qed simp_all

interpretation ssht: transport_contract "ssht_handle msg" "\<lambda>s. s = ssh_transport_initial"
  by unfold_locales (auto simp: ssh_transport_initial_def faithful_def intro: ssht_handle_faithful [unfolded faithful_def])

subsection \<open>What a worker owns\<close>

definition balanced :: "ssh_worker \<Rightarrow> bool" where
  "balanced w \<longleftrightarrow>
     count_list (w_log w) SocketOpened = count_list (w_log w) SocketClosed + of_bool (w_socket w) \<and>
     count_list (w_log w) SessionOpened = count_list (w_log w) SessionFreed + of_bool (w_session w) \<and>
     count_list (w_log w) ChannelOpened = count_list (w_log w) ChannelFreed + of_bool (w_channel w)"

definition idle :: "ssh_worker \<Rightarrow> bool" where
  "idle w \<longleftrightarrow> \<not> w_connected w \<and> \<not> w_socket w \<and> \<not> w_session w \<and> \<not> w_channel w \<and> \<not> w_reader w \<and>
     w_writer w = None \<and> \<not> w_timer w \<and> w_x11 w = None"

definition running :: "ssh_worker \<Rightarrow> bool" where
  "running w \<longleftrightarrow> w_connected w \<and> w_socket w \<and> w_session w \<and> w_channel w \<and> w_reader w \<and>
     w_writer w \<noteq> None \<and> w_timer w"

definition worker_ok :: "ssh_worker \<Rightarrow> bool" where
  "worker_ok w \<longleftrightarrow> balanced w \<and> (idle w \<or> running w)"

lemma wlog_fields [simp]:
  "w_settings (wlog fx w) = w_settings w" "w_socket (wlog fx w) = w_socket w"
  "w_session (wlog fx w) = w_session w" "w_channel (wlog fx w) = w_channel w"
  "w_reader (wlog fx w) = w_reader w" "w_writer (wlog fx w) = w_writer w"
  "w_timer (wlog fx w) = w_timer w" "w_x11 (wlog fx w) = w_x11 w" "w_pending (wlog fx w) = w_pending w"
  "w_connected (wlog fx w) = w_connected w" "w_log (wlog fx w) = w_log w @ fx"
  by (simp_all add: wlog_def)

lemma teardown_fields [simp]:
  "w_settings (ssh_teardown b w) = w_settings w" "w_pending (ssh_teardown b w) = w_pending w"
  "w_log (ssh_teardown b w) = w_log w @ (if w_channel w then [ChannelFreed] else []) @
     (if w_session w then [SessionFreed] else []) @ closeSocketAndCleanup b (w_socket w)"
  by (simp_all add: ssh_teardown_def)

lemma idle_teardown [simp]: "idle (ssh_teardown b w)"
  by (simp add: idle_def ssh_teardown_def)

lemma idle_wlog [simp]: "idle (wlog fx w) = idle w"
  by (simp add: idle_def)

lemma balanced_teardown [simp]: "balanced w \<Longrightarrow> balanced (ssh_teardown b w)"
  by (auto simp: balanced_def closeSocketAndCleanup_def) (auto simp: ssh_teardown_def)

text \<open>Effects that open or close nothing.\<close>

definition handle_effect :: "ssh_effect \<Rightarrow> bool" where
  "handle_effect e \<longleftrightarrow>
     e \<in> {SocketOpened, SocketClosed, SessionOpened, SessionFreed, ChannelOpened, ChannelFreed}"

definition neutral :: "ssh_effect list \<Rightarrow> bool" where
  "neutral fx \<longleftrightarrow> list_all (\<lambda>e. \<not> handle_effect e) fx"

lemma neutral_simps [simp]:
  "neutral []" "neutral (e # fx) \<longleftrightarrow> \<not> handle_effect e \<and> neutral fx"
  "neutral (a @ b) \<longleftrightarrow> neutral a \<and> neutral b" "neutral (replicate k e) \<longleftrightarrow> k = 0 \<or> \<not> handle_effect e"
  by (auto simp: neutral_def list_all_iff)

declare handle_effect_def [simp]

lemma balanced_neutral: "neutral fx \<Longrightarrow> balanced (wlog fx w) = balanced w"
proof -
  assume "neutral fx"
  then have "SocketOpened \<notin> set fx" "SocketClosed \<notin> set fx" "SessionOpened \<notin> set fx"
    "SessionFreed \<notin> set fx" "ChannelOpened \<notin> set fx" "ChannelFreed \<notin> set fx"
    unfolding neutral_def list_all_iff by auto
  then show ?thesis by (simp add: balanced_def count_list_0_iff)
qed

lemma stop_ok: "balanced w \<Longrightarrow> idle (wlog [SigDisconnected] (ssh_teardown b w)) \<and>
    balanced (wlog [SigDisconnected] (ssh_teardown b w))"
  by (simp add: balanced_neutral)

lemma giveUp_ok: "balanced w \<Longrightarrow> idle (giveUp b e w) \<and> balanced (giveUp b e w)"
  by (auto simp: giveUp_def stop_ok balanced_neutral split: option.split intro!: stop_ok [THEN conjunct2])

lemma authenticate_neutral: "authenticate server s = (ok, fx) \<Longrightarrow> neutral fx"
  by (auto simp: authenticate_def Let_def split: if_splits)

lemma authLoop_neutral: "authLoop server prompt alive n s = (e, s', fx) \<Longrightarrow> neutral fx"
proof (induction server prompt alive n s arbitrary: e s' fx rule: authLoop.induct)
  case (1 server prompt alive n s)
  obtain ok fx1 where a: "authenticate (server n) s = (ok, fx1)" by (cases "authenticate (server n) s")
  note n = authenticate_neutral [OF a]
  show ?case
  proof (cases "ok \<or> \<not> (authMethod s = AuthPassword \<and> n < kMaxPasswordAttempts \<and> alive) \<or> prompt n = None")
    case True
    then show ?thesis
      using 1(2) n by (subst (asm) authLoop.simps) (auto simp: a Let_def split: bool.splits if_splits)
  next
    case False
    then obtain pw where pw: "prompt n = Some pw" by auto
    obtain e2 s2 fx2 where r: "authLoop server prompt alive (n + 1) (s\<lparr>sh_password := pw\<rparr>) = (e2, s2, fx2)"
      using prod_cases3 by blast
    have "neutral fx2" using 1(1) [OF a [symmetric] _ _ refl pw r] False by auto
    then show ?thesis
      using 1(2) n False pw r by (subst (asm) authLoop.simps) (auto simp: a Let_def)
  qed
qed

lemma handshake_neutral: "handshakeAndVerifyHostKey lib a host port known = (e, known', fx) \<Longrightarrow> neutral fx"
  by (auto simp: handshakeAndVerifyHostKey_def Let_def split: if_splits option.splits prod.splits)

lemma connectSocket_balanced:
  assumes "connectSocket windows a host port = (e, fx)"
  shows "count_list fx SocketOpened = count_list fx SocketClosed + of_bool (e = None) \<and>
    count_list fx SessionOpened = count_list fx SessionFreed \<and>
    count_list fx ChannelOpened = count_list fx ChannelFreed"
  using assms by (auto simp: connectSocket_defs Let_def split: if_splits connect_rc.splits)

lemma connected_balanced:
  assumes "connectSocket windows a host port = (e, fx)" "balanced w" "\<not> w_socket w"
  shows "balanced (wlog fx (w\<lparr>w_socket := (e = None)\<rparr>))"
  using assms connectSocket_balanced [OF assms(1)] by (auto simp: balanced_def)

lemma openShellChannel_ok:
  assumes "openShellChannel a w = (ok, w')" "balanced w" "\<not> w_channel w"
  shows "balanced w' \<and> w_socket w' = w_socket w \<and> w_session w' = w_session w \<and> (ok \<longrightarrow> w_channel w')"
  using assms
  by (auto simp: openShellChannel_def Let_def balanced_neutral split: if_splits) (auto simp: balanced_def)

text \<open>What \<open>start()\<close> adds to the log of an idle worker.\<close>

fun is_signal :: "ssh_effect \<Rightarrow> bool" where
  "is_signal SigConnected = True"
| "is_signal SigDisconnected = True"
| "is_signal (SigError _) = True"
| "is_signal (SigData _) = True"
| "is_signal _ = False"

definition signals :: "ssh_effect list \<Rightarrow> ssh_effect list" where
  "signals = filter is_signal"

lemma signals_simps [simp]:
  "signals [] = []" "signals (e # fx) = (if is_signal e then e # signals fx else signals fx)"
  "signals (a @ b) = signals a @ signals b" "signals (closeSocketAndCleanup w sock) = []"
  by (simp_all add: signals_def closeSocketAndCleanup_def)

text \<open>Effects of the connect, verify and authenticate calls: no signal among them.\<close>

definition silent :: "ssh_effect list \<Rightarrow> bool" where
  "silent fx \<longleftrightarrow> signals fx = []"

lemma connectSocket_silent: "connectSocket windows a host port = (e, fx) \<Longrightarrow> silent fx"
  by (auto simp: connectSocket_defs Let_def silent_def split: if_splits connect_rc.splits)

lemma handshake_silent: "handshakeAndVerifyHostKey lib a host port known = (e, known', fx) \<Longrightarrow> silent fx"
  by (auto simp: handshakeAndVerifyHostKey_def Let_def silent_def
      split: if_splits option.splits prod.splits)

text \<open>The authentication loop does one attempt after another, each but the last followed by a prompt.\<close>

definition prompts :: "ssh_effect list \<Rightarrow> nat" where
  "prompts fx = length (filter (\<lambda>x. case x of AskPassword h u \<Rightarrow> True | _ \<Rightarrow> False) fx)"

fun auth_effect :: "ssh_effect \<Rightarrow> bool" where
  "auth_effect (Authenticate c) = True"
| "auth_effect (AskPassword h u) = True"
| "auth_effect _ = False"

lemma prompts_simps [simp]:
  "prompts [] = 0" "prompts (AskPassword h u # fx) = Suc (prompts fx)"
  "prompts (Authenticate c # fx) = prompts fx" "prompts (a @ b) = prompts a + prompts b"
  by (simp_all add: prompts_def)

lemma authenticate_effects:
  "authenticate server s = (ok, fx) \<Longrightarrow> list_all auth_effect fx \<and> prompts fx = 0"
  by (auto simp: authenticate_def Let_def split: if_splits)

lemma authLoop_effects:
  "authLoop server prompt alive n s = (e, s', fx) \<Longrightarrow>
     list_all auth_effect fx \<and> prompts fx \<le> kMaxPasswordAttempts - n"
proof (induction server prompt alive n s arbitrary: e s' fx rule: authLoop.induct)
  case (1 server prompt alive n s)
  obtain ok fx1 where a: "authenticate (server n) s = (ok, fx1)" by (cases "authenticate (server n) s")
  note n = authenticate_effects [OF a]
  show ?case
  proof (cases "ok \<or> \<not> (authMethod s = AuthPassword \<and> n < kMaxPasswordAttempts \<and> alive) \<or> prompt n = None")
    case True
    then show ?thesis
      using 1(2) n by (subst (asm) authLoop.simps) (auto simp: a Let_def split: bool.splits if_splits)
  next
    case False
    then obtain pw where pw: "prompt n = Some pw" by auto
    obtain e2 s2 fx2 where r: "authLoop server prompt alive (n + 1) (s\<lparr>sh_password := pw\<rparr>) = (e2, s2, fx2)"
      using prod_cases3 by blast
    have "list_all auth_effect fx2 \<and> prompts fx2 \<le> kMaxPasswordAttempts - (n + 1)"
      using 1(1) [OF a [symmetric] _ _ refl pw r] False by auto
    moreover have "fx = fx1 @ [AskPassword (sh_host s) (sh_username s)] @ fx2"
      using 1(2) False pw r by (subst (asm) authLoop.simps) (auto simp: a Let_def)
    ultimately show ?thesis using n False by auto
  qed
qed

lemma auth_effect_signal: "auth_effect x \<Longrightarrow> \<not> is_signal x"
  by (cases x) simp_all

lemma giveUp_signals: "signals (w_log (giveUp b e w)) =
    signals (w_log w) @ (case e of None \<Rightarrow> [] | Some x \<Rightarrow> [SigError x]) @ [SigDisconnected]"
  by (simp add: giveUp_def split: option.split)

lemma openShellChannel_signals:
  "openShellChannel a w = (ok, w') \<Longrightarrow> signals (w_log w') = signals (w_log w) @
     (if ok then [] else [SigError (if \<not> a_channel a then NoChannel else if \<not> a_pty a then NoPty else NoShell)])"
  by (auto simp: openShellChannel_def Let_def split: if_splits)

text \<open>
  C8. Starting an SSH session ends in one of two ways, at whatever step it fails: the worker runs, owns one
  socket, one session and one channel, and has signalled that it is connected; or it is idle again,
  owns nothing any more, and has signalled exactly one error and then that it is disconnected.
\<close>

theorem ssh_start_outcome:
  assumes "idle w" and "balanced w" and "ssh_start windows lib a w known = (w', known')"
  shows "balanced w' \<and>
    (running w' \<and> signals (w_log w') = signals (w_log w) @ [SigConnected] \<or>
     idle w' \<and> (\<exists>e. signals (w_log w') = signals (w_log w) @ [SigError e, SigDisconnected]))"
proof -
  let ?s = "w_settings w" and ?h = "sh_host (w_settings w)" and ?p = "sh_port (w_settings w)"
  obtain e fx where c: "connectSocket windows (a_tcp a) ?h ?p = (e, fx)" by (cases "connectSocket windows (a_tcp a) ?h ?p")
  have off: "\<not> w_socket w" "\<not> w_session w" "\<not> w_channel w" using assms(1) by (simp_all add: idle_def)
  have b1: "balanced (wlog fx (w\<lparr>w_socket := (e = None)\<rparr>))" by (rule connected_balanced [OF c assms(2) off(1)])
  have sx: "signals fx = []" using connectSocket_silent [OF c] by (simp add: silent_def)
  show ?thesis
  proof (cases e)
    case (Some x)
    then show ?thesis
      using assms(3) c b1 sx giveUp_ok [OF b1, of windows "Some x"]
      by (auto simp: ssh_start_def Let_def giveUp_signals)
  next
    case None
    let ?w1 = "wlog fx (w\<lparr>w_socket := True\<rparr>)"
    have b1: "balanced ?w1" using b1 None by simp
    show ?thesis
    proof (cases "a_session a")
      case False
      have "balanced (?w1\<lparr>w_session := False\<rparr>)" using b1 off by (simp add: balanced_def)
      from giveUp_ok [OF this, of windows "Some NoSession"] show ?thesis
        using assms(3) c None False sx
        by (auto simp: ssh_start_def Let_def giveUp_signals)
    next
      case True
      let ?w2 = "wlog [SessionOpened] (?w1\<lparr>w_session := True\<rparr>)"
      have b2: "balanced ?w2" using b1 off by (simp add: balanced_def)
      obtain e1 known1 fx1 where h: "handshakeAndVerifyHostKey lib (a_host a) ?h ?p known = (e1, known1, fx1)"
        using prod_cases3 by blast
      have b3: "balanced (wlog fx1 ?w2)" using b2 handshake_neutral [OF h] by (simp add: balanced_neutral)
      have sx1: "signals fx1 = []" using handshake_silent [OF h] by (simp add: silent_def)
      show ?thesis
      proof (cases e1)
        case (Some x)
        then show ?thesis
          using assms(3) c None True h sx sx1 giveUp_ok [OF b3, of windows "Some x"]
          by (auto simp: ssh_start_def Let_def giveUp_signals)
      next
        case N1: None
        obtain e2 s' fx2 where l: "authLoop (a_server a) (a_prompt a) (a_alive a) 1 ?s = (e2, s', fx2)"
          using prod_cases3 by blast
        let ?w3 = "wlog fx2 ((wlog fx1 ?w2)\<lparr>w_settings := s'\<rparr>)"
        have "balanced ((wlog fx1 ?w2)\<lparr>w_settings := s'\<rparr>)" using b3 by (simp add: balanced_def)
        then have b4: "balanced ?w3" using authLoop_neutral [OF l] by (simp add: balanced_neutral)
        have sx2: "signals fx2 = []"
          using authLoop_effects [OF l] auth_effect_signal
          by (auto simp: signals_def filter_empty_conv list_all_iff)
        show ?thesis
        proof (cases e2)
          case (Some x)
          then show ?thesis
            using assms(3) c None True h N1 l sx sx1 sx2 giveUp_ok [OF b4, of windows "Some x"]
            by (auto simp: ssh_start_def Let_def giveUp_signals)
        next
          case N2: None
          obtain ok w4 where sh: "openShellChannel a ?w3 = (ok, w4)" by (cases "openShellChannel a ?w3")
          note k = openShellChannel_ok [OF sh b4] and sg = openShellChannel_signals [OF sh]
          show ?thesis
          proof (cases ok)
            case False
            then show ?thesis
              using assms(3) c None True h N1 l N2 sh sx sx1 sx2 k sg off giveUp_ok [of w4 windows None]
              by (auto simp: ssh_start_def Let_def giveUp_signals)
          next
            case T: True
            let ?w5 = "wlog [SocketTimeout 0, SigConnected] (w4\<lparr>w_connected := True, w_reader := True, w_writer := Some False, w_timer := True\<rparr>)"
            have "balanced w4" using k off by simp
            then have "balanced ?w5" by (simp add: balanced_def)
            moreover have "running ?w5" using k off T by (simp add: running_def)
            moreover have "w' = ?w5" using assms(3) c None True h N1 l N2 sh T by (simp add: ssh_start_def Let_def)
            ultimately show ?thesis using sg T sx sx1 sx2 by simp
          qed
        qed
      qed
    qed
  qed
qed

subsection \<open>The running session\<close>

fun written :: "ssh_effect list \<Rightarrow> bytes" where
  "written [] = []"
| "written (ChannelWrote d # fx) = d @ written fx"
| "written (_ # fx) = written fx"

lemma written_append [simp]: "written (a @ b) = written a @ written b"
  by (induction a rule: written.induct) simp_all

lemma written_replicate_PtySize [simp]: "written (replicate k (PtySize c r)) = []"
  by (induction k) simp_all

lemma adopted_fields [simp]:
  "w_settings (adopted g n w) = w_settings w" "w_socket (adopted g n w) = w_socket w"
  "w_session (adopted g n w) = w_session w" "w_channel (adopted g n w) = w_channel w"
  "w_reader (adopted g n w) = w_reader w" "w_writer (adopted g n w) = w_writer w"
  "w_timer (adopted g n w) = w_timer w" "w_pending (adopted g n w) = w_pending w"
  "w_connected (adopted g n w) = w_connected w" "w_log (adopted g n w) = w_log w"
  by (simp_all add: adopted_def)

lemma running_fields [simp]:
  "running (adopted g n w) = running w" "running (wlog fx w) = running w"
  "running (w\<lparr>w_pending := d\<rparr>) = running w" "running (w\<lparr>w_x11 := x\<rparr>) = running w"
  "running (w\<lparr>w_cols := c, w_rows := r\<rparr>) = running w"
  by (simp_all add: running_def)

lemma balanced_fields [simp]:
  "balanced (adopted g n w) = balanced w" "balanced (w\<lparr>w_pending := d\<rparr>) = balanced w"
  "balanced (w\<lparr>w_x11 := x\<rparr>) = balanced w" "balanced (w\<lparr>w_writer := y\<rparr>) = balanced w"
  "balanced (w\<lparr>w_cols := c, w_rows := r\<rparr>) = balanced w"
  by (simp_all add: balanced_def)

lemma running_writer: "running w \<Longrightarrow> running (w\<lparr>w_writer := Some b\<rparr>)"
  by (simp add: running_def)

lemma runningD: "running w \<Longrightarrow> w_connected w \<and> w_writer w \<noteq> None \<and> \<not> idle w"
  by (simp add: running_def idle_def)

lemma idleD: "idle w \<Longrightarrow> \<not> w_connected w \<and> w_writer w = None \<and> \<not> w_reader w \<and> \<not> w_timer w \<and> w_x11 w = None"
  by (simp add: idle_def)

text \<open>What a step of a running worker may do: go on, with \<open>d\<close> more to be written, or end.\<close>

definition step_from :: "bytes \<Rightarrow> ssh_worker \<Rightarrow> ssh_worker \<Rightarrow> bool" where
  "step_from d w w' \<longleftrightarrow> balanced w' \<and>
     (running w' \<and> written (w_log w') @ w_pending w' = written (w_log w) @ w_pending w @ d \<or> idle w')"

lemma step_from_ended: "balanced w \<Longrightarrow> step_from d v (wlog [SigDisconnected] (ssh_teardown b w))"
  using stop_ok [of w b] by (simp add: step_from_def)

lemma pumpWrites_step:
  "running w \<Longrightarrow> balanced w \<Longrightarrow> \<exists>w'. pumpWrites windows grow rs w = Some w' \<and> step_from [] w w'"
proof (induction windows grow rs w rule: pumpWrites.induct)
  case (1 windows grow rs w)
  show ?case
  proof (cases "w_pending w = []")
    case True
    then show ?thesis
      using 1(2,3) runningD [OF 1(2)]
      by (subst pumpWrites.simps) (simp add: step_from_def running_writer)
  next
    case False
    show ?thesis
    proof (cases rs)
      case Nil
      then show ?thesis using 1(2,3) False by (subst pumpWrites.simps) (simp add: step_from_def)
    next
      case (Cons x rs')
      obtain n r where x: "x = (n, r)" by (cases x)
      let ?w1 = "adopted grow n w"
      show ?thesis
      proof (cases r)
        case (WroteN k)
        let ?w2 = "wlog [ChannelWrote (take k (w_pending ?w1))] (?w1\<lparr>w_pending := drop k (w_pending ?w1)\<rparr>)"
        have ok: "running ?w2" "balanced ?w2" using 1(2,3) by (simp_all add: balanced_neutral)
        obtain w' where w': "pumpWrites windows grow rs' ?w2 = Some w'" "step_from [] ?w2 w'"
          using 1(1) [OF False Cons x [symmetric] refl WroteN ok] by auto
        then show ?thesis
          using False Cons x WroteN by (subst pumpWrites.simps) (simp add: step_from_def)
      next
        case WriteAgain
        then show ?thesis
          using 1(2,3) False Cons x runningD [OF 1(2)]
          by (subst pumpWrites.simps) (simp add: step_from_def running_writer)
      next
        case WriteError
        then show ?thesis
          using False Cons x step_from_ended [of ?w1] 1(3)
          by (subst pumpWrites.simps) simp
      qed
    qed
  qed
qed

lemma readChannel_step: "running w \<Longrightarrow> balanced w \<Longrightarrow> step_from [] w (readChannel windows grow rs w)"
proof (induction windows grow rs w rule: readChannel.induct)
  case (2 windows grow n r rs w)
  show ?case
  proof (cases r)
    case (ChanData d)
    let ?w = "wlog [SigData d] (adopted grow n w)"
    have "step_from [] ?w (readChannel windows grow rs ?w)"
      using 2(1) [OF refl ChanData] 2(2,3) by (simp add: balanced_neutral)
    then show ?thesis using ChanData by (simp add: step_from_def)
  qed (use 2(2,3) step_from_ended [of "adopted grow n w"] in \<open>auto simp: step_from_def Let_def\<close>)
qed (simp add: step_from_def)

lemma step_from_x11: "step_from [] (w\<lparr>w_x11 := x\<rparr>) w' \<Longrightarrow> step_from [] w w'"
  by (simp add: step_from_def)

text \<open>The data a step adds to what is to be written.\<close>

fun to_write :: "ssh_event \<Rightarrow> bytes" where
  "to_write (EnqueueWrite d rs) = d"
| "to_write _ = []"

lemma running_step:
  assumes "running w" "balanced w"
  shows "case ssh_handle windows grow e w of
           Some w' \<Rightarrow> step_from (to_write e) w w'
         | None \<Rightarrow> \<exists>f xs. w_x11 w = Some f \<and> pump grow xs f = None"
proof (cases e)
  case (EnqueueWrite d rs)
  let ?w = "w\<lparr>w_pending := w_pending w @ d\<rparr>"
  obtain w' where "pumpWrites windows grow rs ?w = Some w'" "step_from [] ?w w'"
    using pumpWrites_step [of ?w windows grow rs] assms by auto
  then show ?thesis
    using EnqueueWrite runningD [OF assms(1)] by (simp add: enqueueWrite_def step_from_def)
next
  case (WriteActivity rs)
  then show ?thesis using pumpWrites_step [OF assms, of windows grow rs] runningD [OF assms(1)] by auto
next
  case (ReadActivity xs rs)
  have r: "w_reader w" "w_connected w" using assms(1) by (simp_all add: running_def)
  show ?thesis
  proof (cases "pumpX11 grow xs w")
    case None
    then show ?thesis using r ReadActivity by (auto simp: onReadActivity_def pumpX11_def split: option.splits)
  next
    case (Some w1)
    then have w1: "w1 = w\<lparr>w_x11 := w_x11 w1\<rparr>" by (cases "w_x11 w") (auto simp: pumpX11_def)
    then have k: "running w1" "balanced w1" using assms by (metis running_fields(4), metis balanced_fields(3))
    have "step_from [] w1 (readChannel windows grow rs w1)" by (rule readChannel_step [OF k])
    then have "step_from [] w (readChannel windows grow rs w1)" using w1 step_from_x11 by metis
    then show ?thesis using r ReadActivity Some by (simp add: onReadActivity_def)
  qed
next
  case (PumpX11 xs)
  then show ?thesis using assms by (auto simp: pumpX11_def step_from_def split: option.splits)
qed (use assms step_from_ended [of w] in \<open>auto simp: step_from_def requestResize_def onKeepaliveTimer_def ssh_stop_def
      balanced_neutral Let_def\<close>)



text \<open>
  C11. Typed data reaches the SSH channel in order, once, and none is dropped while the session lasts:
  whatever the channel takes at a time, what has been written followed by what is pending grows by
  exactly the data of each write.
\<close>

theorem ssh_writes_in_order:
  assumes "worker_ok w" and "w_connected w" and "ssh_handle windows grow e w = Some w'" and "w_connected w'"
  shows "written (w_log w') @ w_pending w' = written (w_log w) @ w_pending w @ to_write e"
proof -
  have "\<not> idle w" "\<not> idle w'" using assms(2,4) idleD by auto
  then have "running w" "balanced w" using assms(1) by (simp_all add: worker_ok_def)
  from running_step [OF this, where windows = windows and grow = grow and e = e] show ?thesis
    using assms(3) \<open>\<not> idle w'\<close> by (simp add: step_from_def)
qed

end
