(* ===== verification/SshProps.thy ===== *)
theory SshProps
  imports Ssh
begin

text \<open>
  The properties of a start of an SSH session that need its whole log (trust before credentials, the
  number of prompts, Winsock), and instances of all properties of \<open>Ssh\<close>.
\<close>

lemma giveUp_log: "w_log (giveUp b e w) = w_log w @ (case e of None \<Rightarrow> [] | Some x \<Rightarrow> [SigError x]) @
    (if w_channel w then [ChannelFreed] else []) @ (if w_session w then [SessionFreed] else []) @
    closeSocketAndCleanup b (w_socket w) @ [SigDisconnected]"
  by (simp add: giveUp_def split: option.split)

text \<open>Effects after the host key check that are not part of authentication.\<close>

fun plain_effect :: "ssh_effect \<Rightarrow> bool" where
  "plain_effect WsaStartup = False"
| "plain_effect (Authenticate c) = False"
| "plain_effect (AskPassword h u) = False"
| "plain_effect _ = True"

lemma plain_prompts: "list_all plain_effect fx \<Longrightarrow> prompts fx = 0"
proof (induction fx)
  case (Cons x fx)
  then show ?case by (cases x) (simp_all add: prompts_def)
qed simp

lemma giveUp_plain: "\<exists>r. w_log (giveUp b e w) = w_log w @ r \<and> list_all plain_effect r"
  unfolding giveUp_log by (auto simp: closeSocketAndCleanup_def split: option.split)

lemma openShellChannel_plain: "openShellChannel a w = (ok, w') \<Longrightarrow> \<exists>r. w_log w' = w_log w @ r \<and> list_all plain_effect r"
  by (auto simp: openShellChannel_def Let_def split: if_splits)

lemma handshake_plain: "handshakeAndVerifyHostKey lib a host port known = (e, known', fx) \<Longrightarrow> list_all plain_effect fx"
  by (auto simp: handshakeAndVerifyHostKey_def Let_def split: if_splits option.splits prod.splits)

text \<open>The effects of a start: the socket, the host key, authentication if that key is trusted, the rest.\<close>

lemma ssh_start_log:
  assumes "ssh_start windows lib a w known = (w', known')"
  shows "\<exists>e fx. connectSocket windows (a_tcp a) (sh_host (w_settings w)) (sh_port (w_settings w)) = (e, fx) \<and>
    (\<exists>r. w_log w' = w_log w @ fx @ r \<and> list_all plain_effect r \<or>
     (\<exists>k fx1 fx2 r s' e2. handshakeAndVerifyHostKey lib (a_host a) (sh_host (w_settings w)) (sh_port (w_settings w)) known = (None, k, fx1) \<and>
        authLoop (a_server a) (a_prompt a) (a_alive a) 1 (w_settings w) = (e2, s', fx2) \<and>
        w_log w' = w_log w @ fx @ SessionOpened # fx1 @ fx2 @ r \<and> list_all plain_effect r))"
proof -
  let ?s = "w_settings w" and ?h = "sh_host (w_settings w)" and ?p = "sh_port (w_settings w)"
  obtain e fx where c: "connectSocket windows (a_tcp a) ?h ?p = (e, fx)" by (cases "connectSocket windows (a_tcp a) ?h ?p")
  obtain e1 known1 fx1 where h: "handshakeAndVerifyHostKey lib (a_host a) ?h ?p known = (e1, known1, fx1)"
    using prod_cases3 by blast
  obtain e2 s' fx2 where l: "authLoop (a_server a) (a_prompt a) (a_alive a) 1 ?s = (e2, s', fx2)"
    using prod_cases3 by blast
  note hp = handshake_plain [OF h]
  show ?thesis
  proof (cases "e = None \<and> a_session a \<and> e1 = None")
    case False
    have "\<exists>r. w_log w' = w_log w @ fx @ r \<and> list_all plain_effect r"
      using assms c h False hp
      by (auto simp: ssh_start_def Let_def giveUp_log closeSocketAndCleanup_def split: option.splits if_splits)
    then show ?thesis using c by blast
  next
    case True
    let ?w3 = "wlog fx2 ((wlog fx1 (wlog [SessionOpened] ((wlog fx (w\<lparr>w_socket := True\<rparr>))\<lparr>w_session := True\<rparr>)))\<lparr>w_settings := s'\<rparr>)"
    obtain ok w4 where sh: "openShellChannel a ?w3 = (ok, w4)" by (cases "openShellChannel a ?w3")
    obtain r0 where r0: "w_log w4 = w_log ?w3 @ r0" "list_all plain_effect r0" using openShellChannel_plain [OF sh] by blast
    have "\<exists>r. w_log w' = w_log ?w3 @ r \<and> list_all plain_effect r"
    proof (cases e2)
      case (Some x)
      then have w': "w' = giveUp windows (Some x) ?w3" using assms c h l True by (simp add: ssh_start_def Let_def)
      show ?thesis unfolding w' by (rule giveUp_plain)
    next
      case None
      show ?thesis
      proof (cases ok)
        case False
        then have w': "w' = giveUp windows None w4" using assms c h l True None sh by (simp add: ssh_start_def Let_def)
        obtain r1 where "w_log w' = w_log w4 @ r1" "list_all plain_effect r1" unfolding w' using giveUp_plain by blast
        then show ?thesis using r0 by auto
      next
        case ok: True
        then have "w_log w' = w_log w4 @ [SocketTimeout 0, SigConnected]"
          using assms c h l True None sh by (auto simp: ssh_start_def Let_def)
        then show ?thesis using r0 by auto
      qed
    qed
    then show ?thesis using c h l True by auto
  qed
qed

lemma handshake_trusted:
  assumes "handshakeAndVerifyHostKey lib a host port known = (None, known', fx)"
  shows "\<exists>key t. h_key a = Some (key, t) \<and>
    (h_hosts a \<and> fst (kh_check lib known host port (hostKeyTypeMask t) key) = CheckMatch \<or>
     h_accept a \<and> (\<exists>changed. fx = [AskHostKey changed host t (h_fingerprint a)]))"
  using assms
  by (auto simp: handshakeAndVerifyHostKey_def Let_def split: if_splits option.splits prod.splits)

lemma no_startup: "list_all auth_effect fx \<or> list_all plain_effect fx \<Longrightarrow> WsaStartup \<notin> set fx"
  by (auto simp: list_all_iff)

lemma plain_no_secret: "list_all plain_effect fx \<Longrightarrow> Authenticate c \<notin> set fx"
  by (auto simp: list_all_iff)

lemma connectSocket_effects:
  "connectSocket windows a host port = (e, fx) \<Longrightarrow>
     Authenticate c \<notin> set fx \<and> prompts fx = 0 \<and> count_list fx WsaStartup \<le> 1"
  by (auto simp: connectSocket_defs Let_def prompts_def split: if_splits connect_rc.splits)

text \<open>
  C10. No password or key is offered to a server before its host key is trusted: an authentication in a
  start is preceded by a match with the known key of that host, or by the user accepting the key on a
  warning that shows its fingerprint; and a start asks for a password twice at most.
\<close>

theorem ssh_trust_first:
  assumes "ssh_start windows lib a w known = (w', known')"
    and "Authenticate c \<in> set (drop (length (w_log w)) (w_log w'))"
  shows "(\<exists>key t. h_key (a_host a) = Some (key, t) \<and>
      (h_hosts (a_host a) \<and>
       fst (kh_check lib known (sh_host (w_settings w)) (sh_port (w_settings w)) (hostKeyTypeMask t) key) = CheckMatch \<or>
       h_accept (a_host a) \<and>
       (\<exists>changed. AskHostKey changed (sh_host (w_settings w)) t (h_fingerprint (a_host a))
          \<in> set (takeWhile (\<lambda>x. \<forall>d. x \<noteq> Authenticate d) (drop (length (w_log w)) (w_log w')))))) \<and>
    prompts (drop (length (w_log w)) (w_log w')) \<le> 2"
proof -
  obtain e fx where c: "connectSocket windows (a_tcp a) (sh_host (w_settings w)) (sh_port (w_settings w)) = (e, fx)"
    and d: "\<exists>r. w_log w' = w_log w @ fx @ r \<and> list_all plain_effect r \<or>
     (\<exists>k fx1 fx2 r s' e2. handshakeAndVerifyHostKey lib (a_host a) (sh_host (w_settings w)) (sh_port (w_settings w)) known = (None, k, fx1) \<and>
        authLoop (a_server a) (a_prompt a) (a_alive a) 1 (w_settings w) = (e2, s', fx2) \<and>
        w_log w' = w_log w @ fx @ SessionOpened # fx1 @ fx2 @ r \<and> list_all plain_effect r)"
    using ssh_start_log [OF assms(1)] by blast
  note ce = connectSocket_effects [OF c]
  have "\<not> (\<exists>r. w_log w' = w_log w @ fx @ r \<and> list_all plain_effect r)"
    using assms(2) ce plain_no_secret by auto
  then obtain k fx1 fx2 r s' e2 where
    h: "handshakeAndVerifyHostKey lib (a_host a) (sh_host (w_settings w)) (sh_port (w_settings w)) known = (None, k, fx1)"
    and l: "authLoop (a_server a) (a_prompt a) (a_alive a) 1 (w_settings w) = (e2, s', fx2)"
    and log: "drop (length (w_log w)) (w_log w') = fx @ SessionOpened # fx1 @ fx2 @ r" and r: "list_all plain_effect r"
    using d by auto
  have p1: "list_all plain_effect fx1" by (rule handshake_plain [OF h])
  have "prompts (SessionOpened # fx1 @ fx2 @ r) = prompts fx1 + prompts fx2 + prompts r" by (simp add: prompts_def)
  then have "prompts (fx @ SessionOpened # fx1 @ fx2 @ r) \<le> 2"
    using ce authLoop_effects [OF l] plain_prompts [OF p1] plain_prompts [OF r] by (simp add: kMaxPasswordAttempts_def)
  moreover have "set fx1 \<subseteq> set (takeWhile (\<lambda>x. \<forall>d. x \<noteq> Authenticate d) (fx @ SessionOpened # fx1 @ fx2 @ r))"
  proof -
    have "\<forall>x \<in> set (fx @ SessionOpened # fx1). \<forall>d. x \<noteq> Authenticate d"
      using connectSocket_effects [OF c] plain_no_secret [OF p1] by auto
    then have "takeWhile (\<lambda>x. \<forall>d. x \<noteq> Authenticate d) ((fx @ SessionOpened # fx1) @ fx2 @ r) =
        (fx @ SessionOpened # fx1) @ takeWhile (\<lambda>x. \<forall>d. x \<noteq> Authenticate d) (fx2 @ r)"
      by (intro takeWhile_append2) blast
    then show ?thesis by auto
  qed
  ultimately show ?thesis using handshake_trusted [OF h] unfolding log by fastforce
qed

text \<open>
  A host key that was accepted once is not asked about again: when libssh2 finds the key it has just
  added, a later connection that presents the same key is trusted silently and leaves the file alone.
\<close>

theorem ssh_trust_remembered:
  assumes "\<And>k. fst (kh_check lib (kh_add lib host (hostKeyTypeMask t) key k) host port (hostKeyTypeMask t) key) = CheckMatch"
    and "handshakeAndVerifyHostKey lib a host port known = (None, known', fx)"
    and "h_key a = Some (key, t)" and "h_hosts a" and "h_writable a"
    and "h_handshake b" and "h_key b = Some (key, t)" and "h_hosts b"
  shows "handshakeAndVerifyHostKey lib b host port known' = (None, known', [])"
proof -
  have "fst (kh_check lib known' host port (hostKeyTypeMask t) key) = CheckMatch"
    using assms(1-5)
    by (auto simp: handshakeAndVerifyHostKey_def Let_def split: if_splits option.splits prod.splits)
  then show ?thesis using assms(6-8)
    by (cases "kh_check lib known' host port (hostKeyTypeMask t) key")
      (simp add: handshakeAndVerifyHostKey_def Let_def)
qed

text \<open>
  On Windows a worker releases Winsock more often than it starts it: whatever its one start came to,
  stopping and destroying it tears it down twice, and each time gives back a reference, so that the
  count kept for the process (which other connections live on) drops by at least one.
\<close>

theorem winsock_unbalanced:
  assumes "ssh_start True lib a (ssh_worker_initial s) known = (w', known')"
  shows "count_list (w_log (ssh_teardown True (ssh_stop True w'))) WsaStartup <
    count_list (w_log (ssh_teardown True (ssh_stop True w'))) WsaCleanup"
proof -
  obtain e fx where c: "connectSocket True (a_tcp a) (sh_host s) (sh_port s) = (e, fx)"
    and d: "\<exists>r. w_log w' = fx @ r \<and> list_all plain_effect r \<or>
     (\<exists>k fx1 fx2 r s' e2. handshakeAndVerifyHostKey lib (a_host a) (sh_host s) (sh_port s) known = (None, k, fx1) \<and>
        authLoop (a_server a) (a_prompt a) (a_alive a) 1 s = (e2, s', fx2) \<and>
        w_log w' = fx @ SessionOpened # fx1 @ fx2 @ r \<and> list_all plain_effect r)"
    using ssh_start_log [OF assms] by (auto simp: ssh_worker_initial_def)
  have "\<exists>r. w_log w' = fx @ r \<and> WsaStartup \<notin> set r"
  proof -
    from d consider r where "w_log w' = fx @ r" "list_all plain_effect r"
      | k fx1 fx2 r s' e2 where
          "handshakeAndVerifyHostKey lib (a_host a) (sh_host s) (sh_port s) known = (None, k, fx1)"
          "authLoop (a_server a) (a_prompt a) (a_alive a) 1 s = (e2, s', fx2)"
          "w_log w' = fx @ SessionOpened # fx1 @ fx2 @ r" "list_all plain_effect r" by blast
    then show ?thesis
    proof cases
      case 1
      then show ?thesis using no_startup by blast
    next
      case 2
      then have "WsaStartup \<notin> set (SessionOpened # fx1 @ fx2 @ r)"
        using no_startup [of fx1] no_startup [of fx2] no_startup [of r] handshake_plain [OF 2(1)]
          authLoop_effects [OF 2(2)] by simp
      then show ?thesis using 2(3) by blast
    qed
  qed
  then have "count_list (w_log w') WsaStartup \<le> 1"
    using connectSocket_effects [OF c] by (auto simp: count_list_0_iff)
  moreover have "2 \<le> count_list (w_log (ssh_teardown True (ssh_stop True w'))) WsaCleanup"
    by (simp add: ssh_stop_def closeSocketAndCleanup_def)
  ultimately show ?thesis by (simp add: ssh_stop_def closeSocketAndCleanup_def)
qed

subsection \<open>Instances\<close>

text \<open>Known hosts as a list, and a server that asks for a password and gets the right one in the second try.\<close>

definition demo_hosts :: "((string \<times> nat \<times> bytes) list, string \<times> nat) hosts_lib" where
  "demo_hosts =
     \<lparr>kh_check = (\<lambda>k host port b key.
        (case map_of (map (\<lambda>(h, b, key). ((h, b), key)) k) (host, b) of
           None \<Rightarrow> (CheckNotFound, None)
         | Some key' \<Rightarrow> (if key' = key then CheckMatch else CheckMismatch, Some (host, b)))),
      kh_del = (\<lambda>e. filter (\<lambda>(h, b, key). (h, b) \<noteq> e)),
      kh_add = (\<lambda>h b key k. (h, b, key) # k)\<rparr>"

definition demo_host :: host_answers where
  "demo_host = \<lparr>h_handshake = True, h_key = Some ([1, 2], 6), h_hosts = True, h_fingerprint = None,
     h_accept = True, h_writable = True\<rparr>"

definition demo_ssh :: ssh_answers where
  "demo_ssh =
     \<lparr>a_tcp = \<lparr>t_startup = True, t_socket = True, t_resolved = True, t_connect = ConnectInProgress,
               t_select = 1, t_except = False\<rparr>,
      a_session = True, a_host = demo_host, a_server = (\<lambda>k c. c = CredPassword ''u'' ''pw''),
      a_prompt = (\<lambda>k. Some ''pw''), a_alive = True, a_channel = True, a_pty = True, a_shell = True,
      a_fake = [], a_real = []\<rparr>"

definition demo_settings :: ssh_settings where
  "demo_settings = default_ssh_settings\<lparr>sh_host := ''h'', sh_username := ''u''\<rparr>"

abbreviation demo_run :: "ssh_worker \<times> (string \<times> nat \<times> bytes) list" where
  "demo_run \<equiv> ssh_start False demo_hosts demo_ssh (ssh_worker_initial demo_settings) []"

lemma initial_idle: "idle (ssh_worker_initial s)" "balanced (ssh_worker_initial s)"
  by (simp_all add: idle_def balanced_def ssh_worker_initial_def)

lemma demo_running: "running (fst demo_run)"
  by code_simp

lemma ssh_start_outcome_witness:
  "signals (w_log (fst demo_run)) = [SigConnected]"
proof -
  have "demo_run = (fst demo_run, snd demo_run)" by simp
  from ssh_start_outcome [OF initial_idle this] have
    "signals (w_log (fst demo_run)) = signals (w_log (ssh_worker_initial demo_settings)) @ [SigConnected]"
    using demo_running runningD by blast
  then show ?thesis by (simp add: ssh_worker_initial_def)
qed

lemma demo_worker_ok: "worker_ok (fst demo_run)"
proof -
  have "demo_run = (fst demo_run, snd demo_run)" by simp
  then have "balanced (fst demo_run)" by code_simp
  then show ?thesis using demo_running by (simp add: worker_ok_def)
qed


definition demo_written :: ssh_worker where
  "demo_written = the (ssh_handle False id (EnqueueWrite [1, 2] [(0, WroteN 1), (0, WriteAgain)]) (fst demo_run))"

lemma ssh_writes_in_order_witness:
  "written (w_log demo_written) @ w_pending demo_written =
     written (w_log (fst demo_run)) @ w_pending (fst demo_run) @ [1, 2]"
proof -
  have "ssh_handle False id (EnqueueWrite [1, 2] [(0, WroteN 1), (0, WriteAgain)]) (fst demo_run) =
      Some demo_written" by code_simp
  moreover have "w_connected (fst demo_run)" "w_connected demo_written" by code_simp+
  ultimately show ?thesis using ssh_writes_in_order [OF demo_worker_ok] by fastforce
qed

lemma ssh_trust_first_witness:
  "prompts (drop (length (w_log (ssh_worker_initial demo_settings))) (w_log (fst demo_run))) \<le> 2"
proof -
  have r: "demo_run = (fst demo_run, snd demo_run)" by simp
  have "Authenticate (CredPassword ''u'' ''pw'') \<in>
      set (drop (length (w_log (ssh_worker_initial demo_settings))) (w_log (fst demo_run)))" by code_simp
  from ssh_trust_first [OF r this] show ?thesis by blast
qed

lemma ssh_trust_remembered_witness:
  "handshakeAndVerifyHostKey demo_hosts demo_host ''h'' 22 (snd demo_run) = (None, snd demo_run, [])"
proof (rule ssh_trust_remembered)
  show "handshakeAndVerifyHostKey demo_hosts demo_host ''h'' 22 [] =
      (None, snd demo_run, [AskHostKey False ''h'' 6 None])" by code_simp
  show "h_key demo_host = Some ([1, 2], 6)" by (simp add: demo_host_def)
qed (simp_all add: demo_host_def demo_hosts_def)

lemma winsock_unbalanced_witness:
  "count_list (w_log (ssh_teardown True (ssh_stop True
      (fst (ssh_start True demo_hosts demo_ssh (ssh_worker_initial demo_settings) []))))) WsaStartup <
   count_list (w_log (ssh_teardown True (ssh_stop True
      (fst (ssh_start True demo_hosts demo_ssh (ssh_worker_initial demo_settings) []))))) WsaCleanup"
  by (rule winsock_unbalanced) (rule prod.collapse [symmetric])

end
