(* ===== verification/Sftp.thy ===== *)
theory Sftp
  imports Ssh "HOL-Library.List_Lexorder" "HOL-Library.Char_ord" "HOL-Library.Product_Lexorder"
begin

text \<open>
  The SFTP client: \<open>src/src/sftp/SftpClient.{h,cpp}\<close>, a worker that answers one queued request
  (\<open>SftpSession\<close>) after another, each to its end.

  The server and the local disk are one world of type \<open>'w\<close>; the calls of libssh2, \<open>QFile\<close> and \<open>QDir\<close>
  are the fields of \<open>sftp_env\<close> and act on it. The log holds the signals and, in order with them, the
  calls that change files. A server may list a directory or send a file without end, so every loop
  over its answers is a partial function: \<open>None\<close> is a request that never returns.
\<close>

subsection \<open>Types\<close>

record attributes =
  at_permissions :: "32 word option"
  at_size :: "64 word option"
  at_mtime :: "32 word option"

record sftp_entry =
  en_name :: string
  en_isDirectory :: bool
  en_size :: int
  en_permissions :: "32 word"
  en_modifiedTime :: int

datatype sftp_message = SshMessage ssh_error | NoSftpSubsystem

datatype sftp_effect =
    SftpConnected string | SftpConnectFailed sftp_message | SftpDisconnected
  | DirectoryListed string "sftp_entry list"
  | OperationFailed string string string | OperationSucceeded string string
  | TransferStarted string int | TransferProgress string int int | TransferFinished string bool
  | RemoteOpened string | RemoteMkdir string | RemoteUnlink string | RemoteRmdir string
  | RemoteRename string string
  | LocalMkpath string | LocalOpened string | LocalRemoved string

datatype open_mode = OpenRead | OpenWrite | OpenNew

datatype dir_answer = DirEntry string attributes | DirEnd | DirError

text \<open>
  \<open>e_read\<close> gives no bytes at the end of the file and \<open>None\<close> for an error, \<open>e_write\<close> the number of
  bytes taken; \<open>q_write\<close> and \<open>q_read\<close> are those of \<open>QFile\<close>, \<open>q_entries\<close> names, absolute paths and
  whether they are directories.
\<close>

record ('w, 'h) sftp_env =
  e_opendir :: "string \<Rightarrow> 'w \<Rightarrow> 'h option \<times> 'w"
  e_readdir :: "'h \<Rightarrow> 'w \<Rightarrow> dir_answer \<times> 'w"
  e_open :: "open_mode \<Rightarrow> string \<Rightarrow> 'w \<Rightarrow> 'h option \<times> 'w"
  e_fstat :: "'h \<Rightarrow> 'w \<Rightarrow> attributes \<times> 'w"
  e_read :: "'h \<Rightarrow> 'w \<Rightarrow> bytes option \<times> 'w"
  e_write :: "'h \<Rightarrow> bytes \<Rightarrow> 'w \<Rightarrow> nat option \<times> 'w"
  e_close :: "'h \<Rightarrow> 'w \<Rightarrow> 'w"
  e_stat :: "string \<Rightarrow> 'w \<Rightarrow> attributes option \<times> 'w"
  e_mkdir :: "string \<Rightarrow> 'w \<Rightarrow> bool \<times> 'w"
  e_unlink :: "string \<Rightarrow> 'w \<Rightarrow> bool \<times> 'w"
  e_rmdir :: "string \<Rightarrow> 'w \<Rightarrow> bool \<times> 'w"
  e_rename :: "string \<Rightarrow> string \<Rightarrow> 'w \<Rightarrow> bool \<times> 'w"
  e_protocol_error :: "'w \<Rightarrow> bool"
  e_last_code :: "'w \<Rightarrow> nat"
  e_last_message :: "'w \<Rightarrow> string option"
  q_mkpath :: "string \<Rightarrow> 'w \<Rightarrow> bool \<times> 'w"
  q_create :: "string \<Rightarrow> 'w \<Rightarrow> bool \<times> 'w"
  q_write :: "string \<Rightarrow> bytes \<Rightarrow> 'w \<Rightarrow> int \<times> 'w"
  q_open :: "string \<Rightarrow> 'w \<Rightarrow> bool \<times> 'w"
  q_size :: "string \<Rightarrow> 'w \<Rightarrow> int"
  q_atEnd :: "string \<Rightarrow> 'w \<Rightarrow> bool"
  q_read :: "string \<Rightarrow> 'w \<Rightarrow> bytes option \<times> 'w"
  q_close :: "string \<Rightarrow> 'w \<Rightarrow> 'w"
  q_remove :: "string \<Rightarrow> 'w \<Rightarrow> 'w"
  q_error :: "'w \<Rightarrow> string"
  q_entries :: "string \<Rightarrow> 'w \<Rightarrow> (string \<times> string \<times> bool) list"

record 'w sftp_client =
  c_settings :: ssh_settings
  c_socket :: bool
  c_session :: bool
  c_sftp :: bool
  c_ssh :: "ssh_effect list"
  c_world :: 'w
  c_log :: "sftp_effect list"

definition note_log :: "sftp_effect list \<Rightarrow> 'w sftp_client \<Rightarrow> 'w sftp_client" where
  "note_log fx s = s\<lparr>c_log := c_log s @ fx\<rparr>"

definition act :: "('w \<Rightarrow> 'a \<times> 'w) \<Rightarrow> 'w sftp_client \<Rightarrow> 'a \<times> 'w sftp_client" where
  "act f s = (case f (c_world s) of (r, w) \<Rightarrow> (r, s\<lparr>c_world := w\<rparr>))"

definition actw :: "('w \<Rightarrow> 'w) \<Rightarrow> 'w sftp_client \<Rightarrow> 'w sftp_client" where
  "actw f s = s\<lparr>c_world := f (c_world s)\<rparr>"

subsection \<open>Paths and errors\<close>

definition joinPath :: "string \<Rightarrow> string \<Rightarrow> string" where
  "joinPath dir name = (if dir \<noteq> [] \<and> last dir = CHR ''/'' then dir @ name else dir @ ''/'' @ name)"

function decimal :: "nat \<Rightarrow> string" where
  "decimal n = (if n < 10 then [char_of (48 + n)] else decimal (n div 10) @ [char_of (48 + n mod 10)])"
  by pat_completeness auto
termination
  by (relation "measure id") auto

declare decimal.simps [simp del]

definition sftpErrorString :: "nat \<Rightarrow> string" where
  "sftpErrorString code =
     (if code = 0 then ''OK''
      else if code = 1 then ''end of file''
      else if code = 2 then ''no such file''
      else if code = 3 then ''permission denied''
      else if code = 10 then ''no such path''
      else if code = 11 then ''file already exists''
      else if code = 18 then ''directory not empty''
      else if code = 19 then ''not a directory''
      else if code = 14 then ''no space left on device''
      else ''SFTP error '' @ decimal code)"

definition lastSftpError :: "('w, 'h) sftp_env \<Rightarrow> 'w sftp_client \<Rightarrow> string" where
  "lastSftpError E s =
     (if \<not> c_session s then ''not connected''
      else if e_protocol_error E (c_world s) \<and> c_sftp s
      then sftpErrorString (e_last_code E (c_world s))
      else (case e_last_message E (c_world s) of None \<Rightarrow> ''unknown error'' | Some m \<Rightarrow> m))"

subsection \<open>The connection\<close>

record sftp_answers =
  b_tcp :: tcp_answers
  b_session :: bool
  b_host :: host_answers
  b_server :: "credential \<Rightarrow> bool"
  b_sftp :: bool
  b_home :: "string option"

definition sftp_teardown :: "bool \<Rightarrow> 'w sftp_client \<Rightarrow> 'w sftp_client" where
  "sftp_teardown windows s =
     s\<lparr>c_ssh := c_ssh s @ (if c_sftp s then [ChannelFreed] else []) @
          (if c_session s then [SessionFreed] else []) @ closeSocketAndCleanup windows (c_socket s),
       c_sftp := False, c_session := False, c_socket := False\<rparr>"

definition connect_fails :: "bool \<Rightarrow> sftp_message \<Rightarrow> 'w sftp_client \<Rightarrow> 'w sftp_client" where
  "connect_fails windows m s = sftp_teardown windows (note_log [SftpConnectFailed m] s)"

definition sftp_connect ::
    "bool \<Rightarrow> ('k, 'e) hosts_lib \<Rightarrow> sftp_answers \<Rightarrow> 'w sftp_client \<Rightarrow> 'k \<Rightarrow> 'w sftp_client \<times> 'k" where
  "sftp_connect windows lib b s known =
     (let cs = c_settings s; host = sh_host cs; port = sh_port cs in
      case connectSocket windows (b_tcp b) host port of
        (Some e, fx) \<Rightarrow>
          (note_log [SftpConnectFailed (SshMessage e)] (s\<lparr>c_socket := False, c_ssh := c_ssh s @ fx\<rparr>), known)
      | (None, fx) \<Rightarrow>
          let s1 = s\<lparr>c_socket := True, c_ssh := c_ssh s @ fx\<rparr> in
          if \<not> b_session b then (connect_fails windows (SshMessage NoSession) (s1\<lparr>c_session := False\<rparr>), known)
          else
            (case handshakeAndVerifyHostKey lib (b_host b) host port known of
               (e, known1, fx1) \<Rightarrow>
                 let s2 = s1\<lparr>c_session := True, c_ssh := c_ssh s1 @ SessionOpened # fx1\<rparr> in
                 (case e of
                    Some e \<Rightarrow> (connect_fails windows (SshMessage e) s2, known1)
                  | None \<Rightarrow>
                      (case authenticate (b_server b) cs of
                         (ok, fx2) \<Rightarrow>
                           let s3 = s2\<lparr>c_ssh := c_ssh s2 @ fx2\<rparr> in
                           if \<not> ok then (connect_fails windows (SshMessage AuthFailed) s3, known1)
                           else
                             let s4 = s3\<lparr>c_ssh := c_ssh s3 @ [SocketTimeout 0]\<rparr> in
                             if \<not> b_sftp b then (connect_fails windows NoSftpSubsystem (s4\<lparr>c_sftp := False\<rparr>), known1)
                             else
                               (note_log [SftpConnected (case b_home b of None \<Rightarrow> ''/'' | Some h \<Rightarrow> h)]
                                  (s4\<lparr>c_sftp := True, c_ssh := c_ssh s4 @ [ChannelOpened]\<rparr>), known1)))))"

definition sftp_disconnect :: "bool \<Rightarrow> 'w sftp_client \<Rightarrow> 'w sftp_client" where
  "sftp_disconnect windows s = note_log [SftpDisconnected] (sftp_teardown windows s)"

subsection \<open>Listing\<close>

text \<open>\<open>LIBSSH2_SFTP_S_ISDIR\<close>, for permissions that were sent.\<close>

definition is_dir :: "attributes \<Rightarrow> bool" where
  "is_dir a = (case at_permissions a of None \<Rightarrow> False | Some p \<Rightarrow> p AND 0xF000 = 0x4000)"

definition size_or :: "int \<Rightarrow> attributes \<Rightarrow> int" where
  "size_or n a = (case at_size a of None \<Rightarrow> n | Some z \<Rightarrow> sint z)"

definition entry_of :: "string \<times> attributes \<Rightarrow> sftp_entry" where
  "entry_of = (\<lambda>(name, a).
     \<lparr>en_name = name, en_isDirectory = is_dir a, en_size = size_or 0 a,
      en_permissions = (case at_permissions a of None \<Rightarrow> 0 | Some p \<Rightarrow> p),
      en_modifiedTime = (case at_mtime a of None \<Rightarrow> 0 | Some t \<Rightarrow> uint t)\<rparr>)"

text \<open>The read loop of a directory, the same in \<open>listDirectory\<close> and both recursive walks.\<close>

partial_function (option) readdirLoop ::
    "('w, 'h) sftp_env \<Rightarrow> 'h \<Rightarrow> (string \<times> attributes) list \<Rightarrow> 'w sftp_client \<Rightarrow>
     ((string \<times> attributes) list \<times> 'w sftp_client) option" where
  "readdirLoop E h acc s =
     (case act (e_readdir E h) s of
        (a, s1) \<Rightarrow>
          (case a of
             DirEntry n at \<Rightarrow> readdirLoop E h (if n = ''.'' \<or> n = ''..'' then acc else acc @ [(n, at)]) s1
           | DirEnd \<Rightarrow> Some (acc, s1)
           | DirError \<Rightarrow> Some (acc, s1)))"

text \<open>
  The order of \<open>std::sort\<close>: directories first, then by name without case. What it does with equal
  entries is left open by \<open>order\<close>, any rearrangement; \<open>caseFold\<close> is Qt's.
\<close>

definition sortEntries ::
    "(sftp_entry list \<Rightarrow> sftp_entry list) \<Rightarrow> (string \<Rightarrow> string) \<Rightarrow> sftp_entry list \<Rightarrow> sftp_entry list" where
  "sortEntries order caseFold es = sort_key (\<lambda>e. (\<not> en_isDirectory e, caseFold (en_name e))) (order es)"

definition listDirectory ::
    "('w, 'h) sftp_env \<Rightarrow> (sftp_entry list \<Rightarrow> sftp_entry list) \<Rightarrow> (string \<Rightarrow> string) \<Rightarrow> string \<Rightarrow>
     'w sftp_client \<Rightarrow> 'w sftp_client option" where
  "listDirectory E order caseFold path s =
     (if \<not> c_sftp s then Some (note_log [OperationFailed ''list'' path ''Not connected''] s)
      else
        (case act (e_opendir E path) s of
           (None, s1) \<Rightarrow> Some (note_log [OperationFailed ''list'' path (lastSftpError E s1)] s1)
         | (Some h, s1) \<Rightarrow>
             do {
               (found, s2) \<leftarrow> readdirLoop E h [] s1;
               Some (note_log [DirectoryListed path (sortEntries order caseFold (map entry_of found))]
                 (actw (e_close E h) s2))
             }))"

subsection \<open>Files\<close>

partial_function (option) downloadLoop ::
    "('w, 'h) sftp_env \<Rightarrow> 'h \<Rightarrow> string \<Rightarrow> string \<Rightarrow> int \<Rightarrow> int \<Rightarrow> string \<Rightarrow> 'w sftp_client \<Rightarrow>
     (bool \<times> string \<times> 'w sftp_client) option" where
  "downloadLoop E h remotePath localPath totalSize got err s =
     (case act (e_read E h) s of
        (a, s1) \<Rightarrow>
          (case a of
             None \<Rightarrow> Some (False, lastSftpError E s1, s1)
           | Some d \<Rightarrow>
               if d = [] then Some (True, err, s1)
               else
                 (case act (q_write E localPath d) s1 of
                    (k, s2) \<Rightarrow>
                      if k \<noteq> int (length d)
                      then Some (False, ''Could not write local file: '' @ q_error E (c_world s2), s2)
                      else
                        downloadLoop E h remotePath localPath totalSize (got + int (length d)) err
                          (note_log [TransferProgress remotePath (got + int (length d)) totalSize] s2))))"

definition downloadFileInternal ::
    "('w, 'h) sftp_env \<Rightarrow> string \<Rightarrow> string \<Rightarrow> string \<Rightarrow> 'w sftp_client \<Rightarrow>
     (bool \<times> string \<times> 'w sftp_client) option" where
  "downloadFileInternal E remotePath localPath err s =
     (case act (e_open E OpenRead remotePath) s of
        (None, s1) \<Rightarrow> Some (False, lastSftpError E s1, note_log [TransferFinished remotePath False] s1)
      | (Some h, s1) \<Rightarrow>
          (case act (e_fstat E h) s1 of
             (a, s2) \<Rightarrow>
               (case act (q_create E localPath) s2 of
                  (created, s3) \<Rightarrow>
                    if \<not> created then
                      Some (False, ''Could not create local file: '' @ localPath,
                        note_log [TransferFinished remotePath False] (actw (e_close E h) s3))
                    else
                      do {
                        (ok, err1, s4) \<leftarrow> downloadLoop E h remotePath localPath (size_or (-1) a) 0 err
                          (note_log [LocalOpened localPath, TransferStarted remotePath (size_or (-1) a)] s3);
                        let s5 = actw (e_close E h) (actw (q_close E localPath) s4);
                        let s6 = (if ok then s5
                                  else note_log [LocalRemoved localPath] (actw (q_remove E localPath) s5));
                        Some (ok, err1, note_log [TransferFinished remotePath ok] s6)
                      })))"

partial_function (option) writeChunk ::
    "('w, 'h) sftp_env \<Rightarrow> 'h \<Rightarrow> bytes \<Rightarrow> 'w sftp_client \<Rightarrow> (bool \<times> 'w sftp_client) option" where
  "writeChunk E h d s =
     (if d = [] then Some (True, s)
      else
        (case act (e_write E h d) s of
           (a, s1) \<Rightarrow> (case a of None \<Rightarrow> Some (False, s1) | Some k \<Rightarrow> writeChunk E h (drop k d) s1)))"

partial_function (option) uploadLoop ::
    "('w, 'h) sftp_env \<Rightarrow> 'h \<Rightarrow> string \<Rightarrow> string \<Rightarrow> int \<Rightarrow> int \<Rightarrow> string \<Rightarrow> 'w sftp_client \<Rightarrow>
     (bool \<times> string \<times> 'w sftp_client) option" where
  "uploadLoop E h localPath remotePath totalSize sent err s =
     (if q_atEnd E localPath (c_world s) then Some (True, err, s)
      else
        (case act (q_read E localPath) s of
           (a, s1) \<Rightarrow>
             (case a of
                None \<Rightarrow> Some (False, ''Could not read local file: '' @ q_error E (c_world s1), s1)
              | Some d \<Rightarrow>
                  do {
                    (ok, s2) \<leftarrow> writeChunk E h d s1;
                    if \<not> ok then Some (False, err, s2)
                    else
                      uploadLoop E h localPath remotePath totalSize (sent + int (length d)) err
                        (note_log [TransferProgress remotePath (sent + int (length d)) totalSize] s2)
                  })))"

definition uploadFileInternal ::
    "('w, 'h) sftp_env \<Rightarrow> string \<Rightarrow> string \<Rightarrow> string \<Rightarrow> 'w sftp_client \<Rightarrow>
     (bool \<times> string \<times> 'w sftp_client) option" where
  "uploadFileInternal E localPath remotePath err s =
     (case act (q_open E localPath) s of
        (found, s1) \<Rightarrow>
          if \<not> found then
            Some (False, ''Could not open local file: '' @ localPath, note_log [TransferFinished remotePath False] s1)
          else
            let totalSize = q_size E localPath (c_world s1) in
            (case act (e_open E OpenWrite remotePath) s1 of
               (None, s2) \<Rightarrow>
                 Some (False, lastSftpError E s2,
                   actw (q_close E localPath) (note_log [TransferFinished remotePath False] s2))
             | (Some h, s2) \<Rightarrow>
                 do {
                   (ok, err1, s3) \<leftarrow> uploadLoop E h localPath remotePath totalSize 0 err
                     (note_log [RemoteOpened remotePath, TransferStarted remotePath totalSize] s2);
                   let err2 = (if \<not> ok \<and> err1 = [] then lastSftpError E s3 else err1);
                   let s4 = actw (e_close E h) s3;
                   let s5 = (if ok then s4
                             else note_log [RemoteUnlink remotePath] (snd (act (e_unlink E remotePath) s4)));
                   Some (ok, err2, actw (q_close E localPath) (note_log [TransferFinished remotePath ok] s5))
                 }))"

subsection \<open>Directories\<close>

text \<open>The loop over the children of a directory, which ends at the first failure.\<close>

fun forChildren ::
    "('c \<Rightarrow> string \<Rightarrow> 's \<Rightarrow> (bool \<times> string \<times> 's) option) \<Rightarrow> 'c list \<Rightarrow> string \<Rightarrow> 's \<Rightarrow>
     (bool \<times> string \<times> 's) option" where
  "forChildren f [] err s = Some (True, err, s)"
| "forChildren f (c # cs) err s =
     do {
       (ok, err1, s1) \<leftarrow> f c err s;
       if ok then forChildren f cs err1 s1 else Some (False, err1, s1)
     }"

lemma forChildren_mono [partial_function_mono]:
  assumes "\<And>c err s. mono_option (\<lambda>f. B f c err s)"
  shows "mono_option (\<lambda>f. forChildren (B f) cs err s)"
proof (induction cs arbitrary: err s)
  case Nil
  show ?case by (simp add: monotone_on_def flat_ord_def)
next
  case (Cons c cs)
  show ?case
    unfolding forChildren.simps
    by (rule bind_mono) (auto intro!: assms Cons.IH partial_function_mono split: if_splits prod.split)
qed

definition children_of :: "(string \<times> attributes) list \<Rightarrow> (string \<times> bool) list" where
  "children_of = map (\<lambda>(name, a). (name, is_dir a))"

partial_function (option) downloadDirectoryRecursive ::
    "('w, 'h) sftp_env \<Rightarrow> string \<Rightarrow> string \<Rightarrow> string \<Rightarrow> 'w sftp_client \<Rightarrow>
     (bool \<times> string \<times> 'w sftp_client) option" where
  "downloadDirectoryRecursive E remotePath localPath err s =
     (case act (q_mkpath E localPath) s of
        (made, s1) \<Rightarrow>
          if \<not> made then Some (False, ''Could not create local directory: '' @ localPath, s1)
          else
            (case act (e_opendir E remotePath) (note_log [LocalMkpath localPath] s1) of
               (dir, s2) \<Rightarrow>
                 (case dir of
                    None \<Rightarrow> Some (False, lastSftpError E s2, s2)
                  | Some h \<Rightarrow>
                      do {
                        (found, s3) \<leftarrow> readdirLoop E h [] s2;
                        forChildren
                          (\<lambda>(name, isDirectory) e t.
                             let childRemote = joinPath remotePath name; childLocal = localPath @ ''/'' @ name
                             in if isDirectory then downloadDirectoryRecursive E childRemote childLocal e t
                                else downloadFileInternal E childRemote childLocal e t)
                          (children_of found) err (actw (e_close E h) s3)
                      })))"

partial_function (option) uploadDirectoryRecursive ::
    "('w, 'h) sftp_env \<Rightarrow> string \<Rightarrow> string \<Rightarrow> string \<Rightarrow> 'w sftp_client \<Rightarrow>
     (bool \<times> string \<times> 'w sftp_client) option" where
  "uploadDirectoryRecursive E localPath remotePath err s =
     (case act (e_mkdir E remotePath) s of
        (made, s1) \<Rightarrow>
          (case (if made then (True, note_log [RemoteMkdir remotePath] s1)
                 else
                   (case act (e_stat E remotePath) s1 of
                      (a, s2) \<Rightarrow> (case a of None \<Rightarrow> False | Some at \<Rightarrow> is_dir at, s2))) of
             (there, s3) \<Rightarrow>
               if \<not> there then Some (False, lastSftpError E s3, s3)
               else
                 forChildren
                   (\<lambda>(name, path, isDirectory) e t.
                      let childRemote = joinPath remotePath name
                      in if isDirectory then uploadDirectoryRecursive E path childRemote e t
                         else uploadFileInternal E path childRemote e t)
                   (q_entries E localPath (c_world s3)) err s3))"

text \<open>A file of the directory that is removed, then the directory.\<close>

definition removeChildFile ::
    "('w, 'h) sftp_env \<Rightarrow> string \<Rightarrow> 'w sftp_client \<Rightarrow> bool \<times> 'w sftp_client" where
  "removeChildFile E path s =
     (case act (e_unlink E path) s of
        (done, s1) \<Rightarrow> (done, note_log [RemoteUnlink path] s1))"

definition removeDir ::
    "('w, 'h) sftp_env \<Rightarrow> string \<Rightarrow> 'w sftp_client \<Rightarrow> bool \<times> 'w sftp_client" where
  "removeDir E path s =
     (case act (e_rmdir E path) s of
        (done, s1) \<Rightarrow> (done, note_log [RemoteRmdir path] s1))"

partial_function (option) removeRecursively ::
    "('w, 'h) sftp_env \<Rightarrow> string \<Rightarrow> string \<Rightarrow> 'w sftp_client \<Rightarrow>
     (bool \<times> string \<times> 'w sftp_client) option" where
  "removeRecursively E path err s =
     (case act (e_opendir E path) s of
        (dir, s1) \<Rightarrow>
          (case dir of
             None \<Rightarrow> Some (False, lastSftpError E s1, s1)
           | Some h \<Rightarrow>
               do {
                 (found, s2) \<leftarrow> readdirLoop E h [] s1;
                 (ok, err1, s3) \<leftarrow>
                   forChildren
                     (\<lambda>(name, isDirectory) e t.
                        do {
                          (ok, e1, t1) \<leftarrow>
                            (if isDirectory then removeRecursively E (joinPath path name) e t
                             else (case removeChildFile E (joinPath path name) t of
                                     (done, t1) \<Rightarrow> Some (done, e, t1)));
                          Some (ok, if \<not> ok \<and> e1 = [] then lastSftpError E t1 else e1, t1)
                        })
                     (children_of found) err (actw (e_close E h) s2);
                 if \<not> ok then Some (False, err1, s3)
                 else
                   (case removeDir E path s3 of
                      (done, s4) \<Rightarrow>
                        if done then Some (True, err1, s4) else Some (False, lastSftpError E s4, s4))
               }))"

subsection \<open>Requests\<close>

text \<open>How a request ends: with its result, or because there is no session.\<close>

definition finish :: "string \<Rightarrow> string \<Rightarrow> bool \<times> string \<times> 'w sftp_client \<Rightarrow> 'w sftp_client" where
  "finish op path r =
     (case r of
        (ok, err, s) \<Rightarrow> note_log [if ok then OperationSucceeded op path else OperationFailed op path err] s)"

definition notConnected :: "string \<Rightarrow> string \<Rightarrow> 'w sftp_client \<Rightarrow> 'w sftp_client" where
  "notConnected op path = note_log [OperationFailed op path ''Not connected'']"

definition downloadFile ::
    "('w, 'h) sftp_env \<Rightarrow> string \<Rightarrow> string \<Rightarrow> 'w sftp_client \<Rightarrow> 'w sftp_client option" where
  "downloadFile E remotePath localPath s =
     (if \<not> c_sftp s
      then Some (notConnected ''download'' remotePath (note_log [TransferFinished remotePath False] s))
      else map_option (finish ''download'' remotePath) (downloadFileInternal E remotePath localPath [] s))"

definition uploadFile ::
    "('w, 'h) sftp_env \<Rightarrow> string \<Rightarrow> string \<Rightarrow> 'w sftp_client \<Rightarrow> 'w sftp_client option" where
  "uploadFile E localPath remotePath s =
     (if \<not> c_sftp s
      then Some (notConnected ''upload'' remotePath (note_log [TransferFinished remotePath False] s))
      else map_option (finish ''upload'' remotePath) (uploadFileInternal E localPath remotePath [] s))"

definition downloadDirectory ::
    "('w, 'h) sftp_env \<Rightarrow> string \<Rightarrow> string \<Rightarrow> 'w sftp_client \<Rightarrow> 'w sftp_client option" where
  "downloadDirectory E remotePath localPath s =
     (if \<not> c_sftp s then Some (notConnected ''download'' remotePath s)
      else map_option (finish ''download'' remotePath) (downloadDirectoryRecursive E remotePath localPath [] s))"

definition uploadDirectory ::
    "('w, 'h) sftp_env \<Rightarrow> string \<Rightarrow> string \<Rightarrow> 'w sftp_client \<Rightarrow> 'w sftp_client option" where
  "uploadDirectory E localPath remotePath s =
     (if \<not> c_sftp s then Some (notConnected ''upload'' remotePath s)
      else map_option (finish ''upload'' remotePath) (uploadDirectoryRecursive E localPath remotePath [] s))"

definition createFile :: "('w, 'h) sftp_env \<Rightarrow> string \<Rightarrow> 'w sftp_client \<Rightarrow> 'w sftp_client" where
  "createFile E path s =
     (if \<not> c_sftp s then notConnected ''create'' path s
      else
        (case act (e_open E OpenNew path) s of
           (None, s1) \<Rightarrow> finish ''create'' path (False, lastSftpError E s1, s1)
         | (Some h, s1) \<Rightarrow> finish ''create'' path (True, [], actw (e_close E h) (note_log [RemoteOpened path] s1))))"

definition makeDirectory :: "('w, 'h) sftp_env \<Rightarrow> string \<Rightarrow> 'w sftp_client \<Rightarrow> 'w sftp_client" where
  "makeDirectory E path s =
     (if \<not> c_sftp s then notConnected ''mkdir'' path s
      else
        (case act (e_mkdir E path) s of
           (done, s1) \<Rightarrow> finish ''mkdir'' path (done, lastSftpError E s1, note_log [RemoteMkdir path] s1)))"

definition removeFile :: "('w, 'h) sftp_env \<Rightarrow> string \<Rightarrow> 'w sftp_client \<Rightarrow> 'w sftp_client" where
  "removeFile E path s =
     (if \<not> c_sftp s then notConnected ''delete'' path s
      else (case removeChildFile E path s of (done, s1) \<Rightarrow> finish ''delete'' path (done, lastSftpError E s1, s1)))"

definition removeDirectory ::
    "('w, 'h) sftp_env \<Rightarrow> string \<Rightarrow> 'w sftp_client \<Rightarrow> 'w sftp_client option" where
  "removeDirectory E path s =
     (if \<not> c_sftp s then Some (notConnected ''delete'' path s)
      else
        (case removeDir E path s of
           (done, s1) \<Rightarrow>
             if done then Some (finish ''delete'' path (True, [], s1))
             else map_option (finish ''delete'' path) (removeRecursively E path [] s1)))"

definition renameEntry :: "('w, 'h) sftp_env \<Rightarrow> string \<Rightarrow> string \<Rightarrow> 'w sftp_client \<Rightarrow> 'w sftp_client" where
  "renameEntry E oldPath newPath s =
     (if \<not> c_sftp s then notConnected ''rename'' oldPath s
      else
        (case act (e_rename E oldPath newPath) s of
           (done, s1) \<Rightarrow>
             finish ''rename'' oldPath (done, lastSftpError E s1, note_log [RemoteRename oldPath newPath] s1)))"

text \<open>
  The requests \<open>SftpSession\<close> queues for the worker's thread, served one by one. What a connection
  attempt meets is part of its request.
\<close>

datatype sftp_request =
    ReqConnect sftp_answers | ReqDisconnect | ReqList string
  | ReqDownload string string | ReqUpload string string
  | ReqDownloadDir string string | ReqUploadDir string string
  | ReqMkdir string | ReqCreate string | ReqRemove string | ReqRemoveDir string | ReqRename string string

record 'k sftp_setting =
  st_windows :: bool
  st_known :: 'k
  st_order :: "sftp_entry list \<Rightarrow> sftp_entry list"
  st_caseFold :: "string \<Rightarrow> string"

fun sftp_handle ::
    "('k, 'e) hosts_lib \<Rightarrow> 'k sftp_setting \<Rightarrow> ('w, 'h) sftp_env \<Rightarrow> sftp_request \<Rightarrow> 'w sftp_client \<Rightarrow>
     'w sftp_client option" where
  "sftp_handle lib st E (ReqConnect b) s = Some (fst (sftp_connect (st_windows st) lib b s (st_known st)))"
| "sftp_handle lib st E ReqDisconnect s = Some (sftp_disconnect (st_windows st) s)"
| "sftp_handle lib st E (ReqList p) s = listDirectory E (st_order st) (st_caseFold st) p s"
| "sftp_handle lib st E (ReqDownload r l) s = downloadFile E r l s"
| "sftp_handle lib st E (ReqUpload l r) s = uploadFile E l r s"
| "sftp_handle lib st E (ReqDownloadDir r l) s = downloadDirectory E r l s"
| "sftp_handle lib st E (ReqUploadDir l r) s = uploadDirectory E l r s"
| "sftp_handle lib st E (ReqMkdir p) s = Some (makeDirectory E p s)"
| "sftp_handle lib st E (ReqCreate p) s = Some (createFile E p s)"
| "sftp_handle lib st E (ReqRemove p) s = Some (removeFile E p s)"
| "sftp_handle lib st E (ReqRemoveDir p) s = removeDirectory E p s"
| "sftp_handle lib st E (ReqRename p q) s = Some (renameEntry E p q s)"

text \<open>
  A method of \<open>SftpSession\<close> queues its request for the thread of the client, which serves the queue in
  order, one request to its end before the next.
\<close>

definition sessionCall :: "sftp_request \<Rightarrow> sftp_request list \<Rightarrow> sftp_request list" where
  "sessionCall q queue = queue @ [q]"

fun serveQueue ::
    "('k, 'e) hosts_lib \<Rightarrow> 'k sftp_setting \<Rightarrow> ('w, 'h) sftp_env \<Rightarrow> sftp_request list \<Rightarrow> 'w sftp_client \<Rightarrow>
     'w sftp_client option" where
  "serveQueue lib st E [] s = Some s"
| "serveQueue lib st E (q # queue) s =
     do {
       s1 \<leftarrow> sftp_handle lib st E q s;
       serveQueue lib st E queue s1
     }"

end
