(* ===== verification/SftpProps.thy ===== *)
theory SftpProps
  imports Sftp "HOL-Library.Sublist"
begin

text \<open>
  What a request of the SFTP client does, for any server and any disk: how often and with what it
  answers, which files it touches, how transfers end.
\<close>

subsection \<open>What a request adds to the log\<close>

definition grew :: "(sftp_effect \<Rightarrow> bool) \<Rightarrow> 'w sftp_client \<Rightarrow> 'w sftp_client \<Rightarrow> bool" where
  "grew P s s' \<longleftrightarrow> (\<exists>fx. c_log s' = c_log s @ fx \<and> list_all P fx)"

lemma act_eq: "act f s = (r, s') \<Longrightarrow> s' = s\<lparr>c_world := snd (f (c_world s))\<rparr> \<and> r = fst (f (c_world s))"
  by (auto simp: act_def split: prod.splits)

lemma log_act [simp]: "act f s = (r, s') \<Longrightarrow> c_log s' = c_log s"
  by (auto simp: act_def split: prod.splits)

lemma log_simps [simp]:
  "c_log (note_log fx s) = c_log s @ fx" "c_log (actw g s) = c_log s"
  "c_log (snd (act f s)) = c_log s" "c_sftp (note_log fx s) = c_sftp s" "c_sftp (actw g s) = c_sftp s"
  by (simp_all add: note_log_def actw_def act_def split: prod.split)

lemma grew_refl [simp, intro]: "grew P s s"
  by (simp add: grew_def)



lemma grew_act: "act f s = (r, s') \<Longrightarrow> grew P s s'"
  by (simp add: grew_def)

lemma grew_actw [simp]: "grew P s (actw f t) = grew P s t" "grew P (actw f s) t = grew P s t"
  by (simp_all add: grew_def)


lemma grew_note [simp]: "list_all P fx \<Longrightarrow> grew P s t \<Longrightarrow> grew P s (note_log fx t)"
  by (auto simp: grew_def)

lemma grew_from_note: "grew P (note_log fx s) t \<Longrightarrow> list_all P fx \<Longrightarrow> grew P s t"
  by (auto simp: grew_def)



subsection \<open>Transfers\<close>

text \<open>The progress signals of one transfer: of its path and size, never decreasing.\<close>

definition progress_log :: "string \<Rightarrow> int \<Rightarrow> int \<Rightarrow> sftp_effect list \<Rightarrow> bool" where
  "progress_log path n from fx \<longleftrightarrow>
     (\<exists>ds. fx = map (\<lambda>d. TransferProgress path d n) ds \<and> sorted (from # ds))"

lemma progress_log_Nil [simp]: "progress_log path n from []"
  by (simp add: progress_log_def)

lemma progress_log_Cons:
  assumes "progress_log path n d fx" "from \<le> d"
  shows "progress_log path n from (TransferProgress path d n # fx)"
proof -
  obtain ds where "fx = map (\<lambda>d. TransferProgress path d n) ds" "sorted (d # ds)"
    using assms(1) by (auto simp: progress_log_def)
  then have "TransferProgress path d n # fx = map (\<lambda>d. TransferProgress path d n) (d # ds) \<and>
      sorted (from # d # ds)"
    using assms(2) by auto
  then show ?thesis unfolding progress_log_def by (intro exI [of _ "d # ds"])
qed

lemma downloadLoop_log:
  assumes "downloadLoop E h r l n d e s = Some (ok, e', s')"
  shows "\<exists>fx. c_log s' = c_log s @ fx \<and> progress_log r n d fx"
proof -
  have "case x of (ok, e', s') \<Rightarrow> \<exists>fx. c_log s' = c_log s @ fx \<and> progress_log r n d fx"
    if "downloadLoop E h r l n d e s = Some x" for x
  proof (rule downloadLoop.raw_induct [where P = "\<lambda>E h r l n d e s x. case x of (ok, e', s') \<Rightarrow>
        \<exists>fx. c_log s' = c_log s @ fx \<and> progress_log r n d fx", OF _ that], goal_cases)
    case (1 f E h r l n d e s x)
    obtain a s1 where a: "act (e_read E h) s = (a, s1)" by (cases "act (e_read E h) s")
    show ?case
    proof (cases "a = None \<or> a = Some []")
      case True
      then show ?thesis using 1(2) by (auto simp: a log_act [OF a])
    next
      case False
      then obtain b where b: "a = Some b" "b \<noteq> []" by auto
      obtain k s2 where k: "act (q_write E l b) s1 = (k, s2)" by (cases "act (q_write E l b) s1")
      show ?thesis
      proof (cases "k = int (length b)")
        case True
        from 1(2) have "f E h r l n (d + int (length b)) e (note_log [TransferProgress r (d + int (length b)) n] s2) = Some x"
          by (simp add: a b k True)
        from 1(1) [OF this] obtain ok e' s' fx where x: "x = (ok, e', s')"
          "c_log s' = c_log s @ TransferProgress r (d + int (length b)) n # fx" "progress_log r n (d + int (length b)) fx"
          by (cases x) (auto simp: log_act [OF k] log_act [OF a])
        then show ?thesis using progress_log_Cons [OF x(3), of d] b by auto
      qed (use 1(2) b in \<open>auto simp: a k log_act [OF k] log_act [OF a]\<close>)
    qed
  qed
  from this [OF assms] show ?thesis by simp
qed

lemma writeChunk_log:
  assumes "writeChunk E h d s = Some (ok, s')"
  shows "c_log s' = c_log s"
proof -
  have "case x of (ok, s') \<Rightarrow> c_log s' = c_log s" if "writeChunk E h d s = Some x" for x
  proof (rule writeChunk.raw_induct [where P = "\<lambda>E h d s x. case x of (ok, s') \<Rightarrow> c_log s' = c_log s",
        OF _ that], goal_cases)
    case (1 f E h d s x)
    obtain a s1 where a: "act (e_write E h d) s = (a, s1)" by (cases "act (e_write E h d) s")
    show ?case
    proof (cases "d = [] \<or> a = None")
      case True
      then show ?thesis using 1(2) by (auto simp: a log_act [OF a] split: if_splits)
    next
      case False
      then obtain k where "f E h (drop k d) s1 = Some x" using 1(2) by (auto simp: a)
      from 1(1) [OF this] show ?thesis by (simp add: log_act [OF a])
    qed
  qed
  from this [OF assms] show ?thesis by simp
qed

lemma uploadLoop_log:
  assumes "uploadLoop E h l r n d e s = Some (ok, e', s')"
  shows "\<exists>fx. c_log s' = c_log s @ fx \<and> progress_log r n d fx"
proof -
  have "case x of (ok, e', s') \<Rightarrow> \<exists>fx. c_log s' = c_log s @ fx \<and> progress_log r n d fx"
    if "uploadLoop E h l r n d e s = Some x" for x
  proof (rule uploadLoop.raw_induct [where P = "\<lambda>E h l r n d e s x. case x of (ok, e', s') \<Rightarrow>
        \<exists>fx. c_log s' = c_log s @ fx \<and> progress_log r n d fx", OF _ that], goal_cases)
    case (1 f E h l r n d e s x)
    obtain a s1 where a: "act (q_read E l) s = (a, s1)" by (cases "act (q_read E l) s")
    show ?case
    proof (cases "q_atEnd E l (c_world s) \<or> a = None")
      case True
      then show ?thesis using 1(2) by (auto simp: a log_act [OF a] split: if_splits)
    next
      case False
      then obtain b ok2 s2 where b: "a = Some b" and c: "writeChunk E h b s1 = Some (ok2, s2)"
        using 1(2) by (auto simp: a bind_eq_Some_conv)
      note w = writeChunk_log [OF c] log_act [OF a]
      show ?thesis
      proof (cases ok2)
        case True
        from 1(2) False have "f E h l r n (d + int (length b)) e (note_log [TransferProgress r (d + int (length b)) n] s2) = Some x"
          by (simp add: a b c True)
        from 1(1) [OF this] obtain ok e' s' fx where x: "x = (ok, e', s')"
          "c_log s' = c_log s @ TransferProgress r (d + int (length b)) n # fx" "progress_log r n (d + int (length b)) fx"
          by (cases x) (auto simp: w)
        then show ?thesis using progress_log_Cons [OF x(3), of d] by auto
      qed (use 1(2) False b c in \<open>auto simp: a w\<close>)
    qed
  qed
  from this [OF assms] show ?thesis by simp
qed

text \<open>
  The log of one file: it failed before it began, or it was opened for writing, reported its progress
  and was finished, and when it failed its partial result was removed just before.
\<close>

definition transfer_log ::
    "sftp_effect \<Rightarrow> sftp_effect \<Rightarrow> string \<Rightarrow> bool \<Rightarrow> sftp_effect list \<Rightarrow> bool" where
  "transfer_log start cleanup path ok fx \<longleftrightarrow>
     fx = [TransferFinished path False] \<and> \<not> ok \<or>
     (\<exists>n ps. progress_log path n 0 ps \<and>
        fx = start # TransferStarted path n # ps @ (if ok then [] else [cleanup]) @ [TransferFinished path ok])"

lemma downloadFileInternal_log:
  assumes "downloadFileInternal E r l e s = Some (ok, e', s')"
  shows "\<exists>fx. c_log s' = c_log s @ fx \<and> transfer_log (LocalOpened l) (LocalRemoved l) r ok fx"
proof -
  obtain h s1 where h: "act (e_open E OpenRead r) s = (h, s1)" by (cases "act (e_open E OpenRead r) s")
  show ?thesis
  proof (cases h)
    case None
    then show ?thesis using assms by (auto simp: downloadFileInternal_def h log_act [OF h] transfer_log_def)
  next
    case (Some hd)
    obtain a s2 where a: "act (e_fstat E hd) s1 = (a, s2)" by (cases "act (e_fstat E hd) s1")
    obtain c s3 where c: "act (q_create E l) s2 = (c, s3)" by (cases "act (q_create E l) s2")
    note logs = log_act [OF h] log_act [OF a] log_act [OF c]
    show ?thesis
    proof (cases c)
      case True
      then obtain ok1 e1 s4 where d: "downloadLoop E hd r l (size_or (-1) a) 0 e
          (note_log [LocalOpened l, TransferStarted r (size_or (-1) a)] s3) = Some (ok1, e1, s4)"
        using assms by (auto simp: downloadFileInternal_def h a c Some bind_eq_Some_conv)
      from downloadLoop_log [OF d] obtain ps where
        "c_log s4 = c_log s @ LocalOpened l # TransferStarted r (size_or (-1) a) # ps"
        "progress_log r (size_or (-1) a) 0 ps" by (auto simp: logs)
      then show ?thesis using assms True d
        by (auto simp: downloadFileInternal_def h a c Some Let_def transfer_log_def)
    qed (use assms in \<open>auto simp: downloadFileInternal_def h a c Some logs transfer_log_def\<close>)
  qed
qed

lemma uploadFileInternal_log:
  assumes "uploadFileInternal E l r e s = Some (ok, e', s')"
  shows "\<exists>fx. c_log s' = c_log s @ fx \<and> transfer_log (RemoteOpened r) (RemoteUnlink r) r ok fx"
proof -
  obtain q s1 where q: "act (q_open E l) s = (q, s1)" by (cases "act (q_open E l) s")
  let ?n = "q_size E l (c_world s1)"
  obtain h s2 where h: "act (e_open E OpenWrite r) s1 = (h, s2)" by (cases "act (e_open E OpenWrite r) s1")
  note logs = log_act [OF q] log_act [OF h]
  show ?thesis
  proof (cases "q \<and> h \<noteq> None")
    case False
    then show ?thesis using assms
      by (auto simp: uploadFileInternal_def q h logs transfer_log_def Let_def split: if_splits option.splits)
  next
    case True
    then obtain hd where hd: "h = Some hd" by auto
    obtain ok1 e1 s3 where d: "uploadLoop E hd l r ?n 0 e (note_log [RemoteOpened r, TransferStarted r ?n] s2) = Some (ok1, e1, s3)"
      using assms True by (auto simp: uploadFileInternal_def q h hd Let_def bind_eq_Some_conv)
    from uploadLoop_log [OF d] obtain ps where
      "c_log s3 = c_log s @ RemoteOpened r # TransferStarted r ?n # ps" "progress_log r ?n 0 ps"
      by (auto simp: logs)
    then show ?thesis using assms True d
      by (auto simp: uploadFileInternal_def q h hd Let_def transfer_log_def)
  qed
qed

subsection \<open>Which files a request touches\<close>






text \<open>The path itself, or one that starts with it and a slash.\<close>

definition beneath :: "string \<Rightarrow> string \<Rightarrow> bool" where
  "beneath p q \<longleftrightarrow> q = p \<or> prefix (joinPath p []) q"

lemma beneath_refl [simp]: "beneath p p"
  by (simp add: beneath_def)


lemma joinPath_twice: "joinPath (joinPath p []) x = joinPath p x"
  by (simp add: joinPath_def)
















subsection \<open>Every request\<close>







lemma log_finish: "c_log (finish op p (ok, m, s)) =
    c_log s @ [if ok then OperationSucceeded op p else OperationFailed op p m]"
  by (simp add: finish_def)













text \<open>
  C28. The transfer of one file ends in one of three ways: it fails before anything was opened; or the
  target is opened, progress is reported in steps that never go back, and the transfer is reported
  finished; or it fails on the way and the partial target is removed before that is reported. The
  result reported for the request is that of the transfer.
\<close>

theorem sftp_transfer_outcome:
  assumes "c_sftp s" and "sftp_handle lib st E q s = Some s'"
    and "q = ReqDownload r l \<and> op = ''download'' \<and> start = LocalOpened l \<and> cleanup = LocalRemoved l \<or>
         q = ReqUpload l r \<and> op = ''upload'' \<and> start = RemoteOpened r \<and> cleanup = RemoteUnlink r"
  shows "\<exists>fx ok m. transfer_log start cleanup r ok fx \<and>
    c_log s' = c_log s @ fx @ [if ok then OperationSucceeded op r else OperationFailed op r m]"
  using assms(3)
proof (elim disjE conjE)
  assume q: "q = ReqDownload r l" "op = ''download''" "start = LocalOpened l" "cleanup = LocalRemoved l"
  then obtain ok m t where "downloadFileInternal E r l [] s = Some (ok, m, t)"
    "s' = finish ''download'' r (ok, m, t)"
    using assms(1,2) by (auto simp: downloadFile_def)
  then show ?thesis using downloadFileInternal_log q by (fastforce simp: log_finish)
next
  assume q: "q = ReqUpload l r" "op = ''upload''" "start = RemoteOpened r" "cleanup = RemoteUnlink r"
  then obtain ok m t where "uploadFileInternal E l r [] s = Some (ok, m, t)"
    "s' = finish ''upload'' r (ok, m, t)"
    using assms(1,2) by (auto simp: uploadFile_def)
  then show ?thesis using uploadFileInternal_log q by (fastforce simp: log_finish)
qed

subsection \<open>Connecting\<close>

definition released :: "'w sftp_client \<Rightarrow> bool" where
  "released s \<longleftrightarrow> \<not> c_socket s \<and> \<not> c_session s \<and> \<not> c_sftp s"

definition sftp_balanced :: "'w sftp_client \<Rightarrow> bool" where
  "sftp_balanced s \<longleftrightarrow>
     count_list (c_ssh s) SocketOpened = count_list (c_ssh s) SocketClosed + of_bool (c_socket s) \<and>
     count_list (c_ssh s) SessionOpened = count_list (c_ssh s) SessionFreed + of_bool (c_session s) \<and>
     count_list (c_ssh s) ChannelOpened = count_list (c_ssh s) ChannelFreed + of_bool (c_sftp s)"

lemma neutral_counts:
  "neutral fx \<Longrightarrow> count_list fx SocketOpened = 0 \<and> count_list fx SocketClosed = 0 \<and>
     count_list fx SessionOpened = 0 \<and> count_list fx SessionFreed = 0 \<and>
     count_list fx ChannelOpened = 0 \<and> count_list fx ChannelFreed = 0"
  by (auto simp: neutral_def list_all_iff count_list_0_iff)

lemma sftp_teardown_ok:
  "sftp_balanced s \<Longrightarrow> sftp_balanced (sftp_teardown w s) \<and> released (sftp_teardown w s)"
  by (auto simp: sftp_balanced_def sftp_teardown_def closeSocketAndCleanup_def released_def)

lemma note_log_fields [simp]:
  "c_ssh (note_log fx s) = c_ssh s" "c_socket (note_log fx s) = c_socket s" "c_session (note_log fx s) = c_session s"
  by (simp_all add: note_log_def)

lemma connect_fails_simps [simp]:
  "released (connect_fails w m s)" "c_log (connect_fails w m s) = c_log s @ [SftpConnectFailed m]"
  by (simp_all add: connect_fails_def sftp_teardown_def released_def)

lemma balanced_connect_fails: "sftp_balanced s \<Longrightarrow> sftp_balanced (connect_fails w m s)"
  using sftp_teardown_ok [of "note_log [SftpConnectFailed m] s" w]
  by (simp add: connect_fails_def sftp_balanced_def)

text \<open>
  A connection attempt of the SFTP client ends in one of two ways, wherever it fails: connected, with
  socket, session and SFTP channel open and the home folder reported; or failed, with the error reported
  and every handle it opened released.
\<close>

theorem sftp_connect_outcome:
  assumes "released s" and "sftp_balanced s" and "sftp_connect windows lib b s known = (s', known')"
  shows "sftp_balanced s' \<and>
    ((\<exists>m. c_log s' = c_log s @ [SftpConnectFailed m] \<and> released s') \<or>
     (\<exists>h. c_log s' = c_log s @ [SftpConnected h] \<and> c_socket s' \<and> c_session s' \<and> c_sftp s'))"
proof -
  let ?h = "sh_host (c_settings s)" and ?p = "sh_port (c_settings s)"
  obtain e fx where c: "connectSocket windows (b_tcp b) ?h ?p = (e, fx)" by (cases "connectSocket windows (b_tcp b) ?h ?p")
  obtain e1 k fx1 where h: "handshakeAndVerifyHostKey lib (b_host b) ?h ?p known = (e1, k, fx1)"
    using prod_cases3 by blast
  obtain ok fx2 where a: "authenticate (b_server b) (c_settings s) = (ok, fx2)"
    by (cases "authenticate (b_server b) (c_settings s)")
  note n = neutral_counts [OF handshake_neutral [OF h]] neutral_counts [OF authenticate_neutral [OF a]]
    connectSocket_balanced [OF c]
  have s: "c_socket s = False" "c_session s = False" "c_sftp s = False"
    using assms(1) by (simp_all add: released_def)
  note bal = assms(2) [unfolded sftp_balanced_def s] n
  note conn = sftp_connect_def c h a Let_def
  show ?thesis
  proof (cases e)
    case (Some err)
    then show ?thesis using assms(3) bal s
      by (auto simp: conn sftp_balanced_def released_def)
  next
    case None
    consider "\<not> b_session b" | "b_session b" "e1 \<noteq> None" | "b_session b" "e1 = None" "\<not> ok"
      | "b_session b" "e1 = None" "ok" "\<not> b_sftp b" | "b_session b" "e1 = None" "ok" "b_sftp b" by blast
    then show ?thesis
    proof cases
      case 1
      let ?t = "s\<lparr>c_socket := True, c_ssh := c_ssh s @ fx, c_session := False\<rparr>"
      have "s' = connect_fails windows (SshMessage NoSession) ?t" using assms(3) 1 by (simp add: conn None)
      moreover have "sftp_balanced ?t" using bal by (simp add: sftp_balanced_def s None)
      ultimately show ?thesis by (simp add: balanced_connect_fails)
    next
      case 2
      then obtain err where err: "e1 = Some err" by auto
      let ?t = "s\<lparr>c_socket := True, c_session := True, c_ssh := c_ssh s @ fx @ SessionOpened # fx1\<rparr>"
      have "s' = connect_fails windows (SshMessage err) ?t" using assms(3) 2 by (simp add: conn None err)
      moreover have "sftp_balanced ?t" using bal by (simp add: sftp_balanced_def s None)
      ultimately show ?thesis by (simp add: balanced_connect_fails)
    next
      case 3
      let ?t = "s\<lparr>c_socket := True, c_session := True, c_ssh := c_ssh s @ fx @ SessionOpened # fx1 @ fx2\<rparr>"
      have "s' = connect_fails windows (SshMessage AuthFailed) ?t" using assms(3) 3 by (simp add: conn None)
      moreover have "sftp_balanced ?t" using bal by (simp add: sftp_balanced_def s None)
      ultimately show ?thesis by (simp add: balanced_connect_fails)
    next
      case 4
      let ?t = "s\<lparr>c_socket := True, c_session := True,
        c_ssh := c_ssh s @ fx @ SessionOpened # fx1 @ fx2 @ [SocketTimeout 0], c_sftp := False\<rparr>"
      have "s' = connect_fails windows NoSftpSubsystem ?t" using assms(3) 4 by (simp add: conn None)
      moreover have "sftp_balanced ?t" using bal by (simp add: sftp_balanced_def s None)
      ultimately show ?thesis by (simp add: balanced_connect_fails)
    next
      case 5
      have "sftp_balanced s'" using assms(3) 5 bal by (auto simp: conn sftp_balanced_def s None)
      moreover have "\<exists>h. c_log s' = c_log s @ [SftpConnected h] \<and> c_socket s' \<and> c_session s' \<and> c_sftp s'"
        using assms(3) 5 by (auto simp: conn None)
      ultimately show ?thesis by blast
    qed
  qed
qed

end
