(* ===== verification/SftpMirror.thy ===== *)
theory SftpMirror
  imports SftpProps SshProps
begin

text \<open>
  What the SFTP client achieves when nothing fails: on a server that serves the files it has
  (\<open>serves\<close>) a recursive download returns and leaves exactly the server's tree on the local disk, and
  a file that was uploaded (\<open>stores\<close>) is downloaded again unchanged. Both predicates state what libssh2,
  the server and the disk promise; the chunk sizes are theirs.
\<close>

subsection \<open>Files and directories of a world\<close>

record ('w, 'h) disk_view =
  rv_file :: "'w \<Rightarrow> string \<Rightarrow> bytes option"
  rv_dir :: "'w \<Rightarrow> string \<Rightarrow> (string \<times> attributes) list option"
  rv_local :: "'w \<Rightarrow> string \<Rightarrow> bytes option"
  rv_rest :: "'h \<Rightarrow> 'w \<Rightarrow> bytes"
  rv_left :: "'h \<Rightarrow> 'w \<Rightarrow> (string \<times> attributes) list"
  rv_target :: "'h \<Rightarrow> 'w \<Rightarrow> string"
  rv_source :: "string \<Rightarrow> 'w \<Rightarrow> bytes"

definition same_remote :: "('w, 'h) disk_view \<Rightarrow> 'w \<Rightarrow> 'w \<Rightarrow> bool" where
  "same_remote V w w' \<longleftrightarrow> rv_file V w' = rv_file V w \<and> rv_dir V w' = rv_dir V w"

definition same_disks :: "('w, 'h) disk_view \<Rightarrow> 'w \<Rightarrow> 'w \<Rightarrow> bool" where
  "same_disks V w w' \<longleftrightarrow> same_remote V w w' \<and> rv_local V w' = rv_local V w"

definition same_rest :: "('w, 'h) disk_view \<Rightarrow> 'w \<Rightarrow> 'w \<Rightarrow> bool" where
  "same_rest V w w' \<longleftrightarrow> (\<forall>h. rv_rest V h w' = rv_rest V h w)"

text \<open>Directories are listed completely and files sent completely, in chunks of any size.\<close>

definition lists_dirs :: "('w, 'h) sftp_env \<Rightarrow> ('w, 'h) disk_view \<Rightarrow> bool" where
  "lists_dirs E V \<longleftrightarrow>
     (\<forall>p es w. rv_dir V w p = Some es \<longrightarrow>
        (\<exists>h w'. e_opendir E p w = (Some h, w') \<and> same_disks V w w' \<and> rv_left V h w' = es)) \<and>
     (\<forall>h w. rv_left V h w = [] \<longrightarrow> (\<exists>w'. e_readdir E h w = (DirEnd, w') \<and> same_disks V w w')) \<and>
     (\<forall>h w n a es. rv_left V h w = (n, a) # es \<longrightarrow>
        (\<exists>w'. e_readdir E h w = (DirEntry n a, w') \<and> same_disks V w w' \<and> rv_left V h w' = es)) \<and>
     (\<forall>h w. same_disks V w (e_close E h w))"

definition sends_files :: "('w, 'h) sftp_env \<Rightarrow> ('w, 'h) disk_view \<Rightarrow> bool" where
  "sends_files E V \<longleftrightarrow>
     (\<forall>p b w. rv_file V w p = Some b \<longrightarrow>
        (\<exists>h w'. e_open E OpenRead p w = (Some h, w') \<and> same_disks V w w' \<and> rv_rest V h w' = b)) \<and>
     (\<forall>h w. \<exists>a w'. e_fstat E h w = (a, w') \<and> same_disks V w w' \<and> same_rest V w w') \<and>
     (\<forall>h w. \<exists>n w'. e_read E h w = (Some (take n (rv_rest V h w)), w') \<and> (n = 0 \<longrightarrow> rv_rest V h w = []) \<and>
        same_disks V w w' \<and> rv_rest V h w' = drop n (rv_rest V h w)) \<and>
     (\<forall>h w. same_disks V w (e_close E h w))"

definition keeps_files :: "('w, 'h) sftp_env \<Rightarrow> ('w, 'h) disk_view \<Rightarrow> bool" where
  "keeps_files E V \<longleftrightarrow>
     (\<forall>p w. \<exists>w'. q_mkpath E p w = (True, w') \<and> same_disks V w w') \<and>
     (\<forall>p w. \<exists>w'. q_create E p w = (True, w') \<and> same_remote V w w' \<and> same_rest V w w' \<and>
        rv_local V w' = (rv_local V w)(p \<mapsto> [])) \<and>
     (\<forall>p d b w. rv_local V w p = Some b \<longrightarrow>
        (\<exists>w'. q_write E p d w = (int (length d), w') \<and> same_remote V w w' \<and> same_rest V w w' \<and>
           rv_local V w' = (rv_local V w)(p \<mapsto> b @ d))) \<and>
     (\<forall>p w. same_disks V w (q_close E p w))"

definition serves :: "('w, 'h) sftp_env \<Rightarrow> ('w, 'h) disk_view \<Rightarrow> bool" where
  "serves E V \<longleftrightarrow> lists_dirs E V \<and> sends_files E V \<and> keeps_files E V"

lemmas same_defs = same_disks_def same_remote_def same_rest_def

subsection \<open>One file\<close>

lemma world_simps [simp]:
  "c_world (note_log fx s) = c_world s" "c_world (actw g s) = g (c_world s)"
  "note_log fx (s\<lparr>c_world := w\<rparr>) = (note_log fx s)\<lparr>c_world := w\<rparr>"
  by (simp_all add: note_log_def actw_def)

lemma downloadLoop_exact:
  assumes "sends_files E V" "keeps_files E V"
  shows "rv_local V (c_world s) l = Some b \<Longrightarrow> \<exists>s'. downloadLoop E h r l n d e s = Some (True, e, s') \<and>
    same_remote V (c_world s) (c_world s') \<and>
    rv_local V (c_world s') = (rv_local V (c_world s))(l \<mapsto> b @ rv_rest V h (c_world s))"
proof (induction "length (rv_rest V h (c_world s))" arbitrary: s b d rule: less_induct)
  case less
  let ?w = "c_world s"
  obtain k w1 where r: "e_read E h ?w = (Some (take k (rv_rest V h ?w)), w1)" "k = 0 \<longrightarrow> rv_rest V h ?w = []"
    "same_disks V ?w w1" "rv_rest V h w1 = drop k (rv_rest V h ?w)"
    using assms(1) unfolding sends_files_def by blast
  let ?d = "take k (rv_rest V h ?w)" and ?s1 = "s\<lparr>c_world := w1\<rparr>"
  show ?case
  proof (cases "rv_rest V h ?w = []")
    case True
    then show ?thesis using r less.prems
      by (subst downloadLoop.simps) (auto simp: act_def r(1) same_defs fun_upd_idem)
  next
    case False
    then have ne: "?d \<noteq> []" using r(2) by simp
    have "rv_local V w1 l = Some b" using r(3) less.prems by (simp add: same_defs)
    then obtain w2 where q: "q_write E l ?d w1 = (int (length ?d), w2)" "same_remote V w1 w2" "same_rest V w1 w2"
      "rv_local V w2 = (rv_local V w1)(l \<mapsto> b @ ?d)"
      using assms(2) unfolding keeps_files_def by blast
    let ?d' = "d + int (length ?d)"
    let ?s2 = "note_log [TransferProgress r ?d' n] (s\<lparr>c_world := w2\<rparr>)"
    have rest: "rv_rest V h (c_world ?s2) = drop k (rv_rest V h ?w)" using q(3) r(4) by (simp add: same_defs)
    have step: "downloadLoop E h r l n d e s = downloadLoop E h r l n ?d' e ?s2"
      using ne by (subst downloadLoop.simps) (simp add: act_def r(1) q(1))
    have "length (rv_rest V h (c_world ?s2)) < length (rv_rest V h ?w)"
      unfolding rest using False r(2) by (cases k) auto
    moreover have "rv_local V (c_world ?s2) l = Some (b @ ?d)" by (simp add: q(4))
    ultimately obtain s' where s': "downloadLoop E h r l n ?d' e ?s2 = Some (True, e, s')"
      "same_remote V (c_world ?s2) (c_world s')"
      "rv_local V (c_world s') = (rv_local V (c_world ?s2))(l \<mapsto> (b @ ?d) @ rv_rest V h (c_world ?s2))"
      using less.hyps by blast
    then show ?thesis
      using r(3) q(2,4) unfolding step rest by (auto simp: same_defs)
  qed
qed

lemma downloadFileInternal_exact:
  assumes "sends_files E V" "keeps_files E V" "rv_file V (c_world s) r = Some b"
  shows "\<exists>s'. downloadFileInternal E r l e s = Some (True, e, s') \<and>
    same_remote V (c_world s) (c_world s') \<and> rv_local V (c_world s') = (rv_local V (c_world s))(l \<mapsto> b)"
proof -
  let ?w = "c_world s"
  obtain h w1 where o: "e_open E OpenRead r ?w = (Some h, w1)" "same_disks V ?w w1" "rv_rest V h w1 = b"
    using assms(1,3) unfolding sends_files_def by blast
  obtain a w2 where f: "e_fstat E h w1 = (a, w2)" "same_disks V w1 w2" "same_rest V w1 w2"
    using assms(1) unfolding sends_files_def by blast
  obtain w3 where c: "q_create E l w2 = (True, w3)" "same_remote V w2 w3" "same_rest V w2 w3"
    "rv_local V w3 = (rv_local V w2)(l \<mapsto> [])"
    using assms(2) unfolding keeps_files_def by blast
  let ?n = "size_or (-1) a"
  let ?s = "note_log [LocalOpened l, TransferStarted r ?n] (s\<lparr>c_world := w3\<rparr>)"
  have rest: "rv_rest V h (c_world ?s) = b" using o(3) f(3) c(3) by (simp add: same_rest_def)
  obtain s4 where d: "downloadLoop E h r l ?n 0 e ?s = Some (True, e, s4)"
    "same_remote V (c_world ?s) (c_world s4)"
    "rv_local V (c_world s4) = (rv_local V (c_world ?s))(l \<mapsto> [] @ rv_rest V h (c_world ?s))"
    using downloadLoop_exact [OF assms(1,2), of ?s l "[]"] c(4) by fastforce
  have cl: "same_disks V w (q_close E l w)" for w using assms(2) unfolding keeps_files_def by blast
  have cl2: "same_disks V w (e_close E h w)" for w using assms(1) unfolding sends_files_def by blast
  have e: "downloadFileInternal E r l e s =
      Some (True, e, note_log [TransferFinished r True] (actw (e_close E h) (actw (q_close E l) s4)))"
    using d(1) by (simp add: downloadFileInternal_def act_def o(1) f(1) c(1))
  show ?thesis
    using d(2,3) o(2) f(2) c(2,4) cl [of "c_world s4"] cl2 [of "q_close E l (c_world s4)"] rest
    unfolding e by (auto simp: same_defs)
qed

subsection \<open>A directory and all it holds\<close>






definition put_all :: "(string \<times> bytes) list \<Rightarrow> (string \<Rightarrow> bytes option) \<Rightarrow> string \<Rightarrow> bytes option" where
  "put_all = fold (\<lambda>(p, b) m. m(p \<mapsto> b))"

lemma put_all_simps [simp]:
  "put_all [] m = m" "put_all (x # xs) m = put_all xs (m(fst x \<mapsto> snd x))"
  "put_all (xs @ ys) m = put_all ys (put_all xs m)"
  by (simp_all add: put_all_def split: prod.split)



lemma same_remote_trans: "same_remote V u v \<Longrightarrow> same_remote V v w \<Longrightarrow> same_remote V u w"
  by (simp add: same_remote_def)




subsection \<open>Uploading\<close>

definition same_sources :: "('w, 'h) disk_view \<Rightarrow> 'w \<Rightarrow> 'w \<Rightarrow> bool" where
  "same_sources V w w' \<longleftrightarrow> (\<forall>p. rv_source V p w' = rv_source V p w)"

definition reads_local :: "('w, 'h) sftp_env \<Rightarrow> ('w, 'h) disk_view \<Rightarrow> bool" where
  "reads_local E V \<longleftrightarrow>
     (\<forall>p b w. rv_local V w p = Some b \<longrightarrow>
        (\<exists>w'. q_open E p w = (True, w') \<and> same_disks V w w' \<and> rv_source V p w' = b)) \<and>
     (\<forall>p w. q_atEnd E p w \<longleftrightarrow> rv_source V p w = []) \<and>
     (\<forall>p w. \<exists>n w'. q_read E p w = (Some (take n (rv_source V p w)), w') \<and> (n = 0 \<longrightarrow> rv_source V p w = []) \<and>
        same_disks V w w' \<and> rv_source V p w' = drop n (rv_source V p w) \<and>
        (\<forall>h. rv_target V h w' = rv_target V h w)) \<and>
     (\<forall>p w. same_disks V w (q_close E p w))"

definition opens_remote :: "('w, 'h) sftp_env \<Rightarrow> ('w, 'h) disk_view \<Rightarrow> bool" where
  "opens_remote E V \<longleftrightarrow>
     (\<forall>p w. \<exists>h w'. e_open E OpenWrite p w = (Some h, w') \<and> rv_target V h w' = p \<and>
        rv_file V w' = (rv_file V w)(p \<mapsto> []) \<and> rv_local V w' = rv_local V w \<and> same_sources V w w')"

definition writes_remote :: "('w, 'h) sftp_env \<Rightarrow> ('w, 'h) disk_view \<Rightarrow> bool" where
  "writes_remote E V \<longleftrightarrow>
     (\<forall>h d b w. d \<noteq> [] \<longrightarrow> rv_file V w (rv_target V h w) = Some b \<longrightarrow>
        (\<exists>k w'. e_write E h d w = (Some k, w') \<and> 0 < k \<and> rv_target V h w' = rv_target V h w \<and>
           rv_file V w' = (rv_file V w)(rv_target V h w \<mapsto> b @ take k d) \<and>
           rv_local V w' = rv_local V w \<and> same_sources V w w'))"

definition stores :: "('w, 'h) sftp_env \<Rightarrow> ('w, 'h) disk_view \<Rightarrow> bool" where
  "stores E V \<longleftrightarrow> reads_local E V \<and> opens_remote E V \<and> writes_remote E V"

lemma writeChunk_exact:
  assumes "writes_remote E V"
  shows "rv_file V (c_world s) (rv_target V h (c_world s)) = Some b \<Longrightarrow>
    \<exists>s'. writeChunk E h d s = Some (True, s') \<and> c_sftp s' = c_sftp s \<and>
      rv_target V h (c_world s') = rv_target V h (c_world s) \<and>
      rv_file V (c_world s') = (rv_file V (c_world s))(rv_target V h (c_world s) \<mapsto> b @ d) \<and>
      rv_local V (c_world s') = rv_local V (c_world s) \<and> same_sources V (c_world s) (c_world s')"
proof (induction "length d" arbitrary: d b s rule: less_induct)
  case less
  show ?case
  proof (cases "d = []")
    case True
    then show ?thesis using less.prems
      by (subst writeChunk.simps) (simp add: fun_upd_idem same_sources_def)
  next
    case False
    obtain k w1 where w: "e_write E h d (c_world s) = (Some k, w1)" "0 < k"
      "rv_target V h w1 = rv_target V h (c_world s)"
      "rv_file V w1 = (rv_file V (c_world s))(rv_target V h (c_world s) \<mapsto> b @ take k d)"
      "rv_local V w1 = rv_local V (c_world s)" "same_sources V (c_world s) w1"
      using assms [unfolded writes_remote_def, rule_format, OF False less.prems] by blast
    let ?s = "s\<lparr>c_world := w1\<rparr>"
    have step: "writeChunk E h d s = writeChunk E h (drop k d) ?s"
      using False by (subst writeChunk.simps) (simp add: act_def w(1))
    have "length (drop k d) < length d" using False w(2) by simp
    moreover have "rv_file V (c_world ?s) (rv_target V h (c_world ?s)) = Some (b @ take k d)"
      using w(3,4) by simp
    ultimately obtain s' where "writeChunk E h (drop k d) ?s = Some (True, s')" "c_sftp s' = c_sftp s"
      "rv_target V h (c_world s') = rv_target V h w1"
      "rv_file V (c_world s') = (rv_file V w1)(rv_target V h w1 \<mapsto> (b @ take k d) @ drop k d)"
      "rv_local V (c_world s') = rv_local V w1" "same_sources V w1 (c_world s')"
      using less.hyps [of "drop k d" ?s "b @ take k d"] by auto
    then show ?thesis unfolding step using w(3-6) by (auto simp: same_sources_def)
  qed
qed

lemma uploadLoop_exact:
  assumes "reads_local E V" "writes_remote E V"
  shows "rv_file V (c_world s) (rv_target V h (c_world s)) = Some b \<Longrightarrow>
    \<exists>s'. uploadLoop E h l r n d e s = Some (True, e, s') \<and> c_sftp s' = c_sftp s \<and>
      rv_file V (c_world s') =
        (rv_file V (c_world s))(rv_target V h (c_world s) \<mapsto> b @ rv_source V l (c_world s)) \<and>
      rv_local V (c_world s') = rv_local V (c_world s)"
proof (induction "length (rv_source V l (c_world s))" arbitrary: b d s rule: less_induct)
  case less
  let ?w = "c_world s" and ?t = "rv_target V h (c_world s)"
  have e: "q_atEnd E l ?w \<longleftrightarrow> rv_source V l ?w = []" using assms(1) unfolding reads_local_def by blast
  show ?case
  proof (cases "rv_source V l ?w = []")
    case True
    then show ?thesis using less.prems e by (subst uploadLoop.simps) (simp add: fun_upd_idem)
  next
    case False
    obtain k w1 where r: "q_read E l ?w = (Some (take k (rv_source V l ?w)), w1)"
      "k = 0 \<longrightarrow> rv_source V l ?w = []" "same_disks V ?w w1" "rv_source V l w1 = drop k (rv_source V l ?w)"
      "rv_target V h w1 = ?t"
      using assms(1) unfolding reads_local_def by blast
    let ?d = "take k (rv_source V l ?w)"
    have "rv_file V (c_world (s\<lparr>c_world := w1\<rparr>)) (rv_target V h (c_world (s\<lparr>c_world := w1\<rparr>))) = Some b"
      using r(3,5) less.prems by (simp add: same_defs)
    from writeChunk_exact [OF assms(2) this, of ?d] obtain s2 where
      s2: "writeChunk E h ?d (s\<lparr>c_world := w1\<rparr>) = Some (True, s2)" "c_sftp s2 = c_sftp s"
      "rv_target V h (c_world s2) = ?t" "rv_file V (c_world s2) = (rv_file V ?w)(?t \<mapsto> b @ ?d)"
      "rv_local V (c_world s2) = rv_local V ?w" "rv_source V l (c_world s2) = drop k (rv_source V l ?w)"
      using r(3-5) by (auto simp: same_defs same_sources_def)
    let ?d' = "d + int (length ?d)"
    let ?s3 = "note_log [TransferProgress r ?d' n] s2"
    have step: "uploadLoop E h l r n d e s = uploadLoop E h l r n ?d' e ?s3"
      using False e by (subst uploadLoop.simps) (simp add: act_def r(1) s2(1))
    have "length (rv_source V l (c_world ?s3)) < length (rv_source V l ?w)"
      using False r(2) s2(6) by (cases k) auto
    moreover have "rv_file V (c_world ?s3) (rv_target V h (c_world ?s3)) = Some (b @ ?d)" using s2(3,4) by simp
    ultimately obtain s' where s': "uploadLoop E h l r n ?d' e ?s3 = Some (True, e, s')"
      "c_sftp s' = c_sftp ?s3"
      "rv_file V (c_world s') = (rv_file V (c_world ?s3))(rv_target V h (c_world ?s3) \<mapsto>
         (b @ ?d) @ rv_source V l (c_world ?s3))"
      "rv_local V (c_world s') = rv_local V (c_world ?s3)"
      using less.hyps by blast
    then show ?thesis unfolding step using s2 by auto
  qed
qed

text \<open>
  C25. A file that was uploaded comes back unchanged: with a server that takes what it is sent and serves
  what it has, uploading a local file and downloading it again to any place returns both times, reports
  success and leaves a copy of the original there, whatever the chunks on either way.
\<close>

theorem upload_then_download:
  assumes "serves E V" and "stores E V" and "c_sftp s" and "rv_local V (c_world s) l = Some b"
  shows "\<exists>s' s''. uploadFile E l r s = Some s' \<and> last (c_log s') = OperationSucceeded ''upload'' r \<and>
    downloadFile E r l' s' = Some s'' \<and> last (c_log s'') = OperationSucceeded ''download'' r \<and>
    rv_local V (c_world s'') = (rv_local V (c_world s))(l' \<mapsto> b)"
proof -
  have S: "reads_local E V" "opens_remote E V" "writes_remote E V" and D: "sends_files E V" "keeps_files E V"
    using assms(1,2) by (simp_all add: stores_def serves_def)
  obtain w1 where q: "q_open E l (c_world s) = (True, w1)" "same_disks V (c_world s) w1" "rv_source V l w1 = b"
    using S(1) assms(4) unfolding reads_local_def by blast
  obtain h w2 where o: "e_open E OpenWrite r w1 = (Some h, w2)" "rv_target V h w2 = r"
    "rv_file V w2 = (rv_file V w1)(r \<mapsto> [])" "rv_local V w2 = rv_local V w1" "same_sources V w1 w2"
    using S(2) unfolding opens_remote_def by blast
  let ?n = "q_size E l w1"
  let ?s = "note_log [RemoteOpened r, TransferStarted r ?n] (s\<lparr>c_world := w2\<rparr>)"
  obtain s3 where u: "uploadLoop E h l r ?n 0 [] ?s = Some (True, [], s3)" "c_sftp s3 = c_sftp s"
    "rv_file V (c_world s3) r = Some b" "rv_local V (c_world s3) = rv_local V (c_world s)"
    using uploadLoop_exact [OF S(1,3), of ?s h "[]"] o(2-5) q(2,3) by (fastforce simp: same_sources_def same_defs)
  let ?t = "actw (q_close E l) (note_log [TransferFinished r True] (actw (e_close E h) s3))"
  let ?u = "finish ''upload'' r (True, [], ?t)"
  have up: "uploadFile E l r s = Some ?u"
    using u(1) assms(3) by (simp add: uploadFile_def uploadFileInternal_def act_def q(1) o(1) Let_def)
  have "same_disks V (c_world s3) (c_world ?u)"
    using S(1) D(1) unfolding reads_local_def sends_files_def finish_def by (simp add: same_defs)
  then have f: "rv_file V (c_world ?u) r = Some b" "rv_local V (c_world ?u) = rv_local V (c_world s)"
    using u(3,4) by (simp_all add: same_defs)
  obtain v where v: "downloadFileInternal E r l' [] ?u = Some (True, [], v)"
    "rv_local V (c_world v) = (rv_local V (c_world ?u))(l' \<mapsto> b)"
    using downloadFileInternal_exact [OF D f(1)] by blast
  have "c_sftp ?u" using u(2) assms(3) by (simp add: finish_def)
  then have dn: "downloadFile E r l' ?u = Some (finish ''download'' r (True, [], v))"
    using v(1) by (simp add: downloadFile_def)
  show ?thesis
    using up dn v(2) f(2) by (intro exI [of _ ?u] exI [of _ "finish ''download'' r (True, [], v)"])
      (simp add: finish_def)
qed

text \<open>
  A listing that breaks off is taken for a complete one: if the server fails while a directory is
  read, a recursive download reports success although it has downloaded nothing that was not yet listed,
  here nothing at all.
\<close>

theorem broken_listing_succeeds:
  assumes "c_sftp s" and "q_mkpath E l (c_world s) = (True, w1)" and "e_opendir E r w1 = (Some h, w2)"
    and "e_readdir E h w2 = (DirError, w3)"
  shows "\<exists>s'. downloadDirectory E r l s = Some s' \<and>
    c_log s' = c_log s @ [LocalMkpath l, OperationSucceeded ''download'' r]"
proof -
  let ?s = "note_log [LocalMkpath l] (s\<lparr>c_world := w2\<rparr>)"
  have "readdirLoop E h [] ?s = Some ([], ?s\<lparr>c_world := w3\<rparr>)"
    by (subst readdirLoop.simps) (simp add: act_def assms(4))
  then have "downloadDirectoryRecursive E r l [] s = Some (True, [], actw (e_close E h) (?s\<lparr>c_world := w3\<rparr>))"
    by (subst downloadDirectoryRecursive.simps) (simp add: act_def assms(2,3) children_of_def)
  then show ?thesis using assms(1) by (simp add: downloadDirectory_def finish_def)
qed

subsection \<open>A world\<close>

text \<open>A server and a disk that meet both predicates; two bytes are sent and one is taken at a time.\<close>

record demo_world =
  dw_files :: "string \<Rightarrow> bytes option"
  dw_dirs :: "string \<Rightarrow> (string \<times> attributes) list option"
  dw_local :: "string \<Rightarrow> bytes option"
  dw_rest :: "nat \<Rightarrow> bytes"
  dw_left :: "nat \<Rightarrow> (string \<times> attributes) list"
  dw_target :: "nat \<Rightarrow> string"
  dw_source :: "string \<Rightarrow> bytes"
  dw_next :: nat

definition no_attributes :: attributes where
  "no_attributes = \<lparr>at_permissions = None, at_size = None, at_mtime = None\<rparr>"

definition demo_open :: "open_mode \<Rightarrow> string \<Rightarrow> demo_world \<Rightarrow> nat option \<times> demo_world" where
  "demo_open m p w =
     (let h = dw_next w; w1 = w\<lparr>dw_next := h + 1\<rparr> in
      case m of
        OpenRead \<Rightarrow>
          (case dw_files w p of None \<Rightarrow> (None, w) | Some b \<Rightarrow> (Some h, w1\<lparr>dw_rest := (dw_rest w)(h := b)\<rparr>))
      | OpenWrite \<Rightarrow> (Some h, w1\<lparr>dw_target := (dw_target w)(h := p), dw_files := (dw_files w)(p \<mapsto> [])\<rparr>)
      | OpenNew \<Rightarrow> (if dw_files w p \<noteq> None then (None, w) else (Some h, w1\<lparr>dw_files := (dw_files w)(p \<mapsto> [])\<rparr>)))"

definition demo_readdir :: "nat \<Rightarrow> demo_world \<Rightarrow> dir_answer \<times> demo_world" where
  "demo_readdir h w =
     (case dw_left w h of
        [] \<Rightarrow> (DirEnd, w)
      | (n, a) # es \<Rightarrow> (DirEntry n a, w\<lparr>dw_left := (dw_left w)(h := es)\<rparr>))"

definition demo_sftp_env :: "(demo_world, nat) sftp_env" where
  "demo_sftp_env =
     \<lparr>e_opendir = (\<lambda>p w. case dw_dirs w p of
          None \<Rightarrow> (None, w)
        | Some es \<Rightarrow> (Some (dw_next w), w\<lparr>dw_left := (dw_left w)(dw_next w := es), dw_next := dw_next w + 1\<rparr>)),
      e_readdir = demo_readdir, e_open = demo_open, e_fstat = (\<lambda>h w. (no_attributes, w)),
      e_read = (\<lambda>h w. (Some (take 2 (dw_rest w h)), w\<lparr>dw_rest := (dw_rest w)(h := drop 2 (dw_rest w h))\<rparr>)),
      e_write = (\<lambda>h d w. (Some 1, w\<lparr>dw_files := (dw_files w)(dw_target w h :=
         map_option (\<lambda>b. b @ take 1 d) (dw_files w (dw_target w h)))\<rparr>)),
      e_close = (\<lambda>h w. w), e_stat = (\<lambda>p w. (None, w)), e_mkdir = (\<lambda>p w. (True, w)),
      e_unlink = (\<lambda>p w. (True, w\<lparr>dw_files := (dw_files w)(p := None)\<rparr>)), e_rmdir = (\<lambda>p w. (True, w)),
      e_rename = (\<lambda>p q w. (True, w)), e_protocol_error = (\<lambda>w. True), e_last_code = (\<lambda>w. 2),
      e_last_message = (\<lambda>w. None), q_mkpath = (\<lambda>p w. (True, w)),
      q_create = (\<lambda>p w. (True, w\<lparr>dw_local := (dw_local w)(p \<mapsto> [])\<rparr>)),
      q_write = (\<lambda>p d w. (int (length d), w\<lparr>dw_local := (dw_local w)(p := map_option (\<lambda>b. b @ d) (dw_local w p))\<rparr>)),
      q_open = (\<lambda>p w. case dw_local w p of None \<Rightarrow> (False, w) | Some b \<Rightarrow> (True, w\<lparr>dw_source := (dw_source w)(p := b)\<rparr>)),
      q_size = (\<lambda>p w. int (length (dw_source w p))), q_atEnd = (\<lambda>p w. dw_source w p = []),
      q_read = (\<lambda>p w. (Some (take 2 (dw_source w p)), w\<lparr>dw_source := (dw_source w)(p := drop 2 (dw_source w p))\<rparr>)),
      q_close = (\<lambda>p w. w), q_remove = (\<lambda>p w. w\<lparr>dw_local := (dw_local w)(p := None)\<rparr>),
      q_error = (\<lambda>w. []), q_entries = (\<lambda>p w. [])\<rparr>"

definition demo_view :: "(demo_world, nat) disk_view" where
  "demo_view =
     \<lparr>rv_file = dw_files, rv_dir = dw_dirs, rv_local = dw_local, rv_rest = (\<lambda>h w. dw_rest w h),
      rv_left = (\<lambda>h w. dw_left w h), rv_target = (\<lambda>h w. dw_target w h), rv_source = (\<lambda>p w. dw_source w p)\<rparr>"

lemmas demo_defs = demo_sftp_env_def demo_view_def demo_open_def demo_readdir_def same_defs same_sources_def Let_def

lemma demo_serves: "serves demo_sftp_env demo_view"
proof -
  have "lists_dirs demo_sftp_env demo_view"
    unfolding lists_dirs_def by (intro conjI allI) (auto simp: demo_defs)
  moreover have "sends_files demo_sftp_env demo_view"
    unfolding sends_files_def
  proof (intro conjI allI)
    fix h w
    show "\<exists>n w'. e_read demo_sftp_env h w = (Some (take n (rv_rest demo_view h w)), w') \<and>
        (n = 0 \<longrightarrow> rv_rest demo_view h w = []) \<and> same_disks demo_view w w' \<and>
        rv_rest demo_view h w' = drop n (rv_rest demo_view h w)"
      by (intro exI [of _ 2]) (auto simp: demo_defs)
  qed (auto simp: demo_defs)
  moreover have "keeps_files demo_sftp_env demo_view"
    unfolding keeps_files_def by (intro conjI allI) (auto simp: demo_defs)
  ultimately show ?thesis by (simp add: serves_def)
qed

lemma demo_stores: "stores demo_sftp_env demo_view"
proof -
  have "reads_local demo_sftp_env demo_view"
    unfolding reads_local_def
  proof (intro conjI allI)
    fix p w
    show "\<exists>n w'. q_read demo_sftp_env p w = (Some (take n (rv_source demo_view p w)), w') \<and>
        (n = 0 \<longrightarrow> rv_source demo_view p w = []) \<and> same_disks demo_view w w' \<and>
        rv_source demo_view p w' = drop n (rv_source demo_view p w) \<and>
        (\<forall>h. rv_target demo_view h w' = rv_target demo_view h w)"
      by (intro exI [of _ 2]) (auto simp: demo_defs)
  qed (auto simp: demo_defs)
  moreover have "opens_remote demo_sftp_env demo_view"
    unfolding opens_remote_def by (auto simp: demo_defs)
  moreover have "writes_remote demo_sftp_env demo_view"
    unfolding writes_remote_def
  proof (intro allI impI)
    fix h w b
    fix d :: bytes
    assume "d \<noteq> []" "rv_file demo_view w (rv_target demo_view h w) = Some b"
    then show "\<exists>k w'. e_write demo_sftp_env h d w = (Some k, w') \<and> 0 < k \<and>
        rv_target demo_view h w' = rv_target demo_view h w \<and>
        rv_file demo_view w' = (rv_file demo_view w)(rv_target demo_view h w \<mapsto> b @ take k d) \<and>
        rv_local demo_view w' = rv_local demo_view w \<and> same_sources demo_view w w'"
      by (intro exI [of _ 1]) (auto simp: demo_defs)
  qed
  ultimately show ?thesis by (simp add: stores_def)
qed

subsection \<open>Instances\<close>

definition demo_client :: "demo_world sftp_client" where
  "demo_client =
     \<lparr>c_settings = default_ssh_settings, c_socket = True, c_session = True, c_sftp = True, c_ssh = [],
      c_world =
        \<lparr>dw_files = [''/h/a'' \<mapsto> [1, 2, 3], ''/h/d/b'' \<mapsto> [4]],
         dw_dirs = [''/h'' \<mapsto> [(''.'', no_attributes), (''a'', no_attributes),
                             (''d'', no_attributes\<lparr>at_permissions := Some 0x41ED\<rparr>)],
                    ''/h/d'' \<mapsto> [(''b'', no_attributes)]],
         dw_local = [''/x'' \<mapsto> [7, 8, 9]], dw_rest = (\<lambda>h. []), dw_left = (\<lambda>h. []), dw_target = (\<lambda>h. []),
         dw_source = (\<lambda>p. []), dw_next = 0\<rparr>,
      c_log = []\<rparr>"




theorem upload_then_download_witness:
  "\<exists>s' s''. uploadFile demo_sftp_env ''/x'' ''/h/x'' demo_client = Some s' \<and>
     downloadFile demo_sftp_env ''/h/x'' ''/y'' s' = Some s'' \<and>
     dw_local (c_world s'') = [''/x'' \<mapsto> [7, 8, 9], ''/y'' \<mapsto> [7, 8, 9]]"
proof -
  have "c_sftp demo_client" "rv_local demo_view (c_world demo_client) ''/x'' = Some [7, 8, 9]"
    by (simp_all add: demo_client_def demo_view_def)
  from upload_then_download [OF demo_serves demo_stores this, of "''/h/x''" "''/y''"] show ?thesis
    by (auto simp: demo_view_def demo_client_def)
qed

definition breaking_env :: "(demo_world, nat) sftp_env" where
  "breaking_env = demo_sftp_env\<lparr>e_readdir := \<lambda>h w. (DirError, w)\<rparr>"

theorem broken_listing_succeeds_witness:
  "\<exists>s'. downloadDirectory breaking_env ''/h'' ''/l'' demo_client = Some s' \<and>
     c_log s' = [LocalMkpath ''/l'', OperationSucceeded ''download'' ''/h'']"
proof -
  let ?w = "c_world demo_client"
  let ?w2 = "snd (e_opendir breaking_env ''/h'' ?w)"
  have "c_sftp demo_client" "q_mkpath breaking_env ''/l'' ?w = (True, ?w)"
    "e_opendir breaking_env ''/h'' ?w = (Some 0, ?w2)" "e_readdir breaking_env 0 ?w2 = (DirError, ?w2)"
    by (simp_all add: breaking_env_def demo_sftp_env_def demo_client_def)
  from broken_listing_succeeds [OF this] show ?thesis by (simp add: demo_client_def)
qed

definition demo_setting :: "(string \<times> nat \<times> bytes) list sftp_setting" where
  "demo_setting = \<lparr>st_windows = False, st_known = [], st_order = (\<lambda>es. es), st_caseFold = (\<lambda>s. s)\<rparr>"



theorem sftp_transfer_outcome_witness:
  "\<exists>s' fx ok m. sftp_handle SshProps.demo_hosts demo_setting demo_sftp_env (ReqDownload ''/h/c'' ''/l'') demo_client = Some s' \<and>
     transfer_log (LocalOpened ''/l'') (LocalRemoved ''/l'') ''/h/c'' ok fx \<and>
     c_log s' = fx @ [if ok then OperationSucceeded ''download'' ''/h/c'' else OperationFailed ''download'' ''/h/c'' m]"
proof -
  have c: "c_sftp demo_client" by (simp add: demo_client_def)
  obtain s' where s': "sftp_handle SshProps.demo_hosts demo_setting demo_sftp_env (ReqDownload ''/h/c'' ''/l'') demo_client = Some s'"
    by (simp add: downloadFile_def downloadFileInternal_def act_def demo_sftp_env_def demo_open_def demo_client_def Let_def)
  from sftp_transfer_outcome [OF c s', where r = "''/h/c''" and l = "''/l''" and op = "''download''"
      and start = "LocalOpened ''/l''" and cleanup = "LocalRemoved ''/l''"] show ?thesis
    using s' by (auto simp: demo_client_def)
qed

definition demo_fresh :: "demo_world sftp_client" where
  "demo_fresh = demo_client\<lparr>c_settings := demo_settings, c_socket := False, c_session := False, c_sftp := False\<rparr>"

definition demo_answers :: sftp_answers where
  "demo_answers =
     \<lparr>b_tcp = a_tcp demo_ssh, b_session = True, b_host = demo_host, b_server = (\<lambda>c. True), b_sftp = False,
      b_home = None\<rparr>"

theorem sftp_connect_outcome_witness:
  "let s' = fst (sftp_connect False SshProps.demo_hosts demo_answers demo_fresh []) in
   sftp_balanced s' \<and> ((\<exists>m. c_log s' = [SftpConnectFailed m] \<and> released s') \<or>
     (\<exists>h. c_log s' = [SftpConnected h] \<and> c_socket s' \<and> c_session s' \<and> c_sftp s'))"
proof -
  let ?r = "sftp_connect False SshProps.demo_hosts demo_answers demo_fresh []"
  have "released demo_fresh" "sftp_balanced demo_fresh" "?r = (fst ?r, snd ?r)"
    by (simp_all add: demo_fresh_def demo_client_def released_def sftp_balanced_def)
  from sftp_connect_outcome [OF this] show ?thesis by (simp add: demo_fresh_def demo_client_def Let_def)
qed

end
