(* ===== verification/SftpTree.thy ===== *)
theory SftpTree
  imports Sftp "HOL-Library.Sublist"
begin

text \<open>
  The tree of remote files the SFTP dock shows: \<open>src/src/sftp/SftpModel.{h,cpp}\<close>.

  A \<open>Node *\<close> is the number of a node, its \<open>parent\<close> and \<open>children\<close> pointers are the shape of the tree.
  \<open>m_byPath\<close> is a second way to a node, by path: a number it holds that is no longer in the tree is a
  dangling pointer, and following it is undefined (\<open>None\<close>).
\<close>

subsection \<open>Nodes\<close>

datatype tnode =
  TNode (nd_id: nat) (nd_name: string) (nd_path: string) (nd_isDirectory: bool) (nd_size: int)
    (nd_modifiedTime: int) (nd_childrenLoaded: bool) (nd_loading: bool) (nd_children: "tnode list")

fun nodes :: "tnode \<Rightarrow> tnode list" where
  "nodes (TNode i n p d s m cl l cs) = TNode i n p d s m cl l cs # concat (map nodes cs)"

fun set_loading :: "bool \<Rightarrow> tnode \<Rightarrow> tnode" where
  "set_loading b (TNode i n p d s m cl l cs) = TNode i n p d s m cl b cs"

fun set_children :: "bool \<Rightarrow> bool \<Rightarrow> tnode list \<Rightarrow> tnode \<Rightarrow> tnode" where
  "set_children cl b cs (TNode i n p d s m cl0 l cs0) = TNode i n p d s m cl b cs"

definition findNode :: "nat \<Rightarrow> tnode \<Rightarrow> tnode option" where
  "findNode i t = List.find (\<lambda>n. nd_id n = i) (nodes t)"

definition parentOf :: "nat \<Rightarrow> tnode \<Rightarrow> tnode option" where
  "parentOf i t = List.find (\<lambda>n. i \<in> set (map nd_id (nd_children n))) (nodes t)"

fun updateNode :: "nat \<Rightarrow> (tnode \<Rightarrow> tnode) \<Rightarrow> tnode \<Rightarrow> tnode" where
  "updateNode i f (TNode j n p d s m cl l cs) =
     (if j = i then f (TNode j n p d s m cl l cs) else TNode j n p d s m cl l (map (updateNode i f) cs))"

record sftp_model =
  md_root :: tnode
  md_byPath :: "string \<Rightarrow> nat option"
  md_next :: nat

subsection \<open>Operations\<close>

definition initial_model :: sftp_model where
  "initial_model =
     \<lparr>md_root = TNode 0 [] [] True 0 0 True False [], md_byPath = [[] \<mapsto> 0], md_next = 1\<rparr>"

definition setRoot :: "string \<Rightarrow> sftp_model \<Rightarrow> sftp_model" where
  "setRoot path m =
     \<lparr>md_root = TNode (md_next m) path path True 0 0 False False [],
      md_byPath = [path \<mapsto> md_next m], md_next = md_next m + 1\<rparr>"

text \<open>\<open>findNodeByPath\<close>: no node, or the node the cache points to, if it still exists.\<close>

definition findNodeByPath :: "string \<Rightarrow> sftp_model \<Rightarrow> tnode option option" where
  "findNodeByPath path m =
     (case md_byPath m path of
        None \<Rightarrow> Some None
      | Some i \<Rightarrow> (case findNode i (md_root m) of None \<Rightarrow> None | Some n \<Rightarrow> Some (Some n)))"

definition insertIntoCache :: "tnode \<Rightarrow> sftp_model \<Rightarrow> sftp_model" where
  "insertIntoCache n m = m\<lparr>md_byPath := (md_byPath m)(nd_path n \<mapsto> nd_id n)\<rparr>"

fun removeFromCache :: "tnode \<Rightarrow> (string \<Rightarrow> nat option) \<Rightarrow> string \<Rightarrow> nat option" where
  "removeFromCache (TNode i n p d s m cl l cs) c = fold removeFromCache cs (c(p := None))"

definition markLoading :: "bool \<Rightarrow> string \<Rightarrow> sftp_model \<Rightarrow> sftp_model option" where
  "markLoading b path m =
     do {
       found \<leftarrow> findNodeByPath path m;
       Some (case found of
          None \<Rightarrow> m
        | Some n \<Rightarrow> m\<lparr>md_root := updateNode (nd_id n) (set_loading b) (md_root m)\<rparr>)
     }"

definition new_child :: "nat \<Rightarrow> string \<Rightarrow> sftp_entry \<Rightarrow> tnode" where
  "new_child i path e =
     TNode i (en_name e) (joinPath path (en_name e)) (en_isDirectory e) (en_size e) (en_modifiedTime e)
       False False []"

text \<open>The new children, numbered from \<open>i\<close>.\<close>

fun new_children :: "nat \<Rightarrow> string \<Rightarrow> sftp_entry list \<Rightarrow> tnode list" where
  "new_children i path [] = []"
| "new_children i path (e # es) = new_child i path e # new_children (Suc i) path es"

definition applyDirectoryListing :: "string \<Rightarrow> sftp_entry list \<Rightarrow> sftp_model \<Rightarrow> sftp_model option" where
  "applyDirectoryListing path es m =
     do {
       found \<leftarrow> findNodeByPath path m;
       Some (case found of
          None \<Rightarrow> m
        | Some n \<Rightarrow>
            let cs = new_children (md_next m) path es;
                m1 = m\<lparr>md_byPath := fold removeFromCache (nd_children n) (md_byPath m)\<rparr>;
                m2 = fold insertIntoCache cs m1
            in m2\<lparr>md_root := updateNode (nd_id n) (set_children True False cs) (md_root m),
                  md_next := md_next m + length es\<rparr>)
     }"

definition removeEntry :: "string \<Rightarrow> sftp_model \<Rightarrow> sftp_model option" where
  "removeEntry path m =
     do {
       found \<leftarrow> findNodeByPath path m;
       Some (case found of
          None \<Rightarrow> m
        | Some n \<Rightarrow>
            (case parentOf (nd_id n) (md_root m) of
               None \<Rightarrow> m
             | Some p \<Rightarrow>
                 m\<lparr>md_root :=
                     updateNode (nd_id p)
                       (\<lambda>q. set_children (nd_childrenLoaded q) (nd_loading q)
                              (filter (\<lambda>c. nd_id c \<noteq> nd_id n) (nd_children q)) q)
                       (md_root m),
                   md_byPath := removeFromCache n (md_byPath m)\<rparr>))
     }"

definition addPlaceholderDirectory :: "string \<Rightarrow> string \<Rightarrow> sftp_model \<Rightarrow> sftp_model option" where
  "addPlaceholderDirectory parentPath name m =
     do {
       found \<leftarrow> findNodeByPath parentPath m;
       Some (case found of
          None \<Rightarrow> m
        | Some p \<Rightarrow>
            if \<not> nd_childrenLoaded p then m
            else
              let child = TNode (md_next m) name (joinPath parentPath name) True 0 0 False False []
              in (insertIntoCache child m)
                   \<lparr>md_root := updateNode (nd_id p)
                      (\<lambda>q. set_children (nd_childrenLoaded q) (nd_loading q) (nd_children q @ [child]) q) (md_root m),
                    md_next := md_next m + 1\<rparr>)
     }"

subsection \<open>The item model\<close>

text \<open>An index is a node; the invalid one (\<open>None\<close>) is the root.\<close>

definition nodeForIndex :: "sftp_model \<Rightarrow> nat option \<Rightarrow> tnode option" where
  "nodeForIndex m idx = (case idx of None \<Rightarrow> Some (md_root m) | Some i \<Rightarrow> findNode i (md_root m))"

definition indexForNode :: "sftp_model \<Rightarrow> nat \<Rightarrow> (nat \<times> nat) option" where
  "indexForNode m i =
     (if i = nd_id (md_root m) then None
      else
        (case parentOf i (md_root m) of
           None \<Rightarrow> None
         | Some p \<Rightarrow> Some (length (takeWhile (\<lambda>c. nd_id c \<noteq> i) (nd_children p)), i)))"

definition childIndex :: "sftp_model \<Rightarrow> nat \<Rightarrow> nat option \<Rightarrow> nat option option" where
  "childIndex m row parent =
     do {
       p \<leftarrow> nodeForIndex m parent;
       Some (if row < length (nd_children p) then Some (nd_id (nd_children p ! row)) else None)
     }"

definition rowCount :: "sftp_model \<Rightarrow> nat option \<Rightarrow> nat option" where
  "rowCount m idx = map_option (length \<circ> nd_children) (nodeForIndex m idx)"

definition hasChildren :: "sftp_model \<Rightarrow> nat option \<Rightarrow> bool option" where
  "hasChildren m idx =
     map_option (\<lambda>n. nd_isDirectory n \<and> (\<not> nd_childrenLoaded n \<or> nd_children n \<noteq> [])) (nodeForIndex m idx)"

definition indexForPath :: "string \<Rightarrow> sftp_model \<Rightarrow> (nat \<times> nat) option option" where
  "indexForPath path m =
     do {
       found \<leftarrow> findNodeByPath path m;
       Some (case found of None \<Rightarrow> None | Some n \<Rightarrow> indexForNode m (nd_id n))
     }"

text \<open>The type column; \<open>toUpper\<close> is Qt's, the suffix that of \<open>QFileInfo\<close>.\<close>

definition fileSuffix :: "string \<Rightarrow> string" where
  "fileSuffix name =
     (let base = rev (takeWhile (\<lambda>c. c \<noteq> CHR ''/'') (rev name))
      in if CHR ''.'' \<in> set base then rev (takeWhile (\<lambda>c. c \<noteq> CHR ''.'') (rev base)) else [])"

definition typeLabel :: "(string \<Rightarrow> string) \<Rightarrow> bool \<Rightarrow> string \<Rightarrow> string" where
  "typeLabel toUpper isDirectory name =
     (if isDirectory then ''File folder''
      else if fileSuffix name = [] then ''File''
      else toUpper (fileSuffix name) @ '' File'')"

text \<open>What a cell shows; sizes and times are formatted by \<open>QLocale\<close>. The ellipsis is in UTF-8.\<close>

datatype column = NameColumn | ModifiedColumn | TypeColumn | SizeColumn

definition cellText ::
    "(int \<Rightarrow> string) \<Rightarrow> (int \<Rightarrow> string) \<Rightarrow> (string \<Rightarrow> string) \<Rightarrow> column \<Rightarrow> tnode \<Rightarrow> string" where
  "cellText formatSize formatTime toUpper col n =
     (case col of
        NameColumn \<Rightarrow>
          if nd_loading n then nd_name n @ '' (loading'' @ map char_of [0xE2, 0x80, 0xA6 :: nat] @ '')'' else nd_name n
      | SizeColumn \<Rightarrow> if nd_isDirectory n then [] else formatSize (nd_size n)
      | TypeColumn \<Rightarrow> typeLabel toUpper (nd_isDirectory n) (nd_name n)
      | ModifiedColumn \<Rightarrow> if nd_modifiedTime n > 0 then formatTime (nd_modifiedTime n) else [])"

definition headerText :: "column \<Rightarrow> string" where
  "headerText col =
     (case col of NameColumn \<Rightarrow> ''Name'' | ModifiedColumn \<Rightarrow> ''Date modified'' | TypeColumn \<Rightarrow> ''Type'' | SizeColumn \<Rightarrow> ''Size'')"

text \<open>The flags of an item: whether it can be dragged and whether it takes drops.\<close>

definition itemFlags :: "sftp_model \<Rightarrow> nat option \<Rightarrow> (bool \<times> bool) option" where
  "itemFlags m idx =
     (case idx of None \<Rightarrow> Some (False, False)
      | Some i \<Rightarrow> map_option (\<lambda>n. (True, nd_isDirectory n)) (findNode i (md_root m)))"

definition parentIndex :: "sftp_model \<Rightarrow> nat option \<Rightarrow> (nat \<times> nat) option" where
  "parentIndex m idx =
     (case idx of None \<Rightarrow> None
      | Some i \<Rightarrow> (case parentOf i (md_root m) of None \<Rightarrow> None | Some p \<Rightarrow> indexForNode m (nd_id p)))"

subsection \<open>Events\<close>

datatype tree_event =
    SetRoot string | MarkLoading string | MarkLoadFailed string
  | Listing string "sftp_entry list" | RemoveEntry string | AddDirectory string string

fun tree_handle :: "tree_event \<Rightarrow> sftp_model \<Rightarrow> sftp_model option" where
  "tree_handle (SetRoot p) m = Some (setRoot p m)"
| "tree_handle (MarkLoading p) m = markLoading True p m"
| "tree_handle (MarkLoadFailed p) m = markLoading False p m"
| "tree_handle (Listing p es) m = applyDirectoryListing p es m"
| "tree_handle (RemoveEntry p) m = removeEntry p m"
| "tree_handle (AddDirectory p n) m = addPlaceholderDirectory p n m"

fun tree_run :: "tree_event list \<Rightarrow> sftp_model \<Rightarrow> sftp_model option" where
  "tree_run [] m = Some m"
| "tree_run (e # es) m = do { m1 \<leftarrow> tree_handle e m; tree_run es m1 }"

subsection \<open>Numbers and paths of a tree\<close>

fun keys :: "tnode \<Rightarrow> (nat \<times> string) list" where
  "keys (TNode i n p d s m cl l cs) = (i, p) # concat (map keys cs)"

definition ids :: "tnode \<Rightarrow> nat list" where
  "ids t = map fst (keys t)"

lemma keys_nodes: "keys t = map (\<lambda>n. (nd_id n, nd_path n)) (nodes t)"
  by (induction t) (simp add: map_concat o_def cong: map_cong)

lemma ids_simps [simp]: "ids (TNode i n p d s m cl l cs) = i # concat (map ids cs)"
  by (simp add: ids_def map_concat o_def) (simp add: ids_def [abs_def])

lemma ids_nodes: "ids t = map nd_id (nodes t)"
  by (simp add: ids_def keys_nodes)

lemma key_self [simp]: "(nd_id t, nd_path t) \<in> set (keys t)"
  by (cases t) simp

lemma id_self [simp]: "nd_id t \<in> set (ids t)"
  by (cases t) simp

lemma find_Some_in: "List.find P xs = Some x \<Longrightarrow> x \<in> set xs \<and> P x"
  by (auto simp: find_Some_iff)

lemma find_unique:
  assumes "x \<in> set xs" "P x" "\<And>y. y \<in> set xs \<Longrightarrow> P y \<Longrightarrow> y = x"
  shows "List.find P xs = Some x"
proof (cases "List.find P xs")
  case None
  then show ?thesis using assms(1,2) by (simp add: find_None_iff)
next
  case (Some y)
  then show ?thesis using assms(3) find_Some_in by fastforce
qed

lemma findNode_in: "findNode i t = Some n \<Longrightarrow> n \<in> set (nodes t) \<and> nd_id n = i"
  by (auto simp: findNode_def find_Some_iff)

lemma distinct_ids_node:
  assumes "distinct (ids t)" "x \<in> set (nodes t)" "y \<in> set (nodes t)" "nd_id x = nd_id y"
  shows "x = y"
proof -
  have "inj_on nd_id (set (nodes t))" using assms(1) by (simp add: ids_nodes distinct_map)
  then show ?thesis using assms(2-4) unfolding inj_on_def by blast
qed

lemma findNode_Some:
  assumes "distinct (ids t)" "n \<in> set (nodes t)"
  shows "findNode (nd_id n) t = Some n"
  unfolding findNode_def using assms distinct_ids_node [OF assms(1)] by (intro find_unique) auto

lemma findNode_key:
  assumes "distinct (ids t)" "(i, p) \<in> set (keys t)"
  shows "\<exists>n. findNode i t = Some n \<and> nd_path n = p"
  using assms findNode_Some [OF assms(1)] unfolding keys_nodes by force

text \<open>Replacing one node changes the keys of its subtree only.\<close>

lemma updateNode_other: "i \<notin> set (ids t) \<Longrightarrow> updateNode i f t = t"
  by (induction t) (simp add: map_idI)

lemma keys_split:
  assumes "distinct (ids t)" "n \<in> set (nodes t)"
  shows "\<exists>A B. keys t = A @ keys n @ B \<and> (\<forall>f. keys (updateNode (nd_id n) f t) = A @ keys (f n) @ B)"
  using assms
proof (induction t)
  case (TNode i nm p d s m cl l cs)
  show ?case
  proof (cases "nd_id n = i")
    case True
    then have "n = TNode i nm p d s m cl l cs"
      using distinct_ids_node [OF TNode.prems] by simp
    then show ?thesis using True by (intro exI [of _ "[]"]) simp
  next
    case False
    then obtain c where c: "c \<in> set cs" "n \<in> set (nodes c)" using TNode.prems(2) by auto
    then obtain us vs where cs: "cs = us @ c # vs" by (auto simp: in_set_conv_decomp)
    have dc: "distinct (ids c)" and "nd_id n \<in> set (ids c)"
      using TNode.prems(1) c by (auto simp: cs ids_nodes)
    then have o: "nd_id n \<notin> set (ids u)" if "u \<in> set us \<union> set vs" for u
      using TNode.prems(1) that by (auto simp: cs)
    obtain A B where ab: "keys c = A @ keys n @ B" "\<forall>f. keys (updateNode (nd_id n) f c) = A @ keys (f n) @ B"
      using TNode.IH [OF c(1) dc c(2)] by blast
    have "map (updateNode (nd_id n) f) us = us" "map (updateNode (nd_id n) f) vs = vs" for f
      using o by (auto intro!: map_idI updateNode_other)
    then show ?thesis using False ab
      by (intro exI [of _ "(i, p) # concat (map keys us) @ A"] exI [of _ "B @ concat (map keys vs)"])
        (simp add: cs)
  qed
qed

lemma removeFromCache_eq: "removeFromCache t c = (\<lambda>q. if q \<in> snd ` set (keys t) then None else c q)"
proof (induction t arbitrary: c)
  case (TNode i n p d s m cl l cs)
  have "fold removeFromCache ts c = (\<lambda>q. if q \<in> snd ` set (concat (map keys ts)) then None else c q)"
    if "set ts \<subseteq> set cs" for ts c
    using that TNode.IH by (induction ts arbitrary: c) (auto simp: fun_eq_iff)
  from this [of cs] show ?case by (auto simp: fun_eq_iff)
qed

lemma fold_removeFromCache:
  "fold removeFromCache ts c = (\<lambda>q. if q \<in> snd ` set (concat (map keys ts)) then None else c q)"
  by (induction ts arbitrary: c) (auto simp: fun_eq_iff removeFromCache_eq)

lemma fold_insertIntoCache:
  "fold insertIntoCache ns m = m\<lparr>md_byPath := fold (\<lambda>n c. c(nd_path n \<mapsto> nd_id n)) ns (md_byPath m)\<rparr>"
  by (induction ns arbitrary: m) (simp_all add: insertIntoCache_def)

lemma fold_inserted:
  "fold (\<lambda>n c. c(nd_path n \<mapsto> nd_id n)) ns c q = Some i \<Longrightarrow>
   (\<exists>n \<in> set ns. nd_path n = q \<and> nd_id n = i) \<or> c q = Some i"
  by (induction ns arbitrary: c) (fastforce split: if_splits)+

lemma fold_inserted_distinct:
  "distinct (map nd_path ns) \<Longrightarrow> n \<in> set ns \<Longrightarrow> fold (\<lambda>n c. c(nd_path n \<mapsto> nd_id n)) ns c (nd_path n) = Some (nd_id n)"
  by (induction ns arbitrary: c rule: rev_induct) (auto simp: image_iff)

lemma fold_inserted_other:
  "q \<notin> nd_path ` set ns \<Longrightarrow> fold (\<lambda>n c. c(nd_path n \<mapsto> nd_id n)) ns c q = c q"
  by (induction ns arbitrary: c) auto

lemma new_children_keys:
  "map nd_id (new_children i path es) = [i ..< i + length es]"
  "map nd_path (new_children i path es) = map (\<lambda>e. joinPath path (en_name e)) es"
  "map nd_name (new_children i path es) = map en_name es"
  "\<forall>c \<in> set (new_children i path es). nd_children c = []"
  "concat (map keys (new_children i path es)) = map (\<lambda>c. (nd_id c, nd_path c)) (new_children i path es)"
  by (induction es arbitrary: i) (auto simp: new_child_def upt_conv_Cons simp del: upt_Suc)

subsection \<open>The cache never dangles\<close>

definition model_ok :: "sftp_model \<Rightarrow> bool" where
  "model_ok m \<longleftrightarrow>
     distinct (ids (md_root m)) \<and> (\<forall>i \<in> set (ids (md_root m)). i < md_next m) \<and>
     (\<forall>p i. md_byPath m p = Some i \<longrightarrow> (i, p) \<in> set (keys (md_root m)))"

lemma found_node:
  assumes "model_ok m" "md_byPath m p = Some i"
  shows "\<exists>n. findNodeByPath p m = Some (Some n) \<and> n \<in> set (nodes (md_root m)) \<and> nd_path n = p \<and> nd_id n = i"
proof -
  have "(i, p) \<in> set (keys (md_root m))" "distinct (ids (md_root m))" using assms by (auto simp: model_ok_def)
  from findNode_key [OF this(2,1)] obtain n where "findNode i (md_root m) = Some n" "nd_path n = p" by blast
  then show ?thesis using findNode_in assms(2) by (fastforce simp: findNodeByPath_def)
qed

lemma findNodeByPath_cases:
  assumes "model_ok m"
  obtains "findNodeByPath p m = Some None" "md_byPath m p = None"
  | n where "findNodeByPath p m = Some (Some n)" "n \<in> set (nodes (md_root m))" "nd_path n = p"
      "md_byPath m p = Some (nd_id n)"
proof (cases "md_byPath m p")
  case None
  then show ?thesis using that(1) by (simp add: findNodeByPath_def)
next
  case (Some i)
  then show ?thesis using found_node [OF assms Some] that(2) by blast
qed

lemma set_loading_keys [simp]: "keys (set_loading b t) = keys t"
  by (cases t) simp

lemma set_children_keys [simp]:
  "keys (set_children cl b cs t) = (nd_id t, nd_path t) # concat (map keys cs)"
  by (cases t) simp

lemma keys_children: "keys t = (nd_id t, nd_path t) # concat (map keys (nd_children t))"
  by (cases t) simp

lemma remove_child_keys:
  assumes "distinct (ids p)" "c \<in> set (nd_children p)"
  shows "\<exists>C D. keys p = C @ keys c @ D \<and>
    keys (set_children cl b (filter (\<lambda>x. nd_id x \<noteq> nd_id c) (nd_children p)) p) = C @ D"
proof -
  obtain us vs where cs: "nd_children p = us @ c # vs" using assms(2) by (auto simp: in_set_conv_decomp)
  have d: "distinct (concat (map ids (us @ c # vs)))" using assms(1) by (cases p) (simp add: cs [symmetric])
  have o: "nd_id x \<noteq> nd_id c" if "x \<in> set us \<union> set vs" for x
  proof
    assume e: "nd_id x = nd_id c"
    have "nd_id c \<in> set (ids x)" unfolding e [symmetric] by simp
    moreover have "set (ids x) \<inter> set (ids c) = {}" using d that by auto
    ultimately show False using id_self [of c] by blast
  qed
  have "filter (\<lambda>x. nd_id x \<noteq> nd_id c) us = us" "filter (\<lambda>x. nd_id x \<noteq> nd_id c) vs = vs"
    using o by (auto simp: filter_id_conv)
  then show ?thesis
    by (intro exI [of _ "(nd_id p, nd_path p) # concat (map keys us)"] exI [of _ "concat (map keys vs)"])
      (simp add: cs keys_children [of p])
qed

lemma parentOf_Some:
  assumes "parentOf i t = Some p"
  shows "p \<in> set (nodes t) \<and> (\<exists>c \<in> set (nd_children p). nd_id c = i)"
  using find_Some_in [OF assms [unfolded parentOf_def]] by auto

lemma node_self [simp]: "t \<in> set (nodes t)"
  by (cases t) simp

lemma children_nodes: "p \<in> set (nodes t) \<Longrightarrow> c \<in> set (nd_children p) \<Longrightarrow> c \<in> set (nodes t)"
proof (induction t)
  case (TNode i n q d s m cl l cs)
  then show ?case using node_self [of c] by (cases "p = TNode i n q d s m cl l cs") fastforce+
qed

lemma nodes_ids:
  assumes "distinct (ids t)" "n \<in> set (nodes t)"
  shows "distinct (ids n)"
  using keys_split [OF assms] assms(1) by (auto simp: ids_def)

lemma setRoot_ok: "model_ok (setRoot p m)"
  by (simp add: model_ok_def setRoot_def)

lemma initial_model_ok: "model_ok initial_model"
  by (simp add: model_ok_def initial_model_def)

lemma markLoading_ok:
  assumes "model_ok m"
  shows "\<exists>m'. markLoading b p m = Some m' \<and> model_ok m'"
  using assms
proof (cases rule: findNodeByPath_cases [of m p])
  case (2 n)
  have d: "distinct (ids (md_root m))" using assms by (simp add: model_ok_def)
  obtain A B where "keys (md_root m) = A @ keys n @ B"
    "\<forall>f. keys (updateNode (nd_id n) f (md_root m)) = A @ keys (f n) @ B"
    using keys_split [OF d 2(2)] by blast
  then have "keys (updateNode (nd_id n) (set_loading b) (md_root m)) = keys (md_root m)" by simp
  then show ?thesis using 2 assms by (simp add: markLoading_def model_ok_def ids_def)
qed (use assms in \<open>simp_all add: markLoading_def\<close>)

lemma applyDirectoryListing_ok:
  assumes "model_ok m"
  shows "\<exists>m'. applyDirectoryListing p es m = Some m' \<and> model_ok m'"
  using assms
proof (cases rule: findNodeByPath_cases [of m p])
  case (2 n)
  let ?cs = "new_children (md_next m) p es"
  have d: "distinct (ids (md_root m))" and lt: "\<forall>i \<in> set (ids (md_root m)). i < md_next m"
    using assms by (simp_all add: model_ok_def)
  obtain A B where k: "keys (md_root m) = A @ keys n @ B"
    "\<forall>f. keys (updateNode (nd_id n) f (md_root m)) = A @ keys (f n) @ B"
    using keys_split [OF d 2(2)] by blast
  let ?r = "updateNode (nd_id n) (set_children True False ?cs) (md_root m)"
  let ?b = "fold (\<lambda>n c. c(nd_path n \<mapsto> nd_id n)) ?cs (fold removeFromCache (nd_children n) (md_byPath m))"
  have kr: "keys ?r = A @ (nd_id n, p) # map (\<lambda>c. (nd_id c, nd_path c)) ?cs @ B"
    using k(2) by (simp add: new_children_keys 2(3))
  have ko: "keys (md_root m) = A @ (nd_id n, p) # concat (map keys (nd_children n)) @ B"
    using k(1) keys_children [of n] 2(3) by simp
  have ir: "ids ?r = map fst A @ nd_id n # [md_next m ..< md_next m + length es] @ map fst B"
    using kr new_children_keys(1) [of "md_next m" p es] by (simp add: ids_def o_def)
  have io: "ids (md_root m) = map fst A @ nd_id n # map fst (concat (map keys (nd_children n))) @ map fst B"
    using ko by (simp add: ids_def)
  have lim: "nd_id n < md_next m" "\<And>i. i \<in> set (map fst A) \<Longrightarrow> i < md_next m"
    "\<And>i. i \<in> set (map fst B) \<Longrightarrow> i < md_next m" using lt unfolding io by simp_all
  from lim have "nd_id n \<notin> set [md_next m ..< md_next m + length es]"
    "set (map fst A) \<inter> set [md_next m ..< md_next m + length es] = {}"
    "set (map fst B) \<inter> set [md_next m ..< md_next m + length es] = {}"
    unfolding disjoint_iff set_upt atLeastLessThan_iff by (simp_all only: not_le [symmetric]) blast+
  then have di: "distinct (ids ?r)" using d unfolding ir io by (simp add: Int_Un_distrib Int_commute)
  have li: "\<forall>i \<in> set (ids ?r). i < md_next m + length es"
    unfolding ir using lim(1) by (auto simp del: set_map dest!: lim(2,3))
  have c: "(i, q) \<in> set (keys ?r)" if q: "?b q = Some i" for q i
    using fold_inserted [OF q]
  proof
    assume "\<exists>c \<in> set ?cs. nd_path c = q \<and> nd_id c = i"
    then show ?thesis unfolding kr by force
  next
    assume "fold removeFromCache (nd_children n) (md_byPath m) q = Some i"
    then have r: "q \<notin> snd ` set (concat (map keys (nd_children n)))" "md_byPath m q = Some i"
      by (auto simp: fold_removeFromCache split: if_splits)
    then have "(i, q) \<in> set (keys (md_root m))" using assms by (simp add: model_ok_def)
    then show ?thesis using r(1) unfolding kr ko by force
  qed
  show ?thesis using 2 di li c by (simp add: applyDirectoryListing_def Let_def fold_insertIntoCache model_ok_def)
qed (use assms in \<open>simp_all add: applyDirectoryListing_def\<close>)

lemma removeEntry_ok:
  assumes "model_ok m"
  shows "\<exists>m'. removeEntry p m = Some m' \<and> model_ok m'"
  using assms
proof (cases rule: findNodeByPath_cases [of m p])
  case (2 n)
  have d: "distinct (ids (md_root m))" and lt: "\<forall>i \<in> set (ids (md_root m)). i < md_next m"
    using assms by (simp_all add: model_ok_def)
  show ?thesis
  proof (cases "parentOf (nd_id n) (md_root m)")
    case None
    then show ?thesis using 2 assms by (simp add: removeEntry_def)
  next
    case (Some q)
    from parentOf_Some [OF Some] obtain c where q: "q \<in> set (nodes (md_root m))"
      and c: "c \<in> set (nd_children q)" "nd_id c = nd_id n" by blast
    then have cn: "c = n" using distinct_ids_node [OF d children_nodes [OF q] 2(2)] by blast
    let ?f = "\<lambda>q. set_children (nd_childrenLoaded q) (nd_loading q) (filter (\<lambda>c. nd_id c \<noteq> nd_id n) (nd_children q)) q"
    obtain A B where k: "keys (md_root m) = A @ keys q @ B"
      "\<forall>f. keys (updateNode (nd_id q) f (md_root m)) = A @ keys (f q) @ B"
      using keys_split [OF d q] by blast
    obtain C D where cd: "keys q = C @ keys n @ D" "keys (?f q) = C @ D"
      using remove_child_keys [OF nodes_ids [OF d q] c(1)] unfolding cn by blast
    let ?r = "updateNode (nd_id q) ?f (md_root m)"
    have kr: "keys ?r = A @ C @ D @ B" using k(2) cd(2) by simp
    have ko: "keys (md_root m) = A @ C @ keys n @ D @ B" using k(1) cd(1) by simp
    have "distinct (ids ?r)" "\<forall>i \<in> set (ids ?r). i < md_next m"
      using d lt unfolding ids_def kr ko by auto
    moreover have "(i, x) \<in> set (keys ?r)" if "removeFromCache n (md_byPath m) x = Some i" for x i
    proof -
      have x: "x \<notin> snd ` set (keys n)" "md_byPath m x = Some i"
        using that by (auto simp: removeFromCache_eq split: if_splits)
      then have "(i, x) \<in> set (keys (md_root m))" using assms by (simp add: model_ok_def)
      then show ?thesis using x(1) unfolding kr ko by force
    qed
    ultimately show ?thesis using 2 Some by (simp add: removeEntry_def model_ok_def)
  qed
qed (use assms in \<open>simp_all add: removeEntry_def\<close>)

lemma addPlaceholderDirectory_ok:
  assumes "model_ok m"
  shows "\<exists>m'. addPlaceholderDirectory p nm m = Some m' \<and> model_ok m'"
  using assms
proof (cases rule: findNodeByPath_cases [of m p])
  case (2 n)
  have d: "distinct (ids (md_root m))" and lt: "\<forall>i \<in> set (ids (md_root m)). i < md_next m"
    using assms by (simp_all add: model_ok_def)
  let ?c = "TNode (md_next m) nm (joinPath p nm) True 0 0 False False []"
  let ?f = "\<lambda>q. set_children (nd_childrenLoaded q) (nd_loading q) (nd_children q @ [?c]) q"
  obtain A B where k: "keys (md_root m) = A @ keys n @ B"
    "\<forall>f. keys (updateNode (nd_id n) f (md_root m)) = A @ keys (f n) @ B"
    using keys_split [OF d 2(2)] by blast
  let ?r = "updateNode (nd_id n) ?f (md_root m)"
  have kr: "keys ?r = A @ keys n @ (md_next m, joinPath p nm) # B"
    using k(2) keys_children [of n] by simp
  have "md_next m \<notin> set (ids (md_root m))" using lt by auto
  then have "distinct (ids ?r)" "\<forall>i \<in> set (ids ?r). i < Suc (md_next m)"
    using d lt unfolding ids_def kr k(1) by (auto simp: less_Suc_eq)
  moreover have "(i, x) \<in> set (keys ?r)" if "((md_byPath m)(joinPath p nm \<mapsto> md_next m)) x = Some i" for x i
    using that assms unfolding kr by (auto simp: model_ok_def k(1) split: if_splits)
  ultimately show ?thesis using 2 assms
    by (simp add: addPlaceholderDirectory_def Let_def insertIntoCache_def model_ok_def)
qed (use assms in \<open>simp_all add: addPlaceholderDirectory_def\<close>)

lemma tree_handle_ok: "model_ok m \<Longrightarrow> \<exists>m'. tree_handle e m = Some m' \<and> model_ok m'"
  by (cases e) (simp_all add: setRoot_ok markLoading_ok applyDirectoryListing_ok removeEntry_ok
      addPlaceholderDirectory_ok)

text \<open>
  C29. The path cache of the file tree never dangles: from the start, whatever listings, removals, new
  folders and changes of root arrive in whatever order, for paths that exist or not and with whatever
  names, every operation is defined, and each entry of the cache is a node of the tree with that path.
\<close>

theorem tree_cache_sound:
  "\<exists>m. tree_run es initial_model = Some m \<and> model_ok m"
proof -
  have "model_ok m \<Longrightarrow> \<exists>m'. tree_run es m = Some m' \<and> model_ok m'" for m
  proof (induction es arbitrary: m)
    case (Cons e es)
    from tree_handle_ok [OF Cons.prems] obtain m1 where "tree_handle e m = Some m1" "model_ok m1" by blast
    then show ?case using Cons.IH by simp
  qed simp
  then show ?thesis using initial_model_ok by blast
qed

subsection \<open>The cache is complete\<close>

text \<open>
  With names as servers give them (not empty, no slash, distinct in a directory) every node has a path of
  its own and is found by it.
\<close>

definition ok_name :: "string \<Rightarrow> bool" where
  "ok_name n \<longleftrightarrow> n \<noteq> [] \<and> CHR ''/'' \<notin> set n"

fun good :: "tnode \<Rightarrow> bool" where
  "good (TNode i n p d s m cl l cs) \<longleftrightarrow>
     distinct (map nd_name cs) \<and>
     (\<forall>c \<in> set cs. ok_name (nd_name c) \<and> nd_path c = joinPath p (nd_name c) \<and> good c)"

definition paths :: "tnode \<Rightarrow> string list" where
  "paths t = map snd (keys t)"

lemma paths_simps [simp]: "paths (TNode i n p d s m cl l cs) = p # concat (map paths cs)"
  by (simp add: paths_def map_concat o_def) (simp add: paths_def [abs_def])

lemma joinPath_split: "joinPath p n = joinPath p [] @ n"
  by (simp add: joinPath_def)

lemma joinPath_longer: "length p \<le> length (joinPath p [])"
  by (simp add: joinPath_def)

definition tail_ok :: "string \<Rightarrow> bool" where
  "tail_ok r \<longleftrightarrow> (case r of [] \<Rightarrow> True | c # cs \<Rightarrow> c = CHR ''/'')"

lemma names_from_paths:
  assumes "joinPath p n @ r = joinPath p m @ r'" "ok_name n" "ok_name m" "tail_ok r" "tail_ok r'"
  shows "n = m"
proof -
  have e: "n @ r = m @ r'" using assms(1) by (simp add: joinPath_split [of p n] joinPath_split [of p m])
  have "takeWhile (\<lambda>c. c \<noteq> CHR ''/'') (x @ y) = x" if "ok_name x" "tail_ok y" for x y
    using that by (subst takeWhile_append2) (auto simp: ok_name_def tail_ok_def split: list.splits)
  from this [OF assms(2,4)] this [OF assms(3,5)] show ?thesis by (simp add: e)
qed

lemma child_paths:
  "ok_name (nd_name c) \<Longrightarrow> nd_path c = joinPath p (nd_name c) \<Longrightarrow> good c \<Longrightarrow> q \<in> set (paths c) \<Longrightarrow>
   \<exists>r. q = joinPath p (nd_name c) @ r \<and> tail_ok r"
proof (induction c arbitrary: p)
  case (TNode i n p' d s m cl l cs)
  show ?case
  proof (cases "q = p'")
    case True
    then show ?thesis using TNode.prems(2) by (intro exI [of _ "[]"]) (simp add: tail_ok_def)
  next
    case False
    then obtain c where c: "c \<in> set cs" "q \<in> set (paths c)" using TNode.prems(4) by auto
    then have "good c" "nd_path c = joinPath p' (nd_name c)" "ok_name (nd_name c)" using TNode.prems(3) by auto
    from TNode.IH [OF c(1) this(3,2,1) c(2)] obtain r where q: "q = joinPath p' (nd_name c) @ r" by blast
    have p': "p' = joinPath p [] @ n" using TNode.prems(2) joinPath_split [of p n] by simp
    have n: "n \<noteq> []" "CHR ''/'' \<notin> set n" using TNode.prems(1) by (simp_all add: ok_name_def)
    then have "last n \<noteq> CHR ''/''" using last_in_set by metis
    with n have "joinPath p' (nd_name c) = p' @ ''/'' @ nd_name c" unfolding p' by (simp add: joinPath_def)
    then show ?thesis using q TNode.prems(2)
      by (intro exI [of _ "''/'' @ nd_name c @ r"]) (simp add: tail_ok_def)
  qed
qed

lemma good_distinct: "good t \<Longrightarrow> distinct (paths t)"
proof (induction t)
  case (TNode i n p d s m cl l cs)
  have g: "good c" "nd_path c = joinPath p (nd_name c)" "ok_name (nd_name c)" if "c \<in> set cs" for c
    using TNode.prems that by auto
  have below: "\<exists>r. q = joinPath p (nd_name c) @ r \<and> tail_ok r" if c: "c \<in> set cs" "q \<in> set (paths c)" for c q
    using child_paths [OF g(3,2,1) [OF c(1)] c(2)] .
  have p: "p \<notin> set (paths c)" if c: "c \<in> set cs" for c
  proof
    assume "p \<in> set (paths c)"
    from below [OF c this] obtain r where "p = joinPath p (nd_name c) @ r" by blast
    then have "length p = length (joinPath p []) + length (nd_name c) + length r"
      using joinPath_split [of p "nd_name c"] by (metis append.assoc length_append)
    then show False using joinPath_longer [of p] g(3) [OF c] by (auto simp: ok_name_def)
  qed
  have "distinct (map nd_name cs)" using TNode.prems by simp
  then have "distinct (concat (map paths ts))" if "set ts \<subseteq> set cs" "distinct (map nd_name ts)" for ts
    using that
  proof (induction ts)
    case (Cons t ts)
    have "set (paths t) \<inter> set (paths u) = {}" if u: "u \<in> set ts" for u
    proof (rule ccontr)
      assume "set (paths t) \<inter> set (paths u) \<noteq> {}"
      then obtain q where "q \<in> set (paths t)" "q \<in> set (paths u)" by auto
      then obtain r r' where "joinPath p (nd_name t) @ r = joinPath p (nd_name u) @ r'" "tail_ok r" "tail_ok r'"
        using below [of t q] below [of u q] Cons.prems u by auto
      from names_from_paths [OF this(1) _ _ this(2,3)] have "nd_name t = nd_name u"
        using g(3) Cons.prems u by auto
      then show False using Cons.prems u by auto
    qed
    moreover have "distinct (paths t)" using TNode.IH g(1) Cons.prems by auto
    ultimately show ?case using Cons by auto
  qed simp
  then show ?case using p TNode.prems by auto
qed

definition complete :: "sftp_model \<Rightarrow> bool" where
  "complete m \<longleftrightarrow> (\<forall>(i, p) \<in> set (keys (md_root m)). md_byPath m p = Some i)"

definition tree_ok :: "sftp_model \<Rightarrow> bool" where
  "tree_ok m \<longleftrightarrow> model_ok m \<and> good (md_root m) \<and> complete m"

text \<open>Events a server that lists sound names can cause; a new folder was not there before.\<close>

fun event_ok :: "sftp_model \<Rightarrow> tree_event \<Rightarrow> bool" where
  "event_ok m (Listing p es) \<longleftrightarrow> distinct (map en_name es) \<and> list_all ok_name (map en_name es)"
| "event_ok m (AddDirectory p n) \<longleftrightarrow>
     ok_name n \<and> (\<forall>t \<in> set (nodes (md_root m)). nd_path t = p \<longrightarrow> n \<notin> set (map nd_name (nd_children t)))"
| "event_ok m _ \<longleftrightarrow> True"

lemma good_node: "good t \<Longrightarrow> n \<in> set (nodes t) \<Longrightarrow> good n"
  by (induction t) auto

lemma updateNode_name_path:
  assumes "\<And>n. n \<in> set (nodes t) \<Longrightarrow> nd_id n = i \<Longrightarrow> nd_name (f n) = nd_name n \<and> nd_path (f n) = nd_path n"
  shows "nd_name (updateNode i f t) = nd_name t \<and> nd_path (updateNode i f t) = nd_path t"
  using assms by (cases t) auto

lemma good_update:
  "good t \<Longrightarrow>
   (\<And>n. n \<in> set (nodes t) \<Longrightarrow> nd_id n = i \<Longrightarrow> good (f n) \<and> nd_name (f n) = nd_name n \<and> nd_path (f n) = nd_path n) \<Longrightarrow>
   good (updateNode i f t)"
proof (induction t)
  case (TNode j n p d s m cl l cs)
  show ?case
  proof (cases "j = i")
    case True
    then show ?thesis using TNode.prems(2) [of "TNode j n p d s m cl l cs"] by simp
  next
    case False
    have np: "nd_name (updateNode i f c) = nd_name c \<and> nd_path (updateNode i f c) = nd_path c" if "c \<in> set cs" for c
      by (rule updateNode_name_path) (use TNode.prems(2) that in auto)
    have "good (updateNode i f c)" if c: "c \<in> set cs" for c
      by (rule TNode.IH [OF c]) (use TNode.prems c in auto)
    moreover have "map nd_name (map (updateNode i f) cs) = map nd_name cs" using np by simp
    ultimately show ?thesis using TNode.prems(1) np False by (simp del: map_map)
  qed
qed

lemma set_loading_fields [simp]:
  "nd_name (set_loading b t) = nd_name t" "nd_path (set_loading b t) = nd_path t" "good (set_loading b t) = good t"
  by (cases t, simp)+

lemma set_children_fields [simp]:
  "nd_name (set_children cl b cs t) = nd_name t" "nd_path (set_children cl b cs t) = nd_path t"
  "nd_children (set_children cl b cs t) = cs" "nd_childrenLoaded (set_children cl b cs t) = cl"
  "nd_loading (set_children cl b cs t) = b" "nd_id (set_children cl b cs t) = nd_id t"
  by (cases t, simp)+

lemma good_set_children:
  "good (set_children cl b cs t) \<longleftrightarrow> distinct (map nd_name cs) \<and>
     (\<forall>c \<in> set cs. ok_name (nd_name c) \<and> nd_path c = joinPath (nd_path t) (nd_name c) \<and> good c)"
  by (cases t) simp

lemma good_children:
  "good t \<longleftrightarrow> distinct (map nd_name (nd_children t)) \<and>
     (\<forall>c \<in> set (nd_children t). ok_name (nd_name c) \<and> nd_path c = joinPath (nd_path t) (nd_name c) \<and> good c)"
  by (cases t) simp

lemma complete_splice:
  assumes "keys r = A @ K @ B" "keys r' = A @ K' @ B" "distinct (map snd (keys r))" "distinct (map snd (keys r'))"
    and "\<forall>(i, p) \<in> set (keys r). c p = Some i"
    and "\<forall>(i, p) \<in> set K'. c' p = Some i"
    and "\<And>p. p \<notin> snd ` set K \<Longrightarrow> p \<notin> snd ` set K' \<Longrightarrow> c' p = c p"
  shows "\<forall>(i, p) \<in> set (keys r'). c' p = Some i"
proof -
  have "c' p = Some i" if x: "(i, p) \<in> set A \<union> set B" for i p
  proof -
    have "p \<in> snd ` (set A \<union> set B)" using x by force
    then have "p \<notin> snd ` set K" "p \<notin> snd ` set K'"
      using assms(3,4) unfolding assms(1,2) by auto
    from assms(7) [OF this] show ?thesis using assms(5) x unfolding assms(1) by auto
  qed
  then show ?thesis using assms(6) unfolding assms(2) by auto
qed

lemma tree_okD:
  assumes "tree_ok m"
  shows "model_ok m" "good (md_root m)" "distinct (ids (md_root m))" "distinct (map snd (keys (md_root m)))"
    and "\<forall>(i, p) \<in> set (keys (md_root m)). md_byPath m p = Some i"
  using assms good_distinct [of "md_root m"] by (auto simp: tree_ok_def model_ok_def complete_def paths_def)

lemma completeI:
  assumes "model_ok m" "good (md_root m)" "\<forall>(i, p) \<in> set (keys (md_root m)). md_byPath m p = Some i"
  shows "tree_ok m"
  using assms by (simp add: tree_ok_def complete_def)

text \<open>Only the node with the number changes.\<close>

lemma good_update_node:
  assumes "good t" "distinct (ids t)" "n \<in> set (nodes t)" "good (f n)" "nd_name (f n) = nd_name n" "nd_path (f n) = nd_path n"
  shows "good (updateNode (nd_id n) f t)"
proof (rule good_update [OF assms(1)])
  fix x assume "x \<in> set (nodes t)" "nd_id x = nd_id n"
  then have "x = n" using distinct_ids_node [OF assms(2) _ assms(3)] by blast
  then show "good (f x) \<and> nd_name (f x) = nd_name x \<and> nd_path (f x) = nd_path x" using assms(4-6) by simp
qed

lemma markLoading_complete:
  assumes "tree_ok m" "markLoading b p m = Some m'"
  shows "tree_ok m'"
  using tree_okD(1) [OF assms(1)]
proof (cases rule: findNodeByPath_cases [of m p])
  case (2 n)
  note m = tree_okD [OF assms(1)]
  have g: "good (updateNode (nd_id n) (set_loading b) (md_root m))"
    by (rule good_update_node [OF m(2,3) 2(2)]) (use good_node [OF m(2) 2(2)] in simp_all)
  obtain A B where k: "keys (md_root m) = A @ keys n @ B"
    "\<forall>f. keys (updateNode (nd_id n) f (md_root m)) = A @ keys (f n) @ B"
    using keys_split [OF m(3) 2(2)] by blast
  have "model_ok m'" using markLoading_ok [OF m(1), of b p] assms(2) by simp
  moreover have "m' = m\<lparr>md_root := updateNode (nd_id n) (set_loading b) (md_root m)\<rparr>"
    using assms(2) 2 by (simp add: markLoading_def)
  moreover have "keys (updateNode (nd_id n) (set_loading b) (md_root m)) = keys (md_root m)" using k by simp
  ultimately show ?thesis using g m(5) by (intro completeI) simp_all
qed (use assms in \<open>simp add: markLoading_def\<close>)

lemma new_children_good:
  assumes "distinct (map en_name es)" "list_all ok_name (map en_name es)"
  shows "good (set_children True False (new_children i (nd_path n) es) n)"
proof -
  have c: "ok_name (nd_name c) \<and> nd_path c = joinPath (nd_path n) (nd_name c) \<and> good c"
    if "c \<in> set (new_children i p es)" "list_all ok_name (map en_name es)" "p = nd_path n" for c i p
    using that by (induction es arbitrary: i) (auto simp: new_child_def)
  then show ?thesis using assms by (simp add: good_set_children new_children_keys(3))
qed

lemma applyDirectoryListing_complete:
  assumes "tree_ok m" "event_ok m (Listing p es)" "applyDirectoryListing p es m = Some m'"
  shows "tree_ok m'"
  using tree_okD(1) [OF assms(1)]
proof (cases rule: findNodeByPath_cases [of m p])
  case (2 n)
  note m = tree_okD [OF assms(1)]
  let ?cs = "new_children (md_next m) p es"
  let ?r = "updateNode (nd_id n) (set_children True False ?cs) (md_root m)"
  let ?b = "fold (\<lambda>n c. c(nd_path n \<mapsto> nd_id n)) ?cs (fold removeFromCache (nd_children n) (md_byPath m))"
  have m': "md_root m' = ?r" "md_byPath m' = ?b"
    using assms(3) 2 by (auto simp: applyDirectoryListing_def Let_def fold_insertIntoCache)
  have g: "good ?r"
    by (rule good_update_node [OF m(2,3) 2(2)]) (use new_children_good assms(2) 2(3) in \<open>auto\<close>)
  obtain A B where k: "keys (md_root m) = A @ keys n @ B"
    "\<forall>f. keys (updateNode (nd_id n) f (md_root m)) = A @ keys (f n) @ B"
    using keys_split [OF m(3) 2(2)] by blast
  let ?K = "concat (map keys (nd_children n))" and ?K' = "map (\<lambda>c. (nd_id c, nd_path c)) ?cs"
  have d: "distinct (map snd (keys ?r))" using good_distinct [OF g] by (simp add: paths_def)
  have dn: "distinct (map nd_path ?cs)" using d k(2) by (simp add: new_children_keys(5) o_def)
  have "\<forall>(i, p) \<in> set (keys ?r). ?b p = Some i"
  proof (rule complete_splice [where A = "A @ [(nd_id n, p)]" and K = ?K and K' = ?K' and B = B, OF _ _ m(4) d m(5)])
    show "keys (md_root m) = (A @ [(nd_id n, p)]) @ ?K @ B" using k(1) keys_children [of n] 2(3) by simp
    show "keys ?r = (A @ [(nd_id n, p)]) @ ?K' @ B" using k(2) 2(3) by (simp add: new_children_keys(5))
    show "\<forall>(i, q) \<in> set ?K'. ?b q = Some i" using fold_inserted_distinct [OF dn] by auto
    show "?b q = md_byPath m q" if "q \<notin> snd ` set ?K" "q \<notin> snd ` set ?K'" for q
      using that by (subst fold_inserted_other) (auto simp: fold_removeFromCache image_iff)
  qed
  moreover have "model_ok m'" using applyDirectoryListing_ok [OF m(1), of p es] assms(3) by simp
  ultimately show ?thesis using g by (intro completeI) (simp_all add: m')
qed (use assms in \<open>simp add: applyDirectoryListing_def\<close>)

lemma removeEntry_complete:
  assumes "tree_ok m" "removeEntry p m = Some m'"
  shows "tree_ok m'"
  using tree_okD(1) [OF assms(1)]
proof (cases rule: findNodeByPath_cases [of m p])
  case (2 n)
  note m = tree_okD [OF assms(1)]
  show ?thesis
  proof (cases "parentOf (nd_id n) (md_root m)")
    case None
    then show ?thesis using 2 assms by (simp add: removeEntry_def)
  next
    case (Some q)
    from parentOf_Some [OF Some] obtain c where q: "q \<in> set (nodes (md_root m))"
      and c: "c \<in> set (nd_children q)" "nd_id c = nd_id n" by blast
    then have cn: "c = n" using distinct_ids_node [OF m(3) children_nodes [OF q] 2(2)] by blast
    let ?f = "\<lambda>q. set_children (nd_childrenLoaded q) (nd_loading q) (filter (\<lambda>c. nd_id c \<noteq> nd_id n) (nd_children q)) q"
    let ?r = "updateNode (nd_id q) ?f (md_root m)"
    have m': "m' = m\<lparr>md_root := ?r, md_byPath := removeFromCache n (md_byPath m)\<rparr>"
      using assms(2) 2 Some by (simp add: removeEntry_def)
    have g: "good ?r"
      by (rule good_update_node [OF m(2,3) q])
        (use good_node [OF m(2) q] in \<open>simp_all add: good_set_children good_children [of q] distinct_map_filter\<close>)
    obtain A B where k: "keys (md_root m) = A @ keys q @ B"
      "\<forall>f. keys (updateNode (nd_id q) f (md_root m)) = A @ keys (f q) @ B"
      using keys_split [OF m(3) q] by blast
    obtain C D where cd: "keys q = C @ keys n @ D" "keys (?f q) = C @ D"
      using remove_child_keys [OF nodes_ids [OF m(3) q] c(1)] unfolding cn by blast
    have "\<forall>(i, p) \<in> set (keys ?r). removeFromCache n (md_byPath m) p = Some i"
    proof (rule complete_splice [where A = "A @ C" and K = "keys n" and K' = "[]" and B = "D @ B", OF _ _ m(4) _ m(5)])
      show "keys (md_root m) = (A @ C) @ keys n @ D @ B" using k(1) cd(1) by simp
      show "keys ?r = (A @ C) @ [] @ D @ B" using k(2) cd(2) by simp
      show "distinct (map snd (keys ?r))" using good_distinct [OF g] by (simp add: paths_def)
    qed (simp_all add: removeFromCache_eq)
    moreover have "model_ok m'" using removeEntry_ok [OF m(1), of p] assms(2) by simp
    ultimately show ?thesis using g by (intro completeI) (simp_all add: m')
  qed
qed (use assms in \<open>simp add: removeEntry_def\<close>)

lemma addPlaceholderDirectory_complete:
  assumes "tree_ok m" "event_ok m (AddDirectory p nm)" "addPlaceholderDirectory p nm m = Some m'"
  shows "tree_ok m'"
  using tree_okD(1) [OF assms(1)]
proof (cases rule: findNodeByPath_cases [of m p])
  case (2 n)
  note m = tree_okD [OF assms(1)]
  let ?c = "TNode (md_next m) nm (joinPath p nm) True 0 0 False False []"
  let ?f = "\<lambda>q. set_children (nd_childrenLoaded q) (nd_loading q) (nd_children q @ [?c]) q"
  let ?r = "updateNode (nd_id n) ?f (md_root m)"
  let ?b = "(md_byPath m)(joinPath p nm \<mapsto> md_next m)"
  have ok: "model_ok m'" using addPlaceholderDirectory_ok [OF m(1), of p nm] assms(3) by simp
  show ?thesis
  proof (cases "nd_childrenLoaded n")
    case True
    then have m': "md_root m' = ?r" "md_byPath m' = ?b"
      using assms(3) 2 by (auto simp: addPlaceholderDirectory_def Let_def insertIntoCache_def)
    have gn: "good n" by (rule good_node [OF m(2) 2(2)])
    have "good (?f n)"
      using gn assms(2) 2(2,3) by (auto simp: good_set_children good_children [of n])
    then have g: "good ?r" by (intro good_update_node [OF m(2,3) 2(2)]) simp_all
    obtain A B where k: "keys (md_root m) = A @ keys n @ B"
      "\<forall>f. keys (updateNode (nd_id n) f (md_root m)) = A @ keys (f n) @ B"
      using keys_split [OF m(3) 2(2)] by blast
    have "\<forall>(i, p) \<in> set (keys ?r). ?b p = Some i"
    proof (rule complete_splice [where A = "A @ keys n" and K = "[]" and K' = "[(md_next m, joinPath p nm)]" and B = B,
          OF _ _ m(4) _ m(5)])
      show "keys ?r = (A @ keys n) @ [(md_next m, joinPath p nm)] @ B"
        using k(2) keys_children [of n] by simp
      show "distinct (map snd (keys ?r))" using good_distinct [OF g] by (simp add: paths_def)
    qed (simp_all add: k(1))
    then show ?thesis using g ok by (intro completeI) (simp_all add: m')
  qed (use assms 2 in \<open>simp add: addPlaceholderDirectory_def\<close>)
qed (use assms in \<open>simp add: addPlaceholderDirectory_def\<close>)

lemma tree_cache_step:
  assumes "tree_ok m" and "event_ok m e"
  shows "\<exists>m'. tree_handle e m = Some m' \<and> tree_ok m'"
proof -
  obtain m' where m': "tree_handle e m = Some m'" using tree_handle_ok [OF tree_okD(1) [OF assms(1)]] by blast
  have "tree_ok m'"
  proof (cases e)
    case (SetRoot p)
    then show ?thesis using m' setRoot_ok [of p m]
      by (auto simp: tree_ok_def complete_def setRoot_def)
  qed (use assms m' in \<open>auto intro: markLoading_complete applyDirectoryListing_complete removeEntry_complete
      addPlaceholderDirectory_complete\<close>)
  then show ?thesis using m' by blast
qed


lemma look_up:
  assumes "tree_ok m" "x \<in> set (nodes (md_root m))"
  shows "findNodeByPath (nd_path x) m = Some (Some x)"
proof -
  note m = tree_okD [OF assms(1)]
  have "md_byPath m (nd_path x) = Some (nd_id x)" using m(5) assms(2) by (auto simp: keys_nodes)
  from found_node [OF m(1) this] show ?thesis using distinct_ids_node [OF m(3) _ assms(2)] by auto
qed

text \<open>Every event of a run is sound in the state it meets.\<close>

fun sound_run :: "tree_event list \<Rightarrow> sftp_model \<Rightarrow> bool" where
  "sound_run [] m \<longleftrightarrow> True"
| "sound_run (e # es) m \<longleftrightarrow>
     event_ok m e \<and> (case tree_handle e m of None \<Rightarrow> True | Some m1 \<Rightarrow> sound_run es m1)"

text \<open>
  With the names real servers list, the path cache is complete: after any sound run every node of the
  tree is found by its path and all paths are different, so no later listing, removal or new folder is
  lost on the way.
\<close>

theorem tree_cache_complete:
  assumes "sound_run es m" and "tree_ok m"
  shows "\<exists>m'. tree_run es m = Some m' \<and>
    (\<forall>n \<in> set (nodes (md_root m')). findNodeByPath (nd_path n) m' = Some (Some n)) \<and>
    distinct (map nd_path (nodes (md_root m')))"
  using assms
proof (induction es arbitrary: m)
  case Nil
  note m = tree_okD [OF Nil(2)]
  show ?case using look_up [OF Nil(2)] m(4) by (simp add: keys_nodes o_def)
next
  case (Cons e es)
  obtain m1 where m1: "tree_handle e m = Some m1" "tree_ok m1"
    using tree_cache_step [OF Cons.prems(2), of e] Cons.prems(1) by auto
  then have "sound_run es m1" using Cons.prems(1) by simp
  from Cons.IH [OF this m1(2)] show ?case using m1(1) by simp
qed

lemma update_node_in: "n \<in> set (nodes t) \<Longrightarrow> distinct (ids t) \<Longrightarrow> f n \<in> set (nodes (updateNode (nd_id n) f t))"
proof (induction t)
  case (TNode i nm p d s m cl l cs)
  show ?case
  proof (cases "nd_id n = i")
    case True
    then have "n = TNode i nm p d s m cl l cs" using distinct_ids_node [OF TNode.prems(2,1)] by simp
    then show ?thesis using True by simp
  next
    case False
    then obtain c where c: "c \<in> set cs" "n \<in> set (nodes c)" using TNode.prems(1) by auto
    have "distinct (ids c)" by (rule nodes_ids [OF TNode.prems(2)]) (use c(1) node_self in \<open>force\<close>)
    from TNode.IH [OF c this] show ?thesis using c(1) False by auto
  qed
qed

lemma child_id_below: "y \<in> set (nodes t) \<Longrightarrow> c \<in> set (nd_children y) \<Longrightarrow> nd_id c \<in> set (tl (ids t))"
proof (induction t)
  case (TNode i n p d s m cl l cs)
  then consider "y = TNode i n p d s m cl l cs" | x where "x \<in> set cs" "y \<in> set (nodes x)" by auto
  then show ?case
  proof cases
    case 1
    then show ?thesis using TNode.prems(2) by (auto intro!: bexI [of _ c])
  next
    case 2
    from TNode.IH [OF this TNode.prems(2)] have "nd_id c \<in> set (ids x)" by (cases x) simp
    then show ?thesis using 2 by auto
  qed
qed

lemma concat_ids_unique:
  "distinct (concat (map ids cs)) \<Longrightarrow> u \<in> set cs \<Longrightarrow> v \<in> set cs \<Longrightarrow> j \<in> set (ids u) \<Longrightarrow> j \<in> set (ids v) \<Longrightarrow> u = v"
  by (induction cs) auto

lemma parent_unique:
  "distinct (ids t) \<Longrightarrow> x \<in> set (nodes t) \<Longrightarrow> y \<in> set (nodes t) \<Longrightarrow>
   c \<in> set (nd_children x) \<Longrightarrow> c' \<in> set (nd_children y) \<Longrightarrow> nd_id c = nd_id c' \<Longrightarrow> x = y"
proof (induction t)
  case (TNode i n p d s m cl l cs)
  let ?t = "TNode i n p d s m cl l cs"
  have dis: "u = v" if "u \<in> set cs" "v \<in> set cs" "j \<in> set (ids u)" "j \<in> set (ids v)" for u v j
    using concat_ids_unique [OF _ that] TNode.prems(1) by simp
  have dc: "distinct (ids u)" if "u \<in> set cs" for u
    using TNode.prems(1) that by (auto dest!: split_list)
  have no: False if "u \<in> set cs" "z \<in> set (nodes u)" "e \<in> set (nd_children z)" "e' \<in> set cs" "nd_id e = nd_id e'" for u z e e'
  proof -
    have b: "nd_id e \<in> set (tl (ids u))" using child_id_below [OF that(2,3)] .
    then have "nd_id e \<in> set (ids u)" by (cases "ids u") auto
    then have "u = e'" using dis [OF that(1,4)] that(5) by simp
    moreover have "ids u = nd_id u # tl (ids u)" by (cases u) simp
    ultimately have "ids u = nd_id e # tl (ids u)" using that(5) by metis
    then show False using b dc [OF that(1)] by (metis distinct.simps(2))
  qed
  consider "x = ?t" "y = ?t" | u where "x = ?t" "u \<in> set cs" "y \<in> set (nodes u)"
    | u where "y = ?t" "u \<in> set cs" "x \<in> set (nodes u)"
    | u v where "u \<in> set cs" "x \<in> set (nodes u)" "v \<in> set cs" "y \<in> set (nodes v)"
    using TNode.prems(2,3) by auto
  then show ?case
  proof cases
    case (2 u)
    then show ?thesis using no [OF 2(2,3) TNode.prems(5), of c] TNode.prems(4,6) by simp
  next
    case (3 u)
    then show ?thesis using no [OF 3(2,3) TNode.prems(4), of c'] TNode.prems(5,6) by simp
  next
    case (4 u v)
    have "nd_id c \<in> set (tl (ids u))" "nd_id c \<in> set (tl (ids v))"
      using child_id_below [OF 4(2) TNode.prems(4)] child_id_below [OF 4(4) TNode.prems(5)] TNode.prems(6) by simp_all
    then have "nd_id c \<in> set (ids u)" "nd_id c \<in> set (ids v)" by (metis list.set_sel(2) tl_Nil)+
    then have "u = v" by (rule dis [OF 4(1,3)])
    then show ?thesis using TNode.IH [OF 4(1) dc [OF 4(1)] 4(2)] 4(4) TNode.prems(4-6) by simp
  qed simp
qed

lemma row_of_child:
  assumes "distinct (map nd_id cs)" "k < length cs"
  shows "length (takeWhile (\<lambda>c. nd_id c \<noteq> nd_id (cs ! k)) cs) = k"
proof -
  have "takeWhile (\<lambda>c. nd_id c \<noteq> nd_id (cs ! k)) cs = take k cs"
  proof (rule takeWhile_eq_take_P_nth)
    fix j assume "j < k" "j < length cs"
    then show "nd_id (cs ! j) \<noteq> nd_id (cs ! k)"
      using assms nth_eq_iff_index_eq [of "map nd_id cs" j k] by auto
  qed simp
  then show ?thesis using assms(2) by simp
qed

text \<open>
  A listing is shown as it came: after it arrives for a directory of the tree, that directory holds one
  row per entry, in the order of the listing, with its name, kind, size and time, is marked loaded, and
  every entry is found by its path in its row.
\<close>

theorem listing_shown:
  assumes "tree_ok m" and "event_ok m (Listing p es)" and "md_byPath m p = Some i"
  shows "\<exists>m' n. tree_handle (Listing p es) m = Some m' \<and> findNodeByPath p m' = Some (Some n) \<and>
    nd_childrenLoaded n \<and> \<not> nd_loading n \<and>
    map (\<lambda>c. (nd_name c, nd_isDirectory c, nd_size c, nd_modifiedTime c)) (nd_children n) =
      map (\<lambda>e. (en_name e, en_isDirectory e, en_size e, en_modifiedTime e)) es \<and>
    (\<forall>k < length es. \<exists>j. indexForPath (joinPath p (en_name (es ! k))) m' = Some (Some (k, j)))"
proof -
  note m = tree_okD [OF assms(1)]
  obtain n0 where n0: "findNodeByPath p m = Some (Some n0)" "n0 \<in> set (nodes (md_root m))" "nd_path n0 = p" "nd_id n0 = i"
    using found_node [OF m(1) assms(3)] by blast
  let ?cs = "new_children (md_next m) p es"
  let ?n = "set_children True False ?cs n0" and ?r = "updateNode i (set_children True False ?cs) (md_root m)"
  obtain m' where m': "tree_handle (Listing p es) m = Some m'" "tree_ok m'"
    using tree_cache_step [OF assms(1,2)] by blast
  have r: "md_root m' = ?r"
    using m'(1) n0 by (auto simp: applyDirectoryListing_def Let_def fold_insertIntoCache)
  note m2 = tree_okD [OF m'(2)]
  have n: "?n \<in> set (nodes (md_root m'))" using update_node_in [OF n0(2) m(3)] n0(4) by (simp add: r)
  note look = look_up [OF m'(2)]
  have "indexForPath (joinPath p (en_name (es ! k))) m' = Some (Some (k, nd_id (?cs ! k)))" if k: "k < length es" for k
  proof -
    have lc: "length ?cs = length es" using new_children_keys(1) [of "md_next m" p es] by (metis length_map length_upt diff_add_inverse)
    then have c: "?cs ! k \<in> set (nd_children ?n)" using k by simp
    have cn: "?cs ! k \<in> set (nodes (md_root m'))" by (rule children_nodes [OF n c])
    have path: "nd_path (?cs ! k) = joinPath p (en_name (es ! k))"
      using new_children_keys(2) [of "md_next m" p es] k lc by (metis nth_map)
    have id: "nd_id (?cs ! k) = md_next m + k"
      using new_children_keys(1) [of "md_next m" p es] k lc by (metis nth_map nth_upt add_less_cancel_left)
    have "nd_id (md_root m') = nd_id (md_root m)" unfolding r by (cases "md_root m") auto
    then have "nd_id (md_root m') < md_next m" using m(1) id_self [of "md_root m"] by (simp add: model_ok_def)
    then have nr: "nd_id (?cs ! k) \<noteq> nd_id (md_root m')" using id by simp
    have par: "parentOf (nd_id (?cs ! k)) (md_root m') = Some ?n"
      unfolding parentOf_def
      by (rule find_unique [OF n]) (use c parent_unique [OF m2(3) _ n _ c] in \<open>auto\<close>)
    have "distinct (map nd_id ?cs)" by (simp add: new_children_keys(1))
    from row_of_child [OF this, of k] show ?thesis
      using look [OF cn] nr par k lc by (simp add: indexForPath_def indexForNode_def path)
  qed
  moreover have "map (\<lambda>c. (nd_name c, nd_isDirectory c, nd_size c, nd_modifiedTime c)) ?cs =
      map (\<lambda>e. (en_name e, en_isDirectory e, en_size e, en_modifiedTime e)) es"
  proof -
    have "map (\<lambda>c. (nd_name c, nd_isDirectory c, nd_size c, nd_modifiedTime c)) (new_children j p es) =
      map (\<lambda>e. (en_name e, en_isDirectory e, en_size e, en_modifiedTime e)) es" for j
      by (induction es arbitrary: j) (simp_all add: new_child_def)
    then show ?thesis .
  qed
  moreover have "findNodeByPath p m' = Some (Some ?n)" using look [OF n] n0(3) by simp
  ultimately show ?thesis using m'(1) by (intro exI [of _ m'] exI [of _ ?n]) auto
qed

subsection \<open>Instances\<close>

lemma tree_ok_setRoot: "tree_ok (setRoot p m)"
  using setRoot_ok [of p m] by (auto simp: tree_ok_def complete_def setRoot_def)

definition demo_entries :: "sftp_entry list" where
  "demo_entries =
     [\<lparr>en_name = ''d'', en_isDirectory = True, en_size = 0, en_permissions = 0x41ED, en_modifiedTime = 5\<rparr>,
      \<lparr>en_name = ''f'', en_isDirectory = False, en_size = 3, en_permissions = 0, en_modifiedTime = 0\<rparr>]"

abbreviation demo_root :: sftp_model where
  "demo_root \<equiv> setRoot ''/'' initial_model"

theorem tree_cache_complete_witness:
  "\<exists>m'. tree_run [Listing ''/'' demo_entries, MarkLoading ''/d'', AddDirectory ''/'' ''n'', RemoveEntry ''/d''] demo_root =
       Some m' \<and>
     (\<forall>n \<in> set (nodes (md_root m')). findNodeByPath (nd_path n) m' = Some (Some n)) \<and>
     distinct (map nd_path (nodes (md_root m')))"
proof -
  have "sound_run [Listing ''/'' demo_entries, MarkLoading ''/d'', AddDirectory ''/'' ''n'', RemoveEntry ''/d''] demo_root"
    by code_simp
  from tree_cache_complete [OF this tree_ok_setRoot] show ?thesis .
qed

theorem listing_shown_witness:
  "\<exists>m' n. tree_handle (Listing ''/'' demo_entries) demo_root = Some m' \<and> findNodeByPath ''/'' m' = Some (Some n) \<and>
     map nd_name (nd_children n) = [''d'', ''f''] \<and>
     (\<exists>j. indexForPath ''/f'' m' = Some (Some (1, j)))"
proof -
  have h: "event_ok demo_root (Listing ''/'' demo_entries)" "md_byPath demo_root ''/'' = Some 1" by code_simp+
  from listing_shown [OF tree_ok_setRoot h] obtain m' n where
    m: "tree_handle (Listing ''/'' demo_entries) demo_root = Some m'" "findNodeByPath ''/'' m' = Some (Some n)"
    "map (\<lambda>c. (nd_name c, nd_isDirectory c, nd_size c, nd_modifiedTime c)) (nd_children n) =
       map (\<lambda>e. (en_name e, en_isDirectory e, en_size e, en_modifiedTime e)) demo_entries"
    "\<forall>k < length demo_entries. \<exists>j. indexForPath (joinPath ''/'' (en_name (demo_entries ! k))) m' = Some (Some (k, j))"
    by blast
  have "map nd_name (nd_children n) = map fst (map (\<lambda>c. (nd_name c, nd_isDirectory c, nd_size c, nd_modifiedTime c)) (nd_children n))"
    by simp
  also have "\<dots> = [''d'', ''f'']" unfolding m(3) by (simp add: demo_entries_def)
  finally have names: "map nd_name (nd_children n) = [''d'', ''f'']" .
  have "\<exists>j. indexForPath ''/f'' m' = Some (Some (1, j))"
    using m(4) [rule_format, of 1] by (simp add: demo_entries_def joinPath_def)
  then show ?thesis using m(1,2) names by (intro exI [of _ m'] exI [of _ n] conjI)
qed

end
