(* ===== verification/SftpDock.thy ===== *)
theory SftpDock
  imports SftpTree
begin

text \<open>
  The dock that browses remote files: \<open>src/src/ui/SftpDock.{h,cpp}\<close>. It owns the tree model, the folder
  shown, the history, and the SFTP sessions: one active, some parked for panes that are not.

  A \<open>QPersistentModelIndex\<close> is the number of a node, \<open>None\<close> the invalid one; removing rows invalidates the
  indices of what is removed (\<open>revalidate\<close>). Sessions are numbered; what is asked of them is a log. \<open>None\<close>
  as a result is a call through a null session pointer. Dialogs are arguments.
\<close>

record sftp_dock =
  k_model :: sftp_model
  k_root :: "nat option"
  k_current :: "nat option"
  k_session :: "nat option"
  k_settings :: "ssh_settings option"
  k_parked :: "(string \<times> nat \<times> string) list"
  k_back :: "nat option list"
  k_forward :: "nat option list"
  k_path :: string
  k_up :: bool
  k_status :: string
  k_progress :: "bool \<times> int"
  k_editors :: "string list"
  k_requests :: "(nat \<times> sftp_request) list"
  k_closed :: "nat list"
  k_next :: nat

definition initial_dock :: sftp_dock where
  "initial_dock =
     \<lparr>k_model = initial_model, k_root = None, k_current = None, k_session = None, k_settings = None, k_parked = [],
      k_back = [], k_forward = [], k_path = [], k_up = False, k_status = ''Not connected'', k_progress = (False, 0),
      k_editors = [], k_requests = [], k_closed = [], k_next = 0\<rparr>"

subsection \<open>Helpers\<close>

text \<open>The index of a node that has a row: the invisible root has none.\<close>

definition still :: "sftp_model \<Rightarrow> nat option \<Rightarrow> nat option" where
  "still m idx =
     (case idx of None \<Rightarrow> None
      | Some i \<Rightarrow> if i = nd_id (md_root m) \<or> findNode i (md_root m) = None then None else Some i)"

definition revalidate :: "sftp_dock \<Rightarrow> sftp_dock" where
  "revalidate d =
     (let m = k_model d
      in d\<lparr>k_root := still m (k_root d), k_current := still m (k_current d),
           k_back := map (still m) (k_back d), k_forward := map (still m) (k_forward d)\<rparr>)"

definition with_model :: "(sftp_model \<Rightarrow> sftp_model option) \<Rightarrow> sftp_dock \<Rightarrow> sftp_dock option" where
  "with_model f d = map_option (\<lambda>m. revalidate (d\<lparr>k_model := m\<rparr>)) (f (k_model d))"

definition askSession :: "sftp_request \<Rightarrow> sftp_dock \<Rightarrow> sftp_dock option" where
  "askSession q d =
     (case k_session d of None \<Rightarrow> None | Some s \<Rightarrow> Some (d\<lparr>k_requests := k_requests d @ [(s, q)]\<rparr>))"

definition setStatus :: "string \<Rightarrow> sftp_dock \<Rightarrow> sftp_dock" where
  "setStatus t d = d\<lparr>k_status := t\<rparr>"

definition rootPath :: "sftp_dock \<Rightarrow> string" where
  "rootPath d = nd_path (md_root (k_model d))"

text \<open>\<open>pathForIndex\<close>; an index that is not in the tree does not occur.\<close>

definition pathForIndex :: "sftp_dock \<Rightarrow> nat option \<Rightarrow> string option" where
  "pathForIndex d idx = map_option nd_path (nodeForIndex (k_model d) idx)"

text \<open>The folder a path is in.\<close>

definition lastSlash :: "string \<Rightarrow> nat option" where
  "lastSlash p =
     (if CHR ''/'' \<in> set p then Some (length p - 1 - length (takeWhile (\<lambda>c. c \<noteq> CHR ''/'') (rev p))) else None)"

definition parentPath :: "string \<Rightarrow> string" where
  "parentPath p = (case lastSlash p of Some (Suc n) \<Rightarrow> take (Suc n) p | _ \<Rightarrow> ''/'')"

definition list_again :: "string \<Rightarrow> sftp_dock \<Rightarrow> sftp_dock option" where
  "list_again path d =
     do {
       d1 \<leftarrow> with_model (markLoading True path) d;
       askSession (ReqList path) d1
     }"

subsection \<open>Sessions\<close>

definition connectionKey :: "ssh_settings \<Rightarrow> string" where
  "connectionKey s = sh_username s @ ''@'' @ sh_host s @ '':'' @ decimal (unat (sh_port s))"

definition close_session :: "nat \<Rightarrow> sftp_dock \<Rightarrow> sftp_dock" where
  "close_session s d = d\<lparr>k_requests := k_requests d @ [(s, ReqDisconnect)], k_closed := k_closed d @ [s]\<rparr>"

definition close_all :: "nat list \<Rightarrow> sftp_dock \<Rightarrow> sftp_dock" where
  "close_all = fold close_session"

definition teardownSession :: "sftp_dock \<Rightarrow> sftp_dock" where
  "teardownSession d =
     (case k_session d of None \<Rightarrow> d | Some s \<Rightarrow> (close_session s d)\<lparr>k_session := None\<rparr>)
       \<lparr>k_back := [], k_forward := []\<rparr>"

definition kMaxParked :: nat where
  "kMaxParked = 6"

text \<open>\<open>pick\<close> tells which entry of the \<open>QHash\<close> comes first.\<close>

definition parkSession :: "(nat \<Rightarrow> nat) \<Rightarrow> sftp_dock \<Rightarrow> sftp_dock" where
  "parkSession pick d =
     (case (k_session d, k_settings d) of
        (Some s, Some st) \<Rightarrow>
          if rootPath d \<noteq> [] then
            let key = connectionKey st;
                d1 = close_all [o'. (k, o', h) \<leftarrow> k_parked d, k = key \<and> o' \<noteq> s] d;
                rest = filter (\<lambda>(k, _). k \<noteq> key) (k_parked d);
                n = pick (length rest) mod length rest;
                d2 = (if length rest \<ge> kMaxParked then close_session (fst (snd (rest ! n))) d1 else d1);
                rest2 = (if length rest \<ge> kMaxParked then take n rest @ drop (Suc n) rest else rest)
            in d2\<lparr>k_parked := (key, s, rootPath d) # rest2, k_session := None, k_back := [], k_forward := []\<rparr>
          else teardownSession d
      | _ \<Rightarrow> teardownSession d)"

definition keepOnly :: "ssh_settings list \<Rightarrow> sftp_dock \<Rightarrow> sftp_dock" where
  "keepOnly inUse d =
     (let used = (\<lambda>(k, _). k \<in> set (map connectionKey inUse))
      in (close_all (map (\<lambda>(k, s, h). s) (filter (\<lambda>x. \<not> used x) (k_parked d))) d)
           \<lparr>k_parked := filter used (k_parked d)\<rparr>)"

text \<open>The \<open>disconnected\<close> signal of a parked session.\<close>

definition parkedDropped :: "nat \<Rightarrow> sftp_dock \<Rightarrow> sftp_dock" where
  "parkedDropped s d =
     (if s \<in> set (map (\<lambda>(k, s', h). s') (k_parked d))
      then d\<lparr>k_parked := filter (\<lambda>(k, s', h). s' \<noteq> s) (k_parked d), k_closed := k_closed d @ [s]\<rparr>
      else d)"

subsection \<open>Navigation\<close>

text \<open>\<open>history\<close> is \<open>m_navigatingHistory\<close>.\<close>

definition enterDirectory :: "bool \<Rightarrow> nat option \<Rightarrow> sftp_dock \<Rightarrow> sftp_dock option" where
  "enterDirectory history dir d =
     (let d1 = (if \<not> history \<and> dir \<noteq> k_root d then d\<lparr>k_back := k_back d @ [k_root d], k_forward := []\<rparr> else d)
      in do {
        n \<leftarrow> nodeForIndex (k_model d1) dir;
        let d2 = d1\<lparr>k_root := dir, k_path := nd_path n, k_up := (dir \<noteq> None)\<rparr>;
        if nd_childrenLoaded n then Some d2 else list_again (nd_path n) d2
      })"

definition setModelRoot :: "string \<Rightarrow> sftp_dock \<Rightarrow> sftp_dock" where
  "setModelRoot path d = revalidate (d\<lparr>k_model := setRoot path (k_model d)\<rparr>)"

definition onConnected :: "string \<Rightarrow> sftp_dock \<Rightarrow> sftp_dock option" where
  "onConnected home d = enterDirectory False None (setStatus (''Connected: '' @ home) (setModelRoot home d))"

definition same_connection :: "ssh_settings option \<Rightarrow> ssh_settings option \<Rightarrow> bool" where
  "same_connection a b =
     (case (a, b) of
        (None, None) \<Rightarrow> True
      | (Some s, Some t) \<Rightarrow> sh_host s = sh_host t \<and> sh_port s = sh_port t \<and> sh_username s = sh_username t
      | _ \<Rightarrow> False)"

definition setActiveConnection ::
    "(nat \<Rightarrow> nat) \<Rightarrow> sftp_answers \<Rightarrow> ssh_settings option \<Rightarrow> sftp_dock \<Rightarrow> sftp_dock option" where
  "setActiveConnection pick answers settings d =
     (if same_connection settings (k_settings d) then Some d
      else
        let d1 = (setModelRoot [] ((parkSession pick d)\<lparr>k_settings := settings\<rparr>))\<lparr>k_path := [], k_up := False\<rparr>
        in (case settings of
              None \<Rightarrow> Some (setStatus ''Not an SSH connection'' d1)
            | Some st \<Rightarrow>
                let d2 = setStatus ''Connecting...'' d1
                in (case List.find (\<lambda>(k, _). k = connectionKey st) (k_parked d2) of
                      Some (k, s, home) \<Rightarrow>
                        onConnected home
                          (d2\<lparr>k_session := Some s,
                              k_parked := filter (\<lambda>(k, _). k \<noteq> connectionKey st) (k_parked d2)\<rparr>)
                    | None \<Rightarrow>
                        askSession (ReqConnect answers) (d2\<lparr>k_session := Some (k_next d2), k_next := k_next d2 + 1\<rparr>))))"

definition goBack :: "sftp_dock \<Rightarrow> sftp_dock option" where
  "goBack d =
     (if k_session d = None \<or> k_back d = [] then Some d
      else enterDirectory True (last (k_back d))
             (d\<lparr>k_forward := k_forward d @ [k_root d], k_back := butlast (k_back d)\<rparr>))"

definition goForward :: "sftp_dock \<Rightarrow> sftp_dock option" where
  "goForward d =
     (if k_session d = None \<or> k_forward d = [] then Some d
      else enterDirectory True (last (k_forward d))
             (d\<lparr>k_back := k_back d @ [k_root d], k_forward := butlast (k_forward d)\<rparr>))"

definition navigateToPath :: "string \<Rightarrow> sftp_dock \<Rightarrow> sftp_dock option" where
  "navigateToPath path d =
     (if k_session d = None then Some d
      else if path = rootPath d then enterDirectory False None d
      else do {
        idx \<leftarrow> indexForPath path (k_model d);
        (case idx of
           Some (row, i) \<Rightarrow> enterDirectory False (Some i) d
         | None \<Rightarrow> enterDirectory False None (setModelRoot path (d\<lparr>k_back := [], k_forward := []\<rparr>)))
      })"

definition goUp :: "sftp_dock \<Rightarrow> sftp_dock option" where
  "goUp d =
     (if k_root d = None then Some d
      else enterDirectory False (map_option snd (parentIndex (k_model d) (k_root d))) d)"

definition refresh :: "sftp_dock \<Rightarrow> sftp_dock option" where
  "refresh d =
     (if k_session d = None then Some d
      else do { path \<leftarrow> pathForIndex d (k_root d); list_again path d })"

subsection \<open>Signals of the active session\<close>

definition onOperationFailed :: "string \<Rightarrow> string \<Rightarrow> string \<Rightarrow> sftp_dock \<Rightarrow> sftp_dock option" where
  "onOperationFailed op path message d =
     map_option
       (setStatus
          (if op = ''create''
           then ''Could not create '' @ path @ '': '' @ message @ '' (a file with that name may already exist)''
           else op @ '' failed for '' @ path @ '': '' @ message))
       (with_model (markLoading False path) d)"

definition onOperationSucceeded :: "string \<Rightarrow> string \<Rightarrow> sftp_dock \<Rightarrow> sftp_dock option" where
  "onOperationSucceeded op path d =
     (let d1 = setStatus (op @ '' OK: '' @ path) d
      in if op = ''delete'' \<or> op = ''rename'' then with_model (removeEntry path) d1
         else if op = ''mkdir'' \<or> op = ''upload'' \<or> op = ''create'' then list_again (parentPath path) d1
         else Some d1)"

definition onTransferStarted :: "string \<Rightarrow> sftp_dock \<Rightarrow> sftp_dock" where
  "onTransferStarted path d = setStatus (''Transferring '' @ path @ ''...'') (d\<lparr>k_progress := (True, 0)\<rparr>)"

definition onTransferProgress :: "int \<Rightarrow> int \<Rightarrow> sftp_dock \<Rightarrow> sftp_dock" where
  "onTransferProgress bytesDone totalBytes d =
     (if totalBytes > 0 then d\<lparr>k_progress := (fst (k_progress d), bytesDone * 100 div totalBytes)\<rparr> else d)"

definition onTransferFinished :: "string \<Rightarrow> bool \<Rightarrow> sftp_dock \<Rightarrow> sftp_dock" where
  "onTransferFinished path ok d =
     setStatus ((if ok then ''Done: '' else ''Failed: '') @ path) (d\<lparr>k_progress := (False, snd (k_progress d))\<rparr>)"

subsection \<open>Commands\<close>

text \<open>Nothing happens without a session.\<close>

definition if_session :: "(sftp_dock \<Rightarrow> sftp_dock option) \<Rightarrow> sftp_dock \<Rightarrow> sftp_dock option" where
  "if_session f d = (if k_session d = None then Some d else f d)"

definition onUploadRequested :: "string \<Rightarrow> string \<Rightarrow> bool \<Rightarrow> sftp_dock \<Rightarrow> sftp_dock option" where
  "onUploadRequested localPath remotePath isDir =
     if_session (askSession (if isDir then ReqUploadDir localPath remotePath else ReqUpload localPath remotePath))"

fun ask_all :: "sftp_request list \<Rightarrow> sftp_dock \<Rightarrow> sftp_dock option" where
  "ask_all [] d = Some d"
| "ask_all (q # qs) d = do { d1 \<leftarrow> askSession q d; ask_all qs d1 }"

text \<open>Local files are given by their path, file name and whether they are folders.\<close>

definition uploadFiles :: "(string \<times> string) list \<Rightarrow> sftp_dock \<Rightarrow> sftp_dock option" where
  "uploadFiles files =
     if_session (\<lambda>d. do {
       dir \<leftarrow> pathForIndex d (k_root d);
       ask_all (map (\<lambda>(path, name). ReqUpload path (joinPath dir name)) files) d
     })"

definition uploadFolder :: "(string \<times> string) option \<Rightarrow> sftp_dock \<Rightarrow> sftp_dock option" where
  "uploadFolder chosen =
     if_session (\<lambda>d.
       case chosen of
         None \<Rightarrow> Some d
       | Some (path, name) \<Rightarrow> do { dir \<leftarrow> pathForIndex d (k_root d); askSession (ReqUploadDir path (joinPath dir name)) d })"

definition dropsAccepted :: "sftp_dock \<Rightarrow> bool" where
  "dropsAccepted d \<longleftrightarrow> k_session d \<noteq> None \<and> rootPath d \<noteq> []"

definition dropFiles :: "(string \<times> string \<times> bool) list \<Rightarrow> sftp_dock \<Rightarrow> sftp_dock option" where
  "dropFiles files d =
     (if \<not> dropsAccepted d then Some d
      else do {
        dir \<leftarrow> pathForIndex d (k_root d);
        ask_all (map (\<lambda>(path, name, isDir).
          if isDir then ReqUploadDir path (joinPath dir name) else ReqUpload path (joinPath dir name)) files) d
      })"

text \<open>The dialog asks for a folder to put a folder in, or for the name of a file.\<close>

definition downloadSelected :: "string option \<Rightarrow> sftp_dock \<Rightarrow> sftp_dock option" where
  "downloadSelected chosen =
     if_session (\<lambda>d.
       case (k_current d, chosen) of
         (Some i, Some place) \<Rightarrow>
           do {
             n \<leftarrow> nodeForIndex (k_model d) (Some i);
             askSession (if nd_isDirectory n then ReqDownloadDir (nd_path n) (place @ ''/'' @ nd_name n)
                  else ReqDownload (nd_path n) place) d
           }
       | _ \<Rightarrow> Some d)"

text \<open>The trimmed name, if the dialog is accepted.\<close>

definition newFile :: "string option \<Rightarrow> sftp_dock \<Rightarrow> sftp_dock option" where
  "newFile name =
     if_session (\<lambda>d.
       case name of
         None \<Rightarrow> Some d
       | Some n \<Rightarrow>
           if n = [] \<or> CHR ''/'' \<in> set n then Some d
           else do { dir \<leftarrow> pathForIndex d (k_root d); askSession (ReqCreate (joinPath dir n)) d })"

definition newFolder :: "string option \<Rightarrow> sftp_dock \<Rightarrow> sftp_dock option" where
  "newFolder name =
     if_session (\<lambda>d.
       case name of
         None \<Rightarrow> Some d
       | Some n \<Rightarrow>
           if n = [] then Some d
           else do {
             dir \<leftarrow> pathForIndex d (k_root d);
             d1 \<leftarrow> with_model (addPlaceholderDirectory dir n) d;
             askSession (ReqMkdir (joinPath dir n)) d1
           })"

definition deleteSelected :: "bool \<Rightarrow> sftp_dock \<Rightarrow> sftp_dock option" where
  "deleteSelected confirmed =
     if_session (\<lambda>d.
       case k_current d of
         None \<Rightarrow> Some d
       | Some i \<Rightarrow>
           do {
             n \<leftarrow> nodeForIndex (k_model d) (Some i);
             (if \<not> confirmed then Some d
              else askSession (if nd_isDirectory n then ReqRemoveDir (nd_path n) else ReqRemove (nd_path n)) d)
           })"

definition renameSelected :: "string option \<Rightarrow> sftp_dock \<Rightarrow> sftp_dock option" where
  "renameSelected name =
     if_session (\<lambda>d.
       case (k_current d, name) of
         (Some i, Some new) \<Rightarrow>
           do {
             n \<leftarrow> nodeForIndex (k_model d) (Some i);
             (if new = [] \<or> new = nd_name n then Some d
              else do {
                dir \<leftarrow> pathForIndex d (map_option snd (parentIndex (k_model d) (Some i)));
                askSession (ReqRename (nd_path n) (joinPath dir new)) d
              })
           }
       | _ \<Rightarrow> Some d)"

definition kMaxBytes :: int where
  "kMaxBytes = 5 * 1024 * 1024"

definition openInEditor :: "nat option \<Rightarrow> sftp_dock \<Rightarrow> sftp_dock option" where
  "openInEditor idx d =
     (case (k_session d, k_settings d, idx) of
        (Some s, Some st, Some i) \<Rightarrow>
          do {
            n \<leftarrow> nodeForIndex (k_model d) (Some i);
            let key = connectionKey st @ '':'' @ nd_path n;
            Some (if nd_isDirectory n \<or> nd_size n > kMaxBytes \<or> key \<in> set (k_editors d) then d
                  else d\<lparr>k_editors := k_editors d @ [key]\<rparr>)
          }
      | _ \<Rightarrow> Some d)"

definition editorSaved :: "string \<Rightarrow> sftp_dock \<Rightarrow> sftp_dock option" where
  "editorSaved path = if_session (list_again (parentPath path))"

definition onItemDoubleClicked :: "nat option \<Rightarrow> sftp_dock \<Rightarrow> sftp_dock option" where
  "onItemDoubleClicked idx d =
     (case idx of
        None \<Rightarrow> Some d
      | Some i \<Rightarrow>
          do {
            n \<leftarrow> nodeForIndex (k_model d) idx;
            (if nd_isDirectory n then enterDirectory False idx d else openInEditor idx d)
          })"

subsection \<open>Events\<close>

text \<open>A row can be selected or opened only while it is in the tree.\<close>

datatype dock_event =
    SetActive sftp_answers "ssh_settings option" | KeepOnly "ssh_settings list" | ParkedDropped nat
  | DockConnected string | DockConnectFailed string | DockListed string "sftp_entry list"
  | DockFailed string string string | DockSucceeded string string
  | DockTransferStarted string | DockTransferProgress int int | DockTransferFinished string bool
  | SelectRow nat | OpenRow nat | GoUp | GoBack | GoForward | Navigate string | Refresh
  | UploadRequested string string bool | UploadFiles "(string \<times> string) list"
  | UploadFolder "(string \<times> string) option" | DropFiles "(string \<times> string \<times> bool) list"
  | Download "string option" | NewFile "string option" | NewFolder "string option"
  | Delete bool | Rename "string option" | EditorSaved string

fun dock_handle :: "(nat \<Rightarrow> nat) \<Rightarrow> dock_event \<Rightarrow> sftp_dock \<Rightarrow> sftp_dock option" where
  "dock_handle pick (SetActive b s) d = setActiveConnection pick b s d"
| "dock_handle pick (KeepOnly ss) d = Some (keepOnly ss d)"
| "dock_handle pick (ParkedDropped s) d = Some (parkedDropped s d)"
| "dock_handle pick (DockConnected home) d = onConnected home d"
| "dock_handle pick (DockConnectFailed m) d = Some (setStatus (''Connection failed: '' @ m) d)"
| "dock_handle pick (DockListed p es) d = with_model (applyDirectoryListing p es) d"
| "dock_handle pick (DockFailed op p m) d = onOperationFailed op p m d"
| "dock_handle pick (DockSucceeded op p) d = onOperationSucceeded op p d"
| "dock_handle pick (DockTransferStarted p) d = Some (onTransferStarted p d)"
| "dock_handle pick (DockTransferProgress n t) d = Some (onTransferProgress n t d)"
| "dock_handle pick (DockTransferFinished p ok) d = Some (onTransferFinished p ok d)"
| "dock_handle pick (SelectRow i) d = Some (d\<lparr>k_current := still (k_model d) (Some i)\<rparr>)"
| "dock_handle pick (OpenRow i) d = onItemDoubleClicked (still (k_model d) (Some i)) d"
| "dock_handle pick GoUp d = goUp d"
| "dock_handle pick GoBack d = goBack d"
| "dock_handle pick GoForward d = goForward d"
| "dock_handle pick (Navigate p) d = navigateToPath p d"
| "dock_handle pick Refresh d = refresh d"
| "dock_handle pick (UploadRequested l r isDir) d = onUploadRequested l r isDir d"
| "dock_handle pick (UploadFiles fs) d = uploadFiles fs d"
| "dock_handle pick (UploadFolder f) d = uploadFolder f d"
| "dock_handle pick (DropFiles fs) d = dropFiles fs d"
| "dock_handle pick (Download c) d = downloadSelected c d"
| "dock_handle pick (NewFile n) d = newFile n d"
| "dock_handle pick (NewFolder n) d = newFolder n d"
| "dock_handle pick (Delete ok) d = deleteSelected ok d"
| "dock_handle pick (Rename n) d = renameSelected n d"
| "dock_handle pick (EditorSaved p) d = editorSaved p d"

end
