(* ===== verification/SftpDockProps.thy ===== *)
theory SftpDockProps
  imports SftpDock SftpMirror "HOL-Library.Multiset"
begin

text \<open>
  Properties of the SFTP dock: every signal and command is defined while session signals come from a
  session the dock has, every session is accounted for, the history is a round trip.
\<close>

subsection \<open>Indices\<close>

lemma still_None [simp]: "still m None = None"
  by (simp add: still_def)

lemma still_idem [simp]: "still m (still m idx) = still m idx"
  by (simp add: still_def split: option.splits)

lemma still_cases:
  assumes "still m idx = idx"
  obtains "idx = None" | i n where "idx = Some i" "findNode i (md_root m) = Some n" "i \<noteq> nd_id (md_root m)"
  using assms by (auto simp: still_def split: option.splits if_splits)

lemma still_node:
  assumes "still m idx = idx"
  shows "\<exists>n. nodeForIndex m idx = Some n"
  using assms by (cases rule: still_cases) (auto simp: nodeForIndex_def)

lemma still_childless:
  assumes "nd_children (md_root m) = []"
  shows "still m idx = None"
proof -
  have "nodes (md_root m) = [md_root m]" using assms by (cases "md_root m") auto
  then show ?thesis
    by (simp add: still_def findNode_def split: option.splits)
qed

lemma still_same_ids:
  assumes "nd_id (md_root m') = nd_id (md_root m)" "set (ids (md_root m')) = set (ids (md_root m))"
  shows "still m' = still m"
proof -
  have "findNode i (md_root m') = None \<longleftrightarrow> findNode i (md_root m) = None" for i
    using assms(2) by (force simp: findNode_def find_None_iff ids_nodes)
  then show ?thesis by (intro ext) (simp add: still_def assms(1) split: option.splits)
qed

lemma still_indexForNode: "still m (map_option snd (indexForNode m i)) = map_option snd (indexForNode m i)"
proof (cases "i = nd_id (md_root m)")
  case False
  show ?thesis
  proof (cases "parentOf i (md_root m)")
    case (Some p)
    then obtain c where c: "c \<in> set (nodes (md_root m))" "nd_id c = i"
      using parentOf_Some children_nodes by metis
    then have "findNode i (md_root m) \<noteq> None" unfolding findNode_def by (metis (mono_tags) find_None_iff)
    then show ?thesis using False Some by (simp add: still_def indexForNode_def)
  qed (simp add: indexForNode_def False)
qed (simp add: indexForNode_def)

lemma still_parentIndex: "still m (map_option snd (parentIndex m idx)) = map_option snd (parentIndex m idx)"
  by (simp add: parentIndex_def still_indexForNode split: option.splits)

subsection \<open>What holds of a dock\<close>

text \<open>Its indices are rows of its tree, which is empty when there is no session.\<close>

definition view_ok :: "sftp_dock \<Rightarrow> bool" where
  "view_ok d \<longleftrightarrow>
     model_ok (k_model d) \<and>
     (\<forall>idx \<in> {k_root d, k_current d} \<union> set (k_back d) \<union> set (k_forward d). still (k_model d) idx = idx) \<and>
     (k_session d = None \<longrightarrow> nd_children (md_root (k_model d)) = [])"

text \<open>Every session made so far is the active one, a parked one or closed.\<close>

definition active :: "sftp_dock \<Rightarrow> nat list" where
  "active d = (case k_session d of None \<Rightarrow> [] | Some s \<Rightarrow> [s])"

definition parked :: "sftp_dock \<Rightarrow> nat list" where
  "parked d = map (\<lambda>(k, s, h). s) (k_parked d)"

definition sessions_ok :: "sftp_dock \<Rightarrow> bool" where
  "sessions_ok d \<longleftrightarrow>
     distinct (active d @ parked d @ k_closed d) \<and> set (active d @ parked d @ k_closed d) = {..<k_next d} \<and>
     length (k_parked d) \<le> kMaxParked \<and> distinct (map fst (k_parked d)) \<and>
     (k_session d = None \<longleftrightarrow> k_settings d = None) \<and>
     (\<forall>st. k_settings d = Some st \<longrightarrow> connectionKey st \<notin> fst ` set (k_parked d))"

text \<open>Requests go to sessions that were made, and none follows a session's disconnection.\<close>

fun silent :: "(nat \<times> sftp_request) list \<Rightarrow> bool" where
  "silent [] = True"
| "silent ((s, q) # qs) = ((q = ReqDisconnect \<longrightarrow> s \<notin> fst ` set qs) \<and> silent qs)"

definition requests_ok :: "sftp_dock \<Rightarrow> bool" where
  "requests_ok d \<longleftrightarrow>
     silent (k_requests d) \<and> fst ` set (k_requests d) \<subseteq> {..<k_next d} \<and>
     (\<forall>s. (s, ReqDisconnect) \<in> set (k_requests d) \<longrightarrow> s \<in> set (k_closed d))"

lemma silent_append:
  "silent (as @ bs) \<longleftrightarrow> silent as \<and> silent bs \<and> (\<forall>s. (s, ReqDisconnect) \<in> set as \<longrightarrow> s \<notin> fst ` set bs)"
  by (induction as rule: silent.induct) auto

subsection \<open>Operations that leave the sessions alone\<close>

definition moves :: "sftp_dock \<Rightarrow> sftp_dock \<Rightarrow> bool" where
  "moves d d' \<longleftrightarrow>
     k_session d' = k_session d \<and> k_settings d' = k_settings d \<and> k_parked d' = k_parked d \<and>
     k_closed d' = k_closed d \<and> k_next d' = k_next d \<and>
     (\<exists>qs. k_requests d' = k_requests d @ qs \<and>
           (\<forall>(s, q) \<in> set qs. k_session d = Some s \<and> q \<noteq> ReqDisconnect))"

definition fine :: "(sftp_dock \<Rightarrow> sftp_dock option) \<Rightarrow> sftp_dock \<Rightarrow> bool" where
  "fine f d \<longleftrightarrow> (\<exists>d'. f d = Some d' \<and> moves d d' \<and> view_ok d')"

lemma moves_refl: "moves d d"
  by (simp add: moves_def)

lemma moves_trans: "moves a b \<Longrightarrow> moves b c \<Longrightarrow> moves a c"
  by (fastforce simp: moves_def)

lemma fineI: "f d = Some d' \<Longrightarrow> moves d d' \<Longrightarrow> view_ok d' \<Longrightarrow> fine f d"
  by (auto simp: fine_def)

lemma fine_bind:
  assumes "fine f d" "\<And>d'. view_ok d' \<Longrightarrow> moves d d' \<Longrightarrow> fine g d'"
  shows "fine (\<lambda>d. Option.bind (f d) g) d"
proof -
  obtain d1 where d1: "f d = Some d1" "moves d d1" "view_ok d1" using assms(1) by (auto simp: fine_def)
  obtain d2 where "g d1 = Some d2" "moves d1 d2" "view_ok d2" using assms(2) [OF d1(3,2)] by (auto simp: fine_def)
  then show ?thesis using d1 by (intro fineI [of _ _ d2]) (auto intro: moves_trans)
qed

lemma moves_kept:
  assumes "moves d d'" "sessions_ok d" "requests_ok d"
  shows "sessions_ok d' \<and> requests_ok d'"
proof -
  obtain qs where qs: "k_requests d' = k_requests d @ qs" "\<forall>(s, q) \<in> set qs. k_session d = Some s \<and> q \<noteq> ReqDisconnect"
    using assms(1) by (auto simp: moves_def)
  have same: "active d' = active d" "parked d' = parked d" "k_closed d' = k_closed d" "k_next d' = k_next d"
    using assms(1) by (simp_all add: moves_def active_def parked_def)
  have act: "s < k_next d \<and> s \<notin> set (k_closed d)" if "k_session d = Some s" for s
    using assms(2) that by (auto simp: sessions_ok_def active_def)
  have "silent qs" using qs(2) by (induction qs rule: silent.induct) auto
  then have "requests_ok d'"
    using assms(3) act qs unfolding requests_ok_def same qs(1) silent_append by fastforce
  then show ?thesis using assms(1,2) unfolding sessions_ok_def same by (simp add: moves_def)
qed


subsection \<open>Commands and signals\<close>

lemma view_okD:
  assumes "view_ok d"
  shows "model_ok (k_model d)" "still (k_model d) (k_root d) = k_root d" "still (k_model d) (k_current d) = k_current d"
    "idx \<in> set (k_back d) \<Longrightarrow> still (k_model d) idx = idx" "idx \<in> set (k_forward d) \<Longrightarrow> still (k_model d) idx = idx"
    "k_session d = None \<Longrightarrow> nd_children (md_root (k_model d)) = []"
  using assms by (auto simp: view_ok_def)

lemma without_session:
  assumes "view_ok d" "k_session d = None"
  shows "still (k_model d) idx = None" "k_root d = None" "k_current d = None"
proof -
  have "still (k_model d) idx = None" for idx using still_childless view_okD(6) [OF assms] by blast
  then show "still (k_model d) idx = None" "k_root d = None" "k_current d = None"
    using view_okD(2,3) [OF assms(1)] by metis+
qed

lemma view_ok_same:
  assumes "view_ok d" "k_model d' = k_model d" "k_session d' = k_session d"
    "{k_root d', k_current d'} \<union> set (k_back d') \<union> set (k_forward d')
       \<subseteq> {k_root d, k_current d} \<union> set (k_back d) \<union> set (k_forward d) \<union> {None}"
  shows "view_ok d'"
proof -
  let ?A = "{k_root d, k_current d} \<union> set (k_back d) \<union> set (k_forward d)"
  have "\<forall>idx \<in> ?A \<union> {None}. still (k_model d) idx = idx" using assms(1) by (auto simp: view_ok_def)
  with assms(4) have "\<forall>idx \<in> {k_root d', k_current d'} \<union> set (k_back d') \<union> set (k_forward d'). still (k_model d) idx = idx"
    by blast
  then show ?thesis using assms(1-3) unfolding view_ok_def by simp
qed

lemma with_model_fine:
  assumes "view_ok d" "k_session d \<noteq> None" "\<exists>m'. f (k_model d) = Some m' \<and> model_ok m'"
  shows "fine (with_model f) d"
  using assms by (auto simp: fine_def with_model_def revalidate_def view_ok_def moves_def Let_def)

lemma ask_fine:
  assumes "view_ok d" "k_session d = Some s" "q \<noteq> ReqDisconnect"
  shows "fine (askSession q) d"
  using assms by (auto simp: fine_def askSession_def view_ok_def moves_def)

lemma list_again_fine:
  assumes "view_ok d" "k_session d = Some s"
  shows "fine (list_again p) d"
  unfolding list_again_def
proof (rule fine_bind)
  show "fine (with_model (markLoading True p)) d"
    using with_model_fine [OF assms(1)] assms(2) markLoading_ok view_okD(1) [OF assms(1)] by blast
next
  fix d' assume "view_ok d'" "moves d d'"
  then show "fine (askSession (ReqList p)) d'" using ask_fine assms(2) by (simp add: moves_def)
qed

lemma fine_after:
  assumes "fine f d1" "moves d d1"
  shows "fine (\<lambda>_. f d1) d"
  using assms by (auto simp: fine_def intro: moves_trans)

lemma fine_const: "view_ok d' \<Longrightarrow> moves d d' \<Longrightarrow> fine (\<lambda>_. Some d') d"
  by (simp add: fine_def)

lemma fine_same: "fine (\<lambda>_. f d) d \<longleftrightarrow> fine f d"
  by (simp add: fine_def)

lemma enterDirectory_fine:
  assumes "view_ok d" "k_session d = Some s" "still (k_model d) dir = dir"
  shows "fine (enterDirectory h dir) d"
proof -
  obtain n where n: "nodeForIndex (k_model d) dir = Some n" using still_node [OF assms(3)] by blast
  let ?d1 = "if \<not> h \<and> dir \<noteq> k_root d then d\<lparr>k_back := k_back d @ [k_root d], k_forward := []\<rparr> else d"
  let ?d2 = "?d1\<lparr>k_root := dir, k_path := nd_path n, k_up := (dir \<noteq> None)\<rparr>"
  have d2: "view_ok ?d2" "moves d ?d2" using assms(1,3) by (auto simp: view_ok_def moves_def)
  have "fine (\<lambda>_. if nd_childrenLoaded n then Some ?d2 else list_again (nd_path n) ?d2) d"
    using fine_after [OF list_again_fine [OF d2(1)] d2(2)] fine_const [OF d2] assms(2) by auto
  moreover have "enterDirectory h dir d = (if nd_childrenLoaded n then Some ?d2 else list_again (nd_path n) ?d2)"
    using n by (cases "\<not> h \<and> dir \<noteq> k_root d") (simp_all add: enterDirectory_def Let_def)
  ultimately show ?thesis by (simp only: fine_def)
qed

lemma setStatus_ok: "view_ok d \<Longrightarrow> view_ok (setStatus t d) \<and> moves d (setStatus t d)"
  by (auto simp: view_ok_def moves_def setStatus_def)

lemma setModelRoot_ok:
  assumes "view_ok d"
  shows "view_ok (setModelRoot p d) \<and> moves d (setModelRoot p d)"
  using setRoot_ok [of p "k_model d"]
  by (auto simp: setModelRoot_def revalidate_def view_ok_def moves_def Let_def) (simp add: setRoot_def)

lemma onConnected_fine:
  assumes "view_ok d" "k_session d = Some s"
  shows "fine (onConnected home) d"
proof -
  let ?d1 = "setStatus (''Connected: '' @ home) (setModelRoot home d)"
  have "view_ok ?d1" "moves d ?d1"
    using setModelRoot_ok [OF assms(1)] setStatus_ok moves_trans by blast+
  moreover from this have "k_session ?d1 = Some s" using assms(2) by (simp add: moves_def)
  ultimately have "fine (\<lambda>_. enterDirectory False None ?d1) d"
    using fine_after enterDirectory_fine by simp
  then show ?thesis by (simp add: fine_def onConnected_def)
qed


lemma goBack_fine:
  assumes "view_ok d"
  shows "fine goBack d"
proof (cases "k_session d = None \<or> k_back d = []")
  case True
  then show ?thesis using fine_const [OF assms moves_refl] by (auto simp: fine_def goBack_def)
next
  case False
  then obtain s where s: "k_session d = Some s" "k_back d \<noteq> []" by auto
  let ?d1 = "d\<lparr>k_forward := k_forward d @ [k_root d], k_back := butlast (k_back d)\<rparr>"
  have "view_ok ?d1"
    by (rule view_ok_same [OF assms]) (auto dest: in_set_butlastD)
  moreover have "moves d ?d1" by (simp add: moves_def)
  moreover have "still (k_model ?d1) (last (k_back d)) = last (k_back d)"
    using view_okD(4) [OF assms last_in_set [OF s(2)]] by simp
  ultimately have "fine (\<lambda>_. enterDirectory True (last (k_back d)) ?d1) d"
    using s(1) by (intro fine_after enterDirectory_fine) simp_all
  then show ?thesis using s by (simp add: fine_def goBack_def)
qed

lemma goForward_fine:
  assumes "view_ok d"
  shows "fine goForward d"
proof (cases "k_session d = None \<or> k_forward d = []")
  case True
  then show ?thesis using fine_const [OF assms moves_refl] by (auto simp: fine_def goForward_def)
next
  case False
  then obtain s where s: "k_session d = Some s" "k_forward d \<noteq> []" by auto
  let ?d1 = "d\<lparr>k_back := k_back d @ [k_root d], k_forward := butlast (k_forward d)\<rparr>"
  have "view_ok ?d1"
    by (rule view_ok_same [OF assms]) (auto dest: in_set_butlastD)
  moreover have "moves d ?d1" by (simp add: moves_def)
  moreover have "still (k_model ?d1) (last (k_forward d)) = last (k_forward d)"
    using view_okD(5) [OF assms last_in_set [OF s(2)]] by simp
  ultimately have "fine (\<lambda>_. enterDirectory True (last (k_forward d)) ?d1) d"
    using s(1) by (intro fine_after enterDirectory_fine) simp_all
  then show ?thesis using s by (simp add: fine_def goForward_def)
qed

lemma indexForPath_still:
  assumes "model_ok m"
  shows "\<exists>r. indexForPath p m = Some r \<and> still m (map_option snd r) = map_option snd r"
  using assms
proof (cases rule: findNodeByPath_cases [of m p])
  case (2 n)
  then show ?thesis using still_indexForNode [of m "nd_id n"] by (simp add: indexForPath_def)
qed (use assms in \<open>simp_all add: indexForPath_def\<close>)

lemma navigateToPath_fine:
  assumes "view_ok d"
  shows "fine (navigateToPath p) d"
proof (cases "k_session d")
  case None
  then show ?thesis using fine_const [OF assms moves_refl] by (simp add: fine_def navigateToPath_def)
next
  case (Some s)
  obtain r where r: "indexForPath p (k_model d) = Some r" "still (k_model d) (map_option snd r) = map_option snd r"
    using indexForPath_still view_okD(1) [OF assms] by blast
  let ?d0 = "d\<lparr>k_back := [], k_forward := []\<rparr>"
  let ?d1 = "setModelRoot p ?d0"
  have "view_ok ?d0" "moves d ?d0" by (rule view_ok_same [OF assms], auto simp: moves_def)
  then have d1: "view_ok ?d1" "moves d ?d1" using setModelRoot_ok moves_trans by blast+
  then have "k_session ?d1 = Some s" using Some by (simp add: moves_def)
  then have "fine (\<lambda>_. enterDirectory False None ?d1) d"
    using d1 fine_after enterDirectory_fine by simp
  moreover have "fine (enterDirectory False None) d" using enterDirectory_fine [OF assms Some] by simp
  moreover have "fine (enterDirectory False (Some i)) d" if "r = Some (row, i)" for row i
    using enterDirectory_fine [OF assms Some] r(2) that by simp
  ultimately show ?thesis using Some r(1)
    by (cases r) (auto simp: fine_def navigateToPath_def)
qed

lemma goUp_fine:
  assumes "view_ok d"
  shows "fine goUp d"
proof (cases "k_root d = None")
  case True
  then show ?thesis using fine_const [OF assms moves_refl] by (simp add: fine_def goUp_def)
next
  case False
  then obtain s where "k_session d = Some s" using without_session(2) [OF assms] by (cases "k_session d") auto
  from enterDirectory_fine [OF assms this still_parentIndex] show ?thesis
    using False by (auto simp: fine_def goUp_def)
qed

lemma if_session_fine:
  assumes "view_ok d" "\<And>s. k_session d = Some s \<Longrightarrow> fine f d"
  shows "fine (if_session f) d"
proof (cases "k_session d")
  case None
  then show ?thesis using fine_const [OF assms(1) moves_refl] by (simp add: fine_def if_session_def)
next
  case (Some s)
  then show ?thesis using assms(2) by (simp add: fine_def if_session_def)
qed

lemma refresh_fine:
  assumes "view_ok d"
  shows "fine refresh d"
proof (cases "k_session d")
  case None
  then show ?thesis using fine_const [OF assms moves_refl] by (simp add: fine_def refresh_def)
next
  case (Some s)
  then show ?thesis using still_node [OF view_okD(2) [OF assms]] list_again_fine [OF assms Some]
    by (auto simp: fine_def refresh_def pathForIndex_def)
qed

lemma onOperationFailed_fine:
  assumes "view_ok d" "k_session d \<noteq> None"
  shows "fine (onOperationFailed op p m) d"
proof -
  from with_model_fine [OF assms] markLoading_ok view_okD(1) [OF assms(1)]
  obtain d' where "with_model (markLoading False p) d = Some d'" "moves d d'" "view_ok d'"
    unfolding fine_def by blast
  then show ?thesis using setStatus_ok moves_trans by (fastforce simp: fine_def onOperationFailed_def)
qed

lemma onOperationSucceeded_fine:
  assumes "view_ok d" "k_session d = Some s"
  shows "fine (onOperationSucceeded op p) d"
proof -
  let ?d1 = "setStatus (op @ '' OK: '' @ p) d"
  have d1: "view_ok ?d1" "moves d ?d1" using setStatus_ok [OF assms(1)] by blast+
  then have s1: "k_session ?d1 = Some s" using assms(2) by (simp add: moves_def)
  have "fine (\<lambda>_. with_model (removeEntry p) ?d1) d"
    using fine_after [OF with_model_fine [OF d1(1)] d1(2)] s1 removeEntry_ok view_okD(1) [OF d1(1)] by simp
  moreover have "fine (\<lambda>_. list_again (parentPath p) ?d1) d"
    using fine_after [OF list_again_fine [OF d1(1) s1] d1(2)] .
  ultimately show ?thesis using fine_const [OF d1] by (simp add: fine_def onOperationSucceeded_def Let_def)
qed

lemma ask_all_fine:
  assumes "view_ok d" "k_session d = Some s" "ReqDisconnect \<notin> set qs"
  shows "fine (ask_all qs) d"
  using assms
proof (induction qs arbitrary: d)
  case Nil
  then show ?case using fine_const [OF Nil(1) moves_refl] by (simp add: fine_def)
next
  case (Cons q qs)
  have "fine (\<lambda>d. Option.bind (askSession q d) (ask_all qs)) d"
  proof (rule fine_bind)
    show "fine (askSession q) d" using ask_fine Cons.prems by auto
  next
    fix d' assume "view_ok d'" "moves d d'"
    then show "fine (ask_all qs) d'" using Cons by (simp add: moves_def)
  qed
  then show ?case by (simp add: fine_def)
qed


lemma root_path_known: "view_ok d \<Longrightarrow> \<exists>p. pathForIndex d (k_root d) = Some p"
  using still_node view_okD(2) by (fastforce simp: pathForIndex_def)

lemma current_known: "view_ok d \<Longrightarrow> k_current d = Some i \<Longrightarrow> \<exists>n. nodeForIndex (k_model d) (Some i) = Some n"
  using still_node view_okD(3) by metis

lemma uploads_fine:
  assumes "view_ok d"
  shows "fine (onUploadRequested l r isDir) d" "fine (uploadFiles fs) d" "fine (uploadFolder c) d" "fine (dropFiles us) d"
proof -
  obtain p where p: "pathForIndex d (k_root d) = Some p" using root_path_known [OF assms] by blast
  have same: "fine (\<lambda>_. Some d) d" using fine_const [OF assms moves_refl] .
  show "fine (onUploadRequested l r isDir) d"
    unfolding onUploadRequested_def by (rule if_session_fine [OF assms]) (rule ask_fine [OF assms], auto)
  show "fine (uploadFiles fs) d"
    unfolding uploadFiles_def
  proof (rule if_session_fine [OF assms])
    fix s assume "k_session d = Some s"
    then have "fine (ask_all (map (\<lambda>(path, name). ReqUpload path (joinPath p name)) fs)) d"
      by (intro ask_all_fine [OF assms]) auto
    then show "fine (\<lambda>d. do { dir \<leftarrow> pathForIndex d (k_root d);
        ask_all (map (\<lambda>(path, name). ReqUpload path (joinPath dir name)) fs) d }) d"
      using p by (simp add: fine_def)
  qed
  show "fine (uploadFolder c) d"
    unfolding uploadFolder_def
  proof (rule if_session_fine [OF assms])
    fix s assume "k_session d = Some s"
    then have "fine (askSession (ReqUploadDir a (joinPath p b))) d" for a b by (intro ask_fine [OF assms]) auto
    then show "fine (\<lambda>d. case c of None \<Rightarrow> Some d
        | Some (path, name) \<Rightarrow> do { dir \<leftarrow> pathForIndex d (k_root d); askSession (ReqUploadDir path (joinPath dir name)) d }) d"
      using p same by (cases c) (auto simp: fine_def)
  qed
  show "fine (dropFiles us) d"
  proof (cases "dropsAccepted d")
    case True
    then obtain s where "k_session d = Some s" by (auto simp: dropsAccepted_def)
    then have "fine (ask_all (map (\<lambda>(path, name, isDir).
        if isDir then ReqUploadDir path (joinPath p name) else ReqUpload path (joinPath p name)) us)) d"
      by (intro ask_all_fine [OF assms]) (auto split: if_splits)
    then show ?thesis using p True by (simp add: fine_def dropFiles_def)
  qed (use same in \<open>simp add: fine_def dropFiles_def\<close>)
qed

lemma commands_fine:
  assumes "view_ok d"
  shows "fine (downloadSelected c) d" "fine (newFile c) d" "fine (deleteSelected ok) d" "fine (renameSelected c) d"
proof -
  obtain p where p: "pathForIndex d (k_root d) = Some p" using root_path_known [OF assms] by blast
  have same: "fine (\<lambda>_. Some d) d" using fine_const [OF assms moves_refl] .
  have asked: "fine (askSession q) d" if "k_session d = Some s" "q \<noteq> ReqDisconnect" for q s
    using ask_fine [OF assms that] .
  show "fine (downloadSelected c) d"
    unfolding downloadSelected_def
  proof (rule if_session_fine [OF assms])
    fix s assume s: "k_session d = Some s"
    show "fine (\<lambda>d. case (k_current d, c) of (Some i, Some place) \<Rightarrow> do {
        n \<leftarrow> nodeForIndex (k_model d) (Some i);
        askSession (if nd_isDirectory n then ReqDownloadDir (nd_path n) (place @ ''/'' @ nd_name n)
             else ReqDownload (nd_path n) place) d } | _ \<Rightarrow> Some d) d"
      using same asked [OF s] current_known [OF assms]
      by (cases "k_current d"; cases c) (fastforce simp: fine_def)+
  qed
  show "fine (newFile c) d"
    unfolding newFile_def using same asked p
    by (intro if_session_fine [OF assms]) (auto simp: fine_def split: option.splits)
  show "fine (deleteSelected ok) d"
    unfolding deleteSelected_def
  proof (rule if_session_fine [OF assms])
    fix s assume s: "k_session d = Some s"
    show "fine (\<lambda>d. case k_current d of None \<Rightarrow> Some d | Some i \<Rightarrow> do {
        n \<leftarrow> nodeForIndex (k_model d) (Some i);
        (if \<not> ok then Some d else askSession (if nd_isDirectory n then ReqRemoveDir (nd_path n) else ReqRemove (nd_path n)) d)}) d"
      using same asked [OF s] current_known [OF assms] by (cases "k_current d") (fastforce simp: fine_def)+
  qed
  show "fine (renameSelected c) d"
    unfolding renameSelected_def
  proof (rule if_session_fine [OF assms])
    fix s assume s: "k_session d = Some s"
    have dir: "\<exists>q. pathForIndex d (map_option snd (parentIndex (k_model d) (Some i))) = Some q" for i
      using still_node [OF still_parentIndex [of "k_model d" "Some i"]] by (auto simp: pathForIndex_def)
    show "fine (\<lambda>d. case (k_current d, c) of (Some i, Some new) \<Rightarrow> do {
        n \<leftarrow> nodeForIndex (k_model d) (Some i);
        (if new = [] \<or> new = nd_name n then Some d
         else do { dir \<leftarrow> pathForIndex d (map_option snd (parentIndex (k_model d) (Some i)));
                   askSession (ReqRename (nd_path n) (joinPath dir new)) d }) } | _ \<Rightarrow> Some d) d"
    proof (cases "k_current d = None \<or> c = None")
      case True
      then show ?thesis using same by (auto simp: fine_def split: option.splits)
    next
      case False
      then obtain i new where i: "k_current d = Some i" "c = Some new" by auto
      obtain n q where "nodeForIndex (k_model d) (Some i) = Some n"
        "pathForIndex d (map_option snd (parentIndex (k_model d) (Some i))) = Some q"
        using current_known [OF assms i(1)] dir by metis
      then show ?thesis using i same asked [OF s, of "ReqRename (nd_path n) (joinPath q new)"] by (simp add: fine_def)
    qed
  qed
qed

lemma newFolder_fine:
  assumes "view_ok d"
  shows "fine (newFolder c) d"
  unfolding newFolder_def
proof (rule if_session_fine [OF assms])
  fix s assume s: "k_session d = Some s"
  obtain p where p: "pathForIndex d (k_root d) = Some p" using root_path_known [OF assms] by blast
  have "fine (\<lambda>d. Option.bind (with_model (addPlaceholderDirectory p n) d) (askSession (ReqMkdir (joinPath p n)))) d" for n
  proof (rule fine_bind)
    show "fine (with_model (addPlaceholderDirectory p n)) d"
      using with_model_fine [OF assms] s addPlaceholderDirectory_ok view_okD(1) [OF assms] by simp
  next
    fix d' assume "view_ok d'" "moves d d'"
    then show "fine (askSession (ReqMkdir (joinPath p n))) d'" using ask_fine s by (simp add: moves_def)
  qed
  then show "fine (\<lambda>d. case c of None \<Rightarrow> Some d
      | Some n \<Rightarrow> if n = [] then Some d
          else do { dir \<leftarrow> pathForIndex d (k_root d); d1 \<leftarrow> with_model (addPlaceholderDirectory dir n) d;
                    askSession (ReqMkdir (joinPath dir n)) d1 }) d"
    using p fine_const [OF assms moves_refl] by (cases c) (auto simp: fine_def)
qed

lemma openInEditor_fine:
  assumes "view_ok d" "still (k_model d) idx = idx"
  shows "fine (openInEditor idx) d"
proof -
  have "view_ok (d\<lparr>k_editors := e\<rparr>)" "moves d (d\<lparr>k_editors := e\<rparr>)" for e
    using assms(1) by (auto simp: view_ok_def moves_def)
  then show ?thesis using still_node [OF assms(2)] fine_const [OF assms(1) moves_refl]
    by (auto simp: fine_def openInEditor_def Let_def split: option.splits)
qed

lemma openRow_fine:
  assumes "view_ok d" "still (k_model d) idx = idx"
  shows "fine (onItemDoubleClicked idx) d"
proof (cases "k_session d")
  case None
  then have "idx = None" using without_session(1) [OF assms(1) None] assms(2) by metis
  then show ?thesis using fine_const [OF assms(1) moves_refl] by (simp add: fine_def onItemDoubleClicked_def)
next
  case (Some s)
  then show ?thesis
    using enterDirectory_fine [OF assms(1) Some assms(2)] openInEditor_fine [OF assms] still_node [OF assms(2)]
      fine_const [OF assms(1) moves_refl]
    by (auto simp: fine_def onItemDoubleClicked_def split: option.splits)
qed


subsection \<open>Operations on sessions\<close>

definition all_sessions :: "sftp_dock \<Rightarrow> nat list" where
  "all_sessions d = active d @ parked d @ k_closed d"

text \<open>What holds of the sessions while the active connection is being changed.\<close>

definition accounted :: "sftp_dock \<Rightarrow> bool" where
  "accounted d \<longleftrightarrow>
     distinct (all_sessions d) \<and> set (all_sessions d) = {..<k_next d} \<and>
     length (k_parked d) \<le> kMaxParked \<and> distinct (map fst (k_parked d))"

lemma sessions_ok_accounted:
  "sessions_ok d \<longleftrightarrow> accounted d \<and> (k_session d = None \<longleftrightarrow> k_settings d = None) \<and>
     (\<forall>st. k_settings d = Some st \<longrightarrow> connectionKey st \<notin> fst ` set (k_parked d))"
  by (auto simp: sessions_ok_def accounted_def all_sessions_def)

lemma same_sessions:
  assumes "accounted d" "mset (all_sessions d') = mset (all_sessions d)" "k_next d' = k_next d"
    "length (k_parked d') \<le> kMaxParked" "distinct (map fst (k_parked d'))"
  shows "accounted d'"
  using assms mset_eq_imp_distinct_iff [OF assms(2)] mset_eq_setD [OF assms(2)] by (simp add: accounted_def)

lemma close_all_fields [simp]:
  "k_requests (close_all ss d) = k_requests d @ map (\<lambda>s. (s, ReqDisconnect)) ss"
  "k_closed (close_all ss d) = k_closed d @ ss"
  "k_session (close_all ss d) = k_session d" "k_settings (close_all ss d) = k_settings d"
  "k_parked (close_all ss d) = k_parked d" "k_next (close_all ss d) = k_next d"
  "k_model (close_all ss d) = k_model d" "k_root (close_all ss d) = k_root d"
  "k_current (close_all ss d) = k_current d" "k_back (close_all ss d) = k_back d"
  "k_forward (close_all ss d) = k_forward d"
  by (induction ss arbitrary: d) (simp_all add: close_all_def close_session_def)

lemma close_session_all: "close_session s d = close_all [s] d"
  by (simp add: close_all_def)

lemma close_all_requests:
  assumes "requests_ok d" "distinct (ss @ k_closed d)" "set ss \<subseteq> {..<k_next d}"
  shows "requests_ok (close_all ss d)"
proof -
  have "silent (map (\<lambda>s. (s, ReqDisconnect)) ss)" using assms(2) by (induction ss) auto
  then show ?thesis using assms by (auto simp: requests_ok_def silent_append)
qed

lemma requests_ok_same:
  "requests_ok d \<Longrightarrow> k_requests d' = k_requests d \<Longrightarrow> k_next d' = k_next d \<Longrightarrow> set (k_closed d) \<subseteq> set (k_closed d') \<Longrightarrow>
   requests_ok d'"
  by (auto simp: requests_ok_def)

text \<open>After parking, a dock has no active session; the others are where they were, or closed.\<close>

definition released :: "sftp_dock \<Rightarrow> sftp_dock \<Rightarrow> bool" where
  "released d d' \<longleftrightarrow>
     k_session d' = None \<and> k_model d' = k_model d \<and> k_root d' = k_root d \<and> k_current d' = k_current d \<and>
     k_back d' = [] \<and> k_forward d' = [] \<and> accounted d' \<and> requests_ok d'"

lemma teardownSession_released:
  assumes "accounted d" "requests_ok d"
  shows "released d (teardownSession d)"
proof (cases "k_session d")
  case None
  have "requests_ok (d\<lparr>k_back := [], k_forward := []\<rparr>)" by (rule requests_ok_same [OF assms(2)]) simp_all
  then show ?thesis using assms(1) None
    by (simp add: released_def teardownSession_def accounted_def all_sessions_def active_def parked_def)
next
  case (Some s)
  let ?d' = "(close_all [s] d)\<lparr>k_session := None, k_back := [], k_forward := []\<rparr>"
  have "teardownSession d = ?d'" using Some by (simp add: teardownSession_def close_session_all)
  moreover have "accounted ?d'"
    by (rule same_sessions [OF assms(1)])
      (use assms(1) Some in \<open>simp_all add: all_sessions_def active_def parked_def accounted_def\<close>)
  moreover have "s \<notin> set (k_closed d)" "s < k_next d" "distinct (k_closed d)"
    using assms(1) Some by (auto simp: accounted_def all_sessions_def active_def)
  then have "requests_ok (close_all [s] d)" using close_all_requests [OF assms(2), of "[s]"] by simp
  then have "requests_ok ?d'" by (rule requests_ok_same) simp_all
  ultimately show ?thesis by (simp add: released_def)
qed

lemma mset_without_nth: "n < length xs \<Longrightarrow> add_mset (xs ! n) (mset (take n xs) + mset (drop (Suc n) xs)) = mset xs"
  by (metis Cons_nth_drop_Suc append_take_drop_id mset.simps(2) mset_append union_mset_add_mset_right)

lemma parkSession_released:
  assumes "accounted d" "requests_ok d" "\<And>st. k_settings d = Some st \<Longrightarrow> connectionKey st \<notin> fst ` set (k_parked d)"
  shows "released d (parkSession pick d)"
proof (cases "k_session d \<noteq> None \<and> k_settings d \<noteq> None \<and> rootPath d \<noteq> []")
  case False
  then have "parkSession pick d = teardownSession d" by (auto simp: parkSession_def split: option.splits)
  then show ?thesis using teardownSession_released [OF assms(1,2)] by simp
next
  case True
  then obtain s st where s: "k_session d = Some s" "k_settings d = Some st" "rootPath d \<noteq> []" by auto
  let ?key = "connectionKey st" and ?rest = "k_parked d" and ?n = "pick (length (k_parked d)) mod length (k_parked d)"
  have rest: "filter (\<lambda>(k, _). k \<noteq> ?key) ?rest = ?rest" "[o'. (k, o', h) \<leftarrow> ?rest, k = ?key \<and> o' \<noteq> s] = []"
    using assms(3) [OF s(2)] by (auto simp: filter_id_conv image_def)
  have none: "close_all [o'. (k, o', h) \<leftarrow> ?rest, k = ?key \<and> o' \<noteq> s] d = d"
    unfolding rest(2) by (simp add: close_all_def)
  show ?thesis
  proof (cases "length ?rest \<ge> kMaxParked")
    case False
    let ?d' = "d\<lparr>k_parked := (?key, s, rootPath d) # ?rest, k_session := None, k_back := [], k_forward := []\<rparr>"
    have "parkSession pick d = ?d'" unfolding parkSession_def using s False by (simp add: Let_def rest(1) none)
    moreover have "accounted ?d'"
      by (rule same_sessions [OF assms(1)])
        (use assms(1) assms(3) [OF s(2)] False s in \<open>simp_all add: all_sessions_def active_def parked_def accounted_def\<close>)
    moreover have "requests_ok ?d'" by (rule requests_ok_same [OF assms(2)]) simp_all
    ultimately show ?thesis by (simp add: released_def)
  next
    case True
    let ?v = "fst (snd (?rest ! ?n))" and ?rest2 = "take ?n ?rest @ drop (Suc ?n) ?rest"
    let ?d' = "(close_all [?v] d)\<lparr>k_parked := (?key, s, rootPath d) # ?rest2, k_session := None, k_back := [], k_forward := []\<rparr>"
    have n: "?n < length ?rest" using True by (intro mod_less_divisor) (auto simp: kMaxParked_def)
    have eq: "parkSession pick d = ?d'"
      unfolding parkSession_def using s True by (simp add: Let_def rest(1) none close_session_all)
    have parts: "add_mset (?rest ! ?n) (mset ?rest2) = mset ?rest" using mset_without_nth [OF n] by simp
    have "image_mset (\<lambda>(k, s, h). s) (add_mset (?rest ! ?n) (mset ?rest2)) = image_mset (\<lambda>(k, s, h). s) (mset ?rest)"
      using parts by simp
    then have m: "add_mset ?v (mset (map (\<lambda>(k, s, h). s) ?rest2)) = mset (parked d)"
      by (simp add: parked_def case_prod_beta)
    have vp: "?v \<in> set (parked d)" using mset_eq_setD [of "?v # map (\<lambda>(k, s, h). s) ?rest2" "parked d"] m by auto
    have "distinct (map fst (?rest ! ?n # ?rest2)) \<longleftrightarrow> distinct (map fst ?rest)"
      by (rule mset_eq_imp_distinct_iff) (use parts in \<open>metis mset.simps(2) mset_map\<close>)
    then have keys: "distinct (map fst ?rest2)" "?key \<notin> fst ` set ?rest2"
      using assms(1) assms(3) [OF s(2)] by (auto simp: accounted_def dest: in_set_takeD in_set_dropD)
    have "accounted ?d'"
      by (rule same_sessions [OF assms(1)])
        (use assms(1) keys m n s in \<open>auto simp: all_sessions_def active_def parked_def accounted_def\<close>)
    moreover have "distinct ([?v] @ k_closed d)" "set [?v] \<subseteq> {..<k_next d}"
      using vp assms(1) by (auto simp: accounted_def all_sessions_def)
    from close_all_requests [OF assms(2) this] have "requests_ok ?d'" by (rule requests_ok_same) simp_all
    ultimately show ?thesis by (simp add: released_def eq)
  qed
qed


definition dock_ok :: "sftp_dock \<Rightarrow> bool" where
  "dock_ok d \<longleftrightarrow> view_ok d \<and> sessions_ok d \<and> requests_ok d"

lemma dock_okI: "accounted d \<Longrightarrow> view_ok d \<Longrightarrow> requests_ok d \<Longrightarrow> (k_session d = None \<longleftrightarrow> k_settings d = None) \<Longrightarrow>
  (\<And>st. k_settings d = Some st \<Longrightarrow> connectionKey st \<notin> fst ` set (k_parked d)) \<Longrightarrow> dock_ok d"
  by (auto simp: dock_ok_def sessions_ok_accounted)

lemma fine_kept:
  assumes "dock_ok d" "fine f d"
  shows "\<exists>d'. f d = Some d' \<and> dock_ok d'"
  using assms moves_kept unfolding fine_def dock_ok_def by blast

lemma filter_around:
  "(\<And>x. x \<in> set A \<Longrightarrow> P x) \<Longrightarrow> (\<And>x. x \<in> set B \<Longrightarrow> P x) \<Longrightarrow> \<not> P y \<Longrightarrow> filter P (A @ y # B) = A @ B"
  by simp

lemma setModelRoot_fields [simp]:
  "k_session (setModelRoot p d) = k_session d" "k_settings (setModelRoot p d) = k_settings d"
  "k_parked (setModelRoot p d) = k_parked d" "k_closed (setModelRoot p d) = k_closed d"
  "k_next (setModelRoot p d) = k_next d" "k_requests (setModelRoot p d) = k_requests d"
  "k_back (setModelRoot p d) = map (still (setRoot p (k_model d))) (k_back d)"
  "k_forward (setModelRoot p d) = map (still (setRoot p (k_model d))) (k_forward d)"
  by (simp_all add: setModelRoot_def revalidate_def Let_def)

lemma new_session_ok:
  assumes "accounted d" "requests_ok d" "view_ok d" "k_session d = None" "k_settings d = Some st"
    "connectionKey st \<notin> fst ` set (k_parked d)"
  shows "\<exists>d'. askSession (ReqConnect ans) (d\<lparr>k_session := Some (k_next d), k_next := k_next d + 1\<rparr>) = Some d' \<and> dock_ok d'"
proof -
  let ?d' = "d\<lparr>k_session := Some (k_next d), k_next := k_next d + 1\<rparr>"
  have "accounted ?d'" using assms(1,4)
    by (auto simp: accounted_def all_sessions_def active_def parked_def lessThan_Suc simp flip: Suc_eq_plus1)
  moreover have "view_ok ?d'" using assms(3) by (auto simp: view_ok_def)
  moreover have "requests_ok ?d'" using assms(2) by (auto simp: requests_ok_def)
  ultimately have "dock_ok ?d'" using assms(5,6) by (intro dock_okI) auto
  moreover have "view_ok ?d'" by fact
  then have "fine (askSession (ReqConnect ans)) ?d'" by (rule ask_fine) simp_all
  ultimately show ?thesis by (rule fine_kept)
qed

lemma resume_ok:
  assumes "accounted d" "requests_ok d" "view_ok d" "k_session d = None" "k_settings d = Some st"
    "List.find (\<lambda>(k, _). k = connectionKey st) (k_parked d) = Some (k, s, home)"
  shows "\<exists>d'. onConnected home (d\<lparr>k_session := Some s,
      k_parked := filter (\<lambda>(k, _). k \<noteq> connectionKey st) (k_parked d)\<rparr>) = Some d' \<and> dock_ok d'"
proof -
  let ?rest = "filter (\<lambda>(k, _). k \<noteq> connectionKey st) (k_parked d)"
  let ?d' = "d\<lparr>k_session := Some s, k_parked := ?rest\<rparr>"
  have k: "k = connectionKey st" "(k, s, home) \<in> set (k_parked d)" using find_Some_in [OF assms(6)] by auto
  obtain A B where ab: "k_parked d = A @ (k, s, home) # B" using k(2) by (auto simp: in_set_conv_decomp)
  have "distinct (map fst (k_parked d))" using assms(1) by (simp add: accounted_def)
  then have dist: "k \<notin> fst ` set A" "k \<notin> fst ` set B" by (simp_all add: ab)
  have "?rest = A @ B"
    unfolding ab by (rule filter_around) (use dist k(1) in \<open>auto simp: image_iff\<close>)
  then have rest: "?rest = A @ B" .
  have dl: "distinct (map fst (k_parked d))" "length (k_parked d) \<le> kMaxParked" using assms(1) by (simp_all add: accounted_def)
  have "accounted ?d'"
    unfolding rest
    by (rule same_sessions [OF assms(1)]) (use ab assms(4) dl in \<open>simp_all add: all_sessions_def active_def parked_def\<close>)
  moreover have v: "view_ok ?d'" using assms(3) by (auto simp: view_ok_def)
  moreover have "requests_ok ?d'" by (rule requests_ok_same [OF assms(2)]) simp_all
  ultimately have "dock_ok ?d'" using assms(5) by (intro dock_okI) auto
  moreover have "fine (onConnected home) ?d'" by (rule onConnected_fine [OF v]) simp
  ultimately show ?thesis by (rule fine_kept)
qed

lemma setActiveConnection_ok:
  assumes "dock_ok d"
  shows "\<exists>d'. setActiveConnection pick ans settings d = Some d' \<and> dock_ok d'"
proof (cases "same_connection settings (k_settings d)")
  case True
  then show ?thesis using assms by (simp add: setActiveConnection_def)
next
  case False
  let ?d0 = "parkSession pick d"
  let ?d1 = "(setModelRoot [] (?d0\<lparr>k_settings := settings\<rparr>))\<lparr>k_path := [], k_up := False\<rparr>"
  have rel: "released d ?d0"
    using assms by (intro parkSession_released) (auto simp: dock_ok_def sessions_ok_accounted)
  have bk: "k_session ?d1 = None" "k_settings ?d1 = settings" using rel by (simp_all add: released_def)
  have same: "all_sessions (setStatus t ?d1) = all_sessions ?d0" "k_parked (setStatus t ?d1) = k_parked ?d0"
      "k_next (setStatus t ?d1) = k_next ?d0" for t
    by (simp_all add: all_sessions_def active_def parked_def setStatus_def)
  have st: "accounted (setStatus t ?d1)" "requests_ok (setStatus t ?d1)" for t
    using rel same [of t] unfolding released_def accounted_def by (simp_all add: requests_ok_def setStatus_def)
  moreover have "view_ok ?d1"
    using setRoot_ok [of "[]" "k_model ?d0"] rel
    by (simp add: view_ok_def released_def setModelRoot_def revalidate_def Let_def) (simp add: setRoot_def)
  ultimately have st: "accounted (setStatus t ?d1)" "requests_ok (setStatus t ?d1)" "view_ok (setStatus t ?d1)" for t
    using setStatus_ok by blast+
  show ?thesis
  proof (cases settings)
    case None
    have "dock_ok (setStatus ''Not an SSH connection'' ?d1)"
      using bk st None by (intro dock_okI) (auto simp: setStatus_def)
    then show ?thesis using None False by (simp add: setActiveConnection_def Let_def)
  next
    case (Some c)
    let ?d2 = "setStatus ''Connecting...'' ?d1"
    have d2: "k_session ?d2 = None" "k_settings ?d2 = Some c" using bk Some by (auto simp: setStatus_def)
    show ?thesis
    proof (cases "List.find (\<lambda>(k, _). k = connectionKey c) (k_parked ?d2)")
      case None
      then have "connectionKey c \<notin> fst ` set (k_parked ?d2)" by (auto simp: find_None_iff)
      from new_session_ok [OF st d2 this] show ?thesis
        using Some None False by (simp add: setActiveConnection_def Let_def)
    next
      case (Some x)
      obtain k s h where x: "x = (k, s, h)" by (cases x) auto
      from resume_ok [OF st d2 Some [unfolded x]] show ?thesis
        using \<open>settings = Some c\<close> Some False x by (simp add: setActiveConnection_def Let_def)
    qed
  qed
qed

lemma keepOnly_ok:
  assumes "dock_ok d"
  shows "dock_ok (keepOnly inUse d)"
proof -
  let ?used = "\<lambda>(k, _). k \<in> set (map connectionKey inUse)"
  let ?gone = "map (\<lambda>(k, s, h). s) (filter (\<lambda>x. \<not> ?used x) (k_parked d))"
  let ?d1 = "close_all ?gone d" and ?d' = "(close_all ?gone d)\<lparr>k_parked := filter ?used (k_parked d)\<rparr>"
  have a: "accounted d" "requests_ok d" "view_ok d" using assms by (simp_all add: dock_ok_def sessions_ok_accounted)
  have parts: "mset (filter ?used (k_parked d)) + mset (filter (\<lambda>x. \<not> ?used x) (k_parked d)) = mset (k_parked d)"
    by (simp add: multiset_partition [symmetric])
  have m: "mset (parked d) = mset (map (\<lambda>(k, s, h). s) (filter ?used (k_parked d))) + mset ?gone"
    unfolding parked_def mset_map image_mset_union [symmetric] parts ..
  have acc: "accounted ?d'"
  proof (rule same_sessions [OF a(1)])
    show "length (k_parked ?d') \<le> kMaxParked"
      using a(1) by (simp add: accounted_def order.trans [OF length_filter_le])
    show "distinct (map fst (k_parked ?d'))" using a(1) by (simp add: accounted_def distinct_map_filter)
    show "mset (all_sessions ?d') = mset (all_sessions d)"
      using m by (simp add: all_sessions_def active_def parked_def)
  qed simp_all
  have gone: "set ?gone \<subseteq> set (parked d)" by (force simp: parked_def)
  have "distinct ?gone" using a(1) by (simp add: accounted_def all_sessions_def parked_def distinct_map_filter)
  moreover have "set (parked d) \<inter> set (k_closed d) = {}" "set (parked d) \<subseteq> {..<k_next d}" "distinct (k_closed d)"
    using a(1) by (auto simp: accounted_def all_sessions_def)
  ultimately have "distinct (?gone @ k_closed d)" "set ?gone \<subseteq> {..<k_next d}" using gone by (auto simp del: set_map)
  from close_all_requests [OF a(2) this] have "requests_ok ?d'" by (rule requests_ok_same) simp_all
  with acc have "accounted ?d'" "requests_ok ?d'" .
  moreover have "view_ok ?d'" by (rule view_ok_same [OF a(3)]) auto
  ultimately have "dock_ok ?d'"
    using assms by (intro dock_okI) (auto simp: dock_ok_def sessions_ok_def)
  then show ?thesis by (simp add: keepOnly_def Let_def)
qed

lemma parkedDropped_ok:
  assumes "dock_ok d"
  shows "dock_ok (parkedDropped s d)"
proof (cases "s \<in> set (parked d)")
  case False
  then show ?thesis using assms by (simp add: parkedDropped_def parked_def)
next
  case True
  let ?d' = "d\<lparr>k_parked := filter (\<lambda>(k, s', h). s' \<noteq> s) (k_parked d), k_closed := k_closed d @ [s]\<rparr>"
  have a: "accounted d" "requests_ok d" "view_ok d" using assms by (simp_all add: dock_ok_def sessions_ok_accounted)
  obtain k h where "(k, s, h) \<in> set (k_parked d)" using True by (auto simp: parked_def)
  then obtain A B where ab: "k_parked d = A @ (k, s, h) # B" by (auto simp: in_set_conv_decomp)
  have "distinct (parked d)" using a(1) by (simp add: accounted_def all_sessions_def)
  then have dist: "s \<notin> (\<lambda>(k, s, h). s) ` set A" "s \<notin> (\<lambda>(k, s, h). s) ` set B" by (simp_all add: ab parked_def)
  have "filter (\<lambda>(k, s', h). s' \<noteq> s) (k_parked d) = A @ B"
    unfolding ab by (rule filter_around) (use dist in \<open>auto simp: parked_def image_iff\<close>)
  then have rest: "filter (\<lambda>(k, s', h). s' \<noteq> s) (k_parked d) = A @ B" .
  have dl: "distinct (map fst (k_parked d))" "length (k_parked d) \<le> kMaxParked" using a(1) by (simp_all add: accounted_def)
  have "accounted ?d'"
    unfolding rest
    by (rule same_sessions [OF a(1)]) (use ab dl in \<open>simp_all add: all_sessions_def active_def parked_def\<close>)
  moreover have "requests_ok ?d'" by (rule requests_ok_same [OF a(2)]) auto
  moreover have "view_ok ?d'" by (rule view_ok_same [OF a(3)]) auto
  ultimately have "dock_ok ?d'"
    using assms by (intro dock_okI) (auto simp: dock_ok_def sessions_ok_def)
  then show ?thesis using True by (simp add: parkedDropped_def parked_def)
qed


subsection \<open>Every event\<close>

fun from_session :: "dock_event \<Rightarrow> bool" where
  "from_session (DockConnected home) = True"
| "from_session (DockListed p es) = True"
| "from_session (DockFailed op p m) = True"
| "from_session (DockSucceeded op p) = True"
| "from_session _ = False"

lemma dock_handle_fine:
  assumes "view_ok d" "from_session e \<Longrightarrow> k_session d \<noteq> None"
    "\<And>b s. e \<noteq> SetActive b s" "\<And>ss. e \<noteq> KeepOnly ss" "\<And>s. e \<noteq> ParkedDropped s"
  shows "fine (dock_handle pick e) d"
proof -
  note v = assms(1)
  have status: "view_ok (setStatus t (d\<lparr>k_progress := x\<rparr>))" "moves d (setStatus t (d\<lparr>k_progress := x\<rparr>))"
    "view_ok (d\<lparr>k_progress := x\<rparr>)" "moves d (d\<lparr>k_progress := x\<rparr>)" for t x
    using v by (auto simp: view_ok_def moves_def setStatus_def)
  have sel: "view_ok (d\<lparr>k_current := still (k_model d) idx\<rparr>)" "moves d (d\<lparr>k_current := still (k_model d) idx\<rparr>)" for idx
    using v by (auto simp: view_ok_def moves_def)
  have sess: "\<exists>s. k_session d = Some s" if "from_session e" using assms(2) [OF that] by auto
  have edit: "fine (editorSaved p) d" for p
    unfolding editorSaved_def using if_session_fine [OF v] list_again_fine [OF v] by blast
  have root: "fine (onItemDoubleClicked (still (k_model d) (Some i))) d" for i using openRow_fine [OF v] by simp
  have listed: "fine (with_model (applyDirectoryListing p es)) d" if "k_session d \<noteq> None" for p es
    using with_model_fine [OF v that] applyDirectoryListing_ok view_okD(1) [OF v] by blast
  show ?thesis
    using assms(3-5) sess status sel setStatus_ok [OF v] edit root listed
      onConnected_fine [OF v] onOperationFailed_fine [OF v] onOperationSucceeded_fine [OF v]
      goUp_fine [OF v] goBack_fine [OF v] goForward_fine [OF v] navigateToPath_fine [OF v] refresh_fine [OF v]
      uploads_fine [OF v] commands_fine [OF v] newFolder_fine [OF v] fine_const moves_refl v
    by (cases e) (auto simp: fine_def onTransferStarted_def onTransferProgress_def onTransferFinished_def)
qed

lemma dock_handle_ok:
  assumes "dock_ok d" "from_session e \<Longrightarrow> k_session d \<noteq> None"
  shows "\<exists>d'. dock_handle pick e d = Some d' \<and> dock_ok d'"
proof (cases "(\<exists>b s. e = SetActive b s) \<or> (\<exists>ss. e = KeepOnly ss) \<or> (\<exists>s. e = ParkedDropped s)")
  case True
  then show ?thesis
    using setActiveConnection_ok [OF assms(1)] keepOnly_ok [OF assms(1)] parkedDropped_ok [OF assms(1)] by auto
next
  case False
  then have "fine (dock_handle pick e) d"
    using assms by (intro dock_handle_fine) (auto simp: dock_ok_def)
  then show ?thesis by (rule fine_kept [OF assms(1)])
qed

fun dock_run :: "(nat \<Rightarrow> nat) \<Rightarrow> dock_event list \<Rightarrow> sftp_dock \<Rightarrow> sftp_dock option" where
  "dock_run pick [] d = Some d"
| "dock_run pick (e # es) d = do { d1 \<leftarrow> dock_handle pick e d; dock_run pick es d1 }"

text \<open>A session's signals arrive while the dock has a session.\<close>

fun dock_fits :: "(nat \<Rightarrow> nat) \<Rightarrow> dock_event list \<Rightarrow> sftp_dock \<Rightarrow> bool" where
  "dock_fits pick [] d = True"
| "dock_fits pick (e # es) d =
     ((from_session e \<longrightarrow> k_session d \<noteq> None) \<and>
      (case dock_handle pick e d of None \<Rightarrow> True | Some d1 \<Rightarrow> dock_fits pick es d1))"

lemma initial_dock_ok: "dock_ok initial_dock"
  by (simp add: dock_ok_def view_ok_def sessions_ok_def requests_ok_def initial_dock_def initial_model_ok active_def
      parked_def) (simp add: initial_model_def)

lemma dock_run_ok:
  assumes "dock_ok d" "dock_fits pick es d"
  shows "\<exists>d'. dock_run pick es d = Some d' \<and> dock_ok d'"
  using assms
proof (induction es arbitrary: d)
  case (Cons e es)
  obtain d1 where "dock_handle pick e d = Some d1" "dock_ok d1"
    using dock_handle_ok [OF Cons.prems(1)] Cons.prems(2) by auto
  then show ?case using Cons.IH Cons.prems(2) by simp
qed simp


subsection \<open>History\<close>

lemma markLoading_keys:
  assumes "model_ok m" "markLoading b p m = Some m'"
  shows "keys (md_root m') = keys (md_root m)"
  using assms(1)
proof (cases rule: findNodeByPath_cases [of m p])
  case (2 n)
  have d: "distinct (ids (md_root m))" using assms(1) by (simp add: model_ok_def)
  obtain A B where "keys (md_root m) = A @ keys n @ B"
    "\<forall>f. keys (updateNode (nd_id n) f (md_root m)) = A @ keys (f n) @ B"
    using keys_split [OF d 2(2)] by blast
  then show ?thesis using 2 assms(2) by (auto simp: markLoading_def)
qed (use assms in \<open>simp_all add: markLoading_def\<close>)

lemma same_keys:
  assumes "keys t' = keys t"
  shows "nd_id t' = nd_id t" "nd_path t' = nd_path t" "ids t' = ids t"
proof -
  have h: "(nd_id u, nd_path u) = hd (keys u)" for u by (cases u) simp
  have "(nd_id t', nd_path t') = (nd_id t, nd_path t)" unfolding h assms ..
  then show "nd_id t' = nd_id t" "nd_path t' = nd_path t" by simp_all
  show "ids t' = ids t" unfolding ids_def assms ..
qed

lemma same_keys_path:
  assumes "keys (md_root m') = keys (md_root m)" "distinct (ids (md_root m))"
  shows "map_option nd_path (nodeForIndex m' idx) = map_option nd_path (nodeForIndex m idx)"
proof (cases idx)
  case None
  then show ?thesis using same_keys [OF assms(1)] by (simp add: nodeForIndex_def)
next
  case (Some i)
  have d': "distinct (ids (md_root m'))" using assms(2) same_keys(3) [OF assms(1)] by simp
  show ?thesis
  proof (cases "findNode i (md_root m)")
    case None
    then have "i \<notin> set (ids (md_root m))" by (auto simp: findNode_def find_None_iff ids_nodes)
    then have "findNode i (md_root m') = None"
      unfolding findNode_def find_None_iff using arg_cong [OF same_keys(3) [OF assms(1)], of set] by (auto simp: ids_nodes)
    then show ?thesis using Some None by (simp add: nodeForIndex_def)
  next
    case (Some n)
    from findNode_in [OF this] have "(i, nd_path n) \<in> set (keys (md_root m'))" unfolding assms(1) by (auto simp: keys_nodes)
    from findNode_key [OF d' this] show ?thesis using Some \<open>idx = Some i\<close> by (auto simp: nodeForIndex_def)
  qed
qed

text \<open>Entering a folder from the history: the stacks stay, the numbers and paths of the tree too.\<close>

lemma enterDirectory_history:
  assumes "view_ok d" "k_session d = Some s" "still (k_model d) dir = dir"
  shows "\<exists>d'. enterDirectory True dir d = Some d' \<and> view_ok d' \<and> k_session d' = Some s \<and> k_root d' = dir \<and>
    k_back d' = k_back d \<and> k_forward d' = k_forward d \<and> pathForIndex d dir = Some (k_path d') \<and>
    keys (md_root (k_model d')) = keys (md_root (k_model d))"
proof -
  obtain d' where e: "enterDirectory True dir d = Some d'" "moves d d'" "view_ok d'"
    using enterDirectory_fine [OF assms, of True] by (auto simp: fine_def)
  obtain n where n: "nodeForIndex (k_model d) dir = Some n" using still_node [OF assms(3)] by blast
  let ?d2 = "d\<lparr>k_root := dir, k_path := nd_path n, k_up := (dir \<noteq> None)\<rparr>"
  have "k_root d' = dir \<and> k_back d' = k_back d \<and> k_forward d' = k_forward d \<and> k_path d' = nd_path n \<and>
    keys (md_root (k_model d')) = keys (md_root (k_model d))"
  proof (cases "nd_childrenLoaded n")
    case True
    then have "d' = ?d2" using e(1) n by (simp add: enterDirectory_def Let_def)
    then show ?thesis by simp
  next
    case False
    obtain m where m: "markLoading True (nd_path n) (k_model d) = Some m"
      using markLoading_ok [OF view_okD(1) [OF assms(1)]] by blast
    have k: "keys (md_root m) = keys (md_root (k_model d))"
      using markLoading_keys [OF view_okD(1) [OF assms(1)] m] .
    have st: "still m = still (k_model d)" using same_keys [OF k] by (intro still_same_ids) simp_all
    have "d' = (revalidate (?d2\<lparr>k_model := m\<rparr>))\<lparr>k_requests := k_requests d @ [(s, ReqList (nd_path n))]\<rparr>"
      using e(1) n m False assms(2)
      by (simp add: enterDirectory_def Let_def list_again_def with_model_def askSession_def revalidate_def)
    moreover have "map (still (k_model d)) (k_back d) = k_back d" "map (still (k_model d)) (k_forward d) = k_forward d"
      using view_okD(4,5) [OF assms(1)] by (auto intro: map_idI)
    ultimately show ?thesis using assms(3) k st by (simp add: revalidate_def Let_def)
  qed
  then show ?thesis using e n assms(2) by (simp add: moves_def pathForIndex_def)
qed

text \<open>
  Going back and then forward again shows the folder that was shown, under its path, with the history as
  it was.
\<close>

theorem back_then_forward:
  assumes "dock_ok d" "k_session d \<noteq> None" "k_back d \<noteq> []"
  shows "\<exists>d1 d2. goBack d = Some d1 \<and> k_root d1 = last (k_back d) \<and> goForward d1 = Some d2 \<and>
    k_root d2 = k_root d \<and> k_back d2 = k_back d \<and> k_forward d2 = k_forward d \<and>
    pathForIndex d (k_root d) = Some (k_path d2)"
proof -
  have v: "view_ok d" using assms(1) by (simp add: dock_ok_def)
  obtain s where s: "k_session d = Some s" using assms(2) by auto
  let ?b = "d\<lparr>k_forward := k_forward d @ [k_root d], k_back := butlast (k_back d)\<rparr>"
  have vb: "view_ok ?b" by (rule view_ok_same [OF v]) (auto dest: in_set_butlastD)
  have "still (k_model ?b) (last (k_back d)) = last (k_back d)"
    using view_okD(4) [OF v last_in_set [OF assms(3)]] by simp
  from enterDirectory_history [OF vb _ this, of s] s obtain d1 where
    d1: "enterDirectory True (last (k_back d)) ?b = Some d1" "view_ok d1" "k_session d1 = Some s"
      "k_root d1 = last (k_back d)" "k_back d1 = butlast (k_back d)" "k_forward d1 = k_forward d @ [k_root d]"
      "keys (md_root (k_model d1)) = keys (md_root (k_model d))" by auto
  let ?f = "d1\<lparr>k_back := k_back d1 @ [k_root d1], k_forward := butlast (k_forward d1)\<rparr>"
  have vf: "view_ok ?f" by (rule view_ok_same [OF d1(2)]) (auto dest: in_set_butlastD)
  have "still (k_model ?f) (k_root d) = k_root d" using view_okD(5) [OF d1(2), of "k_root d"] d1(6) by simp
  from enterDirectory_history [OF vf _ this, of s] d1(3) obtain d2 where
    d2: "enterDirectory True (k_root d) ?f = Some d2" "k_root d2 = k_root d" "k_back d2 = k_back d1 @ [k_root d1]"
      "k_forward d2 = k_forward d" "pathForIndex ?f (k_root d) = Some (k_path d2)" using d1(6) by auto
  have "distinct (ids (md_root (k_model d)))" using view_okD(1) [OF v] by (simp add: model_ok_def)
  then have "pathForIndex d (k_root d) = Some (k_path d2)"
    using d2(5) same_keys_path [OF d1(7)] by (simp add: pathForIndex_def)
  moreover have "goBack d = Some d1" "goForward d1 = Some d2" using s assms(3) d1 d2 by (simp_all add: goBack_def goForward_def)
  ultimately show ?thesis using d1 d2 assms(3) by auto
qed


subsection \<open>Instances\<close>

text \<open>Connecting, opening a folder, leaving for a pane that is not SSH, and coming back.\<close>

definition demo_login :: "dock_event list" where
  "demo_login =
     [SetActive demo_answers (Some demo_settings), DockConnected ''/'', DockListed ''/'' demo_entries, OpenRow 3]"


theorem back_then_forward_witness:
  "\<exists>d d1 d2. dock_run (\<lambda>n. 0) demo_login initial_dock = Some d \<and> goBack d = Some d1 \<and> k_root d1 = None \<and>
     goForward d1 = Some d2 \<and> k_root d2 = Some 3 \<and> k_back d2 = [None]"
proof -
  have "dock_fits (\<lambda>n. 0) demo_login initial_dock" by code_simp
  from dock_run_ok [OF initial_dock_ok this] obtain d where
    d: "dock_run (\<lambda>n. 0) demo_login initial_dock = Some d" "dock_ok d" by blast
  have "map_option (\<lambda>d. (k_session d, k_back d, k_root d)) (dock_run (\<lambda>n. 0) demo_login initial_dock) =
      Some (Some 0, [None], Some 3)" by code_simp
  then have f: "k_session d = Some 0" "k_back d = [None]" "k_root d = Some 3" using d(1) by simp_all
  then have "k_session d \<noteq> None" "k_back d \<noteq> []" by simp_all
  from back_then_forward [OF d(2) this] show ?thesis using d(1) f by auto
qed

end
