(* ===== verification/AppSettings.thy ===== *)
theory AppSettings
  imports ConnSettings "HOL-Library.Char_ord"
begin

text \<open>
  The application's settings: \<open>src/src/core/AppSettings.{h,cpp}\<close>, over a model of the \<open>QSettings\<close> ini file
  both it and the shortcut manager keep their values in.

  A value is what \<open>QVariant\<close> the program writes or \<open>QSettings\<close> reads. While the program runs a value
  stays as it was written; a new process reads what the ini file made of it (\<open>ini\<close>).
\<close>

subsection \<open>The ini file\<close>

datatype variant = VString string | VInt int | VBool bool | VList "string list"

type_synonym settings_file = "string \<rightharpoonup> variant"

text \<open>What Qt does with texts: numbers, the ini format, names of colours, fonts.\<close>

type_synonym colour = "(8 word \<times> 8 word \<times> 8 word \<times> 8 word) option"

record settings_lib =
  int_text :: "int \<Rightarrow> string"
  text_int :: "string \<Rightarrow> int"
  ini :: "variant \<Rightarrow> variant"
  colour_name :: "colour \<Rightarrow> string"
  colour_parse :: "string \<Rightarrow> colour"
  isScalable :: "string \<Rightarrow> bool"
  defaultFontFamily :: string
  defaultPointSize :: int

fun toStringV :: "settings_lib \<Rightarrow> variant \<Rightarrow> string" where
  "toStringV L (VString s) = s"
| "toStringV L (VInt n) = int_text L n"
| "toStringV L (VBool b) = (if b then ''true'' else ''false'')"
| "toStringV L (VList ss) = (case ss of [s] \<Rightarrow> s | _ \<Rightarrow> [])"

fun toIntV :: "settings_lib \<Rightarrow> variant \<Rightarrow> int" where
  "toIntV L (VString s) = text_int L s"
| "toIntV L (VInt n) = n"
| "toIntV L (VBool b) = (if b then 1 else 0)"
| "toIntV L (VList ss) = 0"

definition asciiLower :: "string \<Rightarrow> string" where
  "asciiLower = map (\<lambda>c. if CHR ''A'' \<le> c \<and> c \<le> CHR ''Z'' then char_of (of_char c + 32 :: nat) else c)"

fun toBoolV :: "settings_lib \<Rightarrow> variant \<Rightarrow> bool" where
  "toBoolV L (VString s) = (asciiLower s \<notin> {[], ''0'', ''false''})"
| "toBoolV L (VInt n) = (n \<noteq> 0)"
| "toBoolV L (VBool b) = b"
| "toBoolV L (VList ss) = False"

definition valueOr :: "variant \<Rightarrow> string \<Rightarrow> settings_file \<Rightarrow> variant" where
  "valueOr d k m = (case m k of None \<Rightarrow> d | Some v \<Rightarrow> v)"

text \<open>
  The documented behaviour: numbers, truth values and texts survive the file; a text with a comma may come
  back as the list of its parts. A valid colour is read back from its name, which has no comma.
\<close>

fun joined :: "string list \<Rightarrow> string" where
  "joined [] = []"
| "joined [s] = s"
| "joined (s # ss) = s @ '','' @ joined ss"

definition settings_lib_ok :: "settings_lib \<Rightarrow> bool" where
  "settings_lib_ok L \<longleftrightarrow>
     (\<forall>n. is_int32 n \<longrightarrow> text_int L (int_text L n) = n \<and> CHR '','' \<notin> set (int_text L n)) \<and>
     (\<forall>n. ini L (VInt n) = VString (int_text L n)) \<and>
     (\<forall>b. ini L (VBool b) = VString (if b then ''true'' else ''false'')) \<and>
     (\<forall>s. ini L (VString s) = VString s \<or>
          CHR '','' \<in> set s \<and> (\<exists>ss. ini L (VString s) = VList ss \<and> joined ss = s)) \<and>
     colour_parse L [] = None \<and>
     (\<forall>c. c \<noteq> None \<longrightarrow> colour_parse L (colour_name L c) = c \<and> CHR '','' \<notin> set (colour_name L c))"

subsection \<open>The settings\<close>

datatype right_click = ShowMenu | RightPaste

datatype settings_signal = ThemeChanged string | PaneAppearanceChanged | TerminalAppearanceChanged

record app_settings =
  as_file :: settings_file
  as_signals :: "settings_signal list"

definition put :: "string \<Rightarrow> variant \<Rightarrow> app_settings \<Rightarrow> app_settings" where
  "put k v s = s\<lparr>as_file := (as_file s)(k \<mapsto> v)\<rparr>"

definition tell :: "settings_signal \<Rightarrow> app_settings \<Rightarrow> app_settings" where
  "tell x s = s\<lparr>as_signals := as_signals s @ [x]\<rparr>"

definition theme :: "settings_lib \<Rightarrow> app_settings \<Rightarrow> string" where
  "theme L s = toStringV L (valueOr (VString ''Dark'') ''appearance/theme'' (as_file s))"

definition setTheme :: "settings_lib \<Rightarrow> string \<Rightarrow> app_settings \<Rightarrow> app_settings" where
  "setTheme L t s = (if t = theme L s then s else tell (ThemeChanged t) (put ''appearance/theme'' (VString t) s))"

definition colorScheme :: "settings_lib \<Rightarrow> app_settings \<Rightarrow> string" where
  "colorScheme L s = toStringV L (valueOr (VString ''Dark'') ''appearance/colorScheme'' (as_file s))"

definition setColorScheme :: "settings_lib \<Rightarrow> string \<Rightarrow> app_settings \<Rightarrow> app_settings" where
  "setColorScheme L n s =
     (if n = colorScheme L s then s
      else tell TerminalAppearanceChanged (put ''appearance/colorScheme'' (VString n) s))"

text \<open>A font is its family and point size; \<open>QFont::setPointSize\<close> ignores sizes that are not positive.\<close>

definition setPointSize :: "int \<Rightarrow> string \<times> int \<Rightarrow> string \<times> int" where
  "setPointSize n f = (if n \<le> 0 then f else (fst f, n))"

definition terminalFont :: "settings_lib \<Rightarrow> app_settings \<Rightarrow> string \<times> int" where
  "terminalFont L s =
     (let family = toStringV L (valueOr (VString (defaultFontFamily L)) ''appearance/fontFamily'' (as_file s));
          family1 = (if \<not> isScalable L family then defaultFontFamily L else family)
      in setPointSize (toIntV L (valueOr (VInt 10) ''appearance/fontPointSize'' (as_file s)))
           (family1, defaultPointSize L))"

definition setTerminalFont :: "string \<times> int \<Rightarrow> app_settings \<Rightarrow> app_settings" where
  "setTerminalFont font s =
     tell TerminalAppearanceChanged
       (put ''appearance/fontPointSize'' (VInt (snd font)) (put ''appearance/fontFamily'' (VString (fst font)) s))"

definition defaultKeyboardProfile :: "settings_lib \<Rightarrow> app_settings \<Rightarrow> string" where
  "defaultKeyboardProfile L s = toStringV L (valueOr (VString ''default'') ''terminal/keyboardProfile'' (as_file s))"

definition setDefaultKeyboardProfile :: "string \<Rightarrow> app_settings \<Rightarrow> app_settings" where
  "setDefaultKeyboardProfile n = put ''terminal/keyboardProfile'' (VString n)"

definition paneColor :: "settings_lib \<Rightarrow> string \<Rightarrow> app_settings \<Rightarrow> colour" where
  "paneColor L k s = colour_parse L (toStringV L (valueOr (VString []) k (as_file s)))"

definition setPaneColor :: "settings_lib \<Rightarrow> string \<Rightarrow> colour \<Rightarrow> app_settings \<Rightarrow> app_settings" where
  "setPaneColor L k c s =
     tell PaneAppearanceChanged (put k (VString (if c \<noteq> None then colour_name L c else [])) s)"

definition activePaneColor :: "settings_lib \<Rightarrow> app_settings \<Rightarrow> colour" where
  "activePaneColor L = paneColor L ''panes/activeColor''"

definition setActivePaneColor :: "settings_lib \<Rightarrow> colour \<Rightarrow> app_settings \<Rightarrow> app_settings" where
  "setActivePaneColor L = setPaneColor L ''panes/activeColor''"

definition inactivePaneColor :: "settings_lib \<Rightarrow> app_settings \<Rightarrow> colour" where
  "inactivePaneColor L = paneColor L ''panes/inactiveColor''"

definition setInactivePaneColor :: "settings_lib \<Rightarrow> colour \<Rightarrow> app_settings \<Rightarrow> app_settings" where
  "setInactivePaneColor L = setPaneColor L ''panes/inactiveColor''"

text \<open>\<open>automatic\<close> is the colour of the palette.\<close>

definition resolvedPaneColor :: "colour \<Rightarrow> colour \<Rightarrow> colour" where
  "resolvedPaneColor automatic custom = (if custom \<noteq> None then custom else automatic)"

definition kMaxPanePadding :: int where
  "kMaxPanePadding = 24"

definition kDefaultPanePadding :: int where
  "kDefaultPanePadding = 2"

definition kMaxPaneGap :: int where
  "kMaxPaneGap = 24"

definition qBound :: "int \<Rightarrow> int \<Rightarrow> int \<Rightarrow> int" where
  "qBound lo v hi = max lo (min v hi)"

definition panePadding :: "settings_lib \<Rightarrow> app_settings \<Rightarrow> int" where
  "panePadding L s =
     qBound 0 (toIntV L (valueOr (VInt kDefaultPanePadding) ''panes/padding'' (as_file s))) kMaxPanePadding"

definition setPanePadding :: "int \<Rightarrow> app_settings \<Rightarrow> app_settings" where
  "setPanePadding pixels s =
     tell PaneAppearanceChanged (put ''panes/padding'' (VInt (qBound 0 pixels kMaxPanePadding)) s)"

definition paneGap :: "settings_lib \<Rightarrow> app_settings \<Rightarrow> int" where
  "paneGap L s = qBound 0 (toIntV L (valueOr (VInt 8) ''panes/gap'' (as_file s))) kMaxPaneGap"

definition setPaneGap :: "int \<Rightarrow> app_settings \<Rightarrow> app_settings" where
  "setPaneGap pixels s = tell PaneAppearanceChanged (put ''panes/gap'' (VInt (qBound 0 pixels kMaxPaneGap)) s)"

definition rightClickAction :: "settings_lib \<Rightarrow> app_settings \<Rightarrow> right_click" where
  "rightClickAction L s =
     (if toStringV L (valueOr (VString ''menu'') ''mouse/rightClick'' (as_file s)) = ''paste'' then RightPaste else ShowMenu)"

definition setRightClickAction :: "right_click \<Rightarrow> app_settings \<Rightarrow> app_settings" where
  "setRightClickAction a = put ''mouse/rightClick'' (VString (if a = RightPaste then ''paste'' else ''menu''))"

definition copyOnSelect :: "settings_lib \<Rightarrow> app_settings \<Rightarrow> bool" where
  "copyOnSelect L s = toBoolV L (valueOr (VBool False) ''mouse/copyOnSelect'' (as_file s))"

definition setCopyOnSelect :: "bool \<Rightarrow> app_settings \<Rightarrow> app_settings" where
  "setCopyOnSelect b = put ''mouse/copyOnSelect'' (VBool b)"

text \<open>A new process reads the file.\<close>

definition reopen :: "settings_lib \<Rightarrow> app_settings \<Rightarrow> app_settings" where
  "reopen L s = \<lparr>as_file = (\<lambda>k. map_option (ini L) (as_file s k)), as_signals = []\<rparr>"


subsection \<open>Events\<close>

datatype settings_event =
    SetTheme string | SetColorScheme string | SetTerminalFont "string \<times> int" | SetKeyboardProfile string
  | SetActivePaneColor colour | SetInactivePaneColor colour | SetPanePadding int | SetPaneGap int
  | SetRightClick right_click | SetCopyOnSelect bool | Restart

fun settings_handle :: "settings_lib \<Rightarrow> settings_event \<Rightarrow> app_settings \<Rightarrow> app_settings" where
  "settings_handle L (SetTheme t) s = setTheme L t s"
| "settings_handle L (SetColorScheme n) s = setColorScheme L n s"
| "settings_handle L (SetTerminalFont f) s = setTerminalFont f s"
| "settings_handle L (SetKeyboardProfile n) s = setDefaultKeyboardProfile n s"
| "settings_handle L (SetActivePaneColor c) s = setActivePaneColor L c s"
| "settings_handle L (SetInactivePaneColor c) s = setInactivePaneColor L c s"
| "settings_handle L (SetPanePadding n) s = setPanePadding n s"
| "settings_handle L (SetPaneGap n) s = setPaneGap n s"
| "settings_handle L (SetRightClick a) s = setRightClickAction a s"
| "settings_handle L (SetCopyOnSelect b) s = setCopyOnSelect b s"
| "settings_handle L Restart s = reopen L s"

subsection \<open>What the settings promise\<close>

text \<open>The values a user of the settings sees, and what each event does to them.\<close>

record settings_view =
  v_theme :: string
  v_scheme :: string
  v_font :: "string \<times> int"
  v_keyboard :: string
  v_activeColor :: colour
  v_inactiveColor :: colour
  v_padding :: int
  v_gap :: int
  v_rightClick :: right_click
  v_copy :: bool

definition settings_view_of :: "settings_lib \<Rightarrow> app_settings \<Rightarrow> settings_view" where
  "settings_view_of L s =
     \<lparr>v_theme = theme L s, v_scheme = colorScheme L s, v_font = terminalFont L s, v_keyboard = defaultKeyboardProfile L s,
      v_activeColor = activePaneColor L s, v_inactiveColor = inactivePaneColor L s, v_padding = panePadding L s,
      v_gap = paneGap L s, v_rightClick = rightClickAction L s, v_copy = copyOnSelect L s\<rparr>"

fun view_step :: "settings_lib \<Rightarrow> settings_event \<Rightarrow> settings_view \<Rightarrow> settings_view" where
  "view_step L (SetTheme t) v = v\<lparr>v_theme := t\<rparr>"
| "view_step L (SetColorScheme n) v = v\<lparr>v_scheme := n\<rparr>"
| "view_step L (SetTerminalFont f) v =
     v\<lparr>v_font := (if isScalable L (fst f) then fst f else defaultFontFamily L,
                  if 0 < snd f then snd f else defaultPointSize L)\<rparr>"
| "view_step L (SetKeyboardProfile n) v = v\<lparr>v_keyboard := n\<rparr>"
| "view_step L (SetActivePaneColor c) v = v\<lparr>v_activeColor := c\<rparr>"
| "view_step L (SetInactivePaneColor c) v = v\<lparr>v_inactiveColor := c\<rparr>"
| "view_step L (SetPanePadding n) v = v\<lparr>v_padding := max 0 (min n 24)\<rparr>"
| "view_step L (SetPaneGap n) v = v\<lparr>v_gap := max 0 (min n 24)\<rparr>"
| "view_step L (SetRightClick a) v = v\<lparr>v_rightClick := a\<rparr>"
| "view_step L (SetCopyOnSelect b) v = v\<lparr>v_copy := b\<rparr>"
| "view_step L Restart v = v"

lemmas getter_defs =
  theme_def colorScheme_def terminalFont_def defaultKeyboardProfile_def paneColor_def activePaneColor_def
  inactivePaneColor_def panePadding_def paneGap_def rightClickAction_def copyOnSelect_def valueOr_def

lemmas setter_defs =
  setTheme_def setColorScheme_def setTerminalFont_def setDefaultKeyboardProfile_def setPaneColor_def
  setActivePaneColor_def setInactivePaneColor_def setPanePadding_def setPaneGap_def setRightClickAction_def
  setCopyOnSelect_def put_def tell_def

text \<open>The kinds of the values the program writes under its keys, before and after a restart.\<close>

definition text_ok :: "variant option \<Rightarrow> bool" where
  "text_ok v \<longleftrightarrow> (\<forall>x. v = Some x \<longrightarrow> (\<exists>s. x = VString s \<and> CHR '','' \<notin> set s))"

definition number_ok :: "settings_lib \<Rightarrow> variant option \<Rightarrow> bool" where
  "number_ok L v \<longleftrightarrow> (\<forall>x. v = Some x \<longrightarrow> (\<exists>n. is_int32 n \<and> (x = VInt n \<or> x = VString (int_text L n))))"

definition truth_ok :: "variant option \<Rightarrow> bool" where
  "truth_ok v \<longleftrightarrow> (\<forall>x. v = Some x \<longrightarrow> (\<exists>b. x = VBool b \<or> x = VString (if b then ''true'' else ''false'')))"

definition settings_ok :: "settings_lib \<Rightarrow> app_settings \<Rightarrow> bool" where
  "settings_ok L s \<longleftrightarrow>
     (\<forall>k \<in> {''appearance/theme'', ''appearance/colorScheme'', ''appearance/fontFamily'', ''terminal/keyboardProfile'',
             ''panes/activeColor'', ''panes/inactiveColor'', ''mouse/rightClick''}. text_ok (as_file s k)) \<and>
     (\<forall>k \<in> {''appearance/fontPointSize'', ''panes/padding'', ''panes/gap''}. number_ok L (as_file s k)) \<and>
     truth_ok (as_file s ''mouse/copyOnSelect'')"

fun settings_event_ok :: "settings_event \<Rightarrow> bool" where
  "settings_event_ok (SetTheme t) = (CHR '','' \<notin> set t)"
| "settings_event_ok (SetColorScheme n) = (CHR '','' \<notin> set n)"
| "settings_event_ok (SetTerminalFont f) = (CHR '','' \<notin> set (fst f) \<and> is_int32 (snd f))"
| "settings_event_ok (SetKeyboardProfile n) = (CHR '','' \<notin> set n)"
| "settings_event_ok _ = True"


lemma settings_libD:
  assumes "settings_lib_ok L"
  shows "is_int32 n \<Longrightarrow> text_int L (int_text L n) = n" "is_int32 n \<Longrightarrow> CHR '','' \<notin> set (int_text L n)"
    "ini L (VInt n) = VString (int_text L n)" "ini L (VBool b) = VString (if b then ''true'' else ''false'')"
    "CHR '','' \<notin> set s \<Longrightarrow> ini L (VString s) = VString s" "colour_parse L [] = None"
    "c \<noteq> None \<Longrightarrow> colour_parse L (colour_name L c) = c" "c \<noteq> None \<Longrightarrow> CHR '','' \<notin> set (colour_name L c)"
  using assms unfolding settings_lib_ok_def by blast+

lemma text_reopen: "settings_lib_ok L \<Longrightarrow> text_ok v \<Longrightarrow> map_option (ini L) v = v"
  by (cases v) (auto simp: text_ok_def settings_libD(5))

lemma number_reopen:
  assumes "settings_lib_ok L" "number_ok L v"
  shows "toIntV L (case map_option (ini L) v of None \<Rightarrow> d | Some x \<Rightarrow> x) = toIntV L (case v of None \<Rightarrow> d | Some x \<Rightarrow> x)"
    "number_ok L (map_option (ini L) v)"
proof -
  note law = settings_libD(1-3) [OF assms(1)] settings_libD(5) [OF assms(1) settings_libD(2) [OF assms(1)]]
  have "(toIntV L (case map_option (ini L) v of None \<Rightarrow> d | Some x \<Rightarrow> x) = toIntV L (case v of None \<Rightarrow> d | Some x \<Rightarrow> x)) \<and>
    number_ok L (map_option (ini L) v)"
  proof (cases v)
    case (Some x)
    then obtain n where "is_int32 n" "x = VInt n \<or> x = VString (int_text L n)" using assms(2) unfolding number_ok_def by blast
    then show ?thesis using Some law [of n] by (elim disjE) (simp_all add: number_ok_def, blast+)
  qed (simp add: number_ok_def)
  then show "toIntV L (case map_option (ini L) v of None \<Rightarrow> d | Some x \<Rightarrow> x) = toIntV L (case v of None \<Rightarrow> d | Some x \<Rightarrow> x)"
    "number_ok L (map_option (ini L) v)" by blast+
qed

lemma truth_reopen:
  assumes "settings_lib_ok L" "truth_ok v"
  shows "toBoolV L (case map_option (ini L) v of None \<Rightarrow> d | Some x \<Rightarrow> x) = toBoolV L (case v of None \<Rightarrow> d | Some x \<Rightarrow> x)"
    "truth_ok (map_option (ini L) v)"
proof -
  have "CHR '','' \<notin> set (if b then ''true'' else ''false'')" for b by simp
  note law = settings_libD(4) [OF assms(1)] settings_libD(5) [OF assms(1) this]
  have lower: "asciiLower ''true'' = ''true''" "asciiLower ''false'' = ''false''" by code_simp+
  have "(toBoolV L (case map_option (ini L) v of None \<Rightarrow> d | Some x \<Rightarrow> x) = toBoolV L (case v of None \<Rightarrow> d | Some x \<Rightarrow> x)) \<and>
    truth_ok (map_option (ini L) v)"
  proof (cases v)
    case (Some x)
    then obtain b where "x = VBool b \<or> x = VString (if b then ''true'' else ''false'')"
      using assms(2) unfolding truth_ok_def by blast
    then show ?thesis using Some law [of b] lower by (cases b; elim disjE) (simp_all add: truth_ok_def, blast+)
  qed (simp add: truth_ok_def)
  then show "toBoolV L (case map_option (ini L) v of None \<Rightarrow> d | Some x \<Rightarrow> x) = toBoolV L (case v of None \<Rightarrow> d | Some x \<Rightarrow> x)"
    "truth_ok (map_option (ini L) v)" by blast+
qed

lemma reopen_view:
  assumes "settings_lib_ok L" "settings_ok L s"
  shows "settings_view_of L (reopen L s) = settings_view_of L s" "settings_ok L (reopen L s)"
proof -
  note num = number_reopen [OF assms(1)] and tr = truth_reopen [OF assms(1)]
  have texts: "text_ok (as_file s ''appearance/theme'')" "text_ok (as_file s ''appearance/colorScheme'')"
    "text_ok (as_file s ''appearance/fontFamily'')" "text_ok (as_file s ''terminal/keyboardProfile'')"
    "text_ok (as_file s ''panes/activeColor'')" "text_ok (as_file s ''panes/inactiveColor'')"
    "text_ok (as_file s ''mouse/rightClick'')"
    and numbers: "number_ok L (as_file s ''appearance/fontPointSize'')" "number_ok L (as_file s ''panes/padding'')"
    "number_ok L (as_file s ''panes/gap'')"
    and truth: "truth_ok (as_file s ''mouse/copyOnSelect'')"
    using assms(2) by (simp_all add: settings_ok_def)
  note t = texts [THEN text_reopen [OF assms(1)]]
  show "settings_view_of L (reopen L s) = settings_view_of L s"
    unfolding settings_view_of_def reopen_def getter_defs app_settings.simps t num(1) [OF numbers(1)]
      num(1) [OF numbers(2)] num(1) [OF numbers(3)] tr(1) [OF truth] ..
  show "settings_ok L (reopen L s)"
    unfolding settings_ok_def reopen_def app_settings.simps ball_simps
    using texts t numbers [THEN num(2)] truth [THEN tr(2)] by simp
qed

lemma settings_step_ok:
  assumes "settings_lib_ok L" "settings_ok L s" "settings_event_ok e"
  shows "settings_ok L (settings_handle L e s)"
proof (cases e)
  case (SetActivePaneColor c)
  then show ?thesis using assms settings_libD(8) [OF assms(1)]
    by (auto simp: settings_ok_def setter_defs text_ok_def)
next
  case (SetInactivePaneColor c)
  then show ?thesis using assms settings_libD(8) [OF assms(1)]
    by (auto simp: settings_ok_def setter_defs text_ok_def)
next
  case (SetPanePadding n)
  then show ?thesis using assms
    by (auto simp: settings_ok_def setter_defs number_ok_def qBound_def kMaxPanePadding_def is_int32_def)
next
  case (SetPaneGap n)
  then show ?thesis using assms
    by (auto simp: settings_ok_def setter_defs number_ok_def qBound_def kMaxPaneGap_def is_int32_def)
next
  case Restart
  then show ?thesis using reopen_view [OF assms(1,2)] by simp
qed (use assms in \<open>auto simp: settings_ok_def setter_defs text_ok_def number_ok_def truth_ok_def\<close>)

lemma settings_step_view:
  assumes "settings_lib_ok L" "settings_ok L s"
  shows "settings_view_of L (settings_handle L e s) = view_step L e (settings_view_of L s)"
proof (cases e)
  case (SetActivePaneColor c)
  then show ?thesis using settings_libD(6) [OF assms(1)] settings_libD(7) [OF assms(1), of c]
    by (cases c) (simp_all add: settings_view_of_def setter_defs getter_defs)
next
  case (SetInactivePaneColor c)
  then show ?thesis using settings_libD(6) [OF assms(1)] settings_libD(7) [OF assms(1), of c]
    by (cases c) (simp_all add: settings_view_of_def setter_defs getter_defs)
next
  case (SetRightClick a)
  then show ?thesis by (cases a) (simp_all add: settings_view_of_def setter_defs getter_defs)
next
  case Restart
  then show ?thesis using reopen_view [OF assms] by simp
qed (auto simp: settings_view_of_def setter_defs getter_defs setPointSize_def Let_def qBound_def kMaxPanePadding_def
      kMaxPaneGap_def)

text \<open>
  C31. The settings are what was last set, restarts included: after any changes and restarts, starting from any
  file the program could have written, every value the program reads is the one last set (a font that
  cannot be scaled replaced by the default family, sizes of panes within 0 to 24 pixels), and all others
  are as they were.
\<close>

theorem settings_persist:
  assumes "settings_lib_ok L" "settings_ok L s" "list_all settings_event_ok es"
  shows "settings_view_of L (fold (settings_handle L) es s) = fold (view_step L) es (settings_view_of L s)"
  using assms(2,3)
proof (induction es arbitrary: s)
  case (Cons e es)
  then show ?case using settings_step_ok [OF assms(1)] settings_step_view [OF assms(1)] by simp
qed simp

text \<open>
  Whatever stands in the settings file, the padding and gap of panes are between 0 and 24 pixels.
\<close>

theorem pane_sizes_bounded:
  "0 \<le> panePadding L s \<and> panePadding L s \<le> 24 \<and> 0 \<le> paneGap L s \<and> paneGap L s \<le> 24"
  by (simp add: panePadding_def paneGap_def qBound_def kMaxPanePadding_def kMaxPaneGap_def)


subsection \<open>An instance\<close>

definition demo_two :: "8 word \<Rightarrow> string" where
  "demo_two w = [char_of (65 + unat w div 16), char_of (65 + unat w mod 16)]"

fun demo_byte :: "char \<Rightarrow> char \<Rightarrow> 8 word" where
  "demo_byte x y = of_nat ((of_char x - 65) * 16 + (of_char y - 65))"

fun demo_name :: "colour \<Rightarrow> string" where
  "demo_name None = []"
| "demo_name (Some (a, r, g, b)) = demo_two a @ demo_two r @ demo_two g @ demo_two b"

fun demo_colour :: "string \<Rightarrow> colour" where
  "demo_colour [a1, a2, r1, r2, g1, g2, b1, b2] =
     Some (demo_byte a1 a2, demo_byte r1 r2, demo_byte g1 g2, demo_byte b1 b2)"
| "demo_colour _ = None"

fun demo_ini :: "variant \<Rightarrow> variant" where
  "demo_ini (VInt n) = VString (if n < 0 then CHR ''-'' # replicate (nat (- n)) CHR ''1'' else replicate (nat n) CHR ''1'')"
| "demo_ini (VBool b) = VString (if b then ''true'' else ''false'')"
| "demo_ini v = v"

definition demo_settings_lib :: settings_lib where
  "demo_settings_lib =
     \<lparr>int_text = (\<lambda>n. if n < 0 then CHR ''-'' # replicate (nat (- n)) CHR ''1'' else replicate (nat n) CHR ''1''),
      text_int = (\<lambda>s. if s \<noteq> [] \<and> hd s = CHR ''-'' then - int (length (tl s)) else int (length s)),
      ini = demo_ini, colour_name = demo_name, colour_parse = demo_colour, isScalable = (\<lambda>f. f = ''Hack''),
      defaultFontFamily = ''Mono'', defaultPointSize = 9\<rparr>"

lemma demo_two_bounds: "65 + unat (w :: 8 word) div 16 < 256" "65 + unat w mod 16 < 256"
proof -
  have "unat w < 256" using unsigned_less [of w, where ?'a = nat] by simp
  then have "unat w div 16 < 16" by (intro less_mult_imp_div_less) simp
  moreover have "unat w mod 16 < 16" by simp
  ultimately show "65 + unat w div 16 < 256" "65 + unat w mod 16 < 256" by linarith+
qed

lemma demo_byte_two: "demo_byte (char_of (65 + unat w div 16)) (char_of (65 + unat w mod 16)) = w"
proof -
  have "demo_byte (char_of (65 + unat w div 16)) (char_of (65 + unat w mod 16)) =
      of_nat (unat w div 16 * 16 + unat w mod 16)"
    using demo_two_bounds [of w] by (simp add: of_char_of)
  then show ?thesis by simp
qed

lemma demo_two_plain: "CHR '','' \<notin> set (demo_two w)"
proof -
  have "char_of n \<noteq> CHR '',''" if "65 + m = n" "n < 256" for n m :: nat
  proof
    assume "char_of n = CHR '',''"
    then have "of_char (char_of n) = (of_char (CHR '','') :: nat)" by simp
    then show False using that by (simp add: of_char_of)
  qed
  from this [OF refl demo_two_bounds(1) [of w]] this [OF refl demo_two_bounds(2) [of w]] show ?thesis
    unfolding demo_two_def by (metis empty_iff empty_set insert_iff list.simps(15))
qed

lemma demo_text_int:
  "text_int demo_settings_lib (int_text demo_settings_lib n) = n" "CHR '','' \<notin> set (int_text demo_settings_lib n)"
  by (cases "nat n"; cases "nat (- n)"; auto simp: demo_settings_lib_def)+

lemma demo_settings_lib_ok: "settings_lib_ok demo_settings_lib"
proof -
  have "colour_parse demo_settings_lib (colour_name demo_settings_lib c) = c \<and>
      CHR '','' \<notin> set (colour_name demo_settings_lib c)" if "c \<noteq> None" for c
    using that demo_two_plain demo_byte_two
    by (cases c rule: demo_name.cases) (auto simp: demo_settings_lib_def demo_two_def)
  moreover have "colour_parse demo_settings_lib [] = None" by (simp add: demo_settings_lib_def)
  ultimately show ?thesis
    unfolding settings_lib_ok_def using demo_text_int by (auto simp: demo_settings_lib_def)
qed

definition demo_file :: app_settings where
  "demo_file = \<lparr>as_file = [''panes/gap'' \<mapsto> VInt 3], as_signals = []\<rparr>"

theorem settings_persist_witness:
  "settings_view_of demo_settings_lib
     (fold (settings_handle demo_settings_lib)
        [SetTheme ''Light'', SetTerminalFont (''Fixed'', 12), SetPanePadding 99, SetCopyOnSelect True, Restart,
         SetPaneGap 5, Restart] demo_file) =
   \<lparr>v_theme = ''Light'', v_scheme = ''Dark'', v_font = (''Mono'', 12), v_keyboard = ''default'', v_activeColor = None,
    v_inactiveColor = None, v_padding = 24, v_gap = 5, v_rightClick = ShowMenu, v_copy = True\<rparr>"
proof -
  have ok: "settings_ok demo_settings_lib demo_file"
    by (auto simp: settings_ok_def demo_file_def text_ok_def number_ok_def truth_ok_def is_int32_def)
  have ev: "list_all settings_event_ok [SetTheme ''Light'', SetTerminalFont (''Fixed'', 12), SetPanePadding 99,
      SetCopyOnSelect True, Restart, SetPaneGap 5, Restart]" by (simp add: is_int32_def)
  show ?thesis
    unfolding settings_persist [OF demo_settings_lib_ok ok ev]
    by (simp add: settings_view_of_def getter_defs demo_file_def demo_settings_lib_def setPointSize_def qBound_def
        kMaxPaneGap_def kMaxPanePadding_def kDefaultPanePadding_def)
qed

end
