(* ===== verification/Shortcuts.thy ===== *)
theory Shortcuts
  imports AppSettings Profiles
begin

text \<open>
  The keyboard shortcuts: \<open>src/src/core/ShortcutManager.{h,cpp}\<close>, the table of commands, the user's changes and
  own shortcuts on top, kept in the ini file of \<open>AppSettings\<close>, and the decoding of the text a shortcut types.

  A \<open>QKeySequence\<close> is a list of chords. The textual forms of keys and JSON documents are Qt's (\<open>key_lib\<close>).
  The members of \<open>QHash\<close> are an association list.
\<close>

subsection \<open>Keys\<close>

record chord =
  ch_ctrl :: bool
  ch_shift :: bool
  ch_alt :: bool
  ch_meta :: bool
  ch_key :: int

type_synonym key_sequence = "chord list"

definition no_key :: key_sequence where
  "no_key = []"

definition ctrl :: "char \<Rightarrow> key_sequence" where
  "ctrl c = [\<lparr>ch_ctrl = True, ch_shift = False, ch_alt = False, ch_meta = False, ch_key = of_char c\<rparr>]"

definition ctrlShift :: "char \<Rightarrow> key_sequence" where
  "ctrlShift c = [\<lparr>ch_ctrl = True, ch_shift = True, ch_alt = False, ch_meta = False, ch_key = of_char c\<rparr>]"

definition functionKey :: "bool \<Rightarrow> int \<Rightarrow> key_sequence" where
  "functionKey shift n = [\<lparr>ch_ctrl = False, ch_shift = shift, ch_alt = False, ch_meta = False, ch_key = 0x0100002F + n\<rparr>]"

definition firstChord :: "key_sequence \<Rightarrow> key_sequence" where
  "firstChord s = (case s of [] \<Rightarrow> [] | c # cs \<Rightarrow> [c])"

text \<open>\<open>Qt::Key_F1\<close> is \<open>0x01000030\<close>, \<open>Qt::Key_F35\<close> is \<open>0x01000052\<close>.\<close>

definition isAcceptable :: "key_sequence \<Rightarrow> bool" where
  "isAcceptable s =
     (case s of [] \<Rightarrow> True
      | c # cs \<Rightarrow> ch_ctrl c \<or> ch_alt c \<or> ch_meta c \<or> 0x01000030 \<le> ch_key c \<and> ch_key c \<le> 0x01000052)"

subsection \<open>Commands\<close>

datatype scope = MainScope | EditorScope

record shortcut_command =
  sc_id :: string
  sc_category :: string
  sc_label :: string
  sc_default :: key_sequence
  sc_scope :: scope

definition cmd :: "string \<Rightarrow> string \<Rightarrow> string \<Rightarrow> key_sequence \<Rightarrow> scope \<Rightarrow> shortcut_command" where
  "cmd i c l d s = \<lparr>sc_id = i, sc_category = c, sc_label = l, sc_default = d, sc_scope = s\<rparr>"

definition commands :: "shortcut_command list" where
  "commands =
     [cmd ''connection.newLocal'' ''Connection'' ''New Local Terminal'' (ctrl CHR ''T'') MainScope,
      cmd ''connection.newSerial'' ''Connection'' ''New Serial Connection...'' no_key MainScope,
      cmd ''connection.newTelnet'' ''Connection'' ''New Telnet Connection...'' no_key MainScope,
      cmd ''connection.newSsh'' ''Connection'' ''New SSH Connection...'' no_key MainScope,
      cmd ''connection.newVnc'' ''Connection'' ''New VNC Connection...'' no_key MainScope,
      cmd ''connection.newRdp'' ''Connection'' ''New RDP Connection...'' no_key MainScope,
      cmd ''connection.newLoopback'' ''Connection'' ''New Loopback (test)'' no_key MainScope,
      cmd ''connection.closeTab'' ''Connection'' ''Close Pane / Tab'' (ctrl CHR ''W'') MainScope,
      cmd ''pane.splitRight'' ''Panes'' ''Split Pane Right'' (ctrlShift CHR ''R'') MainScope,
      cmd ''pane.splitDown'' ''Panes'' ''Split Pane Down'' (ctrlShift CHR ''D'') MainScope,
      cmd ''pane.close'' ''Panes'' ''Close Pane'' (ctrlShift CHR ''W'') MainScope,
      cmd ''terminal.find'' ''Terminal'' ''Find in Scrollback'' (ctrlShift CHR ''F'') MainScope,
      cmd ''terminal.copy'' ''Terminal'' ''Copy'' (ctrlShift CHR ''C'') MainScope,
      cmd ''terminal.paste'' ''Terminal'' ''Paste'' (ctrlShift CHR ''V'') MainScope,
      cmd ''terminal.clearBuffer'' ''Terminal'' ''Clear Buffer'' no_key MainScope,
      cmd ''terminal.clearScreen'' ''Terminal'' ''Clear Screen'' no_key MainScope,
      cmd ''terminal.log'' ''Terminal'' ''Log Session to File'' no_key MainScope,
      cmd ''editor.save'' ''SFTP File Editor'' ''Save (upload)'' (ctrl CHR ''S'') EditorScope,
      cmd ''editor.close'' ''SFTP File Editor'' ''Close Editor'' (ctrl CHR ''W'') EditorScope,
      cmd ''editor.find'' ''SFTP File Editor'' ''Find'' (ctrl CHR ''F'') EditorScope,
      cmd ''editor.findNext'' ''SFTP File Editor'' ''Find Next'' (functionKey False 3) EditorScope,
      cmd ''editor.findPrevious'' ''SFTP File Editor'' ''Find Previous'' (functionKey True 3) EditorScope]"

definition command :: "string \<Rightarrow> shortcut_command option" where
  "command i = List.find (\<lambda>c. sc_id c = i) commands"

subsection \<open>State\<close>

record custom_shortcut =
  cu_id :: string
  cu_name :: string
  cu_sequence :: key_sequence
  cu_text :: string
  cu_appendEnter :: bool

record shortcut_manager =
  sm_file :: settings_file
  sm_overrides :: "(string \<times> key_sequence) list"
  sm_custom :: "custom_shortcut list"
  sm_changed :: nat

record key_lib = settings_lib +
  toStored :: "key_sequence \<Rightarrow> string"
  fromStored :: "string \<Rightarrow> key_sequence"
  json_text :: "json \<Rightarrow> string"
  text_json :: "string \<Rightarrow> json"
  known :: "chord \<Rightarrow> bool"

definition isCustomId :: "string \<Rightarrow> bool" where
  "isCustomId i = (take 7 i = ''custom.'')"

definition newCustomId :: "string \<Rightarrow> string" where
  "newCustomId uuid = ''custom.'' @ uuid"

fun asString :: "('a key_lib_scheme) \<Rightarrow> variant \<Rightarrow> string" where
  "asString L (VList ss) = joined ss"
| "asString L v = toStringV (settings_lib.truncate L) v"

definition kGroup :: "string \<Rightarrow> string" where
  "kGroup i = ''shortcuts/'' @ i"

definition kCustomKey :: string where
  "kCustomKey = ''shortcutsCustom''"

definition custom_from :: "'a key_lib_scheme \<Rightarrow> json \<Rightarrow> custom_shortcut option" where
  "custom_from L v =
     (let ob = toObjectJ v; i = toStringJ (jmember ob ''id'')
      in if \<not> isCustomId i then None
         else Some \<lparr>cu_id = i, cu_name = toStringJ (jmember ob ''name''),
                    cu_sequence = firstChord (fromStored L (toStringJ (jmember ob ''sequence''))),
                    cu_text = toStringJ (jmember ob ''text''),
                    cu_appendEnter = toBoolJ False (jmember ob ''appendEnter'')\<rparr>)"

text \<open>The constructor.\<close>

definition load_shortcuts :: "'a key_lib_scheme \<Rightarrow> settings_file \<Rightarrow> shortcut_manager" where
  "load_shortcuts L f =
     \<lparr>sm_file = f,
      sm_overrides = List.map_filter (\<lambda>c. map_option (\<lambda>v. (sc_id c, firstChord (fromStored L (asString L v))))
                        (f (kGroup (sc_id c)))) commands,
      sm_custom = List.map_filter (custom_from L)
                    (toArrayJ (text_json L (asString L (valueOr (VString []) kCustomKey f)))),
      sm_changed = 0\<rparr>"

subsection \<open>Operations\<close>

definition sequence :: "shortcut_manager \<Rightarrow> string \<Rightarrow> key_sequence" where
  "sequence m i =
     (if isCustomId i then
        (case List.find (\<lambda>c. cu_id c = i) (sm_custom m) of Some c \<Rightarrow> cu_sequence c | None \<Rightarrow> [])
      else
        (case map_of (sm_overrides m) i of
           Some s \<Rightarrow> s
         | None \<Rightarrow> (case command i of Some c \<Rightarrow> sc_default c | None \<Rightarrow> [])))"

definition isCustomized :: "shortcut_manager \<Rightarrow> string \<Rightarrow> bool" where
  "isCustomized m i \<longleftrightarrow> map_of (sm_overrides m) i \<noteq> None"

definition custom_json :: "'a key_lib_scheme \<Rightarrow> custom_shortcut \<Rightarrow> json" where
  "custom_json L c =
     JObj [(''id'', JStr (cu_id c)), (''name'', JStr (cu_name c)), (''sequence'', JStr (toStored L (cu_sequence c))),
           (''text'', JStr (cu_text c)), (''appendEnter'', JBool (cu_appendEnter c))]"

definition saveCustom :: "'a key_lib_scheme \<Rightarrow> shortcut_manager \<Rightarrow> shortcut_manager" where
  "saveCustom L m =
     m\<lparr>sm_file := (sm_file m)(kCustomKey \<mapsto> VString (json_text L (JArr (map (custom_json L) (sm_custom m)))))\<rparr>"

definition changed :: "shortcut_manager \<Rightarrow> shortcut_manager" where
  "changed m = m\<lparr>sm_changed := sm_changed m + 1\<rparr>"

text \<open>The loop over the custom shortcuts saves after each one it changes.\<close>

fun set_custom :: "'a key_lib_scheme \<Rightarrow> string \<Rightarrow> key_sequence \<Rightarrow> custom_shortcut list \<Rightarrow> custom_shortcut list \<Rightarrow>
    shortcut_manager \<Rightarrow> shortcut_manager" where
  "set_custom L i s ds [] m = m"
| "set_custom L i s ds (c # cs) m =
     (if cu_id c = i \<and> cu_sequence c \<noteq> s then
        let c' = c\<lparr>cu_sequence := s\<rparr>
        in set_custom L i s (ds @ [c']) cs (changed (saveCustom L (m\<lparr>sm_custom := ds @ c' # cs\<rparr>)))
      else set_custom L i s (ds @ [c]) cs m)"

definition setSequence :: "'a key_lib_scheme \<Rightarrow> string \<Rightarrow> key_sequence \<Rightarrow> shortcut_manager \<Rightarrow> shortcut_manager" where
  "setSequence L i requested m =
     (let s = firstChord requested
      in if isCustomId i then set_custom L i s [] (sm_custom m) m
         else
           (case command i of
              None \<Rightarrow> m
            | Some c \<Rightarrow>
                if sequence m i = s then m
                else if s = sc_default c then
                  changed (m\<lparr>sm_overrides := filter (\<lambda>(k, _). k \<noteq> i) (sm_overrides m),
                             sm_file := (sm_file m)(kGroup i := None)\<rparr>)
                else
                  changed (m\<lparr>sm_overrides := (i, s) # filter (\<lambda>(k, _). k \<noteq> i) (sm_overrides m),
                             sm_file := (sm_file m)(kGroup i \<mapsto> VString (toStored L s))\<rparr>)))"

definition resetToDefault :: "'a key_lib_scheme \<Rightarrow> string \<Rightarrow> shortcut_manager \<Rightarrow> shortcut_manager" where
  "resetToDefault L i m = (case command i of None \<Rightarrow> m | Some c \<Rightarrow> setSequence L i (sc_default c) m)"

definition resetAllToDefaults :: "shortcut_manager \<Rightarrow> shortcut_manager" where
  "resetAllToDefaults m =
     (if sm_overrides m = [] then m
      else changed (m\<lparr>sm_file := fold (\<lambda>(k, _) f. f(kGroup k := None)) (sm_overrides m) (sm_file m), sm_overrides := []\<rparr>))"

definition addCustom :: "'a key_lib_scheme \<Rightarrow> custom_shortcut \<Rightarrow> shortcut_manager \<Rightarrow> shortcut_manager" where
  "addCustom L c m =
     changed (saveCustom L (m\<lparr>sm_custom := sm_custom m @ [c\<lparr>cu_sequence := firstChord (cu_sequence c)\<rparr>]\<rparr>))"

fun replaceFirst :: "custom_shortcut \<Rightarrow> custom_shortcut list \<Rightarrow> custom_shortcut list" where
  "replaceFirst c [] = []"
| "replaceFirst c (d # ds) = (if cu_id d = cu_id c then c # ds else d # replaceFirst c ds)"

definition updateCustom :: "'a key_lib_scheme \<Rightarrow> custom_shortcut \<Rightarrow> shortcut_manager \<Rightarrow> shortcut_manager" where
  "updateCustom L c m =
     (if cu_id c \<in> cu_id ` set (sm_custom m)
      then changed (saveCustom L
             (m\<lparr>sm_custom := replaceFirst (c\<lparr>cu_sequence := firstChord (cu_sequence c)\<rparr>) (sm_custom m)\<rparr>))
      else m)"

fun removeFirst :: "string \<Rightarrow> custom_shortcut list \<Rightarrow> custom_shortcut list" where
  "removeFirst i [] = []"
| "removeFirst i (d # ds) = (if cu_id d = i then ds else d # removeFirst i ds)"

definition removeCustom :: "'a key_lib_scheme \<Rightarrow> string \<Rightarrow> shortcut_manager \<Rightarrow> shortcut_manager" where
  "removeCustom L i m =
     (if i \<in> cu_id ` set (sm_custom m)
      then changed (saveCustom L (m\<lparr>sm_custom := removeFirst i (sm_custom m)\<rparr>)) else m)"

definition scopeOf :: "string \<Rightarrow> scope" where
  "scopeOf i = (case command i of Some c \<Rightarrow> sc_scope c | None \<Rightarrow> MainScope)"

definition conflictingCommand :: "shortcut_manager \<Rightarrow> string \<Rightarrow> key_sequence \<Rightarrow> string" where
  "conflictingCommand m i s =
     (if s = [] then []
      else
        (case List.find (\<lambda>c. sc_id c \<noteq> i \<and> sc_scope c = scopeOf i \<and> sequence m (sc_id c) = s) commands of
           Some c \<Rightarrow> sc_id c
         | None \<Rightarrow>
             if scopeOf i = MainScope then
               (case List.find (\<lambda>c. cu_id c \<noteq> i \<and> cu_sequence c = s) (sm_custom m) of
                  Some c \<Rightarrow> cu_id c | None \<Rightarrow> [])
             else []))"

definition labelFor :: "shortcut_manager \<Rightarrow> string \<Rightarrow> string" where
  "labelFor m i =
     (case command i of
        Some c \<Rightarrow> sc_label c
      | None \<Rightarrow> (case List.find (\<lambda>c. cu_id c = i) (sm_custom m) of Some c \<Rightarrow> cu_name c | None \<Rightarrow> i))"

subsection \<open>The text a shortcut types\<close>

text \<open>\<open>QString(ch).toUtf8()\<close> of one UTF-16 unit; half of a surrogate pair becomes a question mark.\<close>

definition utf8_unit :: "16 word \<Rightarrow> bytes" where
  "utf8_unit u =
     (let n = unat u
      in if n < 0x80 then [of_nat n]
         else if n < 0x800 then [of_nat (0xC0 + n div 64), of_nat (0x80 + n mod 64)]
         else if 0xD800 \<le> n \<and> n < 0xE000 then [0x3F]
         else [of_nat (0xE0 + n div 4096), of_nat (0x80 + n div 64 mod 64), of_nat (0x80 + n mod 64)])"

definition isSpaceUnit :: "16 word \<Rightarrow> bool" where
  "isSpaceUnit u \<longleftrightarrow>
     9 \<le> u \<and> u \<le> 13 \<or> 0x2000 \<le> u \<and> u \<le> 0x200A \<or>
     u \<in> {0x20, 0x85, 0xA0, 0x1680, 0x2028, 0x2029, 0x202F, 0x205F, 0x3000}"

definition hexDigit :: "16 word \<Rightarrow> int option" where
  "hexDigit u =
     (if 0x30 \<le> u \<and> u \<le> 0x39 then Some (uint u - 0x30)
      else if 0x41 \<le> u \<and> u \<le> 0x46 then Some (uint u - 0x37)
      else if 0x61 \<le> u \<and> u \<le> 0x66 then Some (uint u - 0x57) else None)"

text \<open>\<open>QString::toInt(&ok, 16)\<close> of two units: spaces around the number and a sign are allowed.\<close>

definition toIntHex :: "16 word \<Rightarrow> 16 word \<Rightarrow> int option" where
  "toIntHex a b =
     (if isSpaceUnit a then hexDigit b
      else if isSpaceUnit b then hexDigit a
      else if a = 0x2B then hexDigit b
      else if a = 0x2D then map_option uminus (hexDigit b)
      else (case (hexDigit a, hexDigit b) of (Some x, Some y) \<Rightarrow> Some (16 * x + y) | _ \<Rightarrow> None))"

fun decodeText :: "16 word list \<Rightarrow> bytes" where
  "decodeText [] = []"
| "decodeText [ch] = utf8_unit ch"
| "decodeText (ch # u # us) =
     (if ch \<noteq> 0x5C then utf8_unit ch @ decodeText (u # us)
      else if u = 0x6E then 0x0A # decodeText us
      else if u = 0x72 then 0x0D # decodeText us
      else if u = 0x74 then 0x09 # decodeText us
      else if u = 0x65 then 0x1B # decodeText us
      else if u = 0x5C then 0x5C # decodeText us
      else if u = 0x78 then
        (case us of
           a # b # vs \<Rightarrow>
             (case toIntHex a b of
                Some v \<Rightarrow> of_int v # decodeText vs
              | None \<Rightarrow> [0x5C, 0x78] @ decodeText us)
         | _ \<Rightarrow> [0x5C, 0x78] @ decodeText us)
      else 0x5C # utf8_unit u @ decodeText us)"


subsection \<open>The table\<close>

lemma command_table:
  "distinct (map sc_id commands)" "list_all (\<lambda>c. \<not> isCustomId (sc_id c) \<and> sc_id c \<noteq> []) commands"
  "list_all (\<lambda>c. length (sc_default c) \<le> 1 \<and> isAcceptable (sc_default c)) commands"
  by code_simp+

text \<open>No two commands of a scope have the same default key.\<close>

lemma default_keys:
  "list_all (\<lambda>a. list_all (\<lambda>b. sc_id a \<noteq> sc_id b \<and> sc_scope a = sc_scope b \<and> sc_default a = sc_default b \<longrightarrow>
     sc_default a = []) commands) commands"
  by code_simp

lemma find_id:
  assumes "distinct (map f xs)" "x \<in> set xs"
  shows "List.find (\<lambda>y. f y = f x) xs = Some x"
  using assms by (induction xs) auto

lemma command_known: "c \<in> set commands \<Longrightarrow> command (sc_id c) = Some c"
  using find_id [OF command_table(1)] by (simp add: command_def)

lemma command_Some: "command i = Some c \<Longrightarrow> c \<in> set commands \<and> sc_id c = i"
  by (auto simp: command_def find_Some_iff)

lemma command_None: "command i = None \<longleftrightarrow> i \<notin> sc_id ` set commands"
  by (auto simp: command_def find_None_iff)

lemma command_not_custom: "isCustomId i \<Longrightarrow> command i = None"
  using command_table(2) by (auto simp: command_None list_all_iff)

subsection \<open>What every operation does to the keys in use\<close>

text \<open>The commands there are: the built-in ones and the user's own.\<close>

definition shortcut_ids :: "shortcut_manager \<Rightarrow> string set" where
  "shortcut_ids m = sc_id ` set commands \<union> cu_id ` set (sm_custom m)"

definition single :: "'a key_lib_scheme \<Rightarrow> key_sequence \<Rightarrow> bool" where
  "single L s \<longleftrightarrow> length s \<le> 1 \<and> list_all (known L) s"

definition shortcuts_ok :: "'a key_lib_scheme \<Rightarrow> shortcut_manager \<Rightarrow> bool" where
  "shortcuts_ok L m \<longleftrightarrow>
     distinct (map cu_id (sm_custom m)) \<and> list_all (\<lambda>c. isCustomId (cu_id c) \<and> single L (cu_sequence c)) (sm_custom m) \<and>
     list_all (\<lambda>(k, s). k \<in> sc_id ` set commands \<and> single L s) (sm_overrides m)"

lemma firstChord_single: "list_all (known L) s \<Longrightarrow> single L (firstChord s)"
  by (cases s) (simp_all add: single_def firstChord_def)

lemma firstChord_id: "length s \<le> 1 \<Longrightarrow> firstChord s = s"
  by (cases s) (simp_all add: firstChord_def)

lemma set_custom_effect:
  assumes "distinct (map cu_id (ds @ cs))" "sm_custom m = ds @ cs"
  shows "sm_custom (set_custom L i s ds cs m) = ds @ map (\<lambda>c. if cu_id c = i then c\<lparr>cu_sequence := s\<rparr> else c) cs"
    "sm_overrides (set_custom L i s ds cs m) = sm_overrides m"
  using assms
proof (induction L i s ds cs m rule: set_custom.induct)
  case (2 L i s ds c cs m)
  {
    case 1
    have same: "c\<lparr>cu_sequence := s\<rparr> = c" if "cu_sequence c = s" using that by simp
    show ?case using 1 2 same by (auto simp: Let_def changed_def saveCustom_def)
  next
    case 2
    show ?case using 2 \<open>distinct (map cu_id (ds @ c # cs))\<close> "2.IH" by (auto simp: Let_def changed_def saveCustom_def)
  }
qed auto


lemma find_map: "List.find P (map f xs) = map_option f (List.find (P \<circ> f) xs)"
  by (induction xs) auto

lemma find_none: "List.find (\<lambda>c. cu_id c = x) cs = None \<longleftrightarrow> x \<notin> cu_id ` set cs"
  by (auto simp: find_None_iff)

lemma sequence_custom:
  assumes "shortcuts_ok L m" "c \<in> set (sm_custom m)"
  shows "sequence m (cu_id c) = cu_sequence c"
proof -
  have "isCustomId (cu_id c)" "distinct (map cu_id (sm_custom m))"
    using assms by (auto simp: shortcuts_ok_def list_all_iff)
  then show ?thesis using find_id [of cu_id "sm_custom m" c] assms(2) by (simp add: sequence_def)
qed

lemma ids_custom:
  assumes "shortcuts_ok L m"
  shows "isCustomId i \<Longrightarrow> i \<in> shortcut_ids m \<longleftrightarrow> i \<in> cu_id ` set (sm_custom m)"
    "\<not> isCustomId i \<Longrightarrow> i \<in> shortcut_ids m \<longleftrightarrow> i \<in> sc_id ` set commands"
  using assms command_table(2) by (auto simp: shortcut_ids_def shortcuts_ok_def list_all_iff)

lemma setSequence_custom:
  assumes "shortcuts_ok L m" "isCustomId i"
  shows "sm_custom (setSequence L i s m) = map (\<lambda>c. if cu_id c = i then c\<lparr>cu_sequence := firstChord s\<rparr> else c) (sm_custom m)"
    "sm_overrides (setSequence L i s m) = sm_overrides m"
  using assms set_custom_effect [of "[]" "sm_custom m" m L i "firstChord s"]
  by (simp_all add: setSequence_def shortcuts_ok_def)

lemma map_of_filter_other: "map_of (filter (\<lambda>(k, _). k \<noteq> i) xs) x = (if x = i then None else map_of xs x)"
  by (induction xs) auto

lemma setSequence_builtin:
  assumes "\<not> isCustomId i"
  shows "sm_custom (setSequence L i s m) = sm_custom m"
    "sequence (setSequence L i s m) x = (if x = i \<and> i \<in> sc_id ` set commands then firstChord s else sequence m x)"
    "list_all (\<lambda>(k, s). k \<in> sc_id ` set commands \<and> single L s) (sm_overrides m) \<Longrightarrow> single L (firstChord s) \<Longrightarrow>
     list_all (\<lambda>(k, s). k \<in> sc_id ` set commands \<and> single L s) (sm_overrides (setSequence L i s m))"
proof -
  show "sm_custom (setSequence L i s m) = sm_custom m"
    using assms by (simp add: setSequence_def Let_def changed_def split: option.splits)
  show "sequence (setSequence L i s m) x = (if x = i \<and> i \<in> sc_id ` set commands then firstChord s else sequence m x)"
  proof (cases "command i")
    case None
    moreover from this have "i \<notin> sc_id ` set commands" by (simp only: command_None not_False_eq_True)
    ultimately show ?thesis using assms by (simp add: setSequence_def Let_def del: command_None)
  next
    case (Some c)
    then have "i \<in> sc_id ` set commands" using command_Some by blast
    then show ?thesis using assms Some
      by (cases "x = i") (simp_all add: setSequence_def Let_def changed_def sequence_def map_of_filter_other)
  qed
  show "list_all (\<lambda>(k, s). k \<in> sc_id ` set commands \<and> single L s) (sm_overrides m) \<Longrightarrow> single L (firstChord s) \<Longrightarrow>
     list_all (\<lambda>(k, s). k \<in> sc_id ` set commands \<and> single L s) (sm_overrides (setSequence L i s m))"
    using assms command_Some
    by (auto simp: setSequence_def Let_def changed_def list_all_iff split: option.splits)
qed

lemma setSequence_effect:
  assumes "shortcuts_ok L m" "list_all (known L) s"
  shows "shortcuts_ok L (setSequence L i s m)" "shortcut_ids (setSequence L i s m) = shortcut_ids m"
    "sequence (setSequence L i s m) x = (if x = i \<and> i \<in> shortcut_ids m then firstChord s else sequence m x)"
proof -
  let ?f = "\<lambda>c. if cu_id c = i then c\<lparr>cu_sequence := firstChord s\<rparr> else c"
  have f: "cu_id (?f c) = cu_id c" for c by simp
  have "shortcuts_ok L (setSequence L i s m) \<and> shortcut_ids (setSequence L i s m) = shortcut_ids m \<and>
    sequence (setSequence L i s m) x = (if x = i \<and> i \<in> shortcut_ids m then firstChord s else sequence m x)"
  proof (cases "isCustomId i")
    case True
    note e = setSequence_custom [OF assms(1) True, of s]
    have ids: "map cu_id (map ?f (sm_custom m)) = map cu_id (sm_custom m)" by simp
    have "shortcuts_ok L (setSequence L i s m)"
      using assms firstChord_single [OF assms(2)] unfolding shortcuts_ok_def e ids by (auto simp: list_all_iff)
    moreover have "shortcut_ids (setSequence L i s m) = shortcut_ids m"
    proof -
      have "cu_id ` set (map ?f (sm_custom m)) = cu_id ` set (sm_custom m)" by (metis ids list.set_map)
      then show ?thesis by (simp only: shortcut_ids_def e)
    qed
    moreover have "sequence (setSequence L i s m) x = (if x = i \<and> i \<in> shortcut_ids m then firstChord s else sequence m x)"
    proof (cases "isCustomId x")
      case xc: True
      have "List.find (\<lambda>c. cu_id c = x) (map ?f (sm_custom m)) = map_option ?f (List.find (\<lambda>c. cu_id c = x) (sm_custom m))"
        unfolding find_map o_def f ..
      then have fm: "sequence (setSequence L i s m) x =
          (case map_option ?f (List.find (\<lambda>c. cu_id c = x) (sm_custom m)) of Some c \<Rightarrow> cu_sequence c | None \<Rightarrow> [])"
        by (simp only: sequence_def e xc if_True)
      show ?thesis
      proof (cases "List.find (\<lambda>c. cu_id c = x) (sm_custom m)")
        case None
        then have "x \<notin> shortcut_ids m" using ids_custom(1) [OF assms(1) xc] find_none by blast
        then show ?thesis using fm None xc by (auto simp: sequence_def)
      next
        case (Some c)
        then have c: "cu_id c = x" "c \<in> set (sm_custom m)" by (auto simp: find_Some_iff)
        then have "x \<in> shortcut_ids m" by (auto simp: shortcut_ids_def)
        then show ?thesis using fm Some xc c(1) by (cases "x = i") (simp_all add: sequence_def)
      qed
    next
      case False
      then show ?thesis using True by (auto simp: sequence_def e)
    qed
    ultimately show ?thesis by blast
  next
    case False
    note b = setSequence_builtin [OF False]
    have "shortcuts_ok L (setSequence L i s m)"
      using assms(1) b(3) firstChord_single [OF assms(2)] unfolding shortcuts_ok_def b(1) by blast
    then show ?thesis using b(2) [of L s m x] ids_custom(2) [OF assms(1) False] by (simp add: shortcut_ids_def b(1))
  qed
  then show "shortcuts_ok L (setSequence L i s m)" "shortcut_ids (setSequence L i s m) = shortcut_ids m"
    "sequence (setSequence L i s m) x = (if x = i \<and> i \<in> shortcut_ids m then firstChord s else sequence m x)" by blast+
qed


lemma sequence_builtin: "\<not> isCustomId x \<Longrightarrow> sm_overrides m' = sm_overrides m \<Longrightarrow> sequence m' x = sequence m x"
  by (simp add: sequence_def)

lemma addCustom_effect:
  assumes "shortcuts_ok L m" "isCustomId (cu_id c)" "cu_id c \<notin> shortcut_ids m" "list_all (known L) (cu_sequence c)"
  shows "shortcuts_ok L (addCustom L c m)" "shortcut_ids (addCustom L c m) = insert (cu_id c) (shortcut_ids m)"
    "sequence (addCustom L c m) x = (if x = cu_id c then firstChord (cu_sequence c) else sequence m x)"
proof -
  let ?c = "c\<lparr>cu_sequence := firstChord (cu_sequence c)\<rparr>"
  have e: "sm_custom (addCustom L c m) = sm_custom m @ [?c]" "sm_overrides (addCustom L c m) = sm_overrides m"
    by (simp_all add: addCustom_def changed_def saveCustom_def)
  have new: "cu_id c \<notin> cu_id ` set (sm_custom m)" using assms(3) by (simp add: shortcut_ids_def)
  show ok: "shortcuts_ok L (addCustom L c m)"
    using assms new firstChord_single [OF assms(4)] by (auto simp: shortcuts_ok_def e)
  show "shortcut_ids (addCustom L c m) = insert (cu_id c) (shortcut_ids m)"
    by (auto simp: shortcut_ids_def e)
  have last: "sequence (addCustom L c m) (cu_id ?c) = cu_sequence ?c"
    using sequence_custom [OF ok, of ?c] by (simp add: e)
  have app: "List.find P (xs @ ys) = (case List.find P xs of Some y \<Rightarrow> Some y | None \<Rightarrow> List.find P ys)"
    for P and xs ys :: "custom_shortcut list" by (induction xs) auto
  show "sequence (addCustom L c m) x = (if x = cu_id c then firstChord (cu_sequence c) else sequence m x)"
    using last by (cases "x = cu_id c") (auto simp: sequence_def e app split: option.split)
qed

lemma removeFirst_set: "distinct (map cu_id cs) \<Longrightarrow> set (removeFirst i cs) = {c \<in> set cs. cu_id c \<noteq> i}"
  "distinct (map cu_id cs) \<Longrightarrow> distinct (map cu_id (removeFirst i cs))"
  by (induction cs) (auto, metis image_eqI)

lemma removeFirst_find: "x \<noteq> i \<Longrightarrow> List.find (\<lambda>c. cu_id c = x) (removeFirst i cs) = List.find (\<lambda>c. cu_id c = x) cs"
  by (induction cs) auto

lemma removeCustom_effect:
  assumes "shortcuts_ok L m" "isCustomId i"
  shows "shortcuts_ok L (removeCustom L i m)" "shortcut_ids (removeCustom L i m) = shortcut_ids m - {i}"
    "x \<noteq> i \<Longrightarrow> sequence (removeCustom L i m) x = sequence m x"
proof -
  have d: "distinct (map cu_id (sm_custom m))" using assms(1) by (simp add: shortcuts_ok_def)
  have e: "i \<in> cu_id ` set (sm_custom m) \<Longrightarrow> sm_custom (removeCustom L i m) = removeFirst i (sm_custom m)"
    "sm_overrides (removeCustom L i m) = sm_overrides m"
    "i \<notin> cu_id ` set (sm_custom m) \<Longrightarrow> removeCustom L i m = m"
    by (simp_all add: removeCustom_def changed_def saveCustom_def)
  have nb: "i \<notin> sc_id ` set commands" using command_not_custom [OF assms(2)] by (simp only: command_None not_False_eq_True)
  show "shortcuts_ok L (removeCustom L i m)"
    using assms(1) removeFirst_set [OF d, of i] e by (cases "i \<in> cu_id ` set (sm_custom m)") (auto simp: shortcuts_ok_def list_all_iff)
  show "shortcut_ids (removeCustom L i m) = shortcut_ids m - {i}"
    using removeFirst_set(1) [OF d, of i] e nb
    by (cases "i \<in> cu_id ` set (sm_custom m)") (auto simp: shortcut_ids_def)
  show "sequence (removeCustom L i m) x = sequence m x" if "x \<noteq> i"
    using e removeFirst_find [OF that] by (cases "i \<in> cu_id ` set (sm_custom m)") (simp_all add: sequence_def)
qed

lemma replaceFirst_ids: "map cu_id (replaceFirst c cs) = map cu_id cs"
  by (induction cs) auto

lemma replaceFirst_set: "set (replaceFirst c cs) \<subseteq> insert c (set cs)"
  by (induction cs) auto

lemma replaceFirst_find:
  "List.find (\<lambda>d. cu_id d = x) (replaceFirst c cs) =
     (if x = cu_id c \<and> x \<in> cu_id ` set cs then Some c else List.find (\<lambda>d. cu_id d = x) cs)"
  by (induction cs) auto

lemma updateCustom_effect:
  assumes "shortcuts_ok L m" "isCustomId (cu_id c)" "list_all (known L) (cu_sequence c)"
  shows "shortcuts_ok L (updateCustom L c m)" "shortcut_ids (updateCustom L c m) = shortcut_ids m"
    "sequence (updateCustom L c m) x =
       (if x = cu_id c \<and> x \<in> shortcut_ids m then firstChord (cu_sequence c) else sequence m x)"
proof -
  let ?c = "c\<lparr>cu_sequence := firstChord (cu_sequence c)\<rparr>"
  have e: "cu_id c \<in> cu_id ` set (sm_custom m) \<Longrightarrow> sm_custom (updateCustom L c m) = replaceFirst ?c (sm_custom m)"
    "sm_overrides (updateCustom L c m) = sm_overrides m"
    "cu_id c \<notin> cu_id ` set (sm_custom m) \<Longrightarrow> updateCustom L c m = m"
    by (simp_all add: updateCustom_def changed_def saveCustom_def)
  have ids: "cu_id ` set (replaceFirst ?c (sm_custom m)) = cu_id ` set (sm_custom m)"
    by (metis replaceFirst_ids list.set_map)
  show "shortcuts_ok L (updateCustom L c m)"
  proof (cases "cu_id c \<in> cu_id ` set (sm_custom m)")
    case True
    show ?thesis using assms replaceFirst_set [of ?c "sm_custom m"] firstChord_single [OF assms(3)]
      unfolding shortcuts_ok_def e(1) [OF True] e(2) replaceFirst_ids by (auto simp: list_all_iff)
  qed (use e assms in simp)
  show "shortcut_ids (updateCustom L c m) = shortcut_ids m"
    using e ids by (cases "cu_id c \<in> cu_id ` set (sm_custom m)") (simp_all add: shortcut_ids_def)
  show "sequence (updateCustom L c m) x =
       (if x = cu_id c \<and> x \<in> shortcut_ids m then firstChord (cu_sequence c) else sequence m x)"
  proof (cases "cu_id c \<in> cu_id ` set (sm_custom m)")
    case True
    then show ?thesis using assms(2) e replaceFirst_find [of x ?c "sm_custom m"]
      by (cases "x = cu_id c") (simp_all add: sequence_def shortcut_ids_def)
  next
    case False
    then show ?thesis using e(3) ids_custom(1) [OF assms(1,2)] by auto
  qed
qed

lemma resetAll_effect:
  assumes "shortcuts_ok L m"
  shows "shortcuts_ok L (resetAllToDefaults m)" "shortcut_ids (resetAllToDefaults m) = shortcut_ids m"
    "isCustomId x \<Longrightarrow> sequence (resetAllToDefaults m) x = sequence m x"
    "c \<in> set commands \<Longrightarrow> sequence (resetAllToDefaults m) (sc_id c) = sc_default c"
proof -
  have e: "sm_custom (resetAllToDefaults m) = sm_custom m" "sm_overrides (resetAllToDefaults m) = []"
    by (simp_all add: resetAllToDefaults_def changed_def)
  show "shortcuts_ok L (resetAllToDefaults m)" using assms by (simp add: shortcuts_ok_def e)
  show "shortcut_ids (resetAllToDefaults m) = shortcut_ids m" by (simp add: shortcut_ids_def e)
  show "isCustomId x \<Longrightarrow> sequence (resetAllToDefaults m) x = sequence m x" by (simp add: sequence_def e)
  show "c \<in> set commands \<Longrightarrow> sequence (resetAllToDefaults m) (sc_id c) = sc_default c"
    using command_table(2) command_known [of c] by (auto simp: sequence_def e list_all_iff)
qed


subsection \<open>Every byte can be typed\<close>

definition hexUnit :: "nat \<Rightarrow> 16 word" where
  "hexUnit n = of_nat (if n < 10 then 0x30 + n else 0x57 + n)"

definition escapeText :: "bytes \<Rightarrow> 16 word list" where
  "escapeText bs = concat (map (\<lambda>b. [0x5C, 0x78, hexUnit (unat b div 16), hexUnit (unat b mod 16)]) bs)"

lemma hex_unit:
  assumes "n < 16"
  shows "hexDigit (hexUnit n) = Some (int n)" "\<not> isSpaceUnit (hexUnit n)" "hexUnit n \<noteq> 0x2B" "hexUnit n \<noteq> 0x2D"
proof -
  have "n \<in> {0, 1, 2, 3, 4, 5, 6, 7, 8, 9, 10, 11, 12, 13, 14, 15}"
    unfolding insert_iff empty_iff using assms by presburger
  then have "hexDigit (hexUnit n) = Some (int n) \<and> \<not> isSpaceUnit (hexUnit n) \<and> hexUnit n \<noteq> 0x2B \<and> hexUnit n \<noteq> 0x2D"
    by (elim insertE emptyE) (simp_all add: hexUnit_def hexDigit_def isSpaceUnit_def)
  then show "hexDigit (hexUnit n) = Some (int n)" "\<not> isSpaceUnit (hexUnit n)" "hexUnit n \<noteq> 0x2B" "hexUnit n \<noteq> 0x2D"
    by blast+
qed

lemma toIntHex_byte:
  "toIntHex (hexUnit (unat (b :: 8 word) div 16)) (hexUnit (unat b mod 16)) = Some (int (unat b))"
proof -
  have "unat b < 256" using unsigned_less [of b, where ?'a = nat] by simp
  then have d: "unat b div 16 < 16" by (intro less_mult_imp_div_less) simp
  have m: "unat b mod 16 < 16" by simp
  have "16 * int (unat b div 16) + int (unat b mod 16) = int (unat b)"
    using mult_div_mod_eq [of 16 "unat b"] by linarith
  then show ?thesis using hex_unit [OF d] hex_unit [OF m] unfolding toIntHex_def by simp
qed

lemma decodeText_byte:
  "decodeText (0x5C # 0x78 # hexUnit (unat b div 16) # hexUnit (unat b mod 16) # us) = b # decodeText us"
  by (simp add: toIntHex_byte)

lemma decodeText_plain: "ch \<noteq> 0x5C \<Longrightarrow> decodeText (ch # us) = utf8_unit ch @ decodeText us"
  by (cases us) simp_all

text \<open>
  Any bytes can be given as the text of a shortcut: written with the escapes the dialog explains, they are
  sent as they are; and text without backslashes and surrogates is sent in UTF-8.
\<close>

theorem any_bytes_typed:
  "decodeText (escapeText bs) = bs \<and> (0x5C \<notin> set t \<longrightarrow> decodeText t = concat (map utf8_unit t))"
proof
  show "decodeText (escapeText bs) = bs"
    by (induction bs) (simp_all add: escapeText_def decodeText_byte del: decodeText.simps(3))
  show "0x5C \<notin> set t \<longrightarrow> decodeText t = concat (map utf8_unit t)"
    by (induction t) (simp_all add: decodeText_plain del: decodeText.simps(2,3))
qed

theorem any_bytes_typed_witness:
  "decodeText (escapeText [0x03, 0xFF]) = [0x03, 0xFF] \<and> decodeText [0x6C, 0xE9, 0x20AC] = [0x6C, 0xC3, 0xA9, 0xE2, 0x82, 0xAC]"
  using any_bytes_typed [of "[0x03, 0xFF]" "[0x6C, 0xE9, 0x20AC]"] by (simp add: utf8_unit_def del: decodeText.simps)

text \<open>A character outside the basic plane is sent as two question marks, and a sign counts as a hex digit.\<close>

lemma decodeText_surrogates: "decodeText [0xD83D, 0xDE00] = [0x3F, 0x3F]"
  by (simp add: utf8_unit_def)

lemma decodeText_sign: "decodeText [0x5C, 0x78, 0x2D, 0x31] = [0xFF]"
  by (simp add: toIntHex_def isSpaceUnit_def hexDigit_def)

end
