(* ===== verification/ShortcutsPage.thy ===== *)
theory ShortcutsPage
  imports Shortcuts "HOL-Library.Countable"
begin

text \<open>
  The page of the settings dialog where shortcuts are changed: \<open>src/src/ui/ShortcutsPage.cpp\<close>. What the user
  answers in a dialog is an argument; the widgets only show the manager's state.
\<close>

text \<open>The dialog for an own shortcut: \<open>None\<close> is cancelled, else what was in it when OK was accepted, the name
  without the spaces around it.\<close>

definition fields_ok :: "string \<times> key_sequence \<times> string \<times> bool \<Rightarrow> bool" where
  "fields_ok = (\<lambda>(name, keys, tx, enter). name \<noteq> [] \<and> tx \<noteq> [] \<and> keys \<noteq> [] \<and> isAcceptable keys)"

text \<open>Each press of OK is an entry of the list; the first one that is complete closes the dialog.\<close>

definition editCustom :: "(string \<times> key_sequence \<times> string \<times> bool) list \<Rightarrow> custom_shortcut \<Rightarrow> custom_shortcut option" where
  "editCustom presses c =
     map_option (\<lambda>(name, keys, tx, enter).
       c\<lparr>cu_name := name, cu_sequence := firstChord keys, cu_text := tx, cu_appendEnter := enter\<rparr>)
       (List.find fields_ok presses)"

definition assign ::
    "'a key_lib_scheme \<Rightarrow> bool \<Rightarrow> string \<Rightarrow> key_sequence \<Rightarrow> shortcut_manager \<Rightarrow> bool \<times> shortcut_manager" where
  "assign L yes i s m =
     (if \<not> isAcceptable s then (False, m)
      else
        let other = conflictingCommand m i s
        in if other \<noteq> [] then
             (if \<not> yes then (False, m) else (True, setSequence L i s (setSequence L other [] m)))
           else (True, setSequence L i s m))"

definition changeSelected ::
    "'a key_lib_scheme \<Rightarrow> key_sequence option \<Rightarrow> bool \<Rightarrow> string \<Rightarrow> shortcut_manager \<Rightarrow> shortcut_manager" where
  "changeSelected L chosen yes i m =
     (if i = [] then m
      else (case chosen of None \<Rightarrow> m | Some s \<Rightarrow> snd (assign L yes i (firstChord s) m)))"

definition clearSelected :: "'a key_lib_scheme \<Rightarrow> string \<Rightarrow> shortcut_manager \<Rightarrow> shortcut_manager" where
  "clearSelected L i m = (if i = [] then m else setSequence L i [] m)"

definition resetSelected :: "'a key_lib_scheme \<Rightarrow> bool \<Rightarrow> string \<Rightarrow> shortcut_manager \<Rightarrow> shortcut_manager" where
  "resetSelected L yes i m = (case command i of None \<Rightarrow> m | Some c \<Rightarrow> snd (assign L yes i (sc_default c) m))"

fun unbind_clashes :: "'a key_lib_scheme \<Rightarrow> custom_shortcut list \<Rightarrow> shortcut_manager \<Rightarrow> shortcut_manager" where
  "unbind_clashes L [] m = m"
| "unbind_clashes L (c # cs) m =
     unbind_clashes L cs
       (if conflictingCommand m (cu_id c) (cu_sequence c) \<noteq> [] then setSequence L (cu_id c) [] m else m)"

definition resetAll :: "'a key_lib_scheme \<Rightarrow> bool \<Rightarrow> shortcut_manager \<Rightarrow> shortcut_manager" where
  "resetAll L yes m =
     (if \<not> yes then m
      else let m1 = resetAllToDefaults m in unbind_clashes L (sm_custom m1) m1)"

definition addOwn ::
    "'a key_lib_scheme \<Rightarrow> string \<Rightarrow> (string \<times> key_sequence \<times> string \<times> bool) list \<Rightarrow> bool \<Rightarrow> shortcut_manager \<Rightarrow>
     shortcut_manager" where
  "addOwn L uuid presses yes m =
     (let blank = \<lparr>cu_id = newCustomId uuid, cu_name = [], cu_sequence = [], cu_text = [], cu_appendEnter = False\<rparr>
      in (case editCustom presses blank of
            None \<Rightarrow> m
          | Some c \<Rightarrow>
              (case assign L yes (cu_id c) (cu_sequence c) (addCustom L (c\<lparr>cu_sequence := []\<rparr>) m) of
                 (done, m1) \<Rightarrow> if done then m1 else removeCustom L (cu_id c) m1)))"

definition editSelectedCustom ::
    "'a key_lib_scheme \<Rightarrow> (string \<times> key_sequence \<times> string \<times> bool) list \<Rightarrow> bool \<Rightarrow> string \<Rightarrow> shortcut_manager \<Rightarrow>
     shortcut_manager" where
  "editSelectedCustom L presses yes i m =
     (case List.find (\<lambda>c. cu_id c = i) (sm_custom m) of
        None \<Rightarrow> m
      | Some c0 \<Rightarrow>
          (case editCustom presses c0 of
             None \<Rightarrow> m
           | Some c \<Rightarrow>
               let m1 = updateCustom L (c\<lparr>cu_sequence := cu_sequence c0\<rparr>) m
               in if cu_sequence c \<noteq> cu_sequence c0 then
                    (case assign L yes i (cu_sequence c) m1 of
                       (done, m2) \<Rightarrow> if done then m2 else setSequence L i (cu_sequence c0) m2)
                  else m1))"

definition deleteSelectedCustom :: "'a key_lib_scheme \<Rightarrow> bool \<Rightarrow> string \<Rightarrow> shortcut_manager \<Rightarrow> shortcut_manager" where
  "deleteSelectedCustom L yes i m = (if \<not> isCustomId i then m else if yes then removeCustom L i m else m)"

text \<open>A double click.\<close>

definition activated ::
    "'a key_lib_scheme \<Rightarrow> key_sequence option \<Rightarrow> (string \<times> key_sequence \<times> string \<times> bool) list \<Rightarrow> bool \<Rightarrow> string \<Rightarrow>
     shortcut_manager \<Rightarrow> shortcut_manager" where
  "activated L chosen presses yes i m =
     (if i = [] then m
      else if isCustomId i then editSelectedCustom L presses yes i m else changeSelected L chosen yes i m)"

text \<open>A new process.\<close>

definition relaunched :: "'a key_lib_scheme \<Rightarrow> shortcut_manager \<Rightarrow> shortcut_manager" where
  "relaunched L m = load_shortcuts L (\<lambda>k. map_option (ini L) (sm_file m k))"

datatype page_event =
    ChangeKey "key_sequence option" bool string | ClearKey string | ResetKey bool string | ResetAllKeys bool
  | AddOwn string "(string \<times> key_sequence \<times> string \<times> bool) list" bool
  | EditOwn "(string \<times> key_sequence \<times> string \<times> bool) list" bool string | DeleteOwn bool string
  | Activate "key_sequence option" "(string \<times> key_sequence \<times> string \<times> bool) list" bool string | RestartApp

fun page_handle :: "'a key_lib_scheme \<Rightarrow> page_event \<Rightarrow> shortcut_manager \<Rightarrow> shortcut_manager" where
  "page_handle L (ChangeKey chosen yes i) m = changeSelected L chosen yes i m"
| "page_handle L (ClearKey i) m = clearSelected L i m"
| "page_handle L (ResetKey yes i) m = resetSelected L yes i m"
| "page_handle L (ResetAllKeys yes) m = resetAll L yes m"
| "page_handle L (AddOwn uuid presses yes) m = addOwn L uuid presses yes m"
| "page_handle L (EditOwn presses yes i) m = editSelectedCustom L presses yes i m"
| "page_handle L (DeleteOwn yes i) m = deleteSelectedCustom L yes i m"
| "page_handle L (Activate chosen presses yes i) m = activated L chosen presses yes i m"
| "page_handle L RestartApp m = relaunched L m"

subsection \<open>No two commands of a window have the same key\<close>

definition conflict_free :: "shortcut_manager \<Rightarrow> bool" where
  "conflict_free m \<longleftrightarrow>
     (\<forall>a \<in> shortcut_ids m. \<forall>b \<in> shortcut_ids m.
        a \<noteq> b \<and> scopeOf a = scopeOf b \<and> sequence m a = sequence m b \<longrightarrow> sequence m a = [])"

lemma scope_custom: "isCustomId i \<Longrightarrow> scopeOf i = MainScope"
  by (simp add: scopeOf_def command_not_custom)

lemma scope_builtin: "c \<in> set commands \<Longrightarrow> scopeOf (sc_id c) = sc_scope c"
  by (simp add: scopeOf_def command_known)

lemma nonempty_ids: "shortcuts_ok L m \<Longrightarrow> i \<in> shortcut_ids m \<Longrightarrow> i \<noteq> []"
  using command_table(2) by (auto simp: shortcut_ids_def shortcuts_ok_def list_all_iff isCustomId_def)

lemma conflictingCommand_spec:
  assumes "shortcuts_ok L m"
  shows "conflictingCommand m i s \<noteq> [] \<Longrightarrow> conflictingCommand m i s \<in> shortcut_ids m \<and> conflictingCommand m i s \<noteq> i \<and>
      scopeOf (conflictingCommand m i s) = scopeOf i \<and> sequence m (conflictingCommand m i s) = s"
    "conflictingCommand m i s = [] \<Longrightarrow> s \<noteq> [] \<Longrightarrow> b \<in> shortcut_ids m \<Longrightarrow> b \<noteq> i \<Longrightarrow> scopeOf b = scopeOf i \<Longrightarrow> sequence m b \<noteq> s"
proof -
  let ?P = "\<lambda>c. sc_id c \<noteq> i \<and> sc_scope c = scopeOf i \<and> sequence m (sc_id c) = s"
  let ?Q = "\<lambda>c. cu_id c \<noteq> i \<and> cu_sequence c = s"
  have cust: "isCustomId (cu_id c) \<and> sequence m (cu_id c) = cu_sequence c \<and> cu_id c \<noteq> []" if "c \<in> set (sm_custom m)" for c
    using sequence_custom [OF assms that] nonempty_ids [OF assms, of "cu_id c"] that assms
    by (auto simp: shortcut_ids_def shortcuts_ok_def list_all_iff)
  show "conflictingCommand m i s \<in> shortcut_ids m \<and> conflictingCommand m i s \<noteq> i \<and>
      scopeOf (conflictingCommand m i s) = scopeOf i \<and> sequence m (conflictingCommand m i s) = s"
    if h: "conflictingCommand m i s \<noteq> []"
  proof (cases "List.find ?P commands")
    case (Some c)
    then have "c \<in> set commands" "?P c" by (auto simp: find_Some_iff)
    then show ?thesis using h Some scope_builtin by (auto simp: conflictingCommand_def shortcut_ids_def)
  next
    case None
    then obtain c where c: "List.find ?Q (sm_custom m) = Some c" "scopeOf i = MainScope" "s \<noteq> []"
      using h by (auto simp: conflictingCommand_def split: if_splits option.splits)
    then have "c \<in> set (sm_custom m)" "?Q c" by (auto simp: find_Some_iff)
    then show ?thesis using c None cust scope_custom by (auto simp: conflictingCommand_def shortcut_ids_def)
  qed
  show "sequence m b \<noteq> s"
    if h: "conflictingCommand m i s = []" "s \<noteq> []" "b \<in> shortcut_ids m" "b \<noteq> i" "scopeOf b = scopeOf i"
  proof
    assume b: "sequence m b = s"
    have ids: "sc_id c \<noteq> []" if "c \<in> set commands" for c using command_table(2) that by (auto simp: list_all_iff)
    have none: "List.find ?P commands = None"
    proof (cases "List.find ?P commands")
      case (Some c)
      then have "c \<in> set commands" by (auto simp: find_Some_iff)
      then show ?thesis using h(1,2) Some ids by (simp add: conflictingCommand_def)
    qed
    then have nb: "b \<notin> sc_id ` set commands" using h(4,5) b scope_builtin by (force simp: find_None_iff)
    then obtain c where c: "c \<in> set (sm_custom m)" "cu_id c = b" using h(3) by (auto simp: shortcut_ids_def)
    then have "scopeOf i = MainScope" using cust [OF c(1)] scope_custom h(5) by auto
    moreover have "List.find ?Q (sm_custom m) \<noteq> None" using c cust [OF c(1)] h(4) b by (auto simp: find_None_iff)
    ultimately obtain d where d: "List.find ?Q (sm_custom m) = Some d" "conflictingCommand m i s = cu_id d"
      using none h(2) by (auto simp: conflictingCommand_def)
    then have "d \<in> set (sm_custom m)" unfolding find_Some_iff by auto
    then show False using h(1) d(2) cust by auto
  qed
qed


definition clash :: "shortcut_manager \<Rightarrow> string \<Rightarrow> string \<Rightarrow> bool" where
  "clash m a b \<longleftrightarrow>
     a \<in> shortcut_ids m \<and> b \<in> shortcut_ids m \<and> a \<noteq> b \<and> scopeOf a = scopeOf b \<and> sequence m a = sequence m b \<and>
     sequence m a \<noteq> []"

lemma conflict_free_clash: "conflict_free m \<longleftrightarrow> (\<forall>a b. \<not> clash m a b)"
  by (auto simp: conflict_free_def clash_def)

definition page_ok :: "'a key_lib_scheme \<Rightarrow> shortcut_manager \<Rightarrow> bool" where
  "page_ok L m \<longleftrightarrow> shortcuts_ok L m \<and> conflict_free m \<and> (\<forall>i \<in> shortcut_ids m. isAcceptable (sequence m i))"

lemma clear_ok:
  assumes "page_ok L m"
  shows "page_ok L (setSequence L i [] m)"
proof -
  have ok: "shortcuts_ok L m" using assms by (simp add: page_ok_def)
  note e = setSequence_effect [OF ok, of "[]", simplified]
  have "\<not> clash (setSequence L i [] m) a b" for a b
    using assms e(2,3) by (auto simp: clash_def page_ok_def conflict_free_clash firstChord_def split: if_splits)
  then show ?thesis using assms e by (auto simp: page_ok_def conflict_free_clash isAcceptable_def firstChord_def)
qed

lemma set_free_ok:
  assumes "page_ok L m" "single L s" "isAcceptable s"
    "\<And>b. b \<in> shortcut_ids m \<Longrightarrow> b \<noteq> i \<Longrightarrow> scopeOf b = scopeOf i \<Longrightarrow> sequence m b = s \<Longrightarrow> s = []"
  shows "page_ok L (setSequence L i s m)"
proof -
  have ok: "shortcuts_ok L m" using assms by (simp add: page_ok_def)
  have s: "list_all (known L) s" "firstChord s = s" using assms(2) by (simp_all add: single_def firstChord_id)
  note e = setSequence_effect [OF ok s(1)]
  have "\<not> clash (setSequence L i s m) a b" for a b
  proof
    assume c: "clash (setSequence L i s m) a b"
    show False
    proof (cases "a = i \<or> b = i")
      case True
      then show False using c assms(4) [of a] assms(4) [of b] unfolding clash_def e(2,3) s(2)
        by (auto split: if_splits)
    next
      case False
      then have "clash m a b" using c by (auto simp: clash_def e)
      then show False using assms(1) by (simp add: page_ok_def conflict_free_clash)
    qed
  qed
  then show ?thesis using assms(1,3) e s(2) by (auto simp: page_ok_def conflict_free_clash)
qed

lemma assign_ok:
  assumes "page_ok L m" "single L s"
  shows "page_ok L (snd (assign L yes i s m))" "\<not> fst (assign L yes i s m) \<Longrightarrow> snd (assign L yes i s m) = m"
    "shortcut_ids (snd (assign L yes i s m)) = shortcut_ids m"
proof -
  have ok: "shortcuts_ok L m" using assms by (simp add: page_ok_def)
  have k: "list_all (known L) s" using assms(2) by (simp add: single_def)
  show "\<not> fst (assign L yes i s m) \<Longrightarrow> snd (assign L yes i s m) = m"
    by (auto simp: assign_def Let_def split: if_splits)
  let ?o = "conflictingCommand m i s"
  have ids: "shortcut_ids (setSequence L i' s' m') = shortcut_ids m'" if "shortcuts_ok L m'" "list_all (known L) s'" for i' s' m'
    using setSequence_effect(2) that .
  have cl: "page_ok L (setSequence L ?o [] m)" by (rule clear_ok [OF assms(1)])
  show "shortcut_ids (snd (assign L yes i s m)) = shortcut_ids m"
    using ids [OF ok k] ids [OF _ k, of "setSequence L ?o [] m"] ids [OF ok, of "[]"] cl
    by (auto simp: assign_def Let_def page_ok_def)
  show "page_ok L (snd (assign L yes i s m))"
  proof (cases "isAcceptable s")
    case acc: True
    show ?thesis
    proof (cases "?o = []")
      case True
      have "page_ok L (setSequence L i s m)"
        using conflictingCommand_spec(2) [OF ok True] by (intro set_free_ok [OF assms acc]) blast
      then show ?thesis using acc True by (simp add: assign_def Let_def)
    next
      case False
      note o = conflictingCommand_spec(1) [OF ok False]
      have "page_ok L (setSequence L i s (setSequence L ?o [] m))"
      proof (rule set_free_ok [OF cl assms(2) acc])
        fix b
        assume b: "b \<in> shortcut_ids (setSequence L ?o [] m)" "b \<noteq> i" "scopeOf b = scopeOf i"
          "sequence (setSequence L ?o [] m) b = s"
        show "s = []"
        proof (rule ccontr)
          assume s: "s \<noteq> []"
          then have "b \<noteq> ?o" "sequence m b = s"
            using b(4) o setSequence_effect(3) [OF ok, of "[]" ?o b] by (auto simp: firstChord_def split: if_splits)
          then have "clash m b ?o" using o b s ids [OF ok, of "[]"] by (auto simp: clash_def)
          then show False using assms(1) by (simp add: page_ok_def conflict_free_clash)
        qed
      qed
      then show ?thesis using acc False assms(1) by (simp add: assign_def Let_def)
    qed
  qed (use assms in \<open>simp add: assign_def\<close>)
qed

lemma unbind_clashes_ok:
  assumes "shortcuts_ok L m" "distinct (map cu_id cs)" "\<forall>c \<in> set cs. sequence m (cu_id c) = cu_sequence c"
    "\<And>a b. clash m a b \<Longrightarrow> a \<in> cu_id ` set cs \<or> b \<in> cu_id ` set cs" "\<forall>i \<in> shortcut_ids m. isAcceptable (sequence m i)"
  shows "page_ok L (unbind_clashes L cs m)"
  using assms
proof (induction cs arbitrary: m)
  case Nil
  then show ?case by (auto simp: page_ok_def conflict_free_clash)
next
  case (Cons c cs)
  let ?o = "conflictingCommand m (cu_id c) (cu_sequence c)"
  let ?m1 = "if ?o \<noteq> [] then setSequence L (cu_id c) [] m else m"
  note e = setSequence_effect [OF Cons.prems(1), of "[]", simplified]
  have seq: "sequence ?m1 x = (if x = cu_id c \<and> cu_id c \<in> shortcut_ids m \<and> ?o \<noteq> [] then [] else sequence m x)" for x
    using e(3) by (simp add: firstChord_def)
  have ids: "shortcut_ids ?m1 = shortcut_ids m" using e(2) by simp
  have "page_ok L (unbind_clashes L cs ?m1)"
  proof (rule Cons.IH)
    show "shortcuts_ok L ?m1" using e(1) Cons.prems(1) by simp
    show "distinct (map cu_id cs)" using Cons.prems(2) by simp
    show "\<forall>d \<in> set cs. sequence ?m1 (cu_id d) = cu_sequence d"
    proof
      fix d assume d: "d \<in> set cs"
      then have "cu_id d \<noteq> cu_id c" using Cons.prems(2) by (auto simp: image_iff)
      then show "sequence ?m1 (cu_id d) = cu_sequence d" unfolding seq using d Cons.prems(3) by simp
    qed
    show "\<forall>i \<in> shortcut_ids ?m1. isAcceptable (sequence ?m1 i)"
      unfolding seq ids using Cons.prems(5) by (simp add: isAcceptable_def)
    fix a b assume ab: "clash ?m1 a b"
    then have m: "clash m a b" unfolding clash_def seq ids by (auto split: if_splits)
    have "a \<noteq> cu_id c \<and> b \<noteq> cu_id c"
    proof (cases "?o = []")
      case True
      have c: "cu_sequence c = sequence m (cu_id c)" using Cons.prems(3) by simp
      show ?thesis
        using conflictingCommand_spec(2) [OF Cons.prems(1) True, of a] conflictingCommand_spec(2) [OF Cons.prems(1) True, of b] m c
        unfolding clash_def by metis
    next
      case False
      then show ?thesis using ab unfolding clash_def seq ids by (auto split: if_splits)
    qed
    then show "a \<in> cu_id ` set cs \<or> b \<in> cu_id ` set cs" using Cons.prems(4) [OF m] by auto
  qed
  then show ?case by simp
qed


lemma resetAll_ok:
  assumes "page_ok L m"
  shows "page_ok L (resetAll L yes m)"
proof (cases yes)
  case True
  let ?m1 = "resetAllToDefaults m"
  have ok: "shortcuts_ok L m" using assms by (simp add: page_ok_def)
  note e = resetAll_effect [OF ok]
  have cust: "isCustomId (cu_id c)" if "c \<in> set (sm_custom ?m1)" for c
    using e(1) that by (auto simp: shortcuts_ok_def list_all_iff)
  have "page_ok L (unbind_clashes L (sm_custom ?m1) ?m1)"
  proof (rule unbind_clashes_ok [OF e(1)])
    show "distinct (map cu_id (sm_custom ?m1))" using e(1) by (simp add: shortcuts_ok_def)
    show "\<forall>c \<in> set (sm_custom ?m1). sequence ?m1 (cu_id c) = cu_sequence c" using sequence_custom [OF e(1)] by blast
    show "\<forall>i \<in> shortcut_ids ?m1. isAcceptable (sequence ?m1 i)"
    proof
      fix i assume i: "i \<in> shortcut_ids ?m1"
      show "isAcceptable (sequence ?m1 i)"
      proof (cases "isCustomId i")
        case True
        then show ?thesis using assms i e(2,3) by (simp add: page_ok_def)
      next
        case False
        then obtain c where "c \<in> set commands" "i = sc_id c" using ids_custom(2) [OF e(1)] i by auto
        then show ?thesis using e(4) command_table(3) by (auto simp: list_all_iff)
      qed
    qed
    fix a b assume ab: "clash ?m1 a b"
    show "a \<in> cu_id ` set (sm_custom ?m1) \<or> b \<in> cu_id ` set (sm_custom ?m1)"
    proof (rule ccontr)
      assume "\<not> ?thesis"
      then obtain c d where c: "c \<in> set commands" "d \<in> set commands" "a = sc_id c" "b = sc_id d"
        using ab unfolding clash_def shortcut_ids_def by auto
      then show False using ab default_keys e(4) scope_builtin by (auto simp: clash_def list_all_iff)
    qed
  qed
  then show ?thesis using True by (simp add: resetAll_def Let_def)
qed (use assms in \<open>simp add: resetAll_def\<close>)

lemma editCustom_fields:
  assumes "editCustom presses c0 = Some c" "list_all (\<lambda>(n, keys, t, e). list_all (known L) keys) presses"
  shows "cu_id c = cu_id c0" "single L (cu_sequence c)" "isAcceptable (cu_sequence c)"
proof -
  obtain n k t e where p: "List.find fields_ok presses = Some (n, k, t, e)"
    "c = c0\<lparr>cu_name := n, cu_sequence := firstChord k, cu_text := t, cu_appendEnter := e\<rparr>"
    using assms(1) by (auto simp: editCustom_def)
  then have "(n, k, t, e) \<in> set presses" "fields_ok (n, k, t, e)" by (auto simp: find_Some_iff)
  moreover from this have "list_all (known L) k" using assms(2) by (auto simp: list_all_iff)
  ultimately show "cu_id c = cu_id c0" "single L (cu_sequence c)" "isAcceptable (cu_sequence c)"
    using p(2) firstChord_single [of L k]
    by (auto simp: fields_ok_def isAcceptable_def firstChord_def split: list.splits)
qed

lemma removeCustom_ok:
  assumes "page_ok L m" "isCustomId i"
  shows "page_ok L (removeCustom L i m)"
proof -
  have ok: "shortcuts_ok L m" using assms by (simp add: page_ok_def)
  note r = removeCustom_effect [OF ok assms(2)]
  have "\<not> clash (removeCustom L i m) a b" for a b
  proof
    assume "clash (removeCustom L i m) a b"
    then have "clash m a b" using r(3) [of a] r(3) [of b] unfolding clash_def r(2) by auto
    then show False using assms(1) by (simp add: page_ok_def conflict_free_clash)
  qed
  then show ?thesis using assms r by (auto simp: page_ok_def conflict_free_clash)
qed

lemma addOwn_ok:
  assumes "page_ok L m" "newCustomId uuid \<notin> shortcut_ids m"
    "list_all (\<lambda>(n, keys, t, e). list_all (known L) keys) presses"
  shows "page_ok L (addOwn L uuid presses yes m)"
proof -
  let ?blank = "\<lparr>cu_id = newCustomId uuid, cu_name = [], cu_sequence = [], cu_text = [], cu_appendEnter = False\<rparr>"
  show ?thesis
  proof (cases "editCustom presses ?blank")
    case None
    then show ?thesis using assms(1) by (simp add: addOwn_def)
  next
    case (Some c)
    note c = editCustom_fields [OF Some assms(3)]
    let ?c = "c\<lparr>cu_sequence := []\<rparr>" and ?m1 = "addCustom L (c\<lparr>cu_sequence := []\<rparr>) m"
    have ok: "shortcuts_ok L m" using assms by (simp add: page_ok_def)
    have cid: "isCustomId (cu_id c)" using c(1) by (simp add: newCustomId_def isCustomId_def)
    have pre: "isCustomId (cu_id ?c)" "cu_id ?c \<notin> shortcut_ids m" "list_all (known L) (cu_sequence ?c)"
      using cid c(1) assms(2) by simp_all
    note e = addCustom_effect [OF ok pre, simplified]
    have "\<not> clash ?m1 a b" for a b
      using assms(1) unfolding clash_def e(2,3) page_ok_def conflict_free_clash
      by (auto simp: clash_def firstChord_def split: if_splits)
    then have m1: "page_ok L ?m1"
      using assms(1) e by (auto simp: page_ok_def conflict_free_clash firstChord_def isAcceptable_def)
    note a = assign_ok [OF m1 c(2), of yes "cu_id c"]
    have "page_ok L (removeCustom L (cu_id c) ?m1)" by (rule removeCustom_ok [OF m1 cid])
    then show ?thesis using Some a by (auto simp: addOwn_def Let_def split: prod.splits)
  qed
qed

lemma editSelectedCustom_ok:
  assumes "page_ok L m" "list_all (\<lambda>(n, keys, t, e). list_all (known L) keys) presses"
  shows "page_ok L (editSelectedCustom L presses yes i m)"
proof (cases "List.find (\<lambda>c. cu_id c = i) (sm_custom m)")
  case None
  then show ?thesis using assms(1) by (simp add: editSelectedCustom_def)
next
  case (Some c0)
  then have c0: "c0 \<in> set (sm_custom m)" "cu_id c0 = i" by (auto simp: find_Some_iff)
  have ok: "shortcuts_ok L m" using assms by (simp add: page_ok_def)
  have i: "isCustomId i" "single L (cu_sequence c0)" "i \<in> shortcut_ids m" "sequence m i = cu_sequence c0"
    using ok c0 sequence_custom [OF ok c0(1)] by (auto simp: shortcuts_ok_def list_all_iff shortcut_ids_def)
  show ?thesis
  proof (cases "editCustom presses c0")
    case None
    then show ?thesis using assms(1) Some by (simp add: editSelectedCustom_def)
  next
    case edit: (Some c)
    note c = editCustom_fields [OF edit assms(2)]
    let ?c = "c\<lparr>cu_sequence := cu_sequence c0\<rparr>"
    let ?m1 = "updateCustom L ?c m"
    have k: "list_all (known L) (cu_sequence c0)" "firstChord (cu_sequence c0) = cu_sequence c0"
      using i(2) by (simp_all add: single_def firstChord_id)
    have pre: "isCustomId (cu_id ?c)" "list_all (known L) (cu_sequence ?c)" using i(1) c(1) c0 k by simp_all
    note e = updateCustom_effect [OF ok pre, simplified]
    have seq: "sequence ?m1 x = sequence m x" for x using e(3) [of x] i c(1) c0(2) k(2) by simp
    have m1: "page_ok L ?m1" using assms(1) e(1,2) seq by (auto simp: page_ok_def conflict_free_def)
    note a = assign_ok [OF m1 c(2), of yes i]
    have "page_ok L (setSequence L i (cu_sequence c0) ?m1)"
    proof (rule set_free_ok [OF m1 i(2)])
      show "isAcceptable (cu_sequence c0)" using assms(1) i(3,4) by (auto simp: page_ok_def)
      fix b assume "b \<in> shortcut_ids ?m1" "b \<noteq> i" "scopeOf b = scopeOf i" "sequence ?m1 b = cu_sequence c0"
      then show "cu_sequence c0 = []"
        using m1 i(3,4) e(2) seq unfolding page_ok_def conflict_free_def by metis
    qed
    then show ?thesis using Some edit m1 a by (auto simp: editSelectedCustom_def Let_def split: prod.splits)
  qed
qed

lemma deleteSelectedCustom_ok: "page_ok L m \<Longrightarrow> page_ok L (deleteSelectedCustom L yes i m)"
  by (simp add: deleteSelectedCustom_def removeCustom_ok)


subsection \<open>What the file holds\<close>

text \<open>
  The documented behaviour of Qt: a chord survives its portable text; a JSON array of objects survives its
  text, up to the order of the members; reading a value of the ini file again changes nothing.
\<close>

definition key_lib_ok :: "'a key_lib_scheme \<Rightarrow> bool" where
  "key_lib_ok L \<longleftrightarrow>
     (\<forall>s. asString L (ini L (VString s)) = s) \<and>
     (\<forall>v. asString L (ini L (ini L v)) = asString L (ini L v)) \<and>
     (\<forall>s. single L s \<longrightarrow> fromStored L (toStored L s) = s) \<and>
     (\<forall>s. list_all (known L) (fromStored L s)) \<and> (\<forall>c \<in> set commands. list_all (known L) (sc_default c)) \<and>
     toArrayJ (text_json L []) = [] \<and>
     (\<forall>obs. \<exists>vs. text_json L (json_text L (JArr (map JObj obs))) = JArr (map JObj vs) \<and>
        list_all2 (\<lambda>a b. \<forall>k. jmember a k = jmember b k) vs obs)"

definition stored_keys :: "'a key_lib_scheme \<Rightarrow> settings_file \<Rightarrow> string \<Rightarrow> key_sequence option" where
  "stored_keys L f i = map_option (\<lambda>v. firstChord (fromStored L (asString L (ini L v)))) (f (kGroup i))"

definition stored_own :: "'a key_lib_scheme \<Rightarrow> settings_file \<Rightarrow> custom_shortcut list" where
  "stored_own L f = sm_custom (load_shortcuts L (\<lambda>k. map_option (ini L) (f k)))"

definition file_ok :: "'a key_lib_scheme \<Rightarrow> shortcut_manager \<Rightarrow> bool" where
  "file_ok L m \<longleftrightarrow>
     (\<forall>i \<in> sc_id ` set commands. stored_keys L (sm_file m) i = map_of (sm_overrides m) i) \<and>
     stored_own L (sm_file m) = sm_custom m"

lemma key_lib_okD:
  assumes "key_lib_ok L"
  shows "asString L (ini L (VString s)) = s" "asString L (ini L (ini L v)) = asString L (ini L v)"
    "single L q \<Longrightarrow> fromStored L (toStored L q) = q" "list_all (known L) (fromStored L s)" "toArrayJ (text_json L []) = []"
  using assms by (simp_all add: key_lib_ok_def)

lemma group_keys [simp]: "kGroup i \<noteq> kCustomKey" "kCustomKey \<noteq> kGroup i" "kGroup i = kGroup j \<longleftrightarrow> i = j"
  by (simp_all add: kGroup_def kCustomKey_def)

lemma custom_from_json:
  assumes "key_lib_ok L" "isCustomId (cu_id c)" "single L (cu_sequence c)"
    "\<forall>k. jmember a k = jmember (toObjectJ (custom_json L c)) k"
  shows "custom_from L (JObj a) = Some c"
proof -
  have "firstChord (fromStored L (toStored L (cu_sequence c))) = cu_sequence c"
    using key_lib_okD(3) [OF assms(1,3)] assms(3) by (simp add: firstChord_id single_def)
  then show ?thesis using assms(2,4)
    by (simp add: custom_from_def custom_json_def json_simps Let_def)
qed

lemma stored_own_saved:
  assumes "key_lib_ok L" "list_all (\<lambda>c. isCustomId (cu_id c) \<and> single L (cu_sequence c)) cs"
    "f kCustomKey = Some (VString (json_text L (JArr (map (custom_json L) cs))))"
  shows "stored_own L f = cs"
proof -
  have obs: "map (custom_json L) cs = map JObj (map (\<lambda>c. toObjectJ (custom_json L c)) cs)"
    by (simp add: custom_json_def toObjectJ_def)
  obtain vs where vs: "text_json L (json_text L (JArr (map (custom_json L) cs))) = JArr (map JObj vs)"
    "list_all2 (\<lambda>a b. \<forall>k. jmember a k = jmember b k) vs (map (\<lambda>c. toObjectJ (custom_json L c)) cs)"
    using assms(1) unfolding key_lib_ok_def obs by blast
  have "List.map_filter (custom_from L) (map JObj vs) = cs"
    using vs(2) assms(2)
  proof (induction vs arbitrary: cs)
    case Nil
    then show ?case by (simp add: map_filter_simps)
  next
    case (Cons v vs)
    then obtain c cs' where c: "cs = c # cs'" "\<forall>k. jmember v k = jmember (toObjectJ (custom_json L c)) k"
      by (cases cs) auto
    then have "custom_from L (JObj v) = Some c" using Cons.prems(2) by (intro custom_from_json [OF assms(1)]) simp_all
    then show ?case using Cons c by (simp add: map_filter_simps)
  qed
  then show ?thesis using vs(1) assms(3) key_lib_okD(1) [OF assms(1)]
    by (simp add: stored_own_def load_shortcuts_def valueOr_def toArrayJ_def)
qed

text \<open>Saving the own shortcuts makes the file agree with them; the other keys are not touched.\<close>

lemma saved_file_ok:
  assumes "key_lib_ok L" "shortcuts_ok L m'" "file_ok L m" "sm_overrides m' = sm_overrides m"
    "sm_file m' = (sm_file m)(kCustomKey \<mapsto> VString (json_text L (JArr (map (custom_json L) (sm_custom m')))))"
  shows "file_ok L m'"
proof -
  have "stored_own L (sm_file m') = sm_custom m'"
    using assms(2,5) by (intro stored_own_saved [OF assms(1)]) (simp_all add: shortcuts_ok_def)
  then show ?thesis using assms(3,4,5) by (simp add: file_ok_def stored_keys_def)
qed

lemma stored_own_same: "f kCustomKey = g kCustomKey \<Longrightarrow> stored_own L f = stored_own L g"
  by (simp add: stored_own_def load_shortcuts_def valueOr_def)

lemma set_custom_file:
  "sm_file (set_custom L i s ds cs m) = sm_file m \<and> sm_custom (set_custom L i s ds cs m) = sm_custom m \<or>
   sm_file (set_custom L i s ds cs m) = (sm_file m)(kCustomKey \<mapsto>
     VString (json_text L (JArr (map (custom_json L) (sm_custom (set_custom L i s ds cs m))))))"
proof (induction L i s ds cs m rule: set_custom.induct)
  case (2 L i s ds c cs m)
  show ?case
  proof (cases "cu_id c = i \<and> cu_sequence c \<noteq> s")
    case True
    let ?c = "c\<lparr>cu_sequence := s\<rparr>"
    let ?m1 = "changed (saveCustom L (m\<lparr>sm_custom := ds @ ?c # cs\<rparr>))"
    have m1: "sm_file ?m1 = (sm_file m)(kCustomKey \<mapsto> VString (json_text L (JArr (map (custom_json L) (sm_custom ?m1)))))"
      by (simp add: changed_def saveCustom_def)
    have eq: "set_custom L i s ds (c # cs) m = set_custom L i s (ds @ [?c]) cs ?m1" using True by (simp add: Let_def)
    from "2.IH"(1) [OF True refl] show ?thesis
      unfolding eq by (elim disjE conjE; intro disjI2) (simp_all only: m1 fun_upd_upd)
  next
    case False
    then show ?thesis using "2.IH"(2) by auto
  qed
qed simp

lemma setSequence_file:
  assumes "key_lib_ok L" "shortcuts_ok L m" "list_all (known L) s" "file_ok L m"
  shows "file_ok L (setSequence L i s m)"
proof (cases "isCustomId i")
  case True
  have ov: "sm_overrides (setSequence L i s m) = sm_overrides m" using setSequence_custom(2) [OF assms(2) True] .
  have eq: "setSequence L i s m = set_custom L i (firstChord s) [] (sm_custom m) m" using True by (simp add: setSequence_def)
  from set_custom_file [of L i "firstChord s" "[]" "sm_custom m" m] show ?thesis
  proof (elim disjE)
    assume "sm_file (set_custom L i (firstChord s) [] (sm_custom m) m) = sm_file m \<and>
      sm_custom (set_custom L i (firstChord s) [] (sm_custom m) m) = sm_custom m"
    then show ?thesis using assms(4) ov by (simp add: file_ok_def eq)
  next
    assume "sm_file (set_custom L i (firstChord s) [] (sm_custom m) m) = (sm_file m)(kCustomKey \<mapsto>
     VString (json_text L (JArr (map (custom_json L) (sm_custom (set_custom L i (firstChord s) [] (sm_custom m) m))))))"
    then show ?thesis
      using saved_file_ok [OF assms(1) setSequence_effect(1) [OF assms(2,3)] assms(4) ov] by (simp add: eq)
  qed
next
  case False
  have s: "single L (firstChord s)" using firstChord_single [OF assms(3)] .
  have rt: "firstChord (fromStored L (toStored L (firstChord s))) = firstChord s"
    using key_lib_okD(3) [OF assms(1) s] s by (simp add: firstChord_id single_def)
  have own: "stored_own L (sm_file (setSequence L i s m)) = sm_custom (setSequence L i s m)"
  proof -
    have "sm_file (setSequence L i s m) kCustomKey = sm_file m kCustomKey"
      using False by (simp add: setSequence_def Let_def changed_def split: option.splits)
    note same = stored_own_same [where f = "sm_file (setSequence L i s m)" and g = "sm_file m", OF this]
    show ?thesis using assms(4) by (simp add: file_ok_def setSequence_builtin(1) [OF False] same)
  qed
  moreover have "stored_keys L (sm_file (setSequence L i s m)) x = map_of (sm_overrides (setSequence L i s m)) x"
    if "x \<in> sc_id ` set commands" for x
    using assms(4) that False rt key_lib_okD(1) [OF assms(1)]
    by (cases "x = i") (auto simp: file_ok_def setSequence_def Let_def changed_def stored_keys_def map_of_filter_other
        split: option.splits)
  ultimately show ?thesis by (simp add: file_ok_def)
qed


lemma addCustom_file:
  assumes "key_lib_ok L" "shortcuts_ok L (addCustom L c m)" "file_ok L m"
  shows "file_ok L (addCustom L c m)"
  by (rule saved_file_ok [OF assms]) (simp_all add: addCustom_def changed_def saveCustom_def)

lemma removeCustom_file:
  assumes "key_lib_ok L" "shortcuts_ok L (removeCustom L i m)" "file_ok L m"
  shows "file_ok L (removeCustom L i m)"
proof (cases "i \<in> cu_id ` set (sm_custom m)")
  case True
  show ?thesis
    by (rule saved_file_ok [OF assms]) (use True in \<open>simp_all add: removeCustom_def changed_def saveCustom_def\<close>)
qed (use assms in \<open>simp add: removeCustom_def\<close>)

lemma updateCustom_file:
  assumes "key_lib_ok L" "shortcuts_ok L (updateCustom L c m)" "file_ok L m"
  shows "file_ok L (updateCustom L c m)"
proof (cases "cu_id c \<in> cu_id ` set (sm_custom m)")
  case True
  show ?thesis
    by (rule saved_file_ok [OF assms]) (use True in \<open>simp_all add: updateCustom_def changed_def saveCustom_def\<close>)
qed (use assms in \<open>simp add: updateCustom_def\<close>)

lemma fold_forget:
  "fold (\<lambda>(k, _) f. f(kGroup k := None)) xs f x = (if x \<in> kGroup ` fst ` set xs then None else f x)"
  by (induction xs arbitrary: f) auto

lemma resetAll_file:
  assumes "file_ok L m"
  shows "file_ok L (resetAllToDefaults m)"
proof -
  let ?f = "fold (\<lambda>(k, _) f. f(kGroup k := None)) (sm_overrides m) (sm_file m)"
  have k: "?f kCustomKey = sm_file m kCustomKey" unfolding fold_forget by auto
  have own: "stored_own L ?f = stored_own L (sm_file m)"
    by (rule stored_own_same [where f = ?f and g = "sm_file m", OF k])
  have keys: "stored_keys L ?f i = None" if "i \<in> sc_id ` set commands" for i
  proof (cases "i \<in> fst ` set (sm_overrides m)")
    case False
    then have "map_of (sm_overrides m) i = None" by (simp add: map_of_eq_None_iff)
    then have "sm_file m (kGroup i) = None" using assms that by (auto simp: file_ok_def stored_keys_def)
    then show ?thesis by (simp add: stored_keys_def fold_forget)
  qed (auto simp: stored_keys_def fold_forget image_iff)
  show ?thesis
  proof (cases "sm_overrides m = []")
    case False
    then show ?thesis using assms own keys by (simp add: resetAllToDefaults_def changed_def file_ok_def)
  qed (use assms in \<open>simp add: resetAllToDefaults_def\<close>)
qed

lemma assign_file:
  assumes "key_lib_ok L" "shortcuts_ok L m" "list_all (known L) s" "file_ok L m"
  shows "file_ok L (snd (assign L yes i s m))"
proof -
  have o: "shortcuts_ok L (setSequence L b [] m)" "file_ok L (setSequence L b [] m)" for b
    using setSequence_effect(1) [OF assms(2), of "[]"] setSequence_file [OF assms(1,2) _ assms(4), of "[]"] by simp_all
  show ?thesis
    using setSequence_file [OF assms] setSequence_file [OF assms(1) o(1) assms(3) o(2)] assms(4)
    by (simp add: assign_def Let_def)
qed

lemma unbind_clashes_file:
  assumes "key_lib_ok L" "shortcuts_ok L m" "file_ok L m"
  shows "file_ok L (unbind_clashes L cs m)"
  using assms(2,3)
proof (induction cs arbitrary: m)
  case (Cons c cs)
  then show ?case
    using setSequence_effect(1) [OF Cons.prems(1), of "[]"] setSequence_file [OF assms(1) Cons.prems(1) _ Cons.prems(2), of "[]"]
    by simp
qed simp

subsection \<open>Starting again\<close>

lemma map_of_map_filter:
  assumes "distinct (map f xs)"
  shows "map_of (List.map_filter (\<lambda>c. map_option (\<lambda>v. (f c, g v)) (h (f c))) xs) k =
    (if k \<in> f ` set xs then map_option g (h k) else None)"
  using assms
proof (induction xs)
  case (Cons x xs)
  then show ?case by (cases "h (f x)") (auto simp: map_filter_simps)
qed (simp add: map_filter_simps)

lemma relaunched_same:
  assumes "shortcuts_ok L m" "file_ok L m"
  shows "sm_custom (relaunched L m) = sm_custom m" "map_of (sm_overrides (relaunched L m)) = map_of (sm_overrides m)"
    "sequence (relaunched L m) = sequence m" "isCustomized (relaunched L m) = isCustomized m"
proof -
  show c: "sm_custom (relaunched L m) = sm_custom m"
    using assms(2) by (simp add: file_ok_def stored_own_def relaunched_def)
  show o: "map_of (sm_overrides (relaunched L m)) = map_of (sm_overrides m)"
  proof
    fix i
    have "map_of (sm_overrides (relaunched L m)) i = (if i \<in> sc_id ` set commands then stored_keys L (sm_file m) i else None)"
      unfolding relaunched_def load_shortcuts_def stored_keys_def
      using map_of_map_filter [OF command_table(1), where h = "\<lambda>i. map_option (ini L) (sm_file m (kGroup i))"
          and g = "\<lambda>v. firstChord (fromStored L (asString L v))" and k = i]
      by (simp add: option.map_comp o_def)
    moreover have "map_of (sm_overrides m) i = None" if "i \<notin> sc_id ` set commands"
      using assms(1) that by (force simp: shortcuts_ok_def list_all_iff map_of_eq_None_iff)
    ultimately show "map_of (sm_overrides (relaunched L m)) i = map_of (sm_overrides m) i"
      using assms(2) by (auto simp: file_ok_def)
  qed
  show "sequence (relaunched L m) = sequence m" "isCustomized (relaunched L m) = isCustomized m"
    by (simp_all add: fun_eq_iff sequence_def isCustomized_def c o)
qed

lemma relaunched_ok:
  assumes "key_lib_ok L" "page_ok L m" "file_ok L m"
  shows "page_ok L (relaunched L m)" "file_ok L (relaunched L m)"
proof -
  have ok: "shortcuts_ok L m" using assms(2) by (simp add: page_ok_def)
  note r = relaunched_same [OF ok assms(3)]
  have "list_all (\<lambda>(k, s). k \<in> sc_id ` set commands \<and> single L s) (sm_overrides (relaunched L m))"
  proof -
    have "single L (firstChord (fromStored L x))" for x using firstChord_single key_lib_okD(4) [OF assms(1)] by blast
    then show ?thesis
      by (auto simp: relaunched_def load_shortcuts_def list_all_iff List.map_filter_def)
  qed
  then have "shortcuts_ok L (relaunched L m)" using ok by (simp add: shortcuts_ok_def r(1))
  moreover have "shortcut_ids (relaunched L m) = shortcut_ids m" by (simp add: shortcut_ids_def r(1))
  ultimately show "page_ok L (relaunched L m)" using assms(2) by (simp add: page_ok_def conflict_free_def r(3))
  have f: "sm_file (relaunched L m) = (\<lambda>k. map_option (ini L) (sm_file m k))" by (simp add: relaunched_def load_shortcuts_def)
  have "stored_keys L (sm_file (relaunched L m)) i = stored_keys L (sm_file m) i" for i
    by (simp add: stored_keys_def f option.map_comp o_def key_lib_okD(2) [OF assms(1)])
  moreover have "stored_own L (sm_file (relaunched L m)) = stored_own L (sm_file m)"
    using key_lib_okD(2) [OF assms(1)]
    by (cases "sm_file m kCustomKey") (simp_all add: stored_own_def load_shortcuts_def valueOr_def f)
  ultimately show "file_ok L (relaunched L m)" using assms(3) by (simp add: file_ok_def r(1,2))
qed


subsection \<open>The page keeps the shortcuts usable and saved\<close>

fun page_event_ok :: "'a key_lib_scheme \<Rightarrow> shortcut_manager \<Rightarrow> page_event \<Rightarrow> bool" where
  "page_event_ok L m (ChangeKey chosen yes i) = (\<forall>s. chosen = Some s \<longrightarrow> list_all (known L) s)"
| "page_event_ok L m (AddOwn uuid presses yes) =
     (newCustomId uuid \<notin> shortcut_ids m \<and> list_all (\<lambda>(n, keys, t, e). list_all (known L) keys) presses)"
| "page_event_ok L m (EditOwn presses yes i) = list_all (\<lambda>(n, keys, t, e). list_all (known L) keys) presses"
| "page_event_ok L m (Activate chosen presses yes i) =
     ((\<forall>s. chosen = Some s \<longrightarrow> list_all (known L) s) \<and> list_all (\<lambda>(n, keys, t, e). list_all (known L) keys) presses)"
| "page_event_ok L m _ = True"

fun page_run :: "'a key_lib_scheme \<Rightarrow> page_event list \<Rightarrow> shortcut_manager \<Rightarrow> shortcut_manager" where
  "page_run L [] m = m"
| "page_run L (e # es) m = page_run L es (page_handle L e m)"

fun page_run_ok :: "'a key_lib_scheme \<Rightarrow> page_event list \<Rightarrow> shortcut_manager \<Rightarrow> bool" where
  "page_run_ok L [] m = True"
| "page_run_ok L (e # es) m = (page_event_ok L m e \<and> page_run_ok L es (page_handle L e m))"

lemma known_defaults: "key_lib_ok L \<Longrightarrow> command i = Some c \<Longrightarrow> single L (sc_default c)"
  using command_Some command_table(3) by (fastforce simp: key_lib_ok_def single_def list_all_iff)

definition kept :: "'a key_lib_scheme \<Rightarrow> shortcut_manager \<Rightarrow> bool" where
  "kept L m \<longleftrightarrow> page_ok L m \<and> file_ok L m"

lemma kept_ok: "kept L m \<Longrightarrow> shortcuts_ok L m"
  by (simp add: kept_def page_ok_def)

lemma kept_assign:
  assumes "key_lib_ok L" "kept L m" "single L s"
  shows "kept L (snd (assign L yes i s m))"
  using assign_ok(1) [of L m s yes i] assign_file [OF assms(1) kept_ok [OF assms(2)], of s yes i] assms(2,3)
  by (simp add: kept_def single_def)

lemma kept_change:
  assumes "key_lib_ok L" "kept L m" "\<forall>s. chosen = Some s \<longrightarrow> list_all (known L) s"
  shows "kept L (changeSelected L chosen yes i m)"
  using kept_assign [OF assms(1,2)] firstChord_single [of L] assms(2,3)
  by (auto simp: changeSelected_def split: option.splits)

lemma kept_add:
  assumes "key_lib_ok L" "kept L m" "newCustomId uuid \<notin> shortcut_ids m"
    "list_all (\<lambda>(n, keys, t, e). list_all (known L) keys) presses"
  shows "kept L (addOwn L uuid presses yes m)"
proof -
  let ?blank = "\<lparr>cu_id = newCustomId uuid, cu_name = [], cu_sequence = [], cu_text = [], cu_appendEnter = False\<rparr>"
  have "file_ok L (addOwn L uuid presses yes m)"
  proof (cases "editCustom presses ?blank")
    case None
    then show ?thesis using assms(2) by (simp add: addOwn_def kept_def)
  next
    case (Some c)
    note c = editCustom_fields [OF Some assms(4)]
    let ?m1 = "addCustom L (c\<lparr>cu_sequence := []\<rparr>) m"
    have cid: "isCustomId (cu_id c)" using c(1) by (simp add: newCustomId_def isCustomId_def)
    have ok1: "shortcuts_ok L ?m1"
      using addCustom_effect(1) [OF kept_ok [OF assms(2)], of "c\<lparr>cu_sequence := []\<rparr>"] cid c(1) assms(3) by simp
    have f1: "file_ok L ?m1" using addCustom_file [OF assms(1) ok1] assms(2) by (simp add: kept_def)
    have k: "list_all (known L) (cu_sequence c)" using c(2) by (simp add: single_def)
    have a: "file_ok L (snd (assign L yes (cu_id c) (cu_sequence c) ?m1))" by (rule assign_file [OF assms(1) ok1 k f1])
    have r: "file_ok L (removeCustom L (cu_id c) ?m1)"
      by (rule removeCustom_file [OF assms(1) removeCustom_effect(1) [OF ok1 cid] f1])
    have "snd (assign L yes (cu_id c) (cu_sequence c) ?m1) = ?m1" if "\<not> fst (assign L yes (cu_id c) (cu_sequence c) ?m1)"
      using that by (auto simp: assign_def Let_def split: if_splits)
    then show ?thesis using Some a r by (auto simp: addOwn_def Let_def split: prod.splits)
  qed
  then show ?thesis using addOwn_ok [OF _ assms(3,4)] assms(2) by (simp add: kept_def)
qed

lemma kept_edit:
  assumes "key_lib_ok L" "kept L m" "list_all (\<lambda>(n, keys, t, e). list_all (known L) keys) presses"
  shows "kept L (editSelectedCustom L presses yes i m)"
proof -
  have "file_ok L (editSelectedCustom L presses yes i m)"
  proof (cases "List.find (\<lambda>c. cu_id c = i) (sm_custom m)")
    case None
    then show ?thesis using assms(2) by (simp add: editSelectedCustom_def kept_def)
  next
    case (Some c0)
    then have c0: "c0 \<in> set (sm_custom m)" by (auto simp: find_Some_iff)
    show ?thesis
    proof (cases "editCustom presses c0")
      case None
      then show ?thesis using assms(2) Some by (simp add: editSelectedCustom_def kept_def)
    next
      case edit: (Some c)
      note c = editCustom_fields [OF edit assms(3)]
      let ?m1 = "updateCustom L (c\<lparr>cu_sequence := cu_sequence c0\<rparr>) m"
      have k0: "list_all (known L) (cu_sequence c0)" "isCustomId (cu_id c0)"
        using kept_ok [OF assms(2)] c0 by (auto simp: shortcuts_ok_def list_all_iff single_def)
      have ok1: "shortcuts_ok L ?m1"
        using updateCustom_effect(1) [OF kept_ok [OF assms(2)], of "c\<lparr>cu_sequence := cu_sequence c0\<rparr>"] c(1) k0 by simp
      have f1: "file_ok L ?m1" using updateCustom_file [OF assms(1) ok1] assms(2) by (simp add: kept_def)
      have k: "list_all (known L) (cu_sequence c)" using c(2) by (simp add: single_def)
      have "snd (assign L yes i (cu_sequence c) ?m1) = ?m1" if "\<not> fst (assign L yes i (cu_sequence c) ?m1)"
        using that by (auto simp: assign_def Let_def split: if_splits)
      then show ?thesis
        using Some edit f1 assign_file [OF assms(1) ok1 k f1, of yes i] setSequence_file [OF assms(1) ok1 k0(1) f1, of i]
        by (auto simp: editSelectedCustom_def Let_def split: prod.splits)
    qed
  qed
  then show ?thesis using editSelectedCustom_ok [OF _ assms(3)] assms(2) by (simp add: kept_def)
qed

lemma page_step:
  assumes "key_lib_ok L" "kept L m" "page_event_ok L m e"
  shows "kept L (page_handle L e m)"
proof (cases e)
  case (ClearKey i)
  then show ?thesis
    using clear_ok [of L m i] setSequence_file [OF assms(1) kept_ok [OF assms(2)], of "[]" i] assms(2)
    by (simp add: kept_def clearSelected_def)
next
  case (ResetKey yes i)
  then show ?thesis using kept_assign [OF assms(1,2) known_defaults [OF assms(1)]] assms(2)
    by (auto simp: resetSelected_def split: option.splits)
next
  case (ResetAllKeys yes)
  have ok: "shortcuts_ok L m" using kept_ok [OF assms(2)] .
  have "file_ok L (resetAll L yes m)"
    using unbind_clashes_file [OF assms(1) resetAll_effect(1) [OF ok]] resetAll_file [of L m] assms(2)
    by (simp add: resetAll_def Let_def kept_def)
  then show ?thesis using ResetAllKeys resetAll_ok [of L m yes] assms(2) by (simp add: kept_def)
next
  case (DeleteOwn yes i)
  have "file_ok L (deleteSelectedCustom L yes i m)"
    using removeCustom_file [OF assms(1)] removeCustom_effect(1) [OF kept_ok [OF assms(2)]] assms(2)
    by (simp add: deleteSelectedCustom_def kept_def)
  then show ?thesis using DeleteOwn deleteSelectedCustom_ok [of L m yes i] assms(2) by (simp add: kept_def)
next
  case RestartApp
  then show ?thesis using relaunched_ok [OF assms(1)] assms(2) by (simp add: kept_def)
qed (use assms kept_change kept_add kept_edit in \<open>auto simp: activated_def\<close>)

lemma page_run_kept: "key_lib_ok L \<Longrightarrow> kept L m \<Longrightarrow> page_run_ok L es m \<Longrightarrow> kept L (page_run L es m)"
  by (induction es arbitrary: m) (simp_all add: page_step)

text \<open>
  C32. Whatever is done on the shortcuts page, and whatever its questions are answered, from shortcuts without
  clashes: no two commands of a window ever share a key, every key in use has Ctrl, Alt or Meta or is a
  function key, and a start of the program from the file finds the same keys and own shortcuts.
\<close>

theorem shortcuts_stay_usable:
  assumes "key_lib_ok L" "page_ok L m" "file_ok L m" "page_run_ok L es m"
  shows "let m' = page_run L es m
    in conflict_free m' \<and> (\<forall>i \<in> shortcut_ids m'. isAcceptable (sequence m' i)) \<and>
       sequence (relaunched L m') = sequence m' \<and> sm_custom (relaunched L m') = sm_custom m' \<and>
       isCustomized (relaunched L m') = isCustomized m'"
proof -
  have "kept L (page_run L es m)" by (rule page_run_kept) (simp_all add: kept_def assms)
  then show ?thesis using relaunched_same [of L "page_run L es m"] by (simp add: kept_def page_ok_def Let_def)
qed


subsection \<open>The first start, and an instance\<close>

lemma first_start_kept:
  assumes "key_lib_ok L"
  shows "page_ok L (load_shortcuts L (\<lambda>k. None))" "file_ok L (load_shortcuts L (\<lambda>k. None))"
proof -
  let ?m = "load_shortcuts L (\<lambda>k. None)"
  have "List.map_filter (\<lambda>c. None) cs = []" for cs :: "shortcut_command list"
    by (induction cs) (simp_all add: map_filter_simps)
  moreover have "asString L (VString []) = []" by simp
  ultimately have m: "sm_overrides ?m = []" "sm_custom ?m = []" "sm_file ?m = (\<lambda>k. None)"
    using key_lib_okD(5) [OF assms] by (simp_all add: load_shortcuts_def valueOr_def map_filter_simps)
  have seq: "sequence ?m (sc_id c) = sc_default c" if "c \<in> set commands" for c
    using command_table(2) command_known [OF that] that by (auto simp: sequence_def m list_all_iff)
  have ids: "shortcut_ids ?m = sc_id ` set commands" by (simp add: shortcut_ids_def m)
  have "conflict_free ?m"
    using default_keys by (auto simp: conflict_free_def ids seq scope_builtin list_all_iff)
  then show "page_ok L ?m"
    using command_table(3) seq by (auto simp: page_ok_def shortcuts_ok_def ids m list_all_iff)
  have "stored_own L (\<lambda>k. None) = sm_custom ?m" by (simp add: stored_own_def)
  then show "file_ok L ?m" by (simp add: file_ok_def m stored_keys_def)
qed

instance json :: countable
  by countable_datatype

definition demo_chord :: "chord \<Rightarrow> bool \<times> bool \<times> bool \<times> bool \<times> int" where
  "demo_chord c = (ch_ctrl c, ch_shift c, ch_alt c, ch_meta c, ch_key c)"

definition demo_chord_of :: "bool \<times> bool \<times> bool \<times> bool \<times> int \<Rightarrow> chord" where
  "demo_chord_of = (\<lambda>(a, b, c, d, k). \<lparr>ch_ctrl = a, ch_shift = b, ch_alt = c, ch_meta = d, ch_key = k\<rparr>)"

definition demo_key_lib :: key_lib where
  "demo_key_lib = settings_lib.extend demo_settings_lib
     (key_lib.fields
        (\<lambda>s. case s of [] \<Rightarrow> [] | c # cs \<Rightarrow> replicate (Suc (to_nat (demo_chord c))) CHR ''k'')
        (\<lambda>t. if t = [] then [] else [demo_chord_of (from_nat (length t - 1))])
        (\<lambda>j. replicate (Suc (to_nat j)) CHR ''j'')
        (\<lambda>t. if t = [] then JNull else from_nat (length t - 1))
        (\<lambda>c. True))"

lemma demo_key_lib_ok: "key_lib_ok demo_key_lib"
proof -
  have ini: "ini demo_key_lib = demo_ini"
    by (simp add: demo_key_lib_def demo_settings_lib_def settings_lib.defs key_lib.defs)
  have tx: "text_json demo_key_lib (json_text demo_key_lib j) = j" for j
    by (simp add: demo_key_lib_def demo_settings_lib_def settings_lib.defs key_lib.defs)
  have key: "fromStored demo_key_lib (toStored demo_key_lib s) = s" if "single demo_key_lib s" for s
  proof (cases s)
    case Nil
    then show ?thesis by (simp add: demo_key_lib_def demo_settings_lib_def settings_lib.defs key_lib.defs)
  next
    case (Cons c cs)
    then have "s = [c]" using that by (simp add: single_def)
    then show ?thesis
      by (simp add: demo_key_lib_def demo_settings_lib_def settings_lib.defs key_lib.defs demo_chord_def demo_chord_of_def)
  qed
  have known: "known demo_key_lib = (\<lambda>c. True)" "toArrayJ (text_json demo_key_lib []) = []"
    by (simp_all add: demo_key_lib_def demo_settings_lib_def settings_lib.defs key_lib.defs toArrayJ_def)
  have "asString demo_key_lib (demo_ini (demo_ini v)) = asString demo_key_lib (demo_ini v)" for v
    by (cases v) simp_all
  moreover have "list_all2 (\<lambda>a b. \<forall>k. jmember a k = jmember b k) obs obs" for obs :: "json_object list"
    by (simp add: list_all2_same)
  ultimately show ?thesis unfolding key_lib_ok_def ini tx
    using key known by (auto simp: list_all_iff)
qed

text \<open>An own shortcut takes the key of a command; resetting takes it back.\<close>

definition demo_page :: "page_event list" where
  "demo_page =
     [AddOwn ''1'' [(''n'', no_key, ''t'', True), (''n'', ctrl CHR ''W'', ''t'', True)] True,
      ChangeKey (Some (ctrl CHR ''P'')) True ''pane.close'', RestartApp, ResetAllKeys True,
      EditOwn [(''m'', functionKey False 5, ''u'', False)] True (newCustomId ''1''), DeleteOwn True (newCustomId ''1'')]"

theorem shortcuts_stay_usable_witness:
  "conflict_free (page_run demo_key_lib demo_page (load_shortcuts demo_key_lib (\<lambda>k. None)))"
proof -
  have L: "key_lib_ok demo_key_lib" by (rule demo_key_lib_ok)
  have known: "known demo_key_lib = (\<lambda>c. True)"
    by (simp add: demo_key_lib_def demo_settings_lib_def settings_lib.defs key_lib.defs)
  have "isCustomId (newCustomId ''1'')" by (simp add: isCustomId_def newCustomId_def)
  then have "newCustomId ''1'' \<notin> shortcut_ids (load_shortcuts demo_key_lib (\<lambda>k. None))"
    using command_table(2) key_lib_okD(5) [OF L]
    by (auto simp: shortcut_ids_def load_shortcuts_def valueOr_def map_filter_simps list_all_iff)
  then have "page_run_ok demo_key_lib demo_page (load_shortcuts demo_key_lib (\<lambda>k. None))"
    by (simp add: demo_page_def known list_all_iff)
  from shortcuts_stay_usable [OF L first_start_kept [OF L] this] show ?thesis by (simp add: Let_def)
qed

end
