(* ===== verification/LineEnds.thy ===== *)
theory LineEnds
  imports Prelude
begin

text \<open>
  Text as UTF-16 units and the two replacements of line ends the program does with \<open>QString::replace\<close>
  (\<open>src/src/ui/SftpFileEditor.cpp\<close>, \<open>src/src/transports/rdp/RdpClient.cpp\<close>).
\<close>

type_synonym units = "16 word list"

fun crLfToLf :: "units \<Rightarrow> units" where
  "crLfToLf (a # b # us) = (if a = 0x0D \<and> b = 0x0A then 0x0A # crLfToLf us else a # crLfToLf (b # us))"
| "crLfToLf us = us"

fun lfToCrLf :: "units \<Rightarrow> units" where
  "lfToCrLf [] = []"
| "lfToCrLf (u # us) = (if u = 0x0A then 0x0D # 0x0A # lfToCrLf us else u # lfToCrLf us)"

end
