(* ===== verification/Editor.thy ===== *)
theory Editor
  imports SftpDock LineEnds
begin

text \<open>
  The editor of one remote file: \<open>src/src/ui/SftpFileEditor.{h,cpp}\<close>. It downloads the file into a working
  copy, shows it as text, uploads it on save, and asks before it closes with changes.

  Text is a list of UTF-16 units. Decoding and encoding UTF-8, what a text document gives back of the text
  it was given, the line about a loaded file and the time (\<open>ed_lib\<close>) are Qt's. The SFTP session is a log of
  requests; its signals, the user's edits and answers are events. The find bar, undo (which can take the
  mark of a change back) and a second close while the first one waits for its save are not modelled.
\<close>

record ed_lib =
  u_decode :: "bytes \<Rightarrow> units option"
  u_encode :: "units \<Rightarrow> bytes"
  plainText :: "units \<Rightarrow> units"
  loadedStatus :: "units \<Rightarrow> string"
  clock :: string

datatype editor_request = EdConnect | EdDownload string string | EdUpload string string | EdDisconnect

datatype editor_signal = Saved string | SaveFinished bool

record file_editor =
  ed_username :: string
  ed_host :: string
  ed_remotePath :: string
  ed_localPath :: string
  ed_working :: "bytes option"
  ed_text :: units
  ed_modified :: bool
  ed_enabled :: bool
  ed_saveEnabled :: bool
  ed_loaded :: bool
  ed_saving :: bool
  ed_crlf :: bool
  ed_lastSaveOk :: bool
  ed_status :: string
  ed_title :: string
  ed_requests :: "editor_request list"
  ed_signals :: "editor_signal list"

definition ed_setStatus :: "string \<Rightarrow> file_editor \<Rightarrow> file_editor" where
  "ed_setStatus t e = e\<lparr>ed_status := t\<rparr>"

definition ed_request :: "editor_request \<Rightarrow> file_editor \<Rightarrow> file_editor" where
  "ed_request q e = e\<lparr>ed_requests := ed_requests e @ [q]\<rparr>"

definition ed_emit :: "editor_signal \<Rightarrow> file_editor \<Rightarrow> file_editor" where
  "ed_emit s e = e\<lparr>ed_signals := ed_signals e @ [s]\<rparr>"

text \<open>\<open>QFileInfo(path).fileName()\<close>.\<close>

definition lastName :: "string \<Rightarrow> string" where
  "lastName p = rev (takeWhile (\<lambda>c. c \<noteq> CHR ''/'') (rev p))"

definition updateTitle :: "file_editor \<Rightarrow> file_editor" where
  "updateTitle e =
     (let modified = ed_loaded e \<and> ed_modified e
      in e\<lparr>ed_title := lastName (ed_remotePath e) @ (if modified then '' *'' else []) @ '' - '' @ ed_username e @ ''@'' @ ed_host e,
           ed_saveEnabled := modified \<and> \<not> ed_saving e\<rparr>)"

text \<open>\<open>setModified\<close> tells of a change only.\<close>

definition setModified :: "bool \<Rightarrow> file_editor \<Rightarrow> file_editor" where
  "setModified b e = (if ed_modified e = b then e else updateTitle (e\<lparr>ed_modified := b\<rparr>))"

definition open_editor :: "string \<Rightarrow> string \<Rightarrow> string \<Rightarrow> string \<Rightarrow> file_editor" where
  "open_editor user host remotePath tempDir =
     ed_request EdConnect
       (ed_setStatus ''Connecting...''
          (updateTitle
             \<lparr>ed_username = user, ed_host = host, ed_remotePath = remotePath,
              ed_localPath = tempDir @ ''/'' @ lastName remotePath, ed_working = None, ed_text = [], ed_modified = False,
              ed_enabled = False, ed_saveEnabled = False, ed_loaded = False, ed_saving = False, ed_crlf = False,
              ed_lastSaveOk = False, ed_status = [], ed_title = [], ed_requests = [], ed_signals = []\<rparr>))"

definition ed_onConnected :: "file_editor \<Rightarrow> file_editor" where
  "ed_onConnected e = ed_request (EdDownload (ed_remotePath e) (ed_localPath e)) (ed_setStatus ''Downloading...'' e)"

subsection \<open>Line ends\<close>

fun containsCrLf :: "bytes \<Rightarrow> bool" where
  "containsCrLf (a # b # bs) = (a = 0x0D \<and> b = 0x0A \<or> containsCrLf (b # bs))"
| "containsCrLf _ = False"

subsection \<open>Opening\<close>

text \<open>\<open>read\<close> is what reading the working copy gives, \<open>Inl\<close> an error message.\<close>

definition loadDownloadedFile :: "ed_lib \<Rightarrow> string + bytes \<Rightarrow> file_editor \<Rightarrow> file_editor" where
  "loadDownloadedFile L read e =
     (case read of
        Inl err \<Rightarrow> ed_setStatus (''Could not read the downloaded copy: '' @ err) e
      | Inr b \<Rightarrow>
          let e = e\<lparr>ed_working := Some b\<rparr>
          in if int (length b) > kMaxBytes then ed_setStatus ''Too large to edit here - use Download instead.'' e
             else if 0 \<in> set (take 8192 b) then
               ed_setStatus ''This looks like a binary file - not opened. Use Download instead.'' e
             else
               (case u_decode L b of
                  None \<Rightarrow>
                    ed_setStatus ''Not valid UTF-8 text - not opened (editing it here could corrupt it). Use Download instead.'' e
                | Some t \<Rightarrow>
                    let crlf = containsCrLf b; normalized = (if crlf then crLfToLf t else t)
                    in updateTitle (ed_setStatus (loadedStatus L normalized)
                         (setModified False (e\<lparr>ed_crlf := crlf, ed_text := plainText L normalized\<rparr>)
                            \<lparr>ed_enabled := True, ed_loaded := True\<rparr>))))"

subsection \<open>Saving\<close>

text \<open>\<open>failure\<close>: why the working copy could not be written, if it could not; what it holds is not known then.\<close>

definition startSave :: "ed_lib \<Rightarrow> string option \<Rightarrow> file_editor \<Rightarrow> bool \<times> file_editor" where
  "startSave L failure e =
     (if \<not> ed_loaded e \<or> ed_saving e then (False, e)
      else
        let t = (if ed_crlf e then lfToCrLf (ed_text e) else ed_text e)
        in case failure of
             Some err \<Rightarrow> (False, ed_setStatus (''Could not write the working copy: '' @ err) (e\<lparr>ed_working := None\<rparr>))
           | None \<Rightarrow>
             (True, ed_request (EdUpload (ed_localPath e) (ed_remotePath e))
                (ed_setStatus ''Saving...''
                   (e\<lparr>ed_working := Some (u_encode L t), ed_saving := True, ed_saveEnabled := False\<rparr>))))"

definition ed_onOperationSucceeded :: "ed_lib \<Rightarrow> string + bytes \<Rightarrow> string \<Rightarrow> string \<Rightarrow> file_editor \<Rightarrow> file_editor" where
  "ed_onOperationSucceeded L read operation path e =
     (if path \<noteq> ed_remotePath e then e
      else if operation = ''download'' \<and> \<not> ed_loaded e then loadDownloadedFile L read e
      else if operation = ''upload'' \<and> ed_saving e then
        ed_emit (SaveFinished True)
          (ed_emit (Saved (ed_remotePath e))
             ((ed_setStatus (''Saved '' @ clock L) ((setModified False (e\<lparr>ed_saving := False\<rparr>))\<lparr>ed_saveEnabled := False\<rparr>))
                \<lparr>ed_lastSaveOk := True\<rparr>))
      else e)"

definition ed_onOperationFailed :: "string \<Rightarrow> string \<Rightarrow> string \<Rightarrow> file_editor \<Rightarrow> file_editor" where
  "ed_onOperationFailed operation path message e =
     (if path \<noteq> ed_remotePath e then e
      else if operation = ''upload'' \<and> ed_saving e then
        ed_emit (SaveFinished False)
          ((ed_setStatus (''Save failed: '' @ message) (e\<lparr>ed_saving := False, ed_saveEnabled := True\<rparr>))
             \<lparr>ed_lastSaveOk := False\<rparr>)
      else if operation = ''download'' \<and> \<not> ed_loaded e then
        ed_setStatus (''Could not download the file: '' @ message) e
      else e)"

subsection \<open>Events\<close>

text \<open>The text of an edit is what the document then holds.\<close>

datatype editor_event =
    EdConnected | EdConnectFailed string | EdSucceeded "string + bytes" string string | EdFailed string string string
  | EdProgress string int int | EdEdit units | EdSave "string option"

fun editor_handle :: "ed_lib \<Rightarrow> editor_event \<Rightarrow> file_editor \<Rightarrow> file_editor" where
  "editor_handle L EdConnected e = ed_onConnected e"
| "editor_handle L (EdConnectFailed m) e = ed_setStatus (''Connection failed: '' @ m) e"
| "editor_handle L (EdSucceeded rr op path) e = ed_onOperationSucceeded L rr op path e"
| "editor_handle L (EdFailed op path m) e = ed_onOperationFailed op path m e"
| "editor_handle L (EdProgress path n tot) e =
     (if path = ed_remotePath e \<and> tot > 0
      then ed_setStatus ((if ed_loaded e then ''Saving '' else ''Downloading '') @ decimal (nat (n * 100 div tot)) @ ''%...'') e
      else e)"
| "editor_handle L (EdEdit t) e = (if ed_enabled e then setModified True (e\<lparr>ed_text := t\<rparr>) else e)"
| "editor_handle L (EdSave failure) e = snd (startSave L failure e)"

text \<open>
  \<open>saveAndWait\<close> handles events in a loop of its own until a save ends; \<open>None\<close> is that none did. The nested
  events are given; what is left of them is returned.
\<close>

fun wait_saved :: "ed_lib \<Rightarrow> editor_event list \<Rightarrow> file_editor \<Rightarrow> (file_editor \<times> editor_event list) option" where
  "wait_saved L [] e = None"
| "wait_saved L (x # xs) e =
     (let e1 = editor_handle L x e
      in if length (filter (\<lambda>s. s \<in> {SaveFinished True, SaveFinished False}) (ed_signals e1)) \<noteq>
            length (filter (\<lambda>s. s \<in> {SaveFinished True, SaveFinished False}) (ed_signals e))
         then Some (e1, xs) else wait_saved L xs e1)"

definition saveAndWait :: "ed_lib \<Rightarrow> string option \<Rightarrow> editor_event list \<Rightarrow> file_editor \<Rightarrow> (bool \<times> file_editor) option" where
  "saveAndWait L failure nested e =
     (case startSave L failure e of
        (False, e1) \<Rightarrow> Some (False, e1)
      | (True, e1) \<Rightarrow> map_option (\<lambda>(e2, rest). (ed_lastSaveOk e2, e2)) (wait_saved L nested e1))"

datatype close_answer = AnswerSave | AnswerDiscard | AnswerCancel

definition requestClose ::
    "ed_lib \<Rightarrow> close_answer \<Rightarrow> string option \<Rightarrow> editor_event list \<Rightarrow> file_editor \<Rightarrow> (bool \<times> file_editor) option" where
  "requestClose L choice failure nested e =
     (if \<not> ed_loaded e \<or> \<not> ed_modified e then Some (True, e)
      else if choice = AnswerSave then saveAndWait L failure nested e
      else Some (choice = AnswerDiscard, e))"


subsection \<open>What opening and saving promise\<close>





lemma updateTitle_fields [simp]:
  "ed_working (updateTitle e) = ed_working e" "ed_text (updateTitle e) = ed_text e" "ed_crlf (updateTitle e) = ed_crlf e"
  "ed_loaded (updateTitle e) = ed_loaded e" "ed_saving (updateTitle e) = ed_saving e"
  "ed_modified (updateTitle e) = ed_modified e" "ed_requests (updateTitle e) = ed_requests e"
  "ed_enabled (updateTitle e) = ed_enabled e" "ed_signals (updateTitle e) = ed_signals e"
  "ed_remotePath (updateTitle e) = ed_remotePath e" "ed_localPath (updateTitle e) = ed_localPath e"
  by (simp_all add: updateTitle_def Let_def)

lemma setModified_fields [simp]:
  "ed_working (setModified b e) = ed_working e" "ed_text (setModified b e) = ed_text e" "ed_crlf (setModified b e) = ed_crlf e"
  "ed_loaded (setModified b e) = ed_loaded e" "ed_saving (setModified b e) = ed_saving e"
  "ed_modified (setModified b e) = b" "ed_requests (setModified b e) = ed_requests e"
  "ed_enabled (setModified b e) = ed_enabled e" "ed_signals (setModified b e) = ed_signals e"
  "ed_remotePath (setModified b e) = ed_remotePath e" "ed_localPath (setModified b e) = ed_localPath e"
  by (simp_all add: setModified_def)

lemmas editor_effects = ed_setStatus_def ed_request_def ed_emit_def



definition untouched :: "file_editor \<Rightarrow> bool" where
  "untouched e \<longleftrightarrow> \<not> ed_loaded e \<and> \<not> ed_saving e \<and> \<not> ed_enabled e \<and> (\<forall>l r. EdUpload l r \<notin> set (ed_requests e))"

fun refused :: "ed_lib \<Rightarrow> editor_event \<Rightarrow> bool" where
  "refused L (EdSucceeded (Inr b) op path) = (int (length b) > kMaxBytes \<or> 0 \<in> set (take 8192 b) \<or> u_decode L b = None)"
| "refused L _ = True"

lemma untouched_step:
  assumes "untouched e" "refused L x"
  shows "untouched (editor_handle L x e) \<and> ed_text (editor_handle L x e) = ed_text e"
proof (cases x)
  case (EdSucceeded rr op path)
  have "untouched (loadDownloadedFile L rr e) \<and> ed_text (loadDownloadedFile L rr e) = ed_text e"
    using assms EdSucceeded
    by (cases rr) (auto simp: untouched_def loadDownloadedFile_def Let_def editor_effects)
  then show ?thesis using assms EdSucceeded by (simp add: ed_onOperationSucceeded_def untouched_def)
qed (use assms in \<open>auto simp: untouched_def editor_effects ed_onConnected_def ed_onOperationFailed_def startSave_def\<close>)

text \<open>
  A file that is too large, has a NUL byte at its beginning or is not valid UTF-8 is never opened: whatever
  happens, nothing can be typed and nothing is uploaded over it.
\<close>

theorem refused_file_untouched:
  assumes "untouched e" "list_all (refused L) xs"
  shows "untouched (fold (editor_handle L) xs e) \<and> ed_text (fold (editor_handle L) xs e) = ed_text e"
  using assms
proof (induction xs arbitrary: e)
  case (Cons x xs)
  then show ?case using untouched_step [of e L x] by simp
qed simp

subsection \<open>Closing\<close>

text \<open>
  C34. What is typed while a save is on its way is lost: when the upload succeeds the text counts as saved, the
  editor closes without a question, and the working copy that was uploaded is the text from before.
\<close>

theorem edits_while_saving_lost:
  assumes "ed_loaded e" "ed_enabled e" "\<not> ed_saving e" "x = EdSucceeded rr ''upload'' (ed_remotePath e)"
  shows "let e1 = fold (editor_handle L) [EdSave None, EdEdit t, x] e
    in ed_text e1 = t \<and> ed_working e1 = Some (u_encode L (if ed_crlf e then lfToCrLf (ed_text e) else ed_text e)) \<and>
       requestClose L choice failure nested e1 = Some (True, e1)"
proof -
  let ?e1 = "fold (editor_handle L) [EdSave None, EdEdit t, x] e"
  have "ed_text ?e1 = t \<and> ed_working ?e1 = Some (u_encode L (if ed_crlf e then lfToCrLf (ed_text e) else ed_text e)) \<and>
    \<not> ed_modified ?e1"
    using assms by (simp add: startSave_def Let_def editor_effects ed_onOperationSucceeded_def)
  then show ?thesis by (simp add: requestClose_def Let_def)
qed

text \<open>
  Apart from that, closing never loses a change: with changes made while no save was on its way, the
  editor closes only if they are discarded or a save of them, or of what was typed after, has succeeded.
\<close>

theorem close_keeps_changes:
  assumes "ed_loaded e" "ed_modified e" "requestClose L choice failure nested e = Some (True, e')"
  shows "choice = AnswerDiscard \<and> e' = e \<or>
    choice = AnswerSave \<and> failure = None \<and> \<not> ed_saving e \<and>
    EdUpload (ed_localPath e) (ed_remotePath e) \<in> set (ed_requests e') \<and> ed_lastSaveOk e'"
proof (cases "choice = AnswerSave")
  case False
  then show ?thesis using assms by (auto simp: requestClose_def split: if_splits)
next
  case True
  then have "saveAndWait L failure nested e = Some (True, e')" using assms by (simp add: requestClose_def)
  then obtain e1 rest where e1: "startSave L failure e = (True, e1)" "wait_saved L nested e1 = Some (e', rest)"
    "ed_lastSaveOk e'"
    by (auto simp: saveAndWait_def split: prod.splits bool.splits)
  have asked: "EdUpload (ed_localPath e) (ed_remotePath e) \<in> set (ed_requests e1)" "failure = None" "\<not> ed_saving e"
    using e1(1) by (auto simp: startSave_def Let_def editor_effects split: if_splits option.splits)
  have grow: "set (ed_requests a) \<subseteq> set (ed_requests (editor_handle L x a))" for x a
    by (cases x) (auto simp: editor_effects ed_onConnected_def ed_onOperationFailed_def ed_onOperationSucceeded_def
        loadDownloadedFile_def startSave_def Let_def split: sum.splits option.splits)
  have "set (ed_requests a) \<subseteq> set (ed_requests e')" if "wait_saved L xs a = Some (e', rest)" for xs a
    using that
  proof (induction xs arbitrary: a)
    case (Cons x xs)
    then show ?case using grow [of a x] by (auto simp: Let_def split: if_splits)
  qed simp
  then show ?thesis using True asked e1 by blast
qed


subsection \<open>Instances\<close>

text \<open>ASCII, in a document that gives back what it is given.\<close>

definition demo_ed_lib :: ed_lib where
  "demo_ed_lib =
     \<lparr>u_decode = (\<lambda>b. if list_all (\<lambda>x. x < 0x80) b then Some (map ucast b) else None), u_encode = map ucast,
      plainText = (\<lambda>t. t), loadedStatus = (\<lambda>t. ''Text''), clock = ''12:00:00''\<rparr>"


definition demo_editor :: file_editor where
  "demo_editor = editor_handle demo_ed_lib EdConnected (open_editor ''me'' ''there'' ''/f'' ''/tmp'')"

definition demo_dos :: bytes where
  "demo_dos = [0x61, 0x0D, 0x0A, 0x62, 0x0D, 0x0A]"


theorem refused_file_untouched_witness:
  "untouched (fold (editor_handle demo_ed_lib)
     [EdSucceeded (Inr [0x61, 0]) ''download'' ''/f'', EdEdit [0x62], EdSave None] demo_editor)"
proof -
  have "untouched demo_editor"
    by (simp add: untouched_def demo_editor_def open_editor_def editor_effects ed_onConnected_def updateTitle_def lastName_def Let_def)
  from refused_file_untouched [OF this, of demo_ed_lib "[EdSucceeded (Inr [0x61, 0]) ''download'' ''/f'', EdEdit [0x62],
      EdSave None]"] show ?thesis by (simp del: fold.simps)
qed

definition demo_opened :: file_editor where
  "demo_opened = editor_handle demo_ed_lib (EdSucceeded (Inr demo_dos) ''download'' ''/f'') demo_editor"

lemma demo_opened_fields:
  "ed_loaded demo_opened" "ed_enabled demo_opened" "\<not> ed_saving demo_opened" "ed_remotePath demo_opened = ''/f''"
  "ed_localPath demo_opened = ''/tmp/f''" "ed_crlf demo_opened" "ed_text demo_opened = [0x61, 0x0A, 0x62, 0x0A]"
  by (simp_all add: demo_opened_def demo_editor_def open_editor_def editor_effects ed_onConnected_def lastName_def
      ed_onOperationSucceeded_def loadDownloadedFile_def demo_dos_def demo_ed_lib_def kMaxBytes_def Let_def)

theorem edits_while_saving_lost_witness:
  "let e1 = fold (editor_handle demo_ed_lib) [EdSave None, EdEdit [0x63], EdSucceeded (Inl []) ''upload'' ''/f''] demo_opened
   in ed_text e1 = [0x63] \<and> ed_working e1 = Some demo_dos \<and>
      requestClose demo_ed_lib AnswerCancel None [] e1 = Some (True, e1)"
proof -
  have "EdSucceeded (Inl []) ''upload'' ''/f'' = EdSucceeded (Inl []) ''upload'' (ed_remotePath demo_opened)"
    by (simp add: demo_opened_fields)
  note t = edits_while_saving_lost [OF demo_opened_fields(1-3) this, of demo_ed_lib "[0x63]" AnswerCancel None "[]"]
  have "u_encode demo_ed_lib (lfToCrLf [0x61, 0x0A, 0x62, 0x0A]) = demo_dos" by (simp add: demo_ed_lib_def demo_dos_def)
  then show ?thesis using t by (simp add: demo_opened_fields Let_def del: fold.simps)
qed

theorem close_keeps_changes_witness:
  "\<exists>e'. requestClose demo_ed_lib AnswerSave None [EdSucceeded (Inl []) ''upload'' ''/f'']
      (editor_handle demo_ed_lib (EdEdit [0x63]) demo_opened) = Some (True, e') \<and>
    EdUpload ''/tmp/f'' ''/f'' \<in> set (ed_requests e') \<and> ed_lastSaveOk e'"
proof -
  let ?e = "editor_handle demo_ed_lib (EdEdit [0x63]) demo_opened"
  have f: "ed_loaded ?e" "ed_modified ?e" "ed_localPath ?e = ''/tmp/f''" "ed_remotePath ?e = ''/f''"
    by (simp_all add: demo_opened_fields)
  have "\<exists>e'. requestClose demo_ed_lib AnswerSave None [EdSucceeded (Inl []) ''upload'' ''/f''] ?e = Some (True, e')"
    by (simp add: requestClose_def saveAndWait_def startSave_def Let_def demo_opened_fields editor_effects
        ed_onOperationSucceeded_def)
  then obtain e' where "requestClose demo_ed_lib AnswerSave None [EdSucceeded (Inl []) ''upload'' ''/f''] ?e = Some (True, e')"
    by blast
  from close_keeps_changes [OF f(1,2) this] this f show ?thesis by auto
qed

end
