(* ===== verification/PtyShell.thy ===== *)
theory PtyShell
  imports Transport
begin

text \<open>
  A local shell on a pseudo terminal: \<open>src/src/transports/pty/PtyTransport.{h,cpp}\<close>.

  What the system answers is in the events: the result of \<open>forkpty\<close>, of each \<open>write\<close> and each \<open>read\<close>. What
  the program asks of it is a log of calls. A socket notifier is whether it is enabled; Qt activates only
  an enabled one.
\<close>

subsection \<open>State\<close>

text \<open>The window size is two C shorts.\<close>

type_synonym winsize = "16 word \<times> 16 word"

datatype pty_call =
    PtySpawn nat int string string "string list" winsize
  | PtyWrote bytes | PtyResize nat winsize | PtyHangup int | PtyClose nat | PtyReap int

record pty_transport = transport +
  pty_shell :: string
  pty_master :: "nat option"
  pty_pid :: int
  pty_cols :: int
  pty_rows :: int
  pty_pending :: bytes
  pty_reading :: "bool option"
  pty_writing :: "bool option"
  pty_calls :: "pty_call list"

definition pty_initial :: "string \<Rightarrow> pty_transport" where
  "pty_initial sh =
     \<lparr>m_state = Disconnected, emitted = [], pty_shell = sh, pty_master = None, pty_pid = - 1, pty_cols = 80, pty_rows = 24,
      pty_pending = [], pty_reading = None, pty_writing = None, pty_calls = []\<rparr>"

definition pty_call :: "pty_call \<Rightarrow> pty_transport \<Rightarrow> pty_transport" where
  "pty_call c s = s\<lparr>pty_calls := pty_calls s @ [c]\<rparr>"

subsection \<open>Starting\<close>

text \<open>The process' environment and the user's passwd entry, of which each part may be missing.\<close>

record pty_host =
  environ :: "string list"
  getenv :: "string \<Rightarrow> string option"
  pw_shell :: "string option"
  pw_dir :: "string option"

definition filled :: "string option \<Rightarrow> bool" where
  "filled v \<longleftrightarrow> v \<noteq> None \<and> v \<noteq> Some []"

definition resolveShell :: "pty_host \<Rightarrow> string \<Rightarrow> string" where
  "resolveShell H configured =
     (if configured \<noteq> [] then configured
      else if filled (getenv H ''SHELL'') then the (getenv H ''SHELL'')
      else if filled (pw_shell H) then the (pw_shell H)
      else ''/bin/sh'')"

definition resolveHome :: "pty_host \<Rightarrow> string" where
  "resolveHome H =
     (if filled (getenv H ''HOME'') then the (getenv H ''HOME'')
      else if filled (pw_dir H) then the (pw_dir H)
      else ''/'')"

definition startsWith :: "string \<Rightarrow> string \<Rightarrow> bool" where
  "startsWith p t \<longleftrightarrow> take (length p) t = p"

definition child_env :: "string list \<Rightarrow> string list" where
  "child_env es =
     filter (\<lambda>e. \<not> startsWith ''TERM='' e \<and> \<not> startsWith ''COLUMNS='' e \<and> \<not> startsWith ''LINES='' e) es @
     [''TERM=xterm-256color'']"

definition winsize_of :: "int \<Rightarrow> int \<Rightarrow> winsize" where
  "winsize_of cols rows = (of_int cols, of_int rows)"

text \<open>The child of \<open>forkpty\<close> is the call \<open>PtySpawn\<close>: descriptor, process, program, directory, environment, size.\<close>

datatype fork_result = ForkFailed string | Forked nat int

definition pty_connectToHost :: "pty_host \<Rightarrow> fork_result \<Rightarrow> pty_transport \<Rightarrow> pty_transport" where
  "pty_connectToHost H r s =
     (if pty_master s \<noteq> None then s
      else
        let s1 = setState Connecting s
        in case r of
             ForkFailed err \<Rightarrow>
               setState Error (emit (ErrorOccurred (''Could not start a local terminal (forkpty failed: '' @ err @ '')'')) s1)
           | Forked fd pid \<Rightarrow>
               setState Connected
                 ((pty_call (PtySpawn fd pid (resolveShell H (pty_shell s1)) (resolveHome H) (child_env (environ H))
                     (winsize_of (pty_cols s1) (pty_rows s1))) s1)
                   \<lparr>pty_master := Some fd, pty_pid := pid, pty_reading := Some True, pty_writing := Some False\<rparr>))"

subsection \<open>Ending\<close>

definition pty_shutdown :: "pty_transport \<Rightarrow> pty_transport" where
  "pty_shutdown s =
     (case pty_master s of
        None \<Rightarrow> s
      | Some fd \<Rightarrow>
          let s1 = s\<lparr>pty_reading := None, pty_writing := None\<rparr>;
              s2 = (if pty_pid s1 > 0 then pty_call (PtyHangup (pty_pid s1)) s1 else s1);
              s3 = (pty_call (PtyClose fd) s2)\<lparr>pty_master := None, pty_pending := []\<rparr>;
              s4 = (if pty_pid s3 > 0 then pty_call (PtyReap (pty_pid s3)) s3 else s3)
          in s4\<lparr>pty_pid := - 1\<rparr>)"

definition pty_disconnectFromHost :: "pty_transport \<Rightarrow> pty_transport" where
  "pty_disconnectFromHost s = setState Disconnected (pty_shutdown s)"

definition pty_resize :: "int \<Rightarrow> int \<Rightarrow> pty_transport \<Rightarrow> pty_transport" where
  "pty_resize cols rows s =
     (let s1 = s\<lparr>pty_cols := cols, pty_rows := rows\<rparr>
      in case pty_master s1 of None \<Rightarrow> s1 | Some fd \<Rightarrow> pty_call (PtyResize fd (winsize_of cols rows)) s1)"

subsection \<open>Writing\<close>

text \<open>
  Answers of \<open>::write\<close>: how many bytes it took, or the error. When the list is used up the terminal takes no
  more for now.
\<close>

datatype write_answer = Wrote nat | WriteInterrupted | WriteBlocked | WriteFailed

fun flushPending :: "write_answer list \<Rightarrow> pty_transport \<Rightarrow> pty_transport" where
  "flushPending [] s = s\<lparr>pty_writing := Some (pty_pending s \<noteq> [])\<rparr>"
| "flushPending (a # as) s =
     (if pty_pending s = [] then s\<lparr>pty_writing := Some False\<rparr>
      else
        (case a of
           Wrote n \<Rightarrow>
             if n > 0 then
               flushPending as ((pty_call (PtyWrote (take n (pty_pending s))) s)\<lparr>pty_pending := drop n (pty_pending s)\<rparr>)
             else s\<lparr>pty_writing := Some False\<rparr>
         | WriteInterrupted \<Rightarrow> flushPending as s
         | WriteBlocked \<Rightarrow> s\<lparr>pty_writing := Some True\<rparr>
         | WriteFailed \<Rightarrow> s\<lparr>pty_writing := Some False\<rparr>))"

definition pty_write :: "write_answer list \<Rightarrow> bytes \<Rightarrow> pty_transport \<Rightarrow> pty_transport" where
  "pty_write as data s =
     (if pty_master s = None then s else flushPending as (s\<lparr>pty_pending := pty_pending s @ data\<rparr>))"

definition pty_onWritable :: "write_answer list \<Rightarrow> pty_transport \<Rightarrow> pty_transport" where
  "pty_onWritable as s = flushPending as s"

subsection \<open>Reading\<close>

text \<open>
  Answers of \<open>::read\<close>; with the data, whether a slot that is told of it disconnects. When the list is used up
  there is nothing more to read for now.
\<close>

datatype read_answer = Got bytes bool | ReadInterrupted | ReadBlocked | ReadEnded

fun pty_onReadable :: "read_answer list \<Rightarrow> pty_transport \<Rightarrow> pty_transport" where
  "pty_onReadable [] s = s"
| "pty_onReadable (a # as) s =
     (case a of
        Got d leaves \<Rightarrow>
          let s1 = emit (ReadyRead d) s; s2 = (if leaves then pty_disconnectFromHost s1 else s1)
          in if pty_master s2 = None then s2 else pty_onReadable as s2
      | ReadInterrupted \<Rightarrow> pty_onReadable as s
      | ReadBlocked \<Rightarrow> s
      | ReadEnded \<Rightarrow> setState Disconnected (pty_shutdown s))"

subsection \<open>Events\<close>

datatype pty_event =
    PtyConnect pty_host fork_result | PtyDisconnect | PtySize int int | PtyInput "write_answer list" bytes
  | PtyReadable "read_answer list" | PtyWritable "write_answer list"

fun pty_handle :: "pty_event \<Rightarrow> pty_transport \<Rightarrow> pty_transport" where
  "pty_handle (PtyConnect H r) s = pty_connectToHost H r s"
| "pty_handle PtyDisconnect s = pty_disconnectFromHost s"
| "pty_handle (PtySize cols rows) s = pty_resize cols rows s"
| "pty_handle (PtyInput as data) s = pty_write as data s"
| "pty_handle (PtyReadable as) s = (if pty_reading s = Some True then pty_onReadable as s else s)"
| "pty_handle (PtyWritable as) s = (if pty_writing s = Some True then pty_onWritable as s else s)"


subsection \<open>The contract of a transport\<close>

lemma pty_call_faithful [simp]: "faithful (pty_call c s) = faithful s"
  by (simp add: faithful_def pty_call_def)

lemma pty_fields_faithful [simp]:
  "faithful (s\<lparr>pty_master := a\<rparr>) = faithful s" "faithful (s\<lparr>pty_pid := b\<rparr>) = faithful s"
  "faithful (s\<lparr>pty_pending := d\<rparr>) = faithful s" "faithful (s\<lparr>pty_reading := r\<rparr>) = faithful s"
  "faithful (s\<lparr>pty_writing := w\<rparr>) = faithful s" "faithful (s\<lparr>pty_cols := x\<rparr>) = faithful s"
  "faithful (s\<lparr>pty_rows := y\<rparr>) = faithful s"
  by (simp_all add: faithful_def)

lemma pty_shutdown_faithful [simp]: "faithful (pty_shutdown s) = faithful s"
  by (simp add: pty_shutdown_def Let_def split: option.split)

lemma flushPending_faithful [simp]: "faithful (flushPending as s) = faithful s"
  by (induction as s rule: flushPending.induct) (simp_all split: write_answer.split)

lemma pty_onReadable_faithful: "faithful s \<Longrightarrow> faithful (pty_onReadable as s)"
  by (induction as s rule: pty_onReadable.induct)
    (auto simp: Let_def pty_disconnectFromHost_def split: read_answer.split)

lemma pty_handle_faithful [inv_intros]: "faithful s \<Longrightarrow> faithful (pty_handle e s)"
  by (cases e) (auto simp: pty_connectToHost_def pty_disconnectFromHost_def pty_resize_def pty_write_def
      pty_onWritable_def pty_onReadable_faithful Let_def split: fork_result.split option.split)

lemma faithful_pty_initial [simp]: "faithful (pty_initial sh)"
  by (simp add: faithful_def pty_initial_def)

interpretation pty: transport_contract pty_handle "\<lambda>s. \<exists>sh. s = pty_initial sh"
  by unfold_locales (auto intro: pty_handle_faithful)

subsection \<open>Every shell is ended\<close>

fun spawned :: "pty_call list \<Rightarrow> (nat \<times> int) list" where
  "spawned [] = []"
| "spawned (PtySpawn fd pid sh home env w # cs) = (fd, pid) # spawned cs"
| "spawned (_ # cs) = spawned cs"

fun hung_up :: "pty_call list \<Rightarrow> int list" where
  "hung_up [] = []"
| "hung_up (PtyHangup pid # cs) = pid # hung_up cs"
| "hung_up (_ # cs) = hung_up cs"

fun closed_fds :: "pty_call list \<Rightarrow> nat list" where
  "closed_fds [] = []"
| "closed_fds (PtyClose fd # cs) = fd # closed_fds cs"
| "closed_fds (_ # cs) = closed_fds cs"

fun reaped :: "pty_call list \<Rightarrow> int list" where
  "reaped [] = []"
| "reaped (PtyReap pid # cs) = pid # reaped cs"
| "reaped (_ # cs) = reaped cs"

lemma calls_append [simp]:
  "spawned (cs @ ds) = spawned cs @ spawned ds" "hung_up (cs @ ds) = hung_up cs @ hung_up ds"
  "closed_fds (cs @ ds) = closed_fds cs @ closed_fds ds" "reaped (cs @ ds) = reaped cs @ reaped ds"
proof -
  show "spawned (cs @ ds) = spawned cs @ spawned ds" by (induction cs rule: spawned.induct) simp_all
  show "hung_up (cs @ ds) = hung_up cs @ hung_up ds" by (induction cs rule: hung_up.induct) simp_all
  show "closed_fds (cs @ ds) = closed_fds cs @ closed_fds ds" by (induction cs rule: closed_fds.induct) simp_all
  show "reaped (cs @ ds) = reaped cs @ reaped ds" by (induction cs rule: reaped.induct) simp_all
qed

text \<open>Every shell that was started was hung up, closed and reaped once, in this order, but for the current one.\<close>

definition current_shell :: "pty_transport \<Rightarrow> (nat \<times> int) list" where
  "current_shell s = (case pty_master s of None \<Rightarrow> [] | Some fd \<Rightarrow> [(fd, pty_pid s)])"

definition shells_ended :: "pty_transport \<Rightarrow> bool" where
  "shells_ended s \<longleftrightarrow>
     map fst (spawned (pty_calls s)) = closed_fds (pty_calls s) @ map fst (current_shell s) \<and>
     map snd (spawned (pty_calls s)) = hung_up (pty_calls s) @ map snd (current_shell s) \<and>
     map snd (spawned (pty_calls s)) = reaped (pty_calls s) @ map snd (current_shell s)"

definition pty_ok :: "pty_transport \<Rightarrow> bool" where
  "pty_ok s \<longleftrightarrow> shells_ended s \<and>
     (case pty_master s of
        None \<Rightarrow> pty_reading s = None \<and> pty_writing s = None \<and> pty_pending s = [] \<and> m_state s \<in> {Disconnected, Error}
      | Some fd \<Rightarrow>
          0 < pty_pid s \<and> pty_reading s = Some True \<and> m_state s = Connected \<and>
          (\<exists>b. pty_writing s = Some b \<and> (b \<longrightarrow> pty_pending s \<noteq> [])))"

fun pty_event_ok :: "pty_event \<Rightarrow> bool" where
  "pty_event_ok (PtyConnect H (Forked fd pid)) = (0 < pid)"
| "pty_event_ok _ = True"

lemma pty_more [simp]:
  "pty_master (setState st s) = pty_master s" "pty_pid (setState st s) = pty_pid s"
  "pty_pending (setState st s) = pty_pending s" "pty_reading (setState st s) = pty_reading s"
  "pty_writing (setState st s) = pty_writing s" "pty_calls (setState st s) = pty_calls s"
  "pty_master (emit g s) = pty_master s" "pty_pid (emit g s) = pty_pid s"
  "pty_pending (emit g s) = pty_pending s" "pty_reading (emit g s) = pty_reading s"
  "pty_writing (emit g s) = pty_writing s" "pty_calls (emit g s) = pty_calls s"
  by (simp_all add: setState_def emit_def)

lemma shells_ended_states [simp]:
  "shells_ended (setState st s) = shells_ended s" "shells_ended (emit g s) = shells_ended s"
  by (simp_all add: shells_ended_def current_shell_def split: option.split)

lemma pty_ok_emit [simp]: "pty_ok (emit g s) = pty_ok s"
  by (simp add: pty_ok_def split: option.split)

lemma pty_shutdown_ok:
  assumes "pty_ok s"
  shows "pty_ok (setState Disconnected (pty_shutdown s))" "pty_master (pty_shutdown s) = None"
  using assms
  by (auto simp: pty_ok_def shells_ended_def current_shell_def pty_shutdown_def pty_call_def Let_def split: option.splits)

lemma pty_disconnect_ok: "pty_ok s \<Longrightarrow> pty_ok (pty_disconnectFromHost s)"
  by (simp add: pty_disconnectFromHost_def pty_shutdown_ok)

lemma pty_writing_ok:
  assumes "pty_ok s" "pty_master s = Some fd" "b \<longrightarrow> pty_pending s \<noteq> []"
  shows "pty_ok (s\<lparr>pty_writing := Some b\<rparr>)"
  using assms by (auto simp: pty_ok_def shells_ended_def current_shell_def)

lemma pty_sent_ok:
  assumes "pty_ok s" "pty_master s = Some fd" "pty_writing s = Some False"
  shows "pty_ok ((pty_call (PtyWrote d) s)\<lparr>pty_pending := p\<rparr>)"
  using assms by (auto simp: pty_ok_def shells_ended_def current_shell_def pty_call_def)

lemma pty_writing_moved:
  "(pty_call c (s\<lparr>pty_writing := w\<rparr>))\<lparr>pty_pending := p\<rparr> = (pty_call c s)\<lparr>pty_pending := p, pty_writing := w\<rparr>"
  by (simp add: pty_call_def)

lemma flushPending_writing: "flushPending as (s\<lparr>pty_writing := w\<rparr>) = flushPending as s"
proof (induction as s arbitrary: w rule: flushPending.induct)
  case (2 a as s)
  then show ?case by (cases a) (simp_all add: pty_writing_moved)
qed simp

lemma flushPending_ok:
  assumes "pty_ok s" "pty_master s = Some fd"
  shows "pty_ok (flushPending as s) \<and> pty_master (flushPending as s) = Some fd"
  using assms
proof (induction as arbitrary: s)
  case Nil
  then show ?case by (simp add: pty_writing_ok)
next
  case (Cons a as)
  have off: "pty_ok (s\<lparr>pty_writing := Some False\<rparr>)" "pty_master (s\<lparr>pty_writing := Some False\<rparr>) = Some fd"
    using Cons.prems by (simp_all add: pty_writing_ok)
  have sent: "flushPending as ((pty_call (PtyWrote d) s)\<lparr>pty_pending := p\<rparr>) =
      flushPending as ((pty_call (PtyWrote d) (s\<lparr>pty_writing := Some False\<rparr>))\<lparr>pty_pending := p\<rparr>)" for d p
    unfolding pty_writing_moved flushPending_writing ..
  have "pty_ok (flushPending as ((pty_call (PtyWrote d) s)\<lparr>pty_pending := p\<rparr>)) \<and>
      pty_master (flushPending as ((pty_call (PtyWrote d) s)\<lparr>pty_pending := p\<rparr>)) = Some fd" for d p
    unfolding sent by (rule Cons.IH [OF pty_sent_ok [OF off]]) (use off in \<open>simp_all add: pty_call_def\<close>)
  then show ?case using Cons off pty_writing_ok [OF Cons.prems] by (cases a) simp_all
qed

lemma pty_onReadable_ok: "pty_ok s \<Longrightarrow> pty_ok (pty_onReadable as s)"
  by (induction as s rule: pty_onReadable.induct)
    (auto simp: Let_def pty_shutdown_ok pty_disconnect_ok split: read_answer.split)

lemma pty_handle_ok [inv_intros]:
  assumes "pty_ok s" "pty_event_ok e"
  shows "pty_ok (pty_handle e s)"
proof (cases e)
  case (PtyConnect H r)
  then show ?thesis using assms
    by (cases r) (auto simp: pty_ok_def shells_ended_def current_shell_def pty_connectToHost_def pty_call_def Let_def)
next
  case (PtySize c r)
  then show ?thesis using assms
    by (auto simp: pty_ok_def shells_ended_def current_shell_def pty_resize_def pty_call_def Let_def split: option.splits)
next
  case (PtyInput as data)
  have "pty_ok (s\<lparr>pty_pending := pty_pending s @ data\<rparr>)" if "pty_master s = Some fd" for fd
    using assms(1) that by (auto simp: pty_ok_def shells_ended_def current_shell_def)
  then show ?thesis using assms PtyInput by (cases "pty_master s") (auto simp: pty_write_def flushPending_ok)
next
  case (PtyWritable as)
  have "pty_master s \<noteq> None" if "pty_writing s = Some True"
    using assms(1) that by (auto simp: pty_ok_def split: option.splits)
  then show ?thesis using assms PtyWritable flushPending_ok [of s _ as] by (auto simp: pty_onWritable_def)
qed (use assms in \<open>auto simp: pty_disconnect_ok pty_onReadable_ok\<close>)

lemma pty_run_ok: "pty_ok s \<Longrightarrow> list_all pty_event_ok es \<Longrightarrow> pty_ok (fold pty_handle es s)"
  by (induction es arbitrary: s) (auto intro: pty_handle_ok)

lemma pty_initial_ok [simp]: "pty_ok (pty_initial sh)"
  by (simp add: pty_ok_def pty_initial_def shells_ended_def current_shell_def)


text \<open>
  C35. No local shell is leaked or used after its end: in any order of events every shell that was started is
  the current one or was hung up, closed and reaped exactly once; the pane says connected exactly while
  there is one, and only then do notifiers exist; the signals tell the state.
\<close>

theorem shells_accounted:
  assumes "list_all pty_event_ok es"
  shows "let s = fold pty_handle es (pty_initial sh)
    in shells_ended s \<and> (m_state s = Connected \<longleftrightarrow> pty_master s \<noteq> None) \<and>
       (pty_reading s \<noteq> None \<longleftrightarrow> pty_master s \<noteq> None) \<and> (pty_writing s \<noteq> None \<longleftrightarrow> pty_master s \<noteq> None) \<and>
       reported Disconnected (emitted s) = Some (m_state s)"
proof -
  let ?s = "fold pty_handle es (pty_initial sh)"
  have ok: "pty_ok ?s" using assms by (simp add: pty_run_ok)
  have "reported Disconnected (emitted ?s) = Some (m_state ?s)" by (rule pty.signals_tell_state) blast
  then show ?thesis using ok by (cases "pty_master ?s") (auto simp: pty_ok_def Let_def)
qed

subsection \<open>Input\<close>

text \<open>What the terminal took since the last shell was started.\<close>

fun taken :: "bytes \<Rightarrow> pty_call list \<Rightarrow> bytes" where
  "taken acc [] = acc"
| "taken acc (PtySpawn fd pid sh home env w # cs) = taken [] cs"
| "taken acc (PtyWrote d # cs) = taken (acc @ d) cs"
| "taken acc (_ # cs) = taken acc cs"

definition to_shell :: "pty_transport \<Rightarrow> bytes" where
  "to_shell s = taken [] (pty_calls s)"

fun typed :: "pty_event list \<Rightarrow> bytes" where
  "typed [] = []"
| "typed (PtyInput as d # es) = d @ typed es"
| "typed (_ # es) = typed es"

lemma taken_append: "taken acc (cs @ ds) = taken (taken acc cs) ds"
  by (induction acc cs rule: taken.induct) simp_all

lemma to_shell_states [simp]: "to_shell (setState st s) = to_shell s" "to_shell (emit g s) = to_shell s"
  by (simp_all add: to_shell_def)

lemma flushPending_input:
  "to_shell (flushPending as s) @ pty_pending (flushPending as s) = to_shell s @ pty_pending s \<and>
   spawned (pty_calls (flushPending as s)) = spawned (pty_calls s) \<and> pty_master (flushPending as s) = pty_master s"
proof (induction as s rule: flushPending.induct)
  case (2 a as s)
  have "to_shell ((pty_call (PtyWrote d) s)\<lparr>pty_pending := p\<rparr>) = to_shell s @ d" for d p
    by (simp add: to_shell_def pty_call_def taken_append)
  then show ?case using 2 by (cases a) (auto simp: to_shell_def pty_call_def)
qed (simp add: to_shell_def)

lemma pty_shutdown_spawned [simp]: "spawned (pty_calls (pty_shutdown s)) = spawned (pty_calls s)"
  by (simp add: pty_shutdown_def pty_call_def Let_def split: option.split)

lemma pty_shutdown_none [simp]: "pty_master (pty_shutdown s) = None"
  by (simp add: pty_shutdown_def pty_call_def Let_def split: option.split)

text \<open>One event: the shell stays, and so does the order; or it ends; or another one starts.\<close>

definition same_shell :: "bytes \<Rightarrow> pty_transport \<Rightarrow> pty_transport \<Rightarrow> bool" where
  "same_shell d s s' \<longleftrightarrow> spawned (pty_calls s') = spawned (pty_calls s) \<and>
     (pty_master s' = None \<or>
      pty_master s' = pty_master s \<and> to_shell s' @ pty_pending s' = to_shell s @ pty_pending s @ d)"

lemma pty_onReadable_same: "same_shell [] s (pty_onReadable as s)"
proof (induction as arbitrary: s)
  case (Cons a as)
  have "same_shell [] s (pty_onReadable as (emit g s))" for g
    using Cons [of "emit g s"] by (simp add: same_shell_def)
  then show ?case using Cons [of s]
    by (cases a) (simp_all add: same_shell_def Let_def pty_disconnectFromHost_def)
qed (simp add: same_shell_def)

lemma pty_handle_same:
  assumes "pty_ok s"
  shows "same_shell (typed [e]) s (pty_handle e s) \<or>
    length (spawned (pty_calls s)) < length (spawned (pty_calls (pty_handle e s)))"
proof (cases e)
  case (PtyConnect H r)
  then show ?thesis
    by (cases r) (auto simp: same_shell_def pty_connectToHost_def pty_call_def Let_def)
next
  case (PtySize c r)
  then show ?thesis
    by (auto simp: same_shell_def pty_resize_def pty_call_def Let_def to_shell_def taken_append split: option.splits)
next
  case (PtyInput as data)
  then show ?thesis using flushPending_input [of as "s\<lparr>pty_pending := pty_pending s @ data\<rparr>"]
    by (simp add: same_shell_def pty_write_def to_shell_def)
next
  case (PtyWritable as)
  then show ?thesis using flushPending_input [of as s] by (simp add: same_shell_def pty_onWritable_def)
qed (use pty_onReadable_same in \<open>auto simp: same_shell_def pty_disconnectFromHost_def\<close>)

lemma spawned_grows: "length (spawned (pty_calls s)) \<le> length (spawned (pty_calls (fold pty_handle es s)))"
proof (induction es arbitrary: s)
  case (Cons e es)
  have "length (spawned (pty_calls s)) \<le> length (spawned (pty_calls (pty_handle e s)))"
  proof (cases e)
    case (PtyConnect H r)
    then show ?thesis by (cases r) (auto simp: pty_connectToHost_def pty_call_def Let_def)
  next
    case (PtyReadable as)
    then show ?thesis using pty_onReadable_same [of s as] by (simp add: same_shell_def)
  next
    case (PtySize c r)
    then show ?thesis by (simp add: pty_resize_def pty_call_def Let_def split: option.split)
  qed (use flushPending_input in \<open>auto simp: pty_disconnectFromHost_def pty_write_def pty_onWritable_def\<close>)
  then show ?case using Cons [of "pty_handle e s"] by simp
qed simp


lemma typed_Cons: "typed (e # es) = typed [e] @ typed es"
  by (cases e) simp_all

text \<open>While terminal and kernel take input, what waits is being watched for.\<close>

fun input_healthy :: "pty_event \<Rightarrow> bool" where
  "input_healthy (PtyInput as d) = (Wrote 0 \<notin> set as \<and> WriteFailed \<notin> set as)"
| "input_healthy (PtyWritable as) = (Wrote 0 \<notin> set as \<and> WriteFailed \<notin> set as)"
| "input_healthy _ = True"

definition watched :: "pty_transport \<Rightarrow> bool" where
  "watched s \<longleftrightarrow> (pty_pending s \<noteq> [] \<longrightarrow> pty_writing s = Some True)"

lemma flushPending_watched: "Wrote 0 \<notin> set as \<Longrightarrow> WriteFailed \<notin> set as \<Longrightarrow> watched (flushPending as s)"
proof (induction as arbitrary: s)
  case (Cons a as)
  then show ?case by (cases a) (auto simp: watched_def)
qed (simp add: watched_def)

lemma pty_shutdown_watched: "watched s \<Longrightarrow> watched (pty_shutdown s)"
  by (simp add: watched_def pty_shutdown_def pty_call_def Let_def split: option.split)

lemma watched_states [simp]: "watched (setState st s) = watched s" "watched (emit g s) = watched s"
  by (simp_all add: watched_def)

lemma pty_onReadable_watched: "watched s \<Longrightarrow> watched (pty_onReadable as s)"
proof (induction as arbitrary: s)
  case (Cons a as)
  then show ?case by (cases a) (simp_all add: Let_def pty_disconnectFromHost_def pty_shutdown_watched)
qed simp

lemma pty_handle_watched:
  assumes "pty_ok s" "watched s" "input_healthy e"
  shows "watched (pty_handle e s)"
proof (cases e)
  case (PtyConnect H r)
  have "pty_pending s = []" if "pty_master s = None" using assms(1) that by (simp add: pty_ok_def)
  then show ?thesis using assms PtyConnect
    by (cases r) (auto simp: pty_connectToHost_def pty_call_def Let_def watched_def)
next
  case (PtySize c r)
  then show ?thesis using assms by (simp add: watched_def pty_resize_def pty_call_def Let_def split: option.split)
qed (use assms in \<open>auto simp: flushPending_watched pty_onReadable_watched pty_disconnectFromHost_def pty_shutdown_watched
    pty_write_def pty_onWritable_def\<close>)

lemma pty_run_same:
  assumes "pty_ok s" "list_all pty_event_ok es"
    "length (spawned (pty_calls (fold pty_handle es s))) = length (spawned (pty_calls s))"
    "pty_master (fold pty_handle es s) \<noteq> None"
  shows "pty_master s = pty_master (fold pty_handle es s) \<and>
    to_shell (fold pty_handle es s) @ pty_pending (fold pty_handle es s) = to_shell s @ pty_pending s @ typed es"
  using assms
proof (induction es arbitrary: s)
  case (Cons e es)
  let ?s = "pty_handle e s"
  have ok: "pty_ok ?s" using Cons.prems by (auto intro: pty_handle_ok)
  have "length (spawned (pty_calls ?s)) \<le> length (spawned (pty_calls s))"
    using spawned_grows [of ?s es] Cons.prems(3) by simp
  then have same: "same_shell (typed [e]) s ?s" using pty_handle_same [OF Cons.prems(1), of e] by auto
  then have "length (spawned (pty_calls ?s)) = length (spawned (pty_calls s))" by (simp add: same_shell_def)
  then have ih: "pty_master ?s = pty_master (fold pty_handle es ?s) \<and>
      to_shell (fold pty_handle es ?s) @ pty_pending (fold pty_handle es ?s) = to_shell ?s @ pty_pending ?s @ typed es"
    using Cons.IH [OF ok] Cons.prems by simp
  then show ?case using same Cons.prems(4) typed_Cons [of e es] by (auto simp: same_shell_def)
qed simp

text \<open>
  What is typed reaches the shell in order, once, without loss: in any order of events, as long as a
  shell is the current one, what its terminal took, followed by what waits, is what was typed since it was;
  and unless a write fails, what waits is sent as soon as the terminal takes more.
\<close>

theorem shell_input_in_order:
  assumes "list_all pty_event_ok es" "list_all pty_event_ok es'"
    and "s = fold pty_handle es (pty_initial sh)" "s' = fold pty_handle es' s"
    and "length (spawned (pty_calls s')) = length (spawned (pty_calls s))" "pty_master s' \<noteq> None"
  shows "to_shell s' @ pty_pending s' = to_shell s @ pty_pending s @ typed es' \<and>
    (list_all input_healthy (es @ es') \<longrightarrow> pty_pending s' \<noteq> [] \<longrightarrow> pty_writing s' = Some True)"
proof -
  have ok: "pty_ok s" using assms by (simp add: pty_run_ok)
  have "watched (fold pty_handle xs t)" if "pty_ok t" "watched t" "list_all pty_event_ok xs" "list_all input_healthy xs" for t xs
    using that by (induction xs arbitrary: t) (auto intro: pty_handle_ok pty_handle_watched)
  note step = this [of "pty_initial sh" "es @ es'"]
  have "watched s'" if "list_all input_healthy (es @ es')"
  proof -
    have "watched (pty_initial sh)" by (simp add: watched_def pty_initial_def)
    then show ?thesis using step assms(1-4) that by simp
  qed
  then show ?thesis using pty_run_same [OF ok, of es'] assms by (auto simp: watched_def)
qed

subsection \<open>Instances\<close>

definition demo_host :: pty_host where
  "demo_host = \<lparr>environ = [''TERM=vt100'', ''LANG=C''], getenv = (\<lambda>v. if v = ''HOME'' then Some ''/home/me'' else None),
     pw_shell = Some ''/bin/bash'', pw_dir = None\<rparr>"

definition demo_shell_run :: "pty_event list" where
  "demo_shell_run =
     [PtyConnect demo_host (Forked 7 1234), PtyInput [Wrote 1, WriteBlocked] [0x6C, 0x73],
      PtyReadable [Got [0x24] False, ReadBlocked], PtySize 100 40, PtyWritable [WriteInterrupted]]"

theorem shells_accounted_witness:
  "let s = fold pty_handle (demo_shell_run @ [PtyReadable [Got [0x24] True], PtyConnect demo_host (ForkFailed ''x'')])
      (pty_initial [])
   in shells_ended s \<and> m_state s = Error"
proof -
  let ?es = "demo_shell_run @ [PtyReadable [Got [0x24] True], PtyConnect demo_host (ForkFailed ''x'')]"
  have "list_all pty_event_ok ?es" by (simp add: demo_shell_run_def)
  note t = shells_accounted [OF this, of "[]"]
  have "m_state (fold pty_handle ?es (pty_initial [])) = Error"
    by (simp add: demo_shell_run_def pty_initial_def pty_connectToHost_def pty_write_def pty_resize_def pty_onWritable_def
        pty_disconnectFromHost_def pty_shutdown_def pty_call_def setState_def emit_def Let_def)
  then show ?thesis using t by (simp add: Let_def)
qed

lemma demo_shell_started: "pty_calls (fold pty_handle demo_shell_run (pty_initial [])) =
    [PtySpawn 7 1234 ''/bin/bash'' ''/home/me'' [''LANG=C'', ''TERM=xterm-256color''] (80, 24), PtyWrote [0x6C],
     PtyResize 7 (100, 40)]"
  by (simp add: demo_shell_run_def pty_initial_def pty_connectToHost_def pty_write_def pty_resize_def pty_onWritable_def
      pty_call_def setState_def emit_def Let_def resolveShell_def resolveHome_def filled_def child_env_def startsWith_def
      winsize_of_def demo_host_def)

theorem shell_input_in_order_witness:
  "let s = fold pty_handle demo_shell_run (pty_initial []);
       s' = fold pty_handle [PtyInput [] [0x0D], PtyWritable [Wrote 2]] s
   in to_shell s' @ pty_pending s' = to_shell s @ pty_pending s @ [0x0D]"
proof -
  let ?s = "fold pty_handle demo_shell_run (pty_initial [])"
  let ?s' = "fold pty_handle [PtyInput [] [0x0D], PtyWritable [Wrote 2]] ?s"
  have run: "list_all pty_event_ok demo_shell_run" "list_all pty_event_ok [PtyInput [] [0x0D], PtyWritable [Wrote 2]]"
    by (simp_all add: demo_shell_run_def)
  have m: "pty_master ?s = Some 7"
    by (simp add: demo_shell_run_def pty_initial_def pty_connectToHost_def pty_write_def pty_resize_def pty_onWritable_def
        pty_call_def setState_def emit_def Let_def)
  then have "pty_master ?s' = Some 7" "spawned (pty_calls ?s') = spawned (pty_calls ?s)"
    by (simp_all add: pty_write_def pty_onWritable_def pty_call_def)
  then show ?thesis using shell_input_in_order [OF run refl refl] by (simp add: Let_def)
qed

end
