(* ===== verification/ConPtyShell.thy ===== *)
theory ConPtyShell
  imports Transport "HOL-Library.Multiset"
begin

text \<open>
  A local shell on a Windows pseudo console: \<open>src/src/transports/conpty/ConPtyTransport.{h,cpp}\<close>.

  Handles are numbers; the handles the program has been given and has closed are kept as lists. What Windows
  answers is in the events. The reader thread posts calls to the queue of the thread of the window, which
  runs them later, in order: so what is posted outlives the shell it is about.
\<close>

subsection \<open>State\<close>

datatype posted = PostedData bytes | PostedExit

datatype console_call =
    ConCreate nat "16 word \<times> 16 word" | ConProcess nat string | ConWrite nat bytes | ConResize nat "16 word \<times> 16 word"
  | ConTerminate nat

record conpty_transport = transport +
  con_shell :: string
  con_cols :: int
  con_rows :: int
  con_console :: "nat option"
  con_inputWrite :: "nat option"
  con_outputRead :: "nat option"
  con_process :: "nat option"
  con_reader :: bool
  con_shuttingDown :: bool
  con_posted :: "posted list"
  con_calls :: "console_call list"
  con_opened :: "nat list"
  con_closed :: "nat list"

definition conpty_initial :: "string \<Rightarrow> conpty_transport" where
  "conpty_initial sh =
     \<lparr>m_state = Disconnected, emitted = [], con_shell = sh, con_cols = 80, con_rows = 24, con_console = None,
      con_inputWrite = None, con_outputRead = None, con_process = None, con_reader = False, con_shuttingDown = False,
      con_posted = [], con_calls = [], con_opened = [], con_closed = []\<rparr>"

definition con_call :: "console_call \<Rightarrow> conpty_transport \<Rightarrow> conpty_transport" where
  "con_call c s = s\<lparr>con_calls := con_calls s @ [c]\<rparr>"

definition given :: "nat list \<Rightarrow> conpty_transport \<Rightarrow> conpty_transport" where
  "given hs s = s\<lparr>con_opened := con_opened s @ hs\<rparr>"

definition closeHandles :: "nat list \<Rightarrow> conpty_transport \<Rightarrow> conpty_transport" where
  "closeHandles hs s = s\<lparr>con_closed := con_closed s @ hs\<rparr>"

definition coordFor :: "int \<Rightarrow> int \<Rightarrow> 16 word \<times> 16 word" where
  "coordFor cols rows = (of_int cols, of_int rows)"

subsection \<open>Ending\<close>

text \<open>\<open>join\<close> returns when the reader has ended; what it had read by then is posted.\<close>

definition con_shutdown :: "conpty_transport \<Rightarrow> conpty_transport" where
  "con_shutdown s =
     (let s1 = s\<lparr>con_shuttingDown := True\<rparr>;
          s2 = (case con_process s1 of None \<Rightarrow> s1
                | Some p \<Rightarrow> (closeHandles [p] (con_call (ConTerminate p) s1))\<lparr>con_process := None\<rparr>);
          s3 = (case con_console s2 of None \<Rightarrow> s2 | Some c \<Rightarrow> (closeHandles [c] s2)\<lparr>con_console := None\<rparr>);
          s4 = s3\<lparr>con_reader := False\<rparr>;
          s5 = (case con_inputWrite s4 of None \<Rightarrow> s4 | Some h \<Rightarrow> (closeHandles [h] s4)\<lparr>con_inputWrite := None\<rparr>)
      in case con_outputRead s5 of None \<Rightarrow> s5 | Some h \<Rightarrow> (closeHandles [h] s5)\<lparr>con_outputRead := None\<rparr>)"

definition con_disconnectFromHost :: "conpty_transport \<Rightarrow> conpty_transport" where
  "con_disconnectFromHost s = setState Disconnected (con_shutdown s)"

subsection \<open>Starting\<close>

text \<open>
  Whether the API is there, the two pipes (read end, write end), the console or the text of the code it failed
  with, whether it could be attached, and the process and its thread, or the number of the error.
\<close>

record console_start =
  api_available :: bool
  input_pipe :: "(nat \<times> nat) option"
  output_pipe :: "(nat \<times> nat) option"
  console_made :: "string + nat"
  console_attached :: bool
  process_made :: "string + nat \<times> nat"

definition con_fail :: "string \<Rightarrow> conpty_transport \<Rightarrow> conpty_transport" where
  "con_fail message s = setState Error (con_shutdown (emit (ErrorOccurred message) s))"

definition con_startProcess :: "console_start \<Rightarrow> conpty_transport \<Rightarrow> conpty_transport" where
  "con_startProcess W s =
     (let sh = (if con_shell s = [] then ''powershell.exe'' else con_shell s)
      in if \<not> console_attached W then con_fail ''Could not attach the pseudo-console to the shell process'' s
         else
           (case process_made W of
              Inl err \<Rightarrow> con_fail (''Could not start '' @ sh @ '' (error '' @ err @ '')'') s
            | Inr (process, thread) \<Rightarrow>
                setState Connected
                  ((closeHandles [thread] (given [process, thread] (con_call (ConProcess process sh) s)))
                    \<lparr>con_process := Some process, con_shuttingDown := False, con_reader := True\<rparr>)))"

definition con_connectToHost :: "console_start \<Rightarrow> conpty_transport \<Rightarrow> conpty_transport" where
  "con_connectToHost W s0 =
     (if con_console s0 \<noteq> None then s0
      else
        let s = setState Connecting s0
        in if \<not> api_available W then
             con_fail ''Local terminals need Windows 10 version 1809 or newer (no pseudo-console support found)'' s
           else
             (case input_pipe W of
                None \<Rightarrow> con_fail ''Could not create pipes for the local terminal'' s
              | Some (inputRead, inputWrite) \<Rightarrow>
                  (case output_pipe W of
                     None \<Rightarrow>
                       con_fail ''Could not create pipes for the local terminal''
                         (closeHandles [inputRead, inputWrite] (given [inputRead, inputWrite] s))
                   | Some (outputRead, outputWrite) \<Rightarrow>
                       let s1 = closeHandles [inputRead, outputWrite]
                                  (given [inputRead, inputWrite, outputRead, outputWrite] s)
                       in (case console_made W of
                             Inl hr \<Rightarrow>
                               con_fail (''CreatePseudoConsole failed (0x'' @ hr @ '')'')
                                 (closeHandles [inputWrite, outputRead] s1)
                           | Inr pcon \<Rightarrow>
                               con_startProcess W
                                 ((given [pcon] (con_call (ConCreate pcon (coordFor (con_cols s1) (con_rows s1))) s1))
                                   \<lparr>con_console := Some pcon, con_inputWrite := Some inputWrite,
                                    con_outputRead := Some outputRead\<rparr>)))))"

definition con_resize :: "bool \<Rightarrow> int \<Rightarrow> int \<Rightarrow> conpty_transport \<Rightarrow> conpty_transport" where
  "con_resize available cols rows s =
     (let s1 = s\<lparr>con_cols := cols, con_rows := rows\<rparr>
      in case con_console s1 of
           None \<Rightarrow> s1 | Some c \<Rightarrow> if available then con_call (ConResize c (coordFor cols rows)) s1 else s1)"

text \<open>The answers of \<open>WriteFile\<close>: how much it wrote, 0 when it failed or the list is used up.\<close>

fun con_writeLoop :: "nat \<Rightarrow> nat list \<Rightarrow> bytes \<Rightarrow> conpty_transport \<Rightarrow> conpty_transport" where
  "con_writeLoop h [] left s = s"
| "con_writeLoop h (n # ns) left s =
     (if left = [] \<or> n = 0 then s else con_writeLoop h ns (drop n left) (con_call (ConWrite h (take n left)) s))"

definition con_write :: "nat list \<Rightarrow> bytes \<Rightarrow> conpty_transport \<Rightarrow> conpty_transport" where
  "con_write ns data s = (case con_inputWrite s of None \<Rightarrow> s | Some h \<Rightarrow> con_writeLoop h ns data s)"

definition onChildExited :: "conpty_transport \<Rightarrow> conpty_transport" where
  "onChildExited s = (if con_console s = None then s else setState Disconnected (con_shutdown s))"

subsection \<open>The reader thread, and events\<close>

text \<open>The reader posts what it reads; when the pipe breaks it posts the exit unless a shutdown runs, and ends.\<close>

definition reader_data :: "bytes \<Rightarrow> conpty_transport \<Rightarrow> conpty_transport" where
  "reader_data d s = (if con_reader s then s\<lparr>con_posted := con_posted s @ [PostedData d]\<rparr> else s)"

definition reader_end :: "conpty_transport \<Rightarrow> conpty_transport" where
  "reader_end s =
     (if con_reader s
      then s\<lparr>con_reader := False, con_posted := con_posted s @ (if con_shuttingDown s then [] else [PostedExit])\<rparr>
      else s)"

definition run_posted :: "conpty_transport \<Rightarrow> conpty_transport" where
  "run_posted s =
     (case con_posted s of
        [] \<Rightarrow> s
      | p # ps \<Rightarrow>
          let s1 = s\<lparr>con_posted := ps\<rparr>
          in (case p of PostedData d \<Rightarrow> emit (ReadyRead d) s1 | PostedExit \<Rightarrow> onChildExited s1))"

datatype conpty_event =
    ConConnect console_start | ConDisconnect | ConSize bool int int | ConInput "nat list" bytes
  | ReaderData bytes | ReaderEnd | RunPosted

fun conpty_handle :: "conpty_event \<Rightarrow> conpty_transport \<Rightarrow> conpty_transport" where
  "conpty_handle (ConConnect W) s = con_connectToHost W s"
| "conpty_handle ConDisconnect s = con_disconnectFromHost s"
| "conpty_handle (ConSize a cols rows) s = con_resize a cols rows s"
| "conpty_handle (ConInput ns d) s = con_write ns d s"
| "conpty_handle (ReaderData d) s = reader_data d s"
| "conpty_handle ReaderEnd s = reader_end s"
| "conpty_handle RunPosted s = run_posted s"

lemmas con_effects = con_call_def given_def closeHandles_def

lemma con_more [simp]:
  "con_console (setState st s) = con_console s" "con_inputWrite (setState st s) = con_inputWrite s"
  "con_outputRead (setState st s) = con_outputRead s" "con_process (setState st s) = con_process s"
  "con_reader (setState st s) = con_reader s" "con_posted (setState st s) = con_posted s"
  "con_opened (setState st s) = con_opened s" "con_closed (setState st s) = con_closed s"
  "con_shuttingDown (setState st s) = con_shuttingDown s"
  "con_console (emit g s) = con_console s" "con_inputWrite (emit g s) = con_inputWrite s"
  "con_outputRead (emit g s) = con_outputRead s" "con_process (emit g s) = con_process s"
  "con_reader (emit g s) = con_reader s" "con_posted (emit g s) = con_posted s"
  "con_opened (emit g s) = con_opened s" "con_closed (emit g s) = con_closed s"
  "con_shuttingDown (emit g s) = con_shuttingDown s"
  by (simp_all add: setState_def emit_def)

lemma con_shutdown_fields [simp]:
  "con_console (con_shutdown s) = None" "con_inputWrite (con_shutdown s) = None" "con_outputRead (con_shutdown s) = None"
  "con_process (con_shutdown s) = None" "\<not> con_reader (con_shutdown s)" "con_posted (con_shutdown s) = con_posted s"
  "con_opened (con_shutdown s) = con_opened s" "m_state (con_shutdown s) = m_state s" "emitted (con_shutdown s) = emitted s"
  by (simp_all add: con_shutdown_def con_effects Let_def split: option.split)

subsection \<open>The contract of a transport\<close>

lemma con_shutdown_faithful [simp]: "faithful (con_shutdown s) = faithful s"
  by (simp add: faithful_def)

lemma con_effects_faithful [simp]:
  "faithful (con_call c s) = faithful s" "faithful (given hs s) = faithful s" "faithful (closeHandles hs s) = faithful s"
  by (simp_all add: faithful_def con_effects)

lemma con_fail_faithful [simp]: "faithful s \<Longrightarrow> faithful (con_fail m s)"
  by (simp add: con_fail_def)

lemma con_fields_faithful [simp]:
  "faithful (s\<lparr>con_console := a\<rparr>) = faithful s" "faithful (s\<lparr>con_inputWrite := b\<rparr>) = faithful s"
  "faithful (s\<lparr>con_outputRead := c\<rparr>) = faithful s" "faithful (s\<lparr>con_process := d\<rparr>) = faithful s"
  "faithful (s\<lparr>con_shuttingDown := e\<rparr>) = faithful s" "faithful (s\<lparr>con_reader := f\<rparr>) = faithful s"
  "faithful (s\<lparr>con_posted := g\<rparr>) = faithful s" "faithful (s\<lparr>con_cols := x\<rparr>) = faithful s"
  "faithful (s\<lparr>con_rows := y\<rparr>) = faithful s"
  by (simp_all add: faithful_def)

lemma con_writeLoop_faithful [simp]: "faithful (con_writeLoop h ns d s) = faithful s"
  by (induction h ns d s rule: con_writeLoop.induct) simp_all

lemma con_startProcess_faithful: "faithful s \<Longrightarrow> faithful (con_startProcess W s)"
  by (simp add: con_startProcess_def Let_def split: sum.split)

lemma conpty_handle_faithful [inv_intros]: "faithful s \<Longrightarrow> faithful (conpty_handle e s)"
proof (cases e)
  case (ConConnect W)
  then show "faithful s \<Longrightarrow> ?thesis"
    by (simp add: con_connectToHost_def con_startProcess_faithful Let_def split: option.split sum.split)
qed (auto simp: con_disconnectFromHost_def con_resize_def con_write_def reader_data_def reader_end_def run_posted_def
    onChildExited_def Let_def split: option.split list.split posted.split)

lemma faithful_conpty_initial [simp]: "faithful (conpty_initial sh)"
  by (simp add: faithful_def conpty_initial_def)

interpretation conpty: transport_contract conpty_handle "\<lambda>s. \<exists>sh. s = conpty_initial sh"
  by unfold_locales (auto intro: conpty_handle_faithful)

subsection \<open>Handles\<close>

definition held :: "conpty_transport \<Rightarrow> nat list" where
  "held s = List.map_filter id [con_console s, con_inputWrite s, con_outputRead s, con_process s]"

definition handles_accounted :: "conpty_transport \<Rightarrow> bool" where
  "handles_accounted s \<longleftrightarrow> mset (con_opened s) = mset (con_closed s) + mset (held s)"

definition conpty_ok :: "conpty_transport \<Rightarrow> bool" where
  "conpty_ok s \<longleftrightarrow> handles_accounted s \<and>
     (if con_console s = None
      then con_inputWrite s = None \<and> con_outputRead s = None \<and> con_process s = None \<and> \<not> con_reader s \<and>
           m_state s \<in> {Disconnected, Error}
      else con_inputWrite s \<noteq> None \<and> con_outputRead s \<noteq> None \<and> con_process s \<noteq> None \<and> \<not> con_shuttingDown s \<and>
           m_state s = Connected)"


lemma handles_accounted_states [simp]:
  "handles_accounted (setState st s) = handles_accounted s" "handles_accounted (emit g s) = handles_accounted s"
  by (simp_all add: handles_accounted_def held_def)

lemma shutdown_closes: "con_closed (con_shutdown s) = con_closed s @
    List.map_filter id [con_process s, con_console s, con_inputWrite s, con_outputRead s]"
  by (simp add: con_shutdown_def con_effects Let_def map_filter_simps split: option.split)

lemma shutdown_accounted: "handles_accounted s \<Longrightarrow> handles_accounted (con_shutdown s)"
  by (simp add: handles_accounted_def held_def shutdown_closes map_filter_simps add_ac split: option.split)

lemma con_shutdown_ok: "handles_accounted s \<Longrightarrow> st \<in> {Disconnected, Error} \<Longrightarrow> conpty_ok (setState st (con_shutdown s))"
  by (simp add: conpty_ok_def shutdown_accounted)

lemma con_fail_ok: "handles_accounted s \<Longrightarrow> conpty_ok (con_fail m s)"
  by (simp add: con_fail_def con_shutdown_ok)

lemma opened_and_closed:
  assumes "handles_accounted s" "mset hs = mset ks"
  shows "handles_accounted (closeHandles ks (given hs s))"
  using assms by (simp add: handles_accounted_def held_def con_effects add_ac)

lemma con_startProcess_ok:
  assumes "handles_accounted s" "con_console s = Some c" "con_inputWrite s = Some i" "con_outputRead s = Some r"
    "con_process s = None"
  shows "conpty_ok (con_startProcess W s)"
proof -
  have "conpty_ok (setState Connected ((closeHandles [th] (given [p, th] (con_call k s)))
      \<lparr>con_process := Some p, con_shuttingDown := False, con_reader := True\<rparr>))" for p th k
    using assms by (simp add: conpty_ok_def handles_accounted_def held_def con_effects map_filter_simps)
  then show ?thesis using con_fail_ok [OF assms(1)] by (simp add: con_startProcess_def Let_def split: sum.split)
qed

lemma con_connect_ok:
  assumes "conpty_ok s0"
  shows "conpty_ok (con_connectToHost W s0)"
proof (cases "con_console s0")
  case None
  have acc: "handles_accounted (setState Connecting s0)" using assms by (simp add: conpty_ok_def)
  have none: "con_inputWrite s0 = None" "con_outputRead s0 = None" "con_process s0 = None"
    using assms None by (simp_all add: conpty_ok_def)
  have made: "conpty_ok (con_startProcess W
      ((given [pcon] (con_call k (closeHandles [ir, ow] (given [ir, iw, od, ow] (setState Connecting s0)))))
        \<lparr>con_console := Some pcon, con_inputWrite := Some iw, con_outputRead := Some od\<rparr>))" for pcon k ir iw od ow
    by (rule con_startProcess_ok) (use acc none None in
      \<open>simp_all add: handles_accounted_def held_def con_effects map_filter_simps add_ac\<close>)
  have pipes: "handles_accounted (closeHandles [iw, od] (closeHandles [ir, ow] (given [ir, iw, od, ow] (setState Connecting s0))))"
    for ir iw od ow using acc by (simp add: handles_accounted_def held_def con_effects add_ac)
  show ?thesis using None acc made pipes opened_and_closed [OF acc]
    by (simp add: con_connectToHost_def Let_def con_fail_ok split: option.split sum.split)
qed (use assms in \<open>simp add: con_connectToHost_def\<close>)

lemma con_writeLoop_fields [simp]:
  "con_console (con_writeLoop h ns d s) = con_console s" "con_inputWrite (con_writeLoop h ns d s) = con_inputWrite s"
  "con_outputRead (con_writeLoop h ns d s) = con_outputRead s" "con_process (con_writeLoop h ns d s) = con_process s"
  "con_reader (con_writeLoop h ns d s) = con_reader s" "con_shuttingDown (con_writeLoop h ns d s) = con_shuttingDown s"
  "con_opened (con_writeLoop h ns d s) = con_opened s" "con_closed (con_writeLoop h ns d s) = con_closed s"
  "m_state (con_writeLoop h ns d s) = m_state s"
  by (induction h ns d s rule: con_writeLoop.induct) (simp_all add: con_call_def)

lemma conpty_ok_emit [simp]: "conpty_ok (emit g s) = conpty_ok s"
  by (simp add: conpty_ok_def)

lemma onChildExited_ok: "conpty_ok s \<Longrightarrow> conpty_ok (onChildExited s)"
  by (cases "con_console s") (simp_all add: onChildExited_def con_shutdown_ok, simp add: conpty_ok_def con_shutdown_ok shutdown_accounted)

lemma conpty_handle_ok [inv_intros]:
  assumes "conpty_ok s"
  shows "conpty_ok (conpty_handle e s)"
proof (cases e)
  case (ConConnect W)
  then show ?thesis using assms con_connect_ok by simp
next
  case ConDisconnect
  have "handles_accounted s" using assms by (simp add: conpty_ok_def)
  then show ?thesis using ConDisconnect by (simp add: con_disconnectFromHost_def con_shutdown_ok)
next
  case RunPosted
  have "conpty_ok (s\<lparr>con_posted := ps\<rparr>)" for ps
    using assms by (auto simp: conpty_ok_def handles_accounted_def held_def split: if_splits)
  then have "conpty_ok (emit g (s\<lparr>con_posted := ps\<rparr>))" "conpty_ok (onChildExited (s\<lparr>con_posted := ps\<rparr>))" for ps g
    by (simp_all add: onChildExited_ok)
  then show ?thesis using RunPosted assms by (simp add: run_posted_def Let_def split: list.split posted.split)
qed (use assms in \<open>auto simp: conpty_ok_def handles_accounted_def held_def con_resize_def con_write_def reader_data_def
      reader_end_def con_call_def Let_def split: option.split if_splits\<close>)

lemma conpty_run_ok: "conpty_ok s \<Longrightarrow> conpty_ok (fold conpty_handle es s)"
  by (induction es arbitrary: s) (auto intro: conpty_handle_ok)

lemma conpty_initial_ok: "conpty_ok (conpty_initial sh)"
  by (simp add: conpty_ok_def conpty_initial_def handles_accounted_def held_def map_filter_simps)

text \<open>
  C36. Every handle Windows gave is held or was closed exactly once, in any order of events and at whatever step
  a start fails; and a pane that is connected holds its console, both pipes and its process.
\<close>

theorem console_handles_accounted:
  "let s = fold conpty_handle es (conpty_initial sh)
   in mset (con_opened s) = mset (con_closed s) + mset (held s) \<and>
      (m_state s = Connected \<longleftrightarrow> length (held s) = 4) \<and> (m_state s \<noteq> Connected \<longleftrightarrow> held s = [])"
proof -
  let ?s = "fold conpty_handle es (conpty_initial sh)"
  have ok: "conpty_ok ?s" by (rule conpty_run_ok [OF conpty_initial_ok])
  then show ?thesis
    by (cases "con_console ?s")
      (auto simp: conpty_ok_def handles_accounted_def held_def map_filter_simps Let_def)
qed

text \<open>
  An exit that was posted for one shell ends the next one: when the shell of a pane exits and the pane is
  disconnected and connected again before the call that reports the exit runs, that call closes the
  new shell.
\<close>

theorem stale_exit_ends_new_shell:
  assumes "conpty_ok s" "m_state s = Connected" "con_reader s" "con_posted s = []"
    and "api_available W" "input_pipe W = Some (ir, iw)" "output_pipe W = Some (or0, ow)" "console_made W = Inr c"
    "console_attached W" "process_made W = Inr (p, th)"
  shows "let s1 = fold conpty_handle [ReaderEnd, ConDisconnect, ConConnect W] s; s2 = conpty_handle RunPosted s1
    in m_state s1 = Connected \<and> con_process s1 = Some p \<and> con_reader s1 \<and>
       m_state s2 = Disconnected \<and> ConTerminate p \<in> set (con_calls s2)"
proof -
  have live: "con_console s \<noteq> None" "\<not> con_shuttingDown s"
    using assms(1,2) by (auto simp: conpty_ok_def split: if_splits)
  let ?t = "con_disconnectFromHost (reader_end s)"
  have t: "con_console ?t = None" "con_posted ?t = [PostedExit]"
    using assms(3,4) live by (simp_all add: con_disconnectFromHost_def reader_end_def)
  let ?s1 = "con_connectToHost W ?t"
  have s1: "m_state ?s1 = Connected" "con_process ?s1 = Some p" "con_reader ?s1" "con_posted ?s1 = [PostedExit]"
    "con_console ?s1 = Some c"
    using assms(5-) t by (simp_all add: con_connectToHost_def con_startProcess_def con_effects Let_def)
  have "ConTerminate p \<in> set (con_calls (setState st (con_shutdown (?s1\<lparr>con_posted := ps\<rparr>))))" for ps st
    using s1 by (simp add: con_shutdown_def con_effects Let_def setState_def emit_def split: option.split)
  then show ?thesis using s1 by (simp add: run_posted_def onChildExited_def Let_def)
qed

definition demo_console :: "nat \<Rightarrow> console_start" where
  "demo_console n =
     \<lparr>api_available = True, input_pipe = Some (n, n + 1), output_pipe = Some (n + 2, n + 3), console_made = Inr (n + 4),
      console_attached = True, process_made = Inr (n + 5, n + 6)\<rparr>"

theorem stale_exit_ends_new_shell_witness:
  "let s1 = fold conpty_handle [ConConnect (demo_console 1), ReaderEnd, ConDisconnect, ConConnect (demo_console 11)]
      (conpty_initial []); s2 = conpty_handle RunPosted s1
   in m_state s1 = Connected \<and> m_state s2 = Disconnected"
proof -
  let ?s = "conpty_handle (ConConnect (demo_console 1)) (conpty_initial [])"
  have "conpty_ok ?s" by (rule conpty_handle_ok [OF conpty_initial_ok])
  moreover have "m_state ?s = Connected" "con_reader ?s" "con_posted ?s = []"
    by (simp_all add: conpty_initial_def demo_console_def con_connectToHost_def con_startProcess_def con_effects Let_def)
  ultimately show ?thesis
    using stale_exit_ends_new_shell [of ?s "demo_console 11" 11 12 13 14 15 16 17] by (simp add: demo_console_def Let_def)
qed

end
