(* ===== verification/Spec2Isabelle.thy ===== *)
theory Spec2Isabelle
  imports Transport Telnet Reconnect HexDump VncTransport Crypto Profiles ProfileStore SessionStore
    Connections PaneEvents PaneSession X11 SshProps SftpProps SftpMirror SftpTree SftpDockProps
    ShortcutsPage Editor PtyShell ConPtyShell
begin

text \<open>
  lvdTerm, a tabbed terminal: a model of the logic that is its own, the C++ under \<open>src/src\<close>. The
  terminal emulation, Qt and the protocol libraries are used by that code and are not part of it.

  \<^bold>\<open>The program.\<close> A window holds tabs, a tab holds a tree of panes, a pane (\<open>TerminalView\<close>) shows one
  connection through a \<open>Transport\<close>: serial, raw TCP, telnet, SSH, local shell, VNC or RDP. A pane
  reconnects its transport when the link drops and logs what arrives; it shows the bytes in a
  terminal, in the hex viewer, or, for VNC, the framebuffer of the RFB client. Saved connections
  (\<open>ConnectionProfile\<close>) live in a store with folders, the layout of tabs and panes in another file;
  both seal their secrets with the key of the desktop's keyring. Opening a profile builds a transport
  and a pane, splitting and dragging rearrange the tree, leaving saves it.

  \<^bold>\<open>The theories.\<close> A C++ class is a record of its members, an enum a datatype, a slot or method a
  function from the state (and what Qt passes) to the new state; what it emits or sends is appended
  to a log in that state. A \<open>QByteArray\<close> is a list of 8-bit words, a \<open>QString\<close> a list of characters, an
  \<open>int\<close> an integer with its bounds stated where they matter, a fixed-width integer a word.
  \<open>None\<close> as the result of an operation stands for undefined behaviour: a read out of bounds, a
  dangling pointer, an overflowing \<open>int\<close>, a null socket.

  \<^item> \<open>Prelude\<close>: bytes, big-endian accessors, counted loops that may be undefined.
  \<^item> \<open>Transport\<close> (\<open>core/Transport.h\<close>, \<open>transports/{loopback,raw,serial}\<close>): the signals, the locale
    \<open>transport_contract\<close> (a signal tells the state, a state change is reported once), interpreted on
    every transport here and on telnet, SSH, VNC and the local shells.
  \<^item> \<open>PtyShell\<close>, \<open>ConPtyShell\<close> (\<open>transports/{pty,conpty}\<close>): local shells on POSIX and on Windows.
  \<^item> \<open>Telnet\<close> (\<open>transports/telnet/TelnetTransport\<close>): the byte parser, option negotiation, window size.
  \<^item> \<open>X11\<close> (\<open>transports/ssh/X11Forwarder\<close>): the rewriting of a remote client's setup packet and the pump
    between its channel and the local X server.
  \<^item> \<open>Ssh\<close> (\<open>transports/ssh/{SshConnectHelper,SshWorker,SshTransport}\<close>): socket, host key, authentication,
    the worker's handlers, the pane's side; \<open>SshProps\<close>: properties of whole starts, and instances.
  \<^item> \<open>Sftp\<close> (\<open>sftp/{SftpClient,SftpSession}\<close>): the client's operations and the queue of its thread;
    \<open>SftpProps\<close>: how requests end and what they touch; \<open>SftpMirror\<close>: transfers with a server that works.
  \<^item> \<open>SftpTree\<close> (\<open>sftp/SftpModel\<close>): the tree of remote files with its path cache and item model;
    \<open>SftpDock\<close>, \<open>SftpDockProps\<close> (\<open>ui/SftpDock.cpp\<close>): the dock's sessions, navigation and commands.
  \<^item> \<open>Editor\<close> (\<open>ui/SftpFileEditor\<close>): the editor of one remote file, from its download to its close.
  \<^item> \<open>AppSettings\<close> (\<open>core/AppSettings\<close>): the settings over the ini file, refining a record of values;
    \<open>Shortcuts\<close> (\<open>core/ShortcutManager\<close>), \<open>ShortcutsPage\<close> (\<open>ui/ShortcutsPage.cpp\<close>): keys, own shortcuts and
    the text they type, kept in the same file, and the page that changes them.
  \<^item> \<open>Reconnect\<close> (\<open>terminal/TerminalView\<close>, \<open>core/ReconnectPolicy.h\<close>, \<open>terminal/PaneDropZone.h\<close>): the
    reconnection state machine of a pane as a step relation, the session log, the drop zones.
  \<^item> \<open>HexDump\<close> (\<open>terminal/HexDumpWidget\<close>): incremental formatting and trimming.
  \<^item> \<open>VncTypes\<close>, \<open>VncDecode\<close>, \<open>VncClient\<close> (\<open>transports/vnc/VncClient\<close>): state, rectangle decoders, protocol
    steps and receive loop; \<open>VncSafety\<close>, \<open>VncTiles\<close>, \<open>VncDecoding\<close>, \<open>VncRun\<close>: the contract every decoder
    meets and the client's invariant; \<open>VncProps\<close>: the properties; \<open>VncTransport\<close>: the pane's transport.
  \<^item> \<open>Crypto\<close> (\<open>core/Crypto.cpp\<close>): the key, sealing and opening; the locale \<open>vault\<close> is what users of a
    secret rely on, interpreted on the keyring half and on the DPAPI half.
  \<^item> \<open>ConnSettings\<close>, \<open>Profiles\<close> (\<open>core/ConnectionProfile\<close> and the settings headers): the settings and
    their JSON form; the round trip is proved inside \<open>vault\<close>.
  \<^item> \<open>ProfileStore\<close> (\<open>core/ProfileStore\<close>), \<open>SessionStore\<close> (\<open>core/SessionStore\<close>): the two files.
  \<^item> \<open>Connections\<close> (\<open>app/MainWindow.cpp\<close>, \<open>ui/SshCredentialDialog.cpp\<close>): dialogs and profiles to panes.
  \<^item> \<open>Panes\<close> (\<open>app/MainWindow.cpp\<close>): the pane tree, its operations, capture and restore; \<open>PaneTrees\<close>,
    \<open>PaneWindow\<close>: what they keep; \<open>PaneEvents\<close>, \<open>PaneSession\<close>: the properties. This theory composes
    session store, window and secret store.

  \<^bold>\<open>What is shown.\<close> VNC: any bytes in any pieces are handled within bounds and in finitely many steps,
  a screen never shows half an update, raw rectangles are exact, and four inputs break an assumption
  of the code. Telnet: chunking does not matter, data and subnegotiations survive the wire, requests
  are answered as the table says. SSH: a start ends connected or with everything released, no credential
  leaves before the host key is trusted, no handle leaks or is used after it is gone, typed data keeps
  its order; X11 forwarding only admits clients with the cookie and passes their bytes on exactly, up to
  those that arrive with the end of a channel. SFTP: every request is answered once, stays in its scope and
  cleans up after a failure, a tree of directories is copied exactly, but a listing that breaks off counts as
  complete; the file tree's cache never dangles, the dock accounts for every session; an unchanged file
  is saved as it was, but what is typed during a save is not. Settings and shortcuts: what is read after
  any changes and restarts is what was last set, and no two commands of a window ever share a key. Local
  shells: every shell and every handle is released once, typed data keeps its order.
  Panes: a way back is always on offer, no timer replaces a running attempt, but the delay never grows; the log and the hex view are functions of the bytes received.
  Stores: what is saved is read back, secrets included, after any operations, and the cases in which
  secrets are lost or saved against the promise. Window: its tree stays well formed and no session is
  lost or doubled under every user action, except for the answers to a picker that has lost its split.

  \<^bold>\<open>Bounds and fuel.\<close> The receive loop runs on \<open>drain_fuel\<close>, twice the bytes available and two: a step
  consumes a byte or leaves the rectangle header once per byte (\<open>progress\<close> in \<open>VncRun\<close>). The tile loop
  runs on \<open>hextile_fuel\<close>, the number of tiles, and a ZRLE run on the pixels of its tile; lemmas show
  that neither runs out. The loops of the SFTP client end when the server or the disk ends them: they are
  partial functions whose result \<open>None\<close> is that they run for ever, and the properties on copies show that they
  return with a server that works. The only bounds assumed of a server are that a ZRLE chunk inflates to less
  than 8,400,000 bytes and a Tight rectangle stays below \<open>2 ^ 31\<close> bytes; the theorems on run length and
  desktop size show what happens otherwise.

  \<^bold>\<open>Parameters.\<close> zlib, stb_image, DES, UTF-8, Base64 and UUID text, the keyring, the random generator,
  AES-GCM and DPAPI, the answers of system calls, libssh2 and sockets (a list per call, with the channels the
  server opens meanwhile), libssh2's file of known hosts (\<open>hosts_lib\<close>), the remote and local file systems
  (\<open>sftp_env\<close> over a world, a working server is \<open>serves\<close> and \<open>stores\<close>), the ini format of \<open>QSettings\<close>, the
  text of keys, colours and text documents, the answers of dialogs, and locale-aware comparison are
  arguments. Their laws are hypotheses (\<open>qtlib_ok\<close>, \<open>engine_ok\<close>, \<open>jpeg_ok\<close>, \<open>serves\<close>, \<open>stores\<close>,
  \<open>settings_lib_ok\<close>, \<open>key_lib_ok\<close>, \<open>ed_lib_ok\<close>), each with an instance that meets them.
  A file is the JSON document it holds.

  \<^bold>\<open>Not modelled.\<close> RDP (callbacks of FreeRDP), the SFTP dock's drag to the desktop, the file editor's find
  bar, the vendored emulation, painting, layouts, menus, icons, sizes and focus of Qt widgets, allocation
  failure, buffers of \<open>2 ^ 31\<close> bytes and more, events handled while a dialog of VNC is shown (but for
  the one theorem on a hang-up), and the pickers of a tab that moved to another window.
\<close>

section \<open>Across components: leaving and starting again\<close>










end
